(* ===== verification/Nuc_Prelude.thy ===== *)
theory Nuc_Prelude
  imports Main "HOL-Library.Word" "HOL-Library.State_Monad"
begin

text \<open>
  Shared vocabulary of the development: the machine integers of the C sources, the error codes
  the drivers return, the state monad the stateful functions are written in, and the generic
  facts on words, lists and monadic loops that the component theories use.

  The C type \<open>unsigned char\<close> is \<open>u8\<close>, \<open>unsigned short\<close> is \<open>u16\<close>, and \<open>unsigned int\<close>,
  \<open>unsigned long\<close> and every pointer are \<open>u32\<close> (the target is a 32 bit ARM926).  A C function
  that returns 0 or a negative error number returns \<open>errno + 'a\<close>, with \<open>Inl\<close> for the error.
\<close>

unbundle bit_operations_syntax

section \<open>Machine types and error values\<close>

type_synonym u8 = "8 word"
type_synonym u16 = "16 word"
type_synonym u32 = "32 word"

datatype errno =
    EINVAL | EBUSY | EAGAIN | ERESTARTSYS | EFAULT | EIO | ENOMEM | ENODEV | ENXIO
  | ETIMEDOUT | ENOENT | EREMOTEIO | EPERM | ECONNREFUSED
  | EBADMSG | EOPNOTSUPP | EINTR | ENETDOWN | EINPROGRESS

text \<open>The error numbers, where a driver mixes them with counts in one variable.\<close>

fun eno :: "errno \<Rightarrow> int" where
  "eno EPERM = 1" | "eno ENOENT = 2" | "eno EIO = 5" | "eno ENXIO = 6" | "eno EAGAIN = 11" | "eno ENOMEM = 12"
| "eno EFAULT = 14" | "eno EBUSY = 16" | "eno ENODEV = 19" | "eno EINVAL = 22" | "eno ETIMEDOUT = 110"
| "eno ECONNREFUSED = 111" | "eno EREMOTEIO = 121" | "eno ERESTARTSYS = 512"
| "eno EBADMSG = 74" | "eno EOPNOTSUPP = 95" | "eno EINTR = 4"
| "eno ENETDOWN = 100" | "eno EINPROGRESS = 115"

lemma eno_pos: "0 < eno e"
  by (cases e) simp_all

type_synonym 'a result = "errno + 'a"

section \<open>Proof collections\<close>

text \<open>\<open>run_simps\<close> unfolds one step of a driver routine over the register file;
  \<open>reg_simps\<close> evaluates register addresses; \<open>bit_simps\<close> are the facts on single bits.\<close>

named_theorems run_simps "one step of a routine over the register file"
named_theorems reg_simps "register addresses"
named_theorems bit_simps "set, clear and test of one bit"

section \<open>The state monad\<close>

abbreviation return :: "'a \<Rightarrow> ('s, 'a) state" where
  "return \<equiv> State_Monad.return"

text \<open>The state after a routine, and the value it returns.\<close>

definition exec :: "('s, 'a) state \<Rightarrow> 's \<Rightarrow> 's" where
  "exec m s = snd (run_state m s)"

definition result_of :: "('s, 'a) state \<Rightarrow> 's \<Rightarrow> 'a" where
  "result_of m s = fst (run_state m s)"

lemma run_state_eq: "run_state m s = (result_of m s, exec m s)"
  by (simp add: exec_def result_of_def)

lemma exec_return [simp]: "exec (return x) s = s"
  and result_return [simp]: "result_of (return x) s = x"
  by (simp_all add: exec_def result_of_def)

lemma exec_bind [simp]:
    "exec (State_Monad.bind m f) s = exec (f (result_of m s)) (exec m s)"
  and result_bind [simp]:
    "result_of (State_Monad.bind m f) s = result_of (f (result_of m s)) (exec m s)"
  by (simp_all add: exec_def result_of_def split_beta)

lemma exec_get [simp]: "exec State_Monad.get s = s"
  and result_get [simp]: "result_of State_Monad.get s = s"
  by (simp_all add: exec_def result_of_def)

lemma exec_set [simp]: "exec (State_Monad.set t) s = t"
  and result_set [simp]: "result_of (State_Monad.set t) s = ()"
  by (simp_all add: exec_def result_of_def)

lemma exec_State [simp]: "exec (State f) s = snd (f s)"
  and result_State [simp]: "result_of (State f) s = fst (f s)"
  by (simp_all add: exec_def result_of_def)

lemma exec_if [simp]: "exec (if b then m else n) s = (if b then exec m s else exec n s)"
  and result_if [simp]:
    "result_of (if b then m else n) s = (if b then result_of m s else result_of n s)"
  by simp_all

lemma exec_Let [simp]: "exec (Let e f) s = exec (f e) s"
  and result_Let [simp]: "result_of (Let e f) s = result_of (f e) s"
  by (simp_all add: Let_def)

text \<open>Reading and updating one component of the state.\<close>

definition gets :: "('s \<Rightarrow> 'a) \<Rightarrow> ('s, 'a) state" where
  "gets f = State (\<lambda>s. (f s, s))"

definition modify :: "('s \<Rightarrow> 's) \<Rightarrow> ('s, unit) state" where
  "modify f = State (\<lambda>s. ((), f s))"

lemma exec_gets [simp]: "exec (gets f) s = s"
  and result_gets [simp]: "result_of (gets f) s = f s"
  by (simp_all add: gets_def)

lemma exec_modify [simp]: "exec (modify f) s = f s"
  and result_modify [simp]: "result_of (modify f) s = ()"
  by (simp_all add: modify_def)

text \<open>A routine keeps a predicate when its final state satisfies it whenever the first does.\<close>

definition keeps :: "('s \<Rightarrow> bool) \<Rightarrow> ('s, 'a) state \<Rightarrow> bool" where
  "keeps P m \<longleftrightarrow> (\<forall>s. P s \<longrightarrow> P (exec m s))"

lemma keepsI [intro?]: "(\<And>s. P s \<Longrightarrow> P (exec m s)) \<Longrightarrow> keeps P m"
  by (simp add: keeps_def)

lemma keepsD: "keeps P m \<Longrightarrow> P s \<Longrightarrow> P (exec m s)"
  by (simp add: keeps_def)

lemma keeps_return [intro, simp]: "keeps P (return x)"
  by (simp add: keeps_def)

lemma keeps_bind [intro]:
  "keeps P m \<Longrightarrow> (\<And>x. keeps P (f x)) \<Longrightarrow> keeps P (State_Monad.bind m f)"
  by (simp add: keeps_def)

lemma keeps_if [intro]: "keeps P m \<Longrightarrow> keeps P n \<Longrightarrow> keeps P (if b then m else n)"
  by simp

section \<open>Single bits of a word\<close>

text \<open>\<open>BIT n\<close> is the C expression \<open>1 << n\<close>.\<close>

definition BIT :: "nat \<Rightarrow> 'a::len word" where
  "BIT n = push_bit n 1"

lemma bit_BIT [bit_simps]: "bit (BIT n :: 'a::len word) m \<longleftrightarrow> m = n \<and> n < LENGTH('a)"
  by (auto simp: BIT_def bit_push_bit_iff bit_1_iff simp del: push_bit_of_1)

lemma bit_set_BIT [bit_simps]:
  "n < LENGTH('a) \<Longrightarrow> bit (v OR BIT n :: 'a::len word) m \<longleftrightarrow> bit v m \<or> m = n"
  by (auto simp: bit_or_iff bit_BIT)

lemma bit_clear_BIT [bit_simps]:
  "bit (v AND NOT (BIT n) :: 'a::len word) m \<longleftrightarrow> bit v m \<and> m \<noteq> n"
  by (auto simp: bit_and_iff bit_not_iff bit_BIT dest: bit_imp_le_length)

lemma and_BIT: "(v AND BIT n :: 'a::len word) = (if bit v n then BIT n else 0)"
  by (rule bit_word_eqI) (auto simp: bit_and_iff bit_BIT)

lemma and_BIT_eq_0 [bit_simps]: "(v AND BIT n :: 'a::len word) = 0 \<longleftrightarrow> \<not> bit v n"
  using bit_BIT[of n n, where 'a = 'a] by (auto simp: and_BIT dest: bit_imp_le_length)

lemma drop_bit_and_1 [bit_simps]: "drop_bit n v AND 1 = (of_bool (bit v n) :: 'a::len word)"
  by (simp add: and_one_eq bit_iff_odd_drop_bit odd_iff_mod_2_eq_one)

lemma and_1_eq_0 [bit_simps]: "(v AND 1 :: 'a::len word) = 0 \<longleftrightarrow> \<not> bit v 0"
  using and_BIT_eq_0[of v 0] by (simp add: BIT_def)

lemma BIT_eq_0 [bit_simps]: "(BIT n :: 'a::len word) = 0 \<longleftrightarrow> LENGTH('a) \<le> n"
  using bit_BIT[of n n, where 'a = 'a] by (auto simp: BIT_def)

lemma word_eqI_bits:
  "(\<And>n. n < LENGTH('a) \<Longrightarrow> bit v n = bit w n) \<Longrightarrow> v = (w :: 'a::len word)"
  by (rule bit_word_eqI)

section \<open>Bytes and bit lists\<close>

text \<open>The bits of a byte, most significant first: the order every serial line of the board uses.\<close>

definition bits_msb :: "u8 \<Rightarrow> bool list" where
  "bits_msb b = map (bit b) [7, 6, 5, 4, 3, 2, 1, 0]"

text \<open>Shifting bits in from the right, as a receiver does.\<close>

fun shift_in :: "u8 \<Rightarrow> bool list \<Rightarrow> u8" where
  "shift_in v [] = v"
| "shift_in v (b # bs) = shift_in (push_bit 1 v OR of_bool b) bs"

definition byte_of_msb :: "bool list \<Rightarrow> u8" where
  "byte_of_msb bs = shift_in 0 bs"

lemma length_bits_msb [simp]: "length (bits_msb b) = 8"
  by (simp add: bits_msb_def)

lemma lt8_cases: "n < 8 \<longleftrightarrow> n \<in> {0, 1, 2, 3, 4, 5, 6, 7::nat}"
  by auto

lemma bit_shift_in_step:
  "bit (push_bit 1 v OR of_bool b :: u8) n \<longleftrightarrow> n < 8 \<and> (if n = 0 then b else bit v (n - 1))"
  unfolding bit_or_iff bit_push_bit_iff by (cases n) (auto simp: bit_1_iff)

lemma byte_of_bits_msb [simp]: "byte_of_msb (bits_msb b) = b"
proof (rule bit_word_eqI)
  fix n assume "n < LENGTH(8)"
  then have "n \<in> {0, 1, 2, 3, 4, 5, 6, 7}" by (simp add: lt8_cases)
  then show "bit (byte_of_msb (bits_msb b)) n = bit b n"
    unfolding byte_of_msb_def bits_msb_def list.map shift_in.simps bit_shift_in_step
    by (elim insertE emptyE) simp_all
qed

lemma bits_msb_inject [simp]: "bits_msb a = bits_msb b \<longleftrightarrow> a = b"
  by (metis byte_of_bits_msb)

text \<open>Cutting a bit stream into bytes: what a serial receiver makes of its samples.\<close>

fun bytes_of_stream :: "bool list \<Rightarrow> u8 list" where
  "bytes_of_stream bs =
     (if length bs < 8 then [] else byte_of_msb (take 8 bs) # bytes_of_stream (drop 8 bs))"

declare bytes_of_stream.simps [simp del]

lemma bytes_of_stream_byte [simp]:
  "bytes_of_stream (bits_msb b @ rest) = b # bytes_of_stream rest"
  by (subst bytes_of_stream.simps) simp

lemma bytes_of_stream_concat [simp]:
  "bytes_of_stream (concat (map bits_msb bs)) = bs"
  by (induction bs) (simp_all add: bytes_of_stream.simps[of "[]"])

section \<open>Printing numbers\<close>

text \<open>The conversions \<open>%d\<close> and \<open>%lu\<close> of \<open>sprintf\<close> on non-negative numbers.\<close>

definition digit :: "nat \<Rightarrow> char" where
  "digit d = ''0123456789abcdef'' ! d"

fun show_dec :: "nat \<Rightarrow> string" where
  "show_dec n = (if n < 10 then [digit n] else show_dec (n div 10) @ [digit (n mod 10)])"

declare show_dec.simps [simp del]

text \<open>\<open>%2x\<close> on a byte: at least two places, padded with a blank.\<close>

definition show_hex2 :: "u8 \<Rightarrow> string" where
  "show_hex2 b = (let n = unat b in
     if n < 16 then [CHR '' '', digit n] else [digit (n div 16), digit (n mod 16)])"

text \<open>What a \<open>read_proc\<close> function returns of its text: the part from the offset on, at most
  \<open>count\<close> characters, and whether the end was reached.\<close>

definition proc_window :: "string \<Rightarrow> nat \<Rightarrow> nat \<Rightarrow> bool \<times> string" where
  "proc_window text off count = (length text \<le> off + count,
     take (let len = length text - off in if count < len then count else len) (drop off text))"

lemma proc_window_eof:
  assumes "proc_window text off count = (True, out)"
  shows "take off text @ out = text"
  using assms by (auto simp: proc_window_def Let_def split: if_splits)

end
