(* ===== verification/Nuc_Hw.thy ===== *)
theory Nuc_Hw
  imports Nuc_Prelude
begin

text \<open>
  The register file the drivers work on.  A state holds the last value written to every
  memory mapped register, the values the outside world shows on the input registers (one
  function per read, so that two successive reads of a pin may differ), the sequence of all
  register writes in program order, and a sticky flag raised by an access through a null
  pointer.  The write sequence is the waveform the board sees; the serial drivers are judged
  by what a device that samples that waveform receives.

  Register addresses are the virtual addresses of \<open>mach/map.h\<close> and \<open>mach/regs-*.h\<close>.
\<close>

section \<open>Register addresses\<close>

definition NUC970_ADDR :: "u32 \<Rightarrow> u32" where
  "NUC970_ADDR x = 0xF0000000 + x"

definition GPIO_BA :: u32 where "GPIO_BA = NUC970_ADDR 0x08003000"
definition GCR_BA :: u32 where "GCR_BA = NUC970_ADDR 0x08002000"
definition AIC_BA :: u32 where "AIC_BA = NUC970_ADDR 0x00000000"
definition TMR_BA :: u32 where "TMR_BA = NUC970_ADDR 0x08001000"

text \<open>Ports A to J have one block of twelve registers each, 0x40 bytes apart:
  \<open>REG_GPIO<p>_<r>\<close> is \<open>gpio_reg p r\<close>.\<close>

definition gpio_reg :: "nat \<Rightarrow> u32 \<Rightarrow> u32" where
  "gpio_reg p off = GPIO_BA + 0x40 * of_nat p + off"

abbreviation (input) DIR :: u32 where "DIR \<equiv> 0x00"
abbreviation (input) DATAOUT :: u32 where "DATAOUT \<equiv> 0x04"
abbreviation (input) DATAIN :: u32 where "DATAIN \<equiv> 0x08"
abbreviation (input) IMD :: u32 where "IMD \<equiv> 0x0C"
abbreviation (input) IREN :: u32 where "IREN \<equiv> 0x10"
abbreviation (input) IFEN :: u32 where "IFEN \<equiv> 0x14"
abbreviation (input) ISR :: u32 where "ISR \<equiv> 0x18"

definition REG_GPIO_ISR :: u32 where "REG_GPIO_ISR = GPIO_BA + 0x3FC"
definition REG_GPIOB_DATAOUT :: u32 where "REG_GPIOB_DATAOUT = GPIO_BA + 0x044"
definition REG_GPIOD_DATAOUT :: u32 where "REG_GPIOD_DATAOUT = GPIO_BA + 0x0C4"
definition REG_GPIOG_DATAOUT :: u32 where "REG_GPIOG_DATAOUT = GPIO_BA + 0x184"
definition REG_GPIOI_DATAOUT :: u32 where "REG_GPIOI_DATAOUT = GPIO_BA + 0x204"

definition REG_WKUPSER :: u32 where "REG_WKUPSER = GCR_BA + 0x058"
definition REG_MFP_GPA_L :: u32 where "REG_MFP_GPA_L = GCR_BA + 0x070"
definition REG_MFP_GPF_H :: u32 where "REG_MFP_GPF_H = GCR_BA + 0x09C"
definition REG_MFP_GPG_H :: u32 where "REG_MFP_GPG_H = GCR_BA + 0x0A4"
definition REG_MFP_GPH_L :: u32 where "REG_MFP_GPH_L = GCR_BA + 0x0A8"
definition REG_MFP_GPI_L :: u32 where "REG_MFP_GPI_L = GCR_BA + 0x0B0"

definition REG_AIC_MECR :: u32 where "REG_AIC_MECR = AIC_BA + 0x130"
definition REG_AIC_MECRH :: u32 where "REG_AIC_MECRH = AIC_BA + 0x134"
definition REG_AIC_MDCR :: u32 where "REG_AIC_MDCR = AIC_BA + 0x138"
definition REG_AIC_MDCRH :: u32 where "REG_AIC_MDCRH = AIC_BA + 0x13C"
definition REG_AIC_EOSCR :: u32 where "REG_AIC_EOSCR = AIC_BA + 0x150"

definition REG_TMR_TCSR2 :: u32 where "REG_TMR_TCSR2 = TMR_BA + 0x20"
definition REG_TMR_TICR2 :: u32 where "REG_TMR_TICR2 = TMR_BA + 0x24"
definition REG_TMR_TISR :: u32 where "REG_TMR_TISR = TMR_BA + 0x60"

lemmas reg_defs [reg_simps] =
  NUC970_ADDR_def GPIO_BA_def GCR_BA_def AIC_BA_def TMR_BA_def gpio_reg_def REG_GPIO_ISR_def
  REG_GPIOB_DATAOUT_def REG_GPIOD_DATAOUT_def REG_GPIOG_DATAOUT_def REG_GPIOI_DATAOUT_def
  REG_WKUPSER_def REG_MFP_GPA_L_def REG_MFP_GPF_H_def REG_MFP_GPG_H_def REG_MFP_GPH_L_def
  REG_MFP_GPI_L_def REG_AIC_MECR_def REG_AIC_MECRH_def REG_AIC_MDCR_def REG_AIC_MDCRH_def
  REG_AIC_EOSCR_def REG_TMR_TCSR2_def REG_TMR_TICR2_def REG_TMR_TISR_def

text \<open>The registers whose value the outside world decides: the input level and the interrupt
  status of every port, and the summary of the pending ports.\<close>

definition hw_input :: "u32 \<Rightarrow> bool" where
  "hw_input a \<longleftrightarrow> a AND 0xFFFFFC3F = 0xF8003008 \<or> a AND 0xFFFFFC3F = 0xF8003018
     \<or> a = 0xF80033FC"

section \<open>The register file\<close>

record hw =
  mmio :: "u32 \<Rightarrow> u32"
  pins :: "nat \<Rightarrow> u32 \<Rightarrow> u32"
  now :: nat
  wlog :: "(u32 \<times> u32) list"
  fault :: bool

definition raw_readl :: "u32 \<Rightarrow> ('a hw_scheme, u32) state" where
  "raw_readl a = State (\<lambda>s.
     if a = 0 then (0, s\<lparr>fault := True\<rparr>)
     else if hw_input a then (pins s (now s) a, s\<lparr>now := now s + 1\<rparr>)
     else (mmio s a, s))"

definition raw_writel :: "u32 \<Rightarrow> u32 \<Rightarrow> ('a hw_scheme, unit) state" where
  "raw_writel v a = State (\<lambda>s. ((),
     if a = 0 then s\<lparr>fault := True\<rparr>
     else s\<lparr>mmio := (mmio s)(a := v), wlog := wlog s @ [(a, v)]\<rparr>))"

text \<open>A register file after reset, with every input low.\<close>

definition hw0 :: hw where
  "hw0 = \<lparr>mmio = (\<lambda>_. 0), pins = (\<lambda>_ _. 0), now = 0, wlog = [], fault = False\<rparr>"

lemma hw0_sel [simp]:
  "mmio hw0 = (\<lambda>_. 0)" "pins hw0 = (\<lambda>_ _. 0)" "now hw0 = 0" "wlog hw0 = []" "\<not> fault hw0"
  by (simp_all add: hw0_def)

lemma raw_readl_null [run_simps]: "run_state (raw_readl 0) s = (0, s\<lparr>fault := True\<rparr>)"
  by (simp add: raw_readl_def)

lemma readl_exec [run_simps]:
  "a \<noteq> 0 \<Longrightarrow> exec (raw_readl a) s = (if hw_input a then s\<lparr>now := now s + 1\<rparr> else s)"
  by (simp add: raw_readl_def)

lemma readl_result [run_simps]:
  "a \<noteq> 0 \<Longrightarrow> result_of (raw_readl a) s = (if hw_input a then pins s (now s) a else mmio s a)"
  by (simp add: raw_readl_def)

lemma writel_exec [run_simps]:
  "a \<noteq> 0 \<Longrightarrow> exec (raw_writel v a) s = s\<lparr>mmio := (mmio s)(a := v), wlog := wlog s @ [(a, v)]\<rparr>"
  by (simp add: raw_writel_def)

lemma writel_result [simp]: "result_of (raw_writel v a) s = ()"
  by simp

text \<open>Read-modify-write of a register: set the bits of a mask, or clear them.\<close>

definition or_reg :: "u32 \<Rightarrow> u32 \<Rightarrow> ('a hw_scheme, unit) state" where
  "or_reg a m = do { t \<leftarrow> raw_readl a; raw_writel (t OR m) a }"

definition andn_reg :: "u32 \<Rightarrow> u32 \<Rightarrow> ('a hw_scheme, unit) state" where
  "andn_reg a m = do { t \<leftarrow> raw_readl a; raw_writel (t AND NOT m) a }"

text \<open>A sequence of register writes, and its effect on a state.\<close>

fun put_all :: "(u32 \<times> u32) list \<Rightarrow> 'a hw_scheme \<Rightarrow> 'a hw_scheme" where
  "put_all [] s = s"
| "put_all ((a, v) # ws) s =
     put_all ws (s\<lparr>mmio := (mmio s)(a := v), wlog := wlog s @ [(a, v)]\<rparr>)"

lemma put_all_append [simp]: "put_all (xs @ ys) s = put_all ys (put_all xs s)"
  by (induction xs s rule: put_all.induct) simp_all

lemma wlog_put_all [simp]: "wlog (put_all ws s) = wlog s @ ws"
  by (induction ws s rule: put_all.induct) simp_all

lemma put_all_frame [simp]:
  "pins (put_all ws s) = pins s" "now (put_all ws s) = now s" "fault (put_all ws s) = fault s"
  by (induction ws s rule: put_all.induct) simp_all

lemma mmio_put_all_other: "a \<notin> fst ` set ws \<Longrightarrow> mmio (put_all ws s) a = mmio s a"
  by (induction ws s rule: put_all.induct) auto

lemma or_reg_exec [run_simps]:
  "a \<noteq> 0 \<Longrightarrow> \<not> hw_input a \<Longrightarrow> exec (or_reg a m) s = put_all [(a, mmio s a OR m)] s"
  by (simp add: or_reg_def run_simps)

lemma andn_reg_exec [run_simps]:
  "a \<noteq> 0 \<Longrightarrow> \<not> hw_input a \<Longrightarrow> exec (andn_reg a m) s = put_all [(a, mmio s a AND NOT m)] s"
  by (simp add: andn_reg_def run_simps)

text \<open>The values written to one register, in order.\<close>

definition written :: "u32 \<Rightarrow> (u32 \<times> u32) list \<Rightarrow> u32 list" where
  "written r ws = map snd (filter (\<lambda>w. fst w = r) ws)"

lemma written_simps [simp]:
  "written r [] = []"
  "written r (w # ws) = (if fst w = r then snd w # written r ws else written r ws)"
  "written r (xs @ ys) = written r xs @ written r ys"
  by (simp_all add: written_def)

lemma mmio_put_all: "mmio (put_all ws s) r = last (mmio s r # written r ws)"
  by (induction ws s rule: put_all.induct) auto

section \<open>Facts on the register addresses\<close>

lemma lt10_cases:
  "p < 10 \<Longrightarrow> p = 0 \<or> p = 1 \<or> p = 2 \<or> p = 3 \<or> p = 4 \<or> p = 5 \<or> p = 6 \<or> p = 7 \<or> p = 8 \<or> p = (9::nat)"
  by arith

lemma unat_gpio_reg:
  assumes "p < 10" "off < 0x40"
  shows "unat (gpio_reg p off) = unat GPIO_BA + (0x40 * p + unat off)"
proof -
  have "unat off < 0x40" using assms(2) by (simp add: word_less_nat_alt)
  then show ?thesis using assms(1)
    by (simp add: reg_defs unat_word_ariths unat_of_nat)
qed

lemma gpio_reg_nonzero [simp]: "p < 10 \<Longrightarrow> off < 0x40 \<Longrightarrow> gpio_reg p off \<noteq> 0"
  using unat_gpio_reg[of p off] by (auto simp: reg_defs)

lemma block_offset_unique:
  "k * p + a = k * q + b \<Longrightarrow> a < k \<Longrightarrow> b < k \<Longrightarrow> p = q \<and> a = (b::nat)"
  by (metis add.commute div_mult_self2 div_less mod_less mod_mult_self2 add_cancel_right_left
      less_zeroE not_gr0)

lemma gpio_reg_inject [simp]:
  assumes "p < 10" "q < 10" "a < 0x40" "b < 0x40"
  shows "gpio_reg p a = gpio_reg q b \<longleftrightarrow> p = q \<and> a = b"
proof
  assume eq: "gpio_reg p a = gpio_reg q b"
  have "unat a < 0x40" "unat b < 0x40"
    using assms by (simp_all add: word_less_nat_alt)
  moreover have "0x40 * p + unat a = 0x40 * q + unat b"
    using arg_cong[OF eq, of unat] unat_gpio_reg[of p a] unat_gpio_reg[of q b] assms
    by simp
  ultimately have "p = q \<and> unat a = unat b" by (intro block_offset_unique)
  then show "p = q \<and> a = b" by (simp add: word_unat_eq_iff)
qed simp

lemma hw_input_gpio_reg [simp]:
  assumes "p < 10"
  shows "\<not> hw_input (gpio_reg p DIR)" "\<not> hw_input (gpio_reg p DATAOUT)"
    "hw_input (gpio_reg p DATAIN)" "\<not> hw_input (gpio_reg p IMD)"
    "\<not> hw_input (gpio_reg p IREN)" "\<not> hw_input (gpio_reg p IFEN)"
    "hw_input (gpio_reg p ISR)"
  using lt10_cases[OF assms] by (elim disjE; hypsubst; simp add: reg_defs hw_input_def)+

lemma named_port_regs:
  "REG_GPIOB_DATAOUT = gpio_reg 1 DATAOUT" "REG_GPIOD_DATAOUT = gpio_reg 3 DATAOUT"
  "REG_GPIOG_DATAOUT = gpio_reg 6 DATAOUT" "REG_GPIOI_DATAOUT = gpio_reg 8 DATAOUT"
  by (simp_all add: reg_defs)

end
