(* ===== verification/Gpio.thy ===== *)
theory Gpio
  imports Nuc_Hw
begin

text \<open>
  The GPIO driver, \<open>src/drivers/gpio/gpio-nuc970.c\<close>: pin lookup, direction, level, the check
  of the multi-function setting, and the mapping of a pin to its interrupt number.  Every
  driver of the board reaches its pins through these functions (the exported variants carry a
  \<open>1\<close> at the end of their name; the \<open>gpio_chip\<close> callbacks have the same bodies).
  The spin lock around each register update is not modelled: each function runs as one step.
\<close>

section \<open>Ports and pins\<close>

record gpio_port =
  dir :: u32
  out :: u32
  inp :: u32

definition port_entry :: "nat \<Rightarrow> gpio_port" where
  "port_entry p = \<lparr>dir = gpio_reg p DIR, out = gpio_reg p DATAOUT, inp = gpio_reg p DATAIN\<rparr>"

definition null_port :: gpio_port where
  "null_port = \<lparr>dir = 0, out = 0, inp = 0\<rparr>"

text \<open>Ten ports and the empty entry that closes the table.\<close>

definition port_class :: "gpio_port list" where
  "port_class = [port_entry 0, port_entry 1, port_entry 2, port_entry 3, port_entry 4,
     port_entry 5, port_entry 6, port_entry 7, port_entry 8, port_entry 9, null_port]"

definition GPIO_OFFSET :: u32 where "GPIO_OFFSET = 0x20"

definition NUMGPIO :: u32 where "NUMGPIO = 0x20 * 10"

text \<open>Beyond the table the C code reads past the array; the model gives the null port there,
  so that the access is a fault.\<close>

definition nuc970_gpio_cla_port :: "u32 \<Rightarrow> gpio_port \<times> nat" where
  "nuc970_gpio_cla_port gpio_num =
    (let group = unat (gpio_num div GPIO_OFFSET); num = unat (gpio_num mod GPIO_OFFSET)
     in (if group < length port_class then port_class ! group else null_port, num))"

section \<open>Direction and level\<close>

definition nuc970_gpio_core_direction_in1 :: "u32 \<Rightarrow> ('a hw_scheme, int) state" where
  "nuc970_gpio_core_direction_in1 gpio_num =
    (let (port, num) = nuc970_gpio_cla_port gpio_num in do {
       value \<leftarrow> raw_readl (dir port);
       raw_writel (value AND NOT (BIT num)) (dir port);
       return 0 })"

definition nuc970_gpio_core_get1 :: "u32 \<Rightarrow> ('a hw_scheme, u32) state" where
  "nuc970_gpio_core_get1 gpio_num =
    (let (port, num) = nuc970_gpio_cla_port gpio_num in do {
       d \<leftarrow> raw_readl (dir port);
       if d AND BIT num \<noteq> 0 then do {
         v \<leftarrow> raw_readl (out port);
         return (drop_bit num v AND 1)
       } else do {
         v \<leftarrow> raw_readl (inp port);
         raw_writel (drop_bit num v AND 1) (inp port);
         return (drop_bit num v AND 1)
       } })"

definition nuc970_gpio_core_set1 :: "u32 \<Rightarrow> int \<Rightarrow> ('a hw_scheme, unit) state" where
  "nuc970_gpio_core_set1 gpio_num val =
    (let (port, num) = nuc970_gpio_cla_port gpio_num in do {
       d \<leftarrow> raw_readl (dir port);
       if d AND BIT num \<noteq> 0 then do {
         v \<leftarrow> raw_readl (out port);
         raw_writel (if val \<noteq> 0 then v OR BIT num else v AND NOT (BIT num)) (out port)
       } else do {
         v \<leftarrow> raw_readl (inp port);
         raw_writel (if val \<noteq> 0 then v OR BIT num else v AND NOT (BIT num)) (inp port)
       } })"

definition nuc970_gpio_core_direction_out1 :: "u32 \<Rightarrow> int \<Rightarrow> ('a hw_scheme, int) state" where
  "nuc970_gpio_core_direction_out1 gpio_num val =
    (let (port, num) = nuc970_gpio_cla_port gpio_num in do {
       value \<leftarrow> raw_readl (dir port);
       raw_writel (value OR BIT num) (dir port);
       nuc970_gpio_core_set1 gpio_num val;
       return 0 })"

text \<open>The callbacks of the \<open>gpio_chip\<close> repeat the same bodies with an unused chip argument.\<close>

definition nuc970_gpio_core_direction_in :: "u32 \<Rightarrow> ('a hw_scheme, int) state" where
  "nuc970_gpio_core_direction_in gpio_num =
    (let (port, num) = nuc970_gpio_cla_port gpio_num in do {
       value \<leftarrow> raw_readl (dir port);
       raw_writel (value AND NOT (BIT num)) (dir port);
       return 0 })"

definition nuc970_gpio_core_get :: "u32 \<Rightarrow> ('a hw_scheme, u32) state" where
  "nuc970_gpio_core_get gpio_num =
    (let (port, num) = nuc970_gpio_cla_port gpio_num in do {
       d \<leftarrow> raw_readl (dir port);
       if d AND BIT num \<noteq> 0 then do {
         v \<leftarrow> raw_readl (out port);
         return (drop_bit num v AND 1)
       } else do {
         v \<leftarrow> raw_readl (inp port);
         raw_writel (drop_bit num v AND 1) (inp port);
         return (drop_bit num v AND 1)
       } })"

definition nuc970_gpio_core_set :: "u32 \<Rightarrow> int \<Rightarrow> ('a hw_scheme, unit) state" where
  "nuc970_gpio_core_set gpio_num val =
    (let (port, num) = nuc970_gpio_cla_port gpio_num in do {
       d \<leftarrow> raw_readl (dir port);
       if d AND BIT num \<noteq> 0 then do {
         v \<leftarrow> raw_readl (out port);
         raw_writel (if val \<noteq> 0 then v OR BIT num else v AND NOT (BIT num)) (out port)
       } else do {
         v \<leftarrow> raw_readl (inp port);
         raw_writel (if val \<noteq> 0 then v OR BIT num else v AND NOT (BIT num)) (inp port)
       } })"

definition nuc970_gpio_core_direction_out :: "u32 \<Rightarrow> int \<Rightarrow> ('a hw_scheme, int) state" where
  "nuc970_gpio_core_direction_out gpio_num val =
    (let (port, num) = nuc970_gpio_cla_port gpio_num in do {
       value \<leftarrow> raw_readl (dir port);
       raw_writel (value OR BIT num) (dir port);
       nuc970_gpio_core_set gpio_num val;
       return 0 })"

section \<open>Multi-function check\<close>

text \<open>The four bits of a pin in its multi-function register: 0 and 15 mean plain GPIO.\<close>

definition mfp_reg :: "u32 \<Rightarrow> u32" where
  "mfp_reg offset = (let group = offset div GPIO_OFFSET; num = offset mod GPIO_OFFSET;
     reg = REG_MFP_GPA_L + group * 0x08 in if 7 < num then reg + 0x04 else reg)"

definition mfp_shift :: "u32 \<Rightarrow> nat" where
  "mfp_shift offset = (let num = offset mod GPIO_OFFSET in
     unat ((if 7 < num then num - 8 else num) * 4))"

definition nuc970_gpio_core_to_request1 :: "u32 \<Rightarrow> ('a hw_scheme, unit result) state" where
  "nuc970_gpio_core_to_request1 offset = do {
     r \<leftarrow> raw_readl (mfp_reg offset);
     let value = drop_bit (mfp_shift offset) (r AND push_bit (mfp_shift offset) 0xF);
     return (if 0 < value \<and> value < 0xF then Inl EINVAL else Inr ()) }"

definition nuc970_gpio_core_to_request :: "u32 \<Rightarrow> ('a hw_scheme, unit result) state" where
  "nuc970_gpio_core_to_request offset = do {
     r \<leftarrow> raw_readl (mfp_reg offset);
     let value = drop_bit (mfp_shift offset) (r AND push_bit (mfp_shift offset) 0xF);
     return (if 0 < value \<and> value < 0xF then Inl EINVAL else Inr ()) }"

definition nuc970_gpio_core_to_free :: "u32 \<Rightarrow> ('a hw_scheme, unit) state" where
  "nuc970_gpio_core_to_free offset = return ()"

section \<open>Interrupt number of a pin\<close>

definition IRQ_GPIO_START :: u32 where "IRQ_GPIO_START = 0x100"
definition EXT0_BASE :: u32 where "EXT0_BASE = 100"

text \<open>A pin of the external interrupt group answers to its external number when its
  multi-function field is 15: \<open>ext_or\<close> is one case of the C switch.\<close>

definition ext_or :: "u32 \<Rightarrow> nat \<Rightarrow> u32 \<Rightarrow> u32 \<Rightarrow> ('a hw_scheme, u32) state" where
  "ext_or reg sh ext irqno = do {
     v \<leftarrow> raw_readl reg;
     return (if v AND push_bit sh 0xF = push_bit sh 0xF then ext else irqno) }"

definition nuc970_gpio_core_to_irq :: "u32 \<Rightarrow> ('a hw_scheme, u32) state" where
  "nuc970_gpio_core_to_irq offset = (let irqno = IRQ_GPIO_START + offset in
     if offset = 0xE0 + 0 then ext_or REG_MFP_GPH_L 0 (EXT0_BASE + 0) irqno
     else if offset = 0xE0 + 1 then ext_or REG_MFP_GPH_L 4 (EXT0_BASE + 1) irqno
     else if offset = 0xE0 + 2 then ext_or REG_MFP_GPH_L 8 (EXT0_BASE + 2) irqno
     else if offset = 0xE0 + 3 then ext_or REG_MFP_GPH_L 12 (EXT0_BASE + 3) irqno
     else if offset = 0xE0 + 4 then ext_or REG_MFP_GPH_L 16 (EXT0_BASE + 4) irqno
     else if offset = 0xE0 + 5 then ext_or REG_MFP_GPH_L 20 (EXT0_BASE + 5) irqno
     else if offset = 0xE0 + 6 then ext_or REG_MFP_GPH_L 24 (EXT0_BASE + 6) irqno
     else if offset = 0xE0 + 7 then ext_or REG_MFP_GPH_L 28 (EXT0_BASE + 7) irqno
     else if offset = 0xA0 + 11 then ext_or REG_MFP_GPF_H 12 (EXT0_BASE + 8) irqno
     else if offset = 0xA0 + 12 then ext_or REG_MFP_GPF_H 16 (EXT0_BASE + 9) irqno
     else if offset = 0xA0 + 13 then ext_or REG_MFP_GPF_H 20 (EXT0_BASE + 10) irqno
     else if offset = 0xA0 + 14 then ext_or REG_MFP_GPF_H 24 (EXT0_BASE + 11) irqno
     else if offset = 0xA0 + 15 then ext_or REG_MFP_GPF_H 28 (EXT0_BASE + 12) irqno
     else if offset = 0xC0 + 15 then ext_or REG_MFP_GPG_H 28 (EXT0_BASE + 13) irqno
     else if offset = 0x100 + 1 then ext_or REG_MFP_GPI_L 4 (EXT0_BASE + 14) irqno
     else if offset = 0x100 + 2 then ext_or REG_MFP_GPI_L 8 (EXT0_BASE + 15) irqno
     else return irqno)"

section \<open>Pin lookup\<close>

definition pin_port :: "u32 \<Rightarrow> nat" where "pin_port g = unat g div 32"
definition pin_num :: "u32 \<Rightarrow> nat" where "pin_num g = unat g mod 32"

lemma pin_num_less [simp]: "pin_num g < 32"
  by (simp add: pin_num_def)

lemma pin_port_less [simp]: "g < NUMGPIO \<Longrightarrow> pin_port g < 10"
  by (simp add: pin_port_def NUMGPIO_def word_less_nat_alt)

lemma pin_eq_iff: "g = h \<longleftrightarrow> pin_port g = pin_port h \<and> pin_num g = pin_num h"
  unfolding pin_port_def pin_num_def word_unat_eq_iff by (metis div_mult_mod_eq)

lemma port_class_nth: "p < 10 \<Longrightarrow> port_class ! p = port_entry p"
  by (drule lt10_cases) (elim disjE; simp add: port_class_def)

lemma cla_port [run_simps]:
  assumes "g < NUMGPIO"
  shows "nuc970_gpio_cla_port g = (port_entry (pin_port g), pin_num g)"
proof -
  have "unat (g div GPIO_OFFSET) = pin_port g" "unat (g mod GPIO_OFFSET) = pin_num g"
    by (simp_all add: GPIO_OFFSET_def pin_port_def pin_num_def unat_div unat_mod)
  moreover have "pin_port g < length port_class"
    using pin_port_less[OF assms] by (simp add: port_class_def)
  ultimately show ?thesis
    using pin_port_less[OF assms] by (simp add: nuc970_gpio_cla_port_def port_class_nth)
qed

text \<open>Past the ten ports there is only the empty entry (and past it nothing at all).\<close>

lemma cla_port_null:
  assumes "NUMGPIO \<le> g"
  shows "fst (nuc970_gpio_cla_port g) = null_port"
proof -
  have *: "10 \<le> unat (g div GPIO_OFFSET)"
    using assms by (simp add: GPIO_OFFSET_def NUMGPIO_def unat_div word_le_nat_alt)
  have "port_class ! 10 = null_port" by (simp add: port_class_def)
  then show ?thesis using *
    by (cases "unat (g div GPIO_OFFSET) = 10")
      (auto simp: nuc970_gpio_cla_port_def Let_def port_class_def)
qed

lemma port_entry_sel [simp]:
  "dir (port_entry p) = gpio_reg p DIR" "out (port_entry p) = gpio_reg p DATAOUT"
  "inp (port_entry p) = gpio_reg p DATAIN"
  by (simp_all add: port_entry_def)

section \<open>Abstract view of a pin\<close>

text \<open>What the registers say of a pin: driven or not, and the level it is driven to.\<close>

definition is_output :: "'a hw_scheme \<Rightarrow> u32 \<Rightarrow> bool" where
  "is_output s g = bit (mmio s (gpio_reg (pin_port g) DIR)) (pin_num g)"

definition out_level :: "'a hw_scheme \<Rightarrow> u32 \<Rightarrow> bool" where
  "out_level s g = bit (mmio s (gpio_reg (pin_port g) DATAOUT)) (pin_num g)"

definition in_level :: "'a hw_scheme \<Rightarrow> u32 \<Rightarrow> bool" where
  "in_level s g = bit (pins s (now s) (gpio_reg (pin_port g) DATAIN)) (pin_num g)"

definition put_bit :: "bool \<Rightarrow> nat \<Rightarrow> u32 \<Rightarrow> u32" where
  "put_bit b n v = (if b then v OR BIT n else v AND NOT (BIT n))"

lemma bit_put_bit [bit_simps]:
  "n < 32 \<Longrightarrow> bit (put_bit b n v) m \<longleftrightarrow> (if m = n then b else bit v m)"
  by (auto simp: put_bit_def bit_simps)

lemma pin_regs [simp]:
  assumes "g < NUMGPIO"
  shows "gpio_reg (pin_port g) DIR \<noteq> 0" "gpio_reg (pin_port g) DATAOUT \<noteq> 0"
    "gpio_reg (pin_port g) DATAIN \<noteq> 0"
  using assms by simp_all

lemma get1_output [run_simps]:
  assumes "g < NUMGPIO" "is_output s g"
  shows "run_state (nuc970_gpio_core_get1 g) s = (of_bool (out_level s g), s)"
  using assms unfolding run_state_eq is_output_def out_level_def
  by (simp add: nuc970_gpio_core_get1_def run_simps bit_simps)

lemma get1_input [run_simps]:
  assumes "g < NUMGPIO" "\<not> is_output s g"
  shows "run_state (nuc970_gpio_core_get1 g) s = (of_bool (in_level s g),
     put_all [(gpio_reg (pin_port g) DATAIN, of_bool (in_level s g))] (s\<lparr>now := now s + 1\<rparr>))"
  using assms unfolding run_state_eq is_output_def in_level_def
  by (simp add: nuc970_gpio_core_get1_def run_simps bit_simps)

lemma set1_output [run_simps]:
  assumes "g < NUMGPIO" "is_output s g"
  shows "exec (nuc970_gpio_core_set1 g v) s =
     put_all [(gpio_reg (pin_port g) DATAOUT,
       put_bit (v \<noteq> 0) (pin_num g) (mmio s (gpio_reg (pin_port g) DATAOUT)))] s"
  using assms unfolding is_output_def
  by (simp add: nuc970_gpio_core_set1_def run_simps bit_simps put_bit_def)

lemma direction_out1_exec [run_simps]:
  assumes "g < NUMGPIO"
  shows "exec (nuc970_gpio_core_direction_out1 g v) s =
     put_all [(gpio_reg (pin_port g) DIR,
         put_bit True (pin_num g) (mmio s (gpio_reg (pin_port g) DIR))),
       (gpio_reg (pin_port g) DATAOUT,
         put_bit (v \<noteq> 0) (pin_num g) (mmio s (gpio_reg (pin_port g) DATAOUT)))] s"
  using assms
  by (simp add: nuc970_gpio_core_direction_out1_def run_simps bit_simps put_bit_def
      is_output_def)

lemma direction_in1_exec [run_simps]:
  assumes "g < NUMGPIO"
  shows "exec (nuc970_gpio_core_direction_in1 g) s =
     put_all [(gpio_reg (pin_port g) DIR,
         put_bit False (pin_num g) (mmio s (gpio_reg (pin_port g) DIR)))] s"
  using assms by (simp add: nuc970_gpio_core_direction_in1_def run_simps put_bit_def)

section \<open>Properties of the pin operations\<close>

lemma direction_out1_fields:
  assumes "g < NUMGPIO"
  shows "mmio (exec (nuc970_gpio_core_direction_out1 g v) s) a =
      (if a = gpio_reg (pin_port g) DATAOUT then put_bit (v \<noteq> 0) (pin_num g) (mmio s a)
       else if a = gpio_reg (pin_port g) DIR then put_bit True (pin_num g) (mmio s a)
       else mmio s a)"
  using assms by (simp add: run_simps)

lemma out_level_direction_out1:
  assumes "g < NUMGPIO" "h < NUMGPIO"
  shows "out_level (exec (nuc970_gpio_core_direction_out1 g v) s) h =
      (if h = g then v \<noteq> 0 else out_level s h)"
  using assms by (auto simp: out_level_def direction_out1_fields bit_simps pin_eq_iff[of h g])

lemma is_output_direction_out1:
  assumes "g < NUMGPIO" "h < NUMGPIO"
  shows "is_output (exec (nuc970_gpio_core_direction_out1 g v) s) h = (h = g \<or> is_output s h)"
  using assms by (auto simp: is_output_def direction_out1_fields bit_simps pin_eq_iff[of h g])

lemma pin_view_set1:
  assumes "g < NUMGPIO" "h < NUMGPIO" "is_output s g"
  shows "out_level (exec (nuc970_gpio_core_set1 g v) s) h = (if h = g then v \<noteq> 0 else out_level s h)"
    "is_output (exec (nuc970_gpio_core_set1 g v) s) h = is_output s h"
  using assms
  by (auto simp: out_level_def is_output_def[of _ h] set1_output mmio_put_all bit_simps pin_eq_iff[of h g])

lemma pin_view_in1:
  assumes "g < NUMGPIO" "h < NUMGPIO"
  shows "out_level (exec (nuc970_gpio_core_direction_in1 g) s) h = out_level s h"
    "is_output (exec (nuc970_gpio_core_direction_in1 g) s) h = (h \<noteq> g \<and> is_output s h)"
  using assms
  by (auto simp: out_level_def is_output_def direction_in1_exec mmio_put_all bit_simps pin_eq_iff[of h g])

text \<open>C30. Driving a pin.  After \<open>nuc970_gpio_core_direction_out1 g v\<close> pin \<open>g\<close> is an output at
  level \<open>v \<noteq> 0\<close>, every other pin of the ten ports keeps its direction and its output level,
  and reading the pin back with \<open>nuc970_gpio_core_get1\<close> returns the level.\<close>

theorem gpio_drive_pin:
  assumes "g < NUMGPIO" "h < NUMGPIO"
  shows "let s' = exec (nuc970_gpio_core_direction_out1 g v) s in
      is_output s' h = (h = g \<or> is_output s h)
    \<and> out_level s' h = (if h = g then v \<noteq> 0 else out_level s h)
    \<and> result_of (nuc970_gpio_core_get1 g) s' = of_bool (v \<noteq> 0)"
  using assms get1_output[of g "exec (nuc970_gpio_core_direction_out1 g v) s"]
  by (simp add: Let_def out_level_direction_out1 is_output_direction_out1 result_of_def)

theorem gpio_drive_pin_witness:
  "is_output (exec (nuc970_gpio_core_direction_out1 100 1) hw0) 100
   \<and> \<not> is_output (exec (nuc970_gpio_core_direction_out1 100 1) hw0) 101
   \<and> result_of (nuc970_gpio_core_get1 100)
        (exec (nuc970_gpio_core_direction_out1 100 1) hw0) = 1"
  using gpio_drive_pin[of 100 100 1 hw0] gpio_drive_pin[of 100 101 1 hw0]
  by (simp add: NUMGPIO_def Let_def is_output_def[of hw0])

text \<open>.  On an input pin \<open>nuc970_gpio_core_get1\<close> returns the level the outside
  world shows at that moment, takes exactly one sample, changes no direction and no output
  level of any pin and raises no fault.\<close>

theorem gpio_sample_pin:
  assumes "g < NUMGPIO" "h < NUMGPIO" "\<not> is_output s g"
  shows "let s' = exec (nuc970_gpio_core_get1 g) s in
      result_of (nuc970_gpio_core_get1 g) s = of_bool (in_level s g)
    \<and> now s' = now s + 1 \<and> is_output s' h = is_output s h \<and> out_level s' h = out_level s h
    \<and> fault s' = fault s"
  using assms get1_input[of g s]
  by (simp add: Let_def result_of_def exec_def is_output_def out_level_def)

theorem gpio_sample_pin_witness:
  "result_of (nuc970_gpio_core_get1 101) (hw0\<lparr>pins := \<lambda>_ _. 0x20\<rparr>) = 1"
  using gpio_sample_pin[of 101 101 "hw0\<lparr>pins := \<lambda>_ _. 0x20\<rparr>"]
  by (simp add: Let_def NUMGPIO_def is_output_def in_level_def pin_num_def)

section \<open>Null pointers\<close>

lemma get1_no_fault: "g < NUMGPIO \<Longrightarrow> fault (exec (nuc970_gpio_core_get1 g) s) = fault s"
  by (cases "is_output s g") (simp_all add: exec_def run_simps)

lemma set1_no_fault: "g < NUMGPIO \<Longrightarrow> fault (exec (nuc970_gpio_core_set1 g v) s) = fault s"
  by (simp add: nuc970_gpio_core_set1_def run_simps)

lemma get1_null: "NUMGPIO \<le> g \<Longrightarrow> fault (exec (nuc970_gpio_core_get1 g) s)"
  using cla_port_null[of g]
  by (cases "nuc970_gpio_cla_port g")
    (simp add: nuc970_gpio_core_get1_def null_port_def raw_readl_def raw_writel_def)

lemma set1_null: "NUMGPIO \<le> g \<Longrightarrow> fault (exec (nuc970_gpio_core_set1 g v) s)"
  using cla_port_null[of g]
  by (cases "nuc970_gpio_cla_port g")
    (simp add: nuc970_gpio_core_set1_def null_port_def raw_readl_def raw_writel_def)

text \<open>Range of pin numbers.  From a state without a fault, reading or setting pin \<open>g\<close> goes
  through a null pointer exactly when \<open>g\<close> is not one of the 320 numbers of the ten ports; the
  functions themselves check nothing.\<close>

theorem gpio_fault_iff:
  assumes "\<not> fault s"
  shows "fault (exec (nuc970_gpio_core_get1 g) s) = (NUMGPIO \<le> g)
    \<and> fault (exec (nuc970_gpio_core_set1 g v) s) = (NUMGPIO \<le> g)"
  using assms get1_no_fault[of g s] set1_no_fault[of g v s] get1_null[of g s] set1_null[of g v s]
  by (metis not_le)

theorem gpio_fault_iff_witness:
  "fault (exec (nuc970_gpio_core_get1 320) hw0) \<and> \<not> fault (exec (nuc970_gpio_core_get1 319) hw0)"
  using gpio_fault_iff[of hw0 320] gpio_fault_iff[of hw0 319] by (simp add: NUMGPIO_def)

section \<open>Multi-function check\<close>

text \<open>The multi-function field of a pin, read off the register layout: eight pins of four bits
  to a register, two registers to a port.\<close>

definition mfp_addr :: "u32 \<Rightarrow> u32" where
  "mfp_addr g = REG_MFP_GPA_L + of_nat (8 * pin_port g + 4 * (pin_num g div 8))"

definition mfp_field :: "'a hw_scheme \<Rightarrow> u32 \<Rightarrow> u32" where
  "mfp_field s g = take_bit 4 (drop_bit (4 * (pin_num g mod 8)) (mmio s (mfp_addr g)))"

lemma unat_pin_num: "unat (g mod GPIO_OFFSET) = pin_num g"
  by (simp add: GPIO_OFFSET_def pin_num_def unat_mod)

lemma of_nat_pin_port: "g div GPIO_OFFSET = of_nat (pin_port g)"
  by (simp add: GPIO_OFFSET_def pin_port_def word_arith_nat_div)

lemma mfp_shift_pin:
  assumes "pin_num g < 16"
  shows "mfp_shift g = 4 * (pin_num g mod 8)"
proof -
  let ?n = "g mod GPIO_OFFSET"
  have n: "unat ?n = pin_num g" by (rule unat_pin_num)
  show ?thesis
  proof (cases "7 < ?n")
    case True
    then have "8 \<le> pin_num g" using n by (simp add: word_less_nat_alt)
    moreover have "unat (?n - 8) = pin_num g - 8"
      using True n by (simp add: unat_sub word_le_nat_alt word_less_nat_alt)
    ultimately show ?thesis
      using True assms by (simp add: mfp_shift_def Let_def unat_word_ariths mod_if)
  next
    case False
    then have "pin_num g < 8" using n by (simp add: word_less_nat_alt)
    then show ?thesis using False n by (simp add: mfp_shift_def Let_def unat_word_ariths)
  qed
qed

lemma mfp_reg_pin:
  assumes "pin_num g < 16"
  shows "mfp_reg g = mfp_addr g"
proof (cases "7 < g mod GPIO_OFFSET")
  case True
  then have "pin_num g div 8 = 1"
    using assms unat_pin_num[of g] by (simp add: word_less_nat_alt)
  then show ?thesis using True by (simp add: mfp_reg_def mfp_addr_def Let_def of_nat_pin_port)
next
  case False
  then have "pin_num g div 8 = 0" using unat_pin_num[of g] by (simp add: word_less_nat_alt)
  then show ?thesis using False by (simp add: mfp_reg_def mfp_addr_def Let_def of_nat_pin_port)
qed

lemma mfp_addr_plain [simp]:
  assumes "g < NUMGPIO" "pin_num g < 16"
  shows "mfp_addr g \<noteq> 0" "\<not> hw_input (mfp_addr g)"
proof -
  have p: "pin_port g < 10" and k: "pin_num g div 8 = 0 \<or> pin_num g div 8 = 1"
    using assms by (simp, arith)
  show "mfp_addr g \<noteq> 0" unfolding mfp_addr_def
    using lt10_cases[OF p] k by (elim disjE; simp only:; simp add: reg_defs)
  show "\<not> hw_input (mfp_addr g)" unfolding mfp_addr_def
    using lt10_cases[OF p] k by (elim disjE; simp only:; simp add: reg_defs hw_input_def)
qed

lemma bit_0xF: "bit (0xF :: int) n \<longleftrightarrow> n < 4"
proof -
  have "(0xF :: int) = mask 4" by (simp add: mask_eq_exp_minus_1)
  then show ?thesis by (simp only: bit_mask_iff) auto
qed

lemma nibble_at:
  assumes "k + 4 \<le> 32"
  shows "drop_bit k r AND drop_bit k (push_bit k 0xF) = take_bit 4 (drop_bit k r :: u32)"
  using assms
  by (intro bit_word_eqI)
    (auto simp: bit_drop_bit_eq bit_and_iff bit_push_bit_iff bit_take_bit_iff bit_0xF)

lemma nibble_range: "(0 < w \<and> w < 0xF) \<longleftrightarrow> w \<noteq> 0 \<and> w \<noteq> 0xF" if "take_bit 4 w = w" for w :: u32
proof -
  have "unat w mod 16 = unat w"
    using arg_cong[OF that, of unat] by (simp add: take_bit_eq_mod unat_mod)
  then have "unat w < 16" by (metis mod_less_divisor zero_less_numeral)
  then show ?thesis by (auto simp: word_less_nat_alt word_unat_eq_iff)
qed

text \<open>Requesting a pin.  \<open>nuc970_gpio_core_to_request1\<close> accepts an existing pin (number below 16
  in its port) exactly when its multi-function field is 0 or 15, and answers \<open>-EINVAL\<close>
  otherwise; the register and the shift it computes are those of the pin's field.\<close>

theorem gpio_request_iff:
  assumes "g < NUMGPIO" "pin_num g < 16"
  shows "result_of (nuc970_gpio_core_to_request1 g) s =
     (if mfp_field s g = 0 \<or> mfp_field s g = 15 then Inr () else Inl EINVAL)"
proof -
  have "4 * (pin_num g mod 8) + 4 \<le> 32" by simp
  moreover have "take_bit 4 (mfp_field s g) = mfp_field s g" by (simp add: mfp_field_def)
  ultimately show ?thesis
    using assms nibble_range[of "mfp_field s g"]
    by (simp add: nuc970_gpio_core_to_request1_def mfp_reg_pin mfp_shift_pin run_simps nibble_at
        flip: mfp_field_def)
qed

theorem gpio_request_iff_witness:
  "result_of (nuc970_gpio_core_to_request1 100) hw0 = Inr ()"
  using gpio_request_iff[of 100 hw0] by (simp add: NUMGPIO_def pin_num_def mfp_field_def)

end
