(* ===== verification/Irq.thy ===== *)
theory Irq
  imports Gpio
begin

text \<open>
  Interrupt control, \<open>src/arch/arm/mach-nuc970/irq.c\<close> (the branch without device tree, with the
  GPIO driver configured): the three interrupt chips with their mask, unmask, acknowledge and
  trigger type functions, the two chained handlers that split the GPIO and the external
  interrupts into one number per pin, and the table built at start-up.

  \<open>generic_handle_irq\<close> belongs to the kernel: the handlers take the installed action \<open>h\<close> as a
  parameter, and the model records the numbers it is called with.  The \<open>IRQ_TYPE_*\<close> constants
  of \<open>linux/irq.h\<close> are the fields of a parameter of type \<open>irq_types\<close>.
\<close>

record irq_types =
  IRQ_TYPE_EDGE_RISING :: u32
  IRQ_TYPE_EDGE_FALLING :: u32
  IRQ_TYPE_LEVEL_HIGH :: u32
  IRQ_TYPE_LEVEL_LOW :: u32
  IRQ_TYPE_LEVEL_MASK :: u32
  IRQ_TYPE_PROBE :: u32

record irq_state = hw +
  FType :: "nat \<Rightarrow> u16"
  RType :: "nat \<Rightarrow> u16"
  handled :: "u32 list"

section \<open>The main controller\<close>

definition nuc970_irq_mask :: "u32 \<Rightarrow> ('a hw_scheme, unit) state" where
  "nuc970_irq_mask irq =
    (if irq < 32 then raw_writel (BIT (unat irq)) REG_AIC_MDCR
     else raw_writel (BIT (unat (irq - 32))) REG_AIC_MDCRH)"

definition nuc970_irq_ack :: "u32 \<Rightarrow> ('a hw_scheme, unit) state" where
  "nuc970_irq_ack irq = raw_writel 0x01 REG_AIC_EOSCR"

definition nuc970_irq_unmask :: "u32 \<Rightarrow> ('a hw_scheme, unit) state" where
  "nuc970_irq_unmask irq =
    (if irq < 32 then raw_writel (BIT (unat irq)) REG_AIC_MECR
     else raw_writel (BIT (unat (irq - 32))) REG_AIC_MECRH)"

definition nuc970_irq_set_wake :: "u32 \<Rightarrow> u32 \<Rightarrow> ('a hw_scheme, int) state" where
  "nuc970_irq_set_wake irq on = return 0"

section \<open>GPIO interrupts\<close>

text \<open>\<open>Port[i]\<close> is the first register of port \<open>i\<close>; an index outside the array is a fault.\<close>

definition Port :: "u32 list" where
  "Port = [gpio_reg 0 DIR, gpio_reg 1 DIR, gpio_reg 2 DIR, gpio_reg 3 DIR, gpio_reg 4 DIR,
     gpio_reg 5 DIR, gpio_reg 6 DIR, gpio_reg 7 DIR, gpio_reg 8 DIR, gpio_reg 9 DIR]"

definition port_at :: "nat \<Rightarrow> u32 \<Rightarrow> u32" where
  "port_at i off = (if i < length Port then Port ! i + off else 0)"

definition irq_port :: "u32 \<Rightarrow> nat" where
  "irq_port irq = unat ((irq - IRQ_GPIO_START) div GPIO_OFFSET)"

definition irq_num :: "u32 \<Rightarrow> nat" where
  "irq_num irq = unat ((irq - IRQ_GPIO_START) mod GPIO_OFFSET)"

definition nuc970_irq_gpio_unmask :: "u32 \<Rightarrow> ('a irq_state_scheme, unit) state" where
  "nuc970_irq_gpio_unmask irq = (let port = irq_port irq; num = irq_num irq in do {
     rt \<leftarrow> gets RType;
     or_reg (port_at port 0x10) (ucast (rt port) AND BIT num);
     ft \<leftarrow> gets FType;
     or_reg (port_at port 0x14) (ucast (ft port) AND BIT num) })"

definition nuc970_irq_gpio_ack :: "u32 \<Rightarrow> ('a hw_scheme, unit) state" where
  "nuc970_irq_gpio_ack irq = raw_writel 0x01 REG_AIC_EOSCR"

definition nuc970_irq_gpio_mask :: "u32 \<Rightarrow> ('a hw_scheme, unit) state" where
  "nuc970_irq_gpio_mask irq = (let port = irq_port irq; num = irq_num irq in do {
     andn_reg (port_at port 0x10) (BIT num);
     andn_reg (port_at port 0x14) (BIT num) })"

text \<open>The 16 bit copies of the enable registers: \<open>RType[port] |= 1 << num\<close> and so on.\<close>

definition set_rtype :: "nat \<Rightarrow> nat \<Rightarrow> ('a irq_state_scheme, unit) state" where
  "set_rtype port num = modify (\<lambda>s. s\<lparr>RType := (RType s)(port := RType s port OR BIT num)\<rparr>)"

definition clr_rtype :: "nat \<Rightarrow> nat \<Rightarrow> ('a irq_state_scheme, unit) state" where
  "clr_rtype port num = modify (\<lambda>s. s\<lparr>RType := (RType s)(port := RType s port AND NOT (BIT num))\<rparr>)"

definition set_ftype :: "nat \<Rightarrow> nat \<Rightarrow> ('a irq_state_scheme, unit) state" where
  "set_ftype port num = modify (\<lambda>s. s\<lparr>FType := (FType s)(port := FType s port OR BIT num)\<rparr>)"

definition clr_ftype :: "nat \<Rightarrow> nat \<Rightarrow> ('a irq_state_scheme, unit) state" where
  "clr_ftype port num = modify (\<lambda>s. s\<lparr>FType := (FType s)(port := FType s port AND NOT (BIT num))\<rparr>)"

definition nuc970_irq_gpio_type ::
    "irq_types \<Rightarrow> u32 \<Rightarrow> u32 \<Rightarrow> ('a irq_state_scheme, int) state" where
  "nuc970_irq_gpio_type k irq type = (let port = irq_port irq; num = irq_num irq in
     if type = IRQ_TYPE_PROBE k then do {
       or_reg (port_at port 0x10) (BIT num);
       or_reg (port_at port 0x14) (BIT num);
       set_rtype port num;
       set_ftype port num;
       return 0
     } else if type AND IRQ_TYPE_LEVEL_MASK k \<noteq> 0 then do {
       or_reg (port_at port 0x0C) (BIT num);
       andn_reg (port_at port 0x10) (BIT num);
       andn_reg (port_at port 0x14) (BIT num);
       clr_rtype port num;
       clr_ftype port num;
       if type = IRQ_TYPE_LEVEL_HIGH k then do {
         or_reg (port_at port 0x10) (BIT num);
         set_rtype port num;
         return 0
       } else if type = IRQ_TYPE_LEVEL_LOW k then do {
         or_reg (port_at port 0x14) (BIT num);
         set_ftype port num;
         return 0
       } else return 0
     } else do {
       andn_reg (port_at port 0x0C) (BIT num);
       (if type AND IRQ_TYPE_EDGE_RISING k \<noteq> 0 then do {
          or_reg (port_at port 0x10) (BIT num);
          set_rtype port num
        } else do {
          andn_reg (port_at port 0x10) (BIT num);
          clr_rtype port num });
       (if type AND IRQ_TYPE_EDGE_FALLING k \<noteq> 0 then do {
          or_reg (port_at port 0x14) (BIT num);
          set_ftype port num
        } else do {
          andn_reg (port_at port 0x14) (BIT num);
          clr_ftype port num });
       return 0
     })"

section \<open>Splitting the GPIO interrupt\<close>

text \<open>The kernel entry point that runs the action installed for a number.\<close>

definition generic_handle_irq ::
    "(u32 \<Rightarrow> ('a irq_state_scheme, unit) state) \<Rightarrow> u32 \<Rightarrow> ('a irq_state_scheme, unit) state" where
  "generic_handle_irq h irq = do {
     modify (\<lambda>s. s\<lparr>handled := handled s @ [irq]\<rparr>);
     h irq }"

text \<open>The inner loop over the 16 pins of port \<open>i\<close>: \<open>n\<close> iterations are left, \<open>j\<close> is the index.\<close>

definition gpio_irqno :: "nat \<Rightarrow> nat \<Rightarrow> u32" where
  "gpio_irqno i j = IRQ_GPIO_START + of_nat i * 0x20 + of_nat j"

fun demux_pins :: "(u32 \<Rightarrow> ('a irq_state_scheme, unit) state) \<Rightarrow> nat \<Rightarrow> nat \<Rightarrow> nat \<Rightarrow> u32
    \<Rightarrow> ('a irq_state_scheme, unit) state" where
  "demux_pins h i 0 j sub_isr = return ()"
| "demux_pins h i (Suc n) j sub_isr = do {
     (if sub_isr AND 0x1 \<noteq> 0 then do {
        generic_handle_irq h (gpio_irqno i j);
        raw_writel (BIT j) (port_at i 0x18)
      } else return ());
     demux_pins h i n (j + 1) (drop_bit 1 sub_isr) }"

fun demux_ports :: "(u32 \<Rightarrow> ('a irq_state_scheme, unit) state) \<Rightarrow> nat \<Rightarrow> nat \<Rightarrow> u32
    \<Rightarrow> ('a irq_state_scheme, unit) state" where
  "demux_ports h 0 i isr = return ()"
| "demux_ports h (Suc n) i isr = do {
     (if isr AND 0x1 \<noteq> 0 then do {
        sub_isr \<leftarrow> raw_readl (port_at i 0x18);
        demux_pins h i 16 0 sub_isr
      } else return ());
     demux_ports h n (i + 1) (drop_bit 1 isr) }"

definition nuc970_irq_demux_intgroup ::
    "(u32 \<Rightarrow> ('a irq_state_scheme, unit) state) \<Rightarrow> ('a irq_state_scheme, unit) state" where
  "nuc970_irq_demux_intgroup h = do {
     isr \<leftarrow> raw_readl REG_GPIO_ISR;
     demux_ports h 10 0 isr }"

section \<open>External interrupts\<close>

text \<open>The pins of the sixteen external interrupts: PH0 to PH7, PF11 to PF15, PG15, PI1, PI2.\<close>

definition EXT :: "u32 list" where
  "EXT = [0xE0 + 0, 0xE0 + 1, 0xE0 + 2, 0xE0 + 3, 0xE0 + 4, 0xE0 + 5, 0xE0 + 6, 0xE0 + 7,
     0xA0 + 11, 0xA0 + 12, 0xA0 + 13, 0xA0 + 14, 0xA0 + 15, 0xC0 + 15, 0x100 + 1, 0x100 + 2]"

definition nuc970_irq_ext_mask :: "u32 \<Rightarrow> ('a hw_scheme, unit) state" where
  "nuc970_irq_ext_mask irq =
    (if irq = EXT0_BASE + 0 \<or> irq = EXT0_BASE + 8 then raw_writel (BIT 4) REG_AIC_MDCR
     else if irq = EXT0_BASE + 1 \<or> irq = EXT0_BASE + 9 then raw_writel (BIT 5) REG_AIC_MDCR
     else if irq = EXT0_BASE + 2 \<or> irq = EXT0_BASE + 10 then raw_writel (BIT 6) REG_AIC_MDCR
     else if irq = EXT0_BASE + 3 \<or> irq = EXT0_BASE + 11 then raw_writel (BIT 7) REG_AIC_MDCR
     else if irq = EXT0_BASE + 4 \<or> irq = EXT0_BASE + 12 then raw_writel (BIT 8) REG_AIC_MDCR
     else if irq = EXT0_BASE + 5 \<or> irq = EXT0_BASE + 13 then raw_writel (BIT 9) REG_AIC_MDCR
     else if irq = EXT0_BASE + 6 \<or> irq = EXT0_BASE + 14 then raw_writel (BIT 10) REG_AIC_MDCR
     else if irq = EXT0_BASE + 7 \<or> irq = EXT0_BASE + 15 then raw_writel (BIT 11) REG_AIC_MDCR
     else return ())"

definition nuc970_irq_ext_ack :: "u32 \<Rightarrow> ('a hw_scheme, unit) state" where
  "nuc970_irq_ext_ack irq = raw_writel 0x01 REG_AIC_EOSCR"

definition nuc970_irq_ext_unmask :: "u32 \<Rightarrow> ('a hw_scheme, unit) state" where
  "nuc970_irq_ext_unmask irq =
    (if irq = EXT0_BASE + 0 \<or> irq = EXT0_BASE + 8 then raw_writel (BIT 4) REG_AIC_MECR
     else if irq = EXT0_BASE + 1 \<or> irq = EXT0_BASE + 9 then raw_writel (BIT 5) REG_AIC_MECR
     else if irq = EXT0_BASE + 2 \<or> irq = EXT0_BASE + 10 then raw_writel (BIT 6) REG_AIC_MECR
     else if irq = EXT0_BASE + 3 \<or> irq = EXT0_BASE + 11 then raw_writel (BIT 7) REG_AIC_MECR
     else if irq = EXT0_BASE + 4 \<or> irq = EXT0_BASE + 12 then raw_writel (BIT 8) REG_AIC_MECR
     else if irq = EXT0_BASE + 5 \<or> irq = EXT0_BASE + 13 then raw_writel (BIT 9) REG_AIC_MECR
     else if irq = EXT0_BASE + 6 \<or> irq = EXT0_BASE + 14 then raw_writel (BIT 10) REG_AIC_MECR
     else if irq = EXT0_BASE + 7 \<or> irq = EXT0_BASE + 15 then raw_writel (BIT 11) REG_AIC_MECR
     else return ())"

text \<open>\<open>EXT[i]\<close>, with 0xFFFFFFFF (no pin) outside the table.\<close>

definition ext_pin :: "u32 \<Rightarrow> u32" where
  "ext_pin i = (if unat i < length EXT then EXT ! unat i else 0xFFFFFFFF)"

definition ext_port :: "u32 \<Rightarrow> nat" where "ext_port i = unat (ext_pin i div GPIO_OFFSET)"
definition ext_num :: "u32 \<Rightarrow> nat" where "ext_num i = unat (ext_pin i mod GPIO_OFFSET)"

definition nuc970_irq_ext_type :: "irq_types \<Rightarrow> u32 \<Rightarrow> u32 \<Rightarrow> ('a hw_scheme, int) state" where
  "nuc970_irq_ext_type k irq type =
    (let port = ext_port (irq - EXT0_BASE); num = ext_num (irq - EXT0_BASE) in
     if type = IRQ_TYPE_PROBE k then do {
       or_reg (port_at port 0x10) (BIT num);
       or_reg (port_at port 0x14) (BIT num);
       return 0
     } else do {
       (if type AND IRQ_TYPE_EDGE_RISING k \<noteq> 0 then or_reg (port_at port 0x10) (BIT num)
        else andn_reg (port_at port 0x10) (BIT num));
       (if type AND IRQ_TYPE_EDGE_FALLING k \<noteq> 0 then or_reg (port_at port 0x14) (BIT num)
        else andn_reg (port_at port 0x14) (BIT num));
       return 0
     })"

text \<open>One case of the switch of \<open>nuc970_irq_demux_intgroup2\<close>: the first pin of the pair has
  priority, the second is looked at only when the first is not pending.\<close>

definition demux_ext ::
    "(u32 \<Rightarrow> ('a irq_state_scheme, unit) state) \<Rightarrow> nat \<Rightarrow> nat \<Rightarrow> nat \<Rightarrow> nat \<Rightarrow> u32 \<Rightarrow> u32
     \<Rightarrow> ('a irq_state_scheme, unit) state" where
  "demux_ext h port0 num0 port1 num1 irq0 irq1 = do {
     v \<leftarrow> raw_readl (port_at port0 0x18);
     if v AND BIT num0 \<noteq> 0 then do {
       generic_handle_irq h irq0;
       raw_writel (BIT num0) (port_at port0 0x18)
     } else do {
       w \<leftarrow> raw_readl (port_at port1 0x18);
       if w AND BIT num1 \<noteq> 0 then do {
         generic_handle_irq h irq1;
         raw_writel (BIT num1) (port_at port1 0x18)
       } else return ()
     } }"

definition nuc970_irq_demux_intgroup2 ::
    "(u32 \<Rightarrow> ('a irq_state_scheme, unit) state) \<Rightarrow> u32 \<Rightarrow> ('a irq_state_scheme, unit) state" where
  "nuc970_irq_demux_intgroup2 h irq =
    (let port0 = ext_port (irq - 4); num0 = ext_num (irq - 4);
         port1 = ext_port (irq - 4 + 8); num1 = ext_num (irq - 4 + 8);
         go = demux_ext h port0 num0 port1 num1
     in if irq = 4 then go (EXT0_BASE + 0) (EXT0_BASE + 8)
     else if irq = 5 then go (EXT0_BASE + 1) (EXT0_BASE + 9)
     else if irq = 6 then go (EXT0_BASE + 2) (EXT0_BASE + 10)
     else if irq = 7 then go (EXT0_BASE + 3) (EXT0_BASE + 11)
     else if irq = 8 then go (EXT0_BASE + 4) (EXT0_BASE + 12)
     else if irq = 9 then go (EXT0_BASE + 5) (EXT0_BASE + 13)
     else if irq = 10 then go (EXT0_BASE + 6) (EXT0_BASE + 14)
     else if irq = 11 then go (EXT0_BASE + 7) (EXT0_BASE + 15)
     else return ())"

section \<open>Start-up\<close>

text \<open>The calls into the interrupt core that \<open>nuc970_init_irq\<close> makes, in order.\<close>

datatype irq_chip = nuc970_irq_chip | nuc970_irq_gpio | nuc970_irq_ext

datatype irq_flow = handle_level_irq | demux_intgroup | demux_intgroup2

datatype irq_setup =
    irq_set_chip_and_handler nat irq_chip irq_flow
  | irq_set_chip nat irq_chip
  | irq_set_chained_handler nat irq_flow
  | set_irq_flags nat

definition nuc970_init_irq :: "('a hw_scheme, irq_setup list) state" where
  "nuc970_init_irq = do {
     raw_writel 0xFFFFFFFC REG_AIC_MDCR;
     raw_writel 0xFFFFFFFF REG_AIC_MDCRH;
     return (
       concat (map (\<lambda>n. [irq_set_chip_and_handler n nuc970_irq_chip handle_level_irq,
         set_irq_flags n]) [1..<0x100 + 0x130 + 64 + 1 - 64])
       @ [irq_set_chip 57 nuc970_irq_chip, irq_set_chained_handler 57 demux_intgroup]
       @ concat (map (\<lambda>n. [irq_set_chip_and_handler n nuc970_irq_gpio handle_level_irq,
         set_irq_flags n]) [0x100..<0x100 + 0x130])
       @ concat (map (\<lambda>n. [irq_set_chip n nuc970_irq_chip,
         irq_set_chained_handler n demux_intgroup2]) [4..<11 + 1])
       @ concat (map (\<lambda>n. [irq_set_chip_and_handler n nuc970_irq_ext handle_level_irq,
         set_irq_flags n]) [100..<115 + 1])) }"

section \<open>Addresses and numbers\<close>

lemma port_at_gpio [simp]: "p < 10 \<Longrightarrow> port_at p off = gpio_reg p off"
  by (drule lt10_cases) (elim disjE; simp add: port_at_def Port_def gpio_reg_def)

lemma irq_port_pin [simp]: "irq_port (IRQ_GPIO_START + g) = pin_port g"
  and irq_num_pin [simp]: "irq_num (IRQ_GPIO_START + g) = pin_num g"
  by (simp_all add: irq_port_def irq_num_def GPIO_OFFSET_def pin_port_def pin_num_def
      unat_div unat_mod)

section \<open>Triggers of the GPIO interrupts\<close>

text \<open>The trigger set up for a pin: enabled on the rising edge (or high level), enabled on the
  falling edge (or low level), and level instead of edge.\<close>

definition ren :: "'a hw_scheme \<Rightarrow> u32 \<Rightarrow> bool" where
  "ren s g = bit (mmio s (gpio_reg (pin_port g) IREN)) (pin_num g)"

definition fen :: "'a hw_scheme \<Rightarrow> u32 \<Rightarrow> bool" where
  "fen s g = bit (mmio s (gpio_reg (pin_port g) IFEN)) (pin_num g)"

definition lev :: "'a hw_scheme \<Rightarrow> u32 \<Rightarrow> bool" where
  "lev s g = bit (mmio s (gpio_reg (pin_port g) IMD)) (pin_num g)"

lemmas trig_defs = ren_def fen_def lev_def

lemmas type_ops = set_rtype_def clr_rtype_def set_ftype_def clr_ftype_def

lemma gpio_mask_trigger:
  assumes "g < NUMGPIO" "h < NUMGPIO"
  shows "ren (exec (nuc970_irq_gpio_mask (IRQ_GPIO_START + g)) s) h = (ren s h \<and> h \<noteq> g)"
    and "fen (exec (nuc970_irq_gpio_mask (IRQ_GPIO_START + g)) s) h = (fen s h \<and> h \<noteq> g)"
    and "lev (exec (nuc970_irq_gpio_mask (IRQ_GPIO_START + g)) s) h = lev s h"
  using assms
  by (auto simp: nuc970_irq_gpio_mask_def trig_defs run_simps bit_simps pin_eq_iff[of h g])

lemma gpio_mask_types:
  assumes "g < NUMGPIO"
  shows "RType (exec (nuc970_irq_gpio_mask (IRQ_GPIO_START + g)) s) = RType s"
    and "FType (exec (nuc970_irq_gpio_mask (IRQ_GPIO_START + g)) s) = FType s"
  using assms by (simp_all add: nuc970_irq_gpio_mask_def run_simps)

lemma bit_ucast_and_BIT: "n < 16 \<Longrightarrow> bit (ucast (t :: u16) AND BIT n :: u32) m = (m = n \<and> bit t n)"
  by (auto simp: bit_and_iff bit_BIT bit_ucast_iff dest: bit_imp_le_length)

lemma gpio_unmask_trigger:
  assumes "g < NUMGPIO" "h < NUMGPIO" "pin_num g < 16"
  shows "ren (exec (nuc970_irq_gpio_unmask (IRQ_GPIO_START + g)) s) h
      = (ren s h \<or> h = g \<and> bit (RType s (pin_port g)) (pin_num g))"
    and "fen (exec (nuc970_irq_gpio_unmask (IRQ_GPIO_START + g)) s) h
      = (fen s h \<or> h = g \<and> bit (FType s (pin_port g)) (pin_num g))"
    and "lev (exec (nuc970_irq_gpio_unmask (IRQ_GPIO_START + g)) s) h = lev s h"
  using assms
  by (auto simp: nuc970_irq_gpio_unmask_def trig_defs run_simps bit_or_iff bit_ucast_and_BIT
      pin_eq_iff[of h g])

text \<open>Setting the type writes the same bit to the enable register and to its 16 bit copy.\<close>

lemma gpio_type_copies:
  assumes "g < NUMGPIO" "pin_num g < 16"
  shows "bit (RType (exec (nuc970_irq_gpio_type k (IRQ_GPIO_START + g) t) s) (pin_port g)) (pin_num g)
      = ren (exec (nuc970_irq_gpio_type k (IRQ_GPIO_START + g) t) s) g"
    and "bit (FType (exec (nuc970_irq_gpio_type k (IRQ_GPIO_START + g) t) s) (pin_port g)) (pin_num g)
      = fen (exec (nuc970_irq_gpio_type k (IRQ_GPIO_START + g) t) s) g"
  using assms
  by (simp_all add: nuc970_irq_gpio_type_def type_ops trig_defs run_simps bit_simps)

text \<open>C23. Masking a GPIO interrupt and unmasking it.  Whatever type \<open>t\<close> was set for pin \<open>g\<close>,
  \<open>nuc970_irq_gpio_mask\<close> switches off both enables of that pin and of no other, and the following
  \<open>nuc970_irq_gpio_unmask\<close> brings back exactly the enables that \<open>nuc970_irq_gpio_type\<close> had set,
  on every pin \<open>h\<close>; the level or edge mode is never changed.\<close>

theorem irq_gpio_mask_unmask:
  assumes "g < NUMGPIO" "h < NUMGPIO" "pin_num g < 16"
  shows "let irq = IRQ_GPIO_START + g;
       s1 = exec (nuc970_irq_gpio_type k irq t) s;
       s2 = exec (nuc970_irq_gpio_mask irq) s1;
       s3 = exec (nuc970_irq_gpio_unmask irq) s2
     in ren s2 h = (ren s1 h \<and> h \<noteq> g) \<and> fen s2 h = (fen s1 h \<and> h \<noteq> g)
      \<and> ren s3 h = ren s1 h \<and> fen s3 h = fen s1 h \<and> lev s2 h = lev s1 h \<and> lev s3 h = lev s1 h"
  using assms
  by (auto simp: Let_def gpio_mask_trigger gpio_unmask_trigger gpio_mask_types gpio_type_copies)

text \<open>The documented values of the trigger types, and what the code needs of them.\<close>

definition irq_types_ok :: "irq_types \<Rightarrow> bool" where
  "irq_types_ok k \<longleftrightarrow>
     IRQ_TYPE_LEVEL_MASK k = IRQ_TYPE_LEVEL_HIGH k OR IRQ_TYPE_LEVEL_LOW k
   \<and> (IRQ_TYPE_EDGE_RISING k OR IRQ_TYPE_EDGE_FALLING k) AND IRQ_TYPE_LEVEL_MASK k = 0
   \<and> IRQ_TYPE_EDGE_RISING k AND IRQ_TYPE_EDGE_FALLING k = 0
   \<and> IRQ_TYPE_LEVEL_HIGH k \<noteq> IRQ_TYPE_LEVEL_LOW k
   \<and> 0 \<notin> {IRQ_TYPE_EDGE_RISING k, IRQ_TYPE_EDGE_FALLING k, IRQ_TYPE_LEVEL_HIGH k,
       IRQ_TYPE_LEVEL_LOW k}
   \<and> IRQ_TYPE_PROBE k \<notin> {IRQ_TYPE_EDGE_RISING k, IRQ_TYPE_EDGE_FALLING k,
       IRQ_TYPE_EDGE_RISING k OR IRQ_TYPE_EDGE_FALLING k, IRQ_TYPE_LEVEL_HIGH k,
       IRQ_TYPE_LEVEL_LOW k}"

definition linux_irq_types :: irq_types where
  "linux_irq_types = \<lparr>IRQ_TYPE_EDGE_RISING = 1, IRQ_TYPE_EDGE_FALLING = 2,
     IRQ_TYPE_LEVEL_HIGH = 4, IRQ_TYPE_LEVEL_LOW = 8, IRQ_TYPE_LEVEL_MASK = 0xC,
     IRQ_TYPE_PROBE = 0x10\<rparr>"

lemma linux_irq_types_ok: "irq_types_ok linux_irq_types"
  by (simp add: irq_types_ok_def linux_irq_types_def)

definition trigger :: "'a hw_scheme \<Rightarrow> u32 \<Rightarrow> bool \<times> bool \<times> bool" where
  "trigger s g = (ren s g, fen s g, lev s g)"

lemma gpio_type_frame:
  assumes "g < NUMGPIO" "h < NUMGPIO" "h \<noteq> g"
  shows "trigger (exec (nuc970_irq_gpio_type k (IRQ_GPIO_START + g) t) s) h = trigger s h"
  using assms
  by (auto simp: nuc970_irq_gpio_type_def trigger_def type_ops trig_defs run_simps bit_simps
      pin_eq_iff[of h g])

lemma gpio_type_trigger:
  assumes "g < NUMGPIO" "t \<noteq> IRQ_TYPE_PROBE k"
  shows "trigger (exec (nuc970_irq_gpio_type k (IRQ_GPIO_START + g) t) s) g =
     (if t AND IRQ_TYPE_LEVEL_MASK k \<noteq> 0
      then (t = IRQ_TYPE_LEVEL_HIGH k, t \<noteq> IRQ_TYPE_LEVEL_HIGH k \<and> t = IRQ_TYPE_LEVEL_LOW k, True)
      else (t AND IRQ_TYPE_EDGE_RISING k \<noteq> 0, t AND IRQ_TYPE_EDGE_FALLING k \<noteq> 0, False))"
  using assms
  by (simp add: nuc970_irq_gpio_type_def trigger_def type_ops trig_defs run_simps bit_simps)

lemma or_and_eq_0: "(x OR y) AND m = 0 \<longleftrightarrow> x AND m = 0 \<and> y AND m = (0 :: u32)"
  by (auto simp: bit_eq_iff bit_or_iff bit_and_iff)

lemma irq_types_facts:
  assumes "irq_types_ok k"
  shows "IRQ_TYPE_EDGE_RISING k AND IRQ_TYPE_LEVEL_MASK k = 0"
    "IRQ_TYPE_EDGE_FALLING k AND IRQ_TYPE_LEVEL_MASK k = 0"
    "IRQ_TYPE_EDGE_RISING k AND IRQ_TYPE_EDGE_FALLING k = 0"
    "IRQ_TYPE_EDGE_FALLING k AND IRQ_TYPE_EDGE_RISING k = 0"
  using assms unfolding irq_types_ok_def or_and_eq_0 by (blast, blast, blast, metis and.commute)

lemma irq_types_level:
  assumes "irq_types_ok k"
  shows "IRQ_TYPE_LEVEL_HIGH k AND IRQ_TYPE_LEVEL_MASK k = IRQ_TYPE_LEVEL_HIGH k"
    "IRQ_TYPE_LEVEL_LOW k AND IRQ_TYPE_LEVEL_MASK k = IRQ_TYPE_LEVEL_LOW k"
  using assms by (simp_all add: irq_types_ok_def word_ao_absorbs)

lemma irq_types_distinct:
  assumes "irq_types_ok k"
  shows "IRQ_TYPE_EDGE_RISING k \<noteq> 0" "IRQ_TYPE_EDGE_FALLING k \<noteq> 0" "IRQ_TYPE_LEVEL_HIGH k \<noteq> 0"
    "IRQ_TYPE_LEVEL_LOW k \<noteq> 0" "IRQ_TYPE_EDGE_RISING k \<noteq> IRQ_TYPE_PROBE k"
    "IRQ_TYPE_EDGE_FALLING k \<noteq> IRQ_TYPE_PROBE k"
    "IRQ_TYPE_EDGE_RISING k OR IRQ_TYPE_EDGE_FALLING k \<noteq> IRQ_TYPE_PROBE k"
    "IRQ_TYPE_LEVEL_HIGH k \<noteq> IRQ_TYPE_PROBE k" "IRQ_TYPE_LEVEL_LOW k \<noteq> IRQ_TYPE_PROBE k"
    "IRQ_TYPE_LEVEL_LOW k \<noteq> IRQ_TYPE_LEVEL_HIGH k"
  using assms unfolding irq_types_ok_def by auto

text \<open>Trigger types.  With the documented type constants, \<open>nuc970_irq_gpio_type\<close> sets the
  enables and the mode of the pin as the type says - rising edge, falling edge, both edges, high
  level, low level - and leaves every other pin's trigger alone.\<close>

theorem irq_gpio_type_table:
  assumes "irq_types_ok k" "g < NUMGPIO" "h < NUMGPIO" "h \<noteq> g"
  shows "let set = \<lambda>t. exec (nuc970_irq_gpio_type k (IRQ_GPIO_START + g) t) s in
      trigger (set (IRQ_TYPE_EDGE_RISING k)) g = (True, False, False)
    \<and> trigger (set (IRQ_TYPE_EDGE_FALLING k)) g = (False, True, False)
    \<and> trigger (set (IRQ_TYPE_EDGE_RISING k OR IRQ_TYPE_EDGE_FALLING k)) g = (True, True, False)
    \<and> trigger (set (IRQ_TYPE_LEVEL_HIGH k)) g = (True, False, True)
    \<and> trigger (set (IRQ_TYPE_LEVEL_LOW k)) g = (False, True, True)
    \<and> trigger (set t) h = trigger s h"
  by (simp add: Let_def gpio_type_trigger[OF assms(2)] gpio_type_frame[OF assms(2-4)]
      or_and_eq_0 irq_types_facts[OF assms(1)] irq_types_level[OF assms(1)]
      irq_types_distinct[OF assms(1)])


definition irq_reset :: irq_state where
  "irq_reset = \<lparr>mmio = (\<lambda>_. 0), pins = (\<lambda>_ _. 0), now = 0, wlog = [], fault = False,
     FType = (\<lambda>_. 0), RType = (\<lambda>_. 0), handled = []\<rparr>"

lemma irq_reset_sel [simp]:
  "mmio irq_reset = (\<lambda>_. 0)" "pins irq_reset = (\<lambda>_ _. 0)" "now irq_reset = 0" "wlog irq_reset = []" "handled irq_reset = []"
  by (simp_all add: irq_reset_def)

theorem irq_gpio_mask_unmask_witness:
  "let irq = IRQ_GPIO_START + 228;
       s1 = exec (nuc970_irq_gpio_type linux_irq_types irq 1) irq_reset;
       s3 = exec (nuc970_irq_gpio_unmask irq) (exec (nuc970_irq_gpio_mask irq) s1)
   in ren s1 228 \<and> ren s3 228"
  using irq_gpio_mask_unmask[of 228 228 linux_irq_types 1 irq_reset]
    gpio_type_trigger[of 228 1 linux_irq_types irq_reset]
  by (simp add: Let_def NUMGPIO_def pin_num_def trigger_def linux_irq_types_def)

theorem irq_gpio_type_table_witness:
  "trigger (exec (nuc970_irq_gpio_type linux_irq_types (IRQ_GPIO_START + 228) 3) irq_reset) 228
     = (True, True, False)"
  using irq_gpio_type_table[OF linux_irq_types_ok, of 228 229 irq_reset 0]
  by (simp add: Let_def NUMGPIO_def linux_irq_types_def)

section \<open>Splitting the GPIO interrupt\<close>

text \<open>What the splitting needs of the installed action: it does not itself acknowledge pins,
  and it leaves the outside world alone.  The pending bits are steady while they are served.\<close>

definition quiet_action :: "(u32 \<Rightarrow> ('a irq_state_scheme, unit) state) \<Rightarrow> bool" where
  "quiet_action h \<longleftrightarrow> (\<forall>irq s. pins (exec (h irq) s) = pins s
     \<and> handled (exec (h irq) s) = handled s
     \<and> (\<forall>p<10. written (gpio_reg p ISR) (wlog (exec (h irq) s))
          = written (gpio_reg p ISR) (wlog s)))"

definition steady :: "'a hw_scheme \<Rightarrow> bool" where
  "steady s \<longleftrightarrow> (\<forall>n. pins s n = pins s 0)"

text \<open>The pins of port \<open>p\<close> that its status register shows as pending, in ascending order.\<close>

definition pending :: "'a hw_scheme \<Rightarrow> nat \<Rightarrow> nat list" where
  "pending s p = filter (bit (pins s 0 (gpio_reg p ISR))) [0..<16]"

lemma upt_0_Suc: "[0..<Suc n] = 0 # map Suc [0..<n]"
  by (simp add: map_Suc_upt upt_conv_Cons del: upt_Suc)

lemma filter_bit_Suc:
  "filter (bit w) [0..<Suc n] =
     (if bit w 0 then [0] else []) @ map Suc (filter (bit (drop_bit 1 w)) [0..<n])"
  for w :: "'a::len word"
  by (simp add: upt_0_Suc filter_map o_def bit_drop_bit_eq del: upt_Suc)

lemma handle_quiet:
  assumes "quiet_action h"
  shows "pins (exec (generic_handle_irq h irq) s) = pins s"
    "handled (exec (generic_handle_irq h irq) s) = handled s @ [irq]"
    "p < 10 \<Longrightarrow> written (gpio_reg p ISR) (wlog (exec (generic_handle_irq h irq) s))
       = written (gpio_reg p ISR) (wlog s)"
  using assms by (simp_all add: quiet_action_def generic_handle_irq_def)

lemma demux_pins_exec:
  assumes "quiet_action h" "i < 10" "p < 10"
  shows "pins (exec (demux_pins h i n j w) s) = pins s
    \<and> handled (exec (demux_pins h i n j w) s) = handled s @
        map (\<lambda>k. gpio_irqno i (j + k)) (filter (bit w) [0..<n])
    \<and> written (gpio_reg p ISR) (wlog (exec (demux_pins h i n j w) s)) =
        written (gpio_reg p ISR) (wlog s) @
        (if p = i then map (\<lambda>k. BIT (j + k)) (filter (bit w) [0..<n]) else [])"
proof (induction n arbitrary: j w s)
  case 0 show ?case by simp
next
  case (Suc n)
  show ?case unfolding filter_bit_Suc demux_pins.simps using assms
    by (simp add: Suc bit_simps handle_quiet run_simps o_def del: upt_Suc)
qed


lemma demux_ports_exec:
  assumes "quiet_action h" "p < 10"
  shows "i + n \<le> 10 \<Longrightarrow> steady s \<Longrightarrow>
      pins (exec (demux_ports h n i w) s) = pins s
    \<and> handled (exec (demux_ports h n i w) s) = handled s @
        concat (map (\<lambda>k. map (gpio_irqno (i + k)) (pending s (i + k))) (filter (bit w) [0..<n]))
    \<and> written (gpio_reg p ISR) (wlog (exec (demux_ports h n i w) s)) =
        written (gpio_reg p ISR) (wlog s) @
        (if i \<le> p \<and> p < i + n \<and> bit w (p - i) then map BIT (pending s p) else [])"
proof (induction n arbitrary: i w s)
  case 0 show ?case by auto
next
  case (Suc n)
  have pins_at: "pins s (now s) = pins s 0" using Suc.prems unfolding steady_def by blast
  show ?case
  proof (cases "bit w 0")
    case True
    let ?r = "pins s 0 (gpio_reg i ISR)"
    let ?s = "exec (demux_pins h i 16 0 ?r) (s\<lparr>now := Suc (now s)\<rparr>)"
    have i: "i < 10" using Suc.prems by simp
    have s: "pins ?s = pins s"
      "handled ?s = handled s @ map (gpio_irqno i) (pending s i)"
      "written (gpio_reg p ISR) (wlog ?s) =
         written (gpio_reg p ISR) (wlog s) @ (if p = i then map BIT (pending s p) else [])"
      using demux_pins_exec[OF assms(1) i assms(2), of 16 0 ?r "s\<lparr>now := Suc (now s)\<rparr>"]
      by (auto simp: pending_def)
    then have p: "steady ?s" "pending ?s = pending s"
      using Suc.prems by (auto simp: steady_def pending_def)
    have "exec (demux_ports h (Suc n) i w) s = exec (demux_ports h n (i + 1) (drop_bit 1 w)) ?s"
      using True i by (simp add: bit_simps run_simps pins_at)
    then show ?thesis
      using Suc.IH[of "i + 1" ?s "drop_bit 1 w"] Suc.prems p s True
      by (auto simp: filter_bit_Suc o_def bit_drop_bit_eq Suc_diff_Suc Suc_le_eq
          simp del: upt_Suc demux_ports.simps)
  next
    case False
    then have "exec (demux_ports h (Suc n) i w) s = exec (demux_ports h n (i + 1) (drop_bit 1 w)) s"
      by (simp add: bit_simps)
    then show ?thesis
      using Suc.IH[of "i + 1" s "drop_bit 1 w"] Suc.prems False
      by (auto simp: filter_bit_Suc o_def bit_drop_bit_eq Suc_diff_Suc Suc_le_eq
          simp del: upt_Suc demux_ports.simps)
  qed
qed

lemma REG_GPIO_ISR_input: "REG_GPIO_ISR \<noteq> 0" "hw_input REG_GPIO_ISR"
  by (simp_all add: reg_defs hw_input_def)

text \<open>C11. The group interrupt.  While the status registers are steady,
  \<open>nuc970_irq_demux_intgroup\<close> runs the action of exactly the pending pins of the ports flagged in
  \<open>REG_GPIO_ISR\<close>, each once, in ascending order of port and pin and under the number
  \<open>IRQ_GPIO_START + 32 * port + pin\<close>; and it acknowledges exactly those pins, each by writing its
  own bit to the status register of its port.\<close>

theorem irq_demux_exact:
  assumes "quiet_action h" "steady s" "p < 10"
  shows "let s' = exec (nuc970_irq_demux_intgroup h) s;
       ports = filter (bit (pins s 0 REG_GPIO_ISR)) [0..<10]
     in handled s' = handled s @ concat (map (\<lambda>i. map (gpio_irqno i) (pending s i)) ports)
      \<and> written (gpio_reg p ISR) (wlog s') = written (gpio_reg p ISR) (wlog s) @
           (if p \<in> set ports then map BIT (pending s p) else [])"
proof -
  have "steady (s\<lparr>now := Suc (now s)\<rparr>)" "pending (s\<lparr>now := Suc (now s)\<rparr>) = pending s"
    using assms(2) by (auto simp: steady_def pending_def)
  moreover have "pins s (now s) = pins s 0" using assms(2) unfolding steady_def by blast
  ultimately show ?thesis
    using demux_ports_exec[OF assms(1,3), of 0 10 "s\<lparr>now := Suc (now s)\<rparr>" "pins s 0 REG_GPIO_ISR"]
    by (simp add: nuc970_irq_demux_intgroup_def run_simps REG_GPIO_ISR_input Let_def)
qed

theorem irq_demux_exact_witness:
  "let s = irq_reset\<lparr>pins := \<lambda>_ a. if a = REG_GPIO_ISR then 2 else if a = gpio_reg 1 ISR then 9 else 0\<rparr>
   in handled (exec (nuc970_irq_demux_intgroup (\<lambda>_. return ())) s) = [0x120, 0x123]"
  using irq_demux_exact[of "\<lambda>_. return ()" "irq_reset\<lparr>pins := \<lambda>_ a. if a = REG_GPIO_ISR then 2
      else if a = gpio_reg 1 ISR then 9 else 0\<rparr>" 1]
  by (simp add: Let_def quiet_action_def steady_def pending_def upt_rec reg_defs gpio_irqno_def IRQ_GPIO_START_def)

section \<open>External interrupts\<close>

lemma ext_cases: "k < 16 \<Longrightarrow> k = 0 \<or> k = 1 \<or> k = 2 \<or> k = 3 \<or> k = 4 \<or> k = 5 \<or> k = 6 \<or> k = 7 \<or> k = 8
    \<or> k = 9 \<or> k = 10 \<or> k = 11 \<or> k = 12 \<or> k = 13 \<or> k = 14 \<or> k = (15::nat)"
  by arith

lemma EXT_less: "k < 16 \<Longrightarrow> EXT ! k < NUMGPIO"
  by (drule ext_cases) (elim disjE; simp add: EXT_def NUMGPIO_def)

lemma ext_port_pin:
  assumes "k < 16"
  shows "ext_port (of_nat k) = pin_port (EXT ! k)" "ext_num (of_nat k) = pin_num (EXT ! k)"
proof -
  have "ext_pin (of_nat k) = EXT ! k"
    using assms by (simp add: ext_pin_def EXT_def unat_of_nat)
  then show "ext_port (of_nat k) = pin_port (EXT ! k)" "ext_num (of_nat k) = pin_num (EXT ! k)"
    by (simp_all add: ext_port_def ext_num_def unat_pin_num unat_div GPIO_OFFSET_def pin_port_def pin_num_def unat_mod)
qed

lemma length_EXT: "length EXT = 16"
  by (simp add: EXT_def)

definition ext_pending :: "'a hw_scheme \<Rightarrow> nat \<Rightarrow> u32 \<Rightarrow> bool" where
  "ext_pending s n g = bit (pins s n (gpio_reg (pin_port g) ISR)) (pin_num g)"

lemma demux_ext_handled:
  assumes "quiet_action h" "g0 < NUMGPIO" "g1 < NUMGPIO"
  shows "handled (exec (demux_ext h (pin_port g0) (pin_num g0) (pin_port g1) (pin_num g1) irq0 irq1) s)
     = handled s @ (if ext_pending s (now s) g0 then [irq0]
         else if ext_pending s (Suc (now s)) g1 then [irq1] else [])"
  using assms
  by (simp add: demux_ext_def run_simps bit_simps handle_quiet ext_pending_def)

lemma demux_ext_acked:
  assumes "quiet_action h" "g0 < NUMGPIO" "g1 < NUMGPIO" "p < 10"
  shows "written (gpio_reg p ISR)
        (wlog (exec (demux_ext h (pin_port g0) (pin_num g0) (pin_port g1) (pin_num g1) irq0 irq1) s))
     = written (gpio_reg p ISR) (wlog s) @
         (if ext_pending s (now s) g0 then if p = pin_port g0 then [BIT (pin_num g0)] else []
          else if ext_pending s (Suc (now s)) g1 \<and> p = pin_port g1 then [BIT (pin_num g1)] else [])"
  using assms
  by (simp add: demux_ext_def run_simps bit_simps handle_quiet ext_pending_def)

lemma intgroup2_pair:
  assumes "k < 8"
  shows "nuc970_irq_demux_intgroup2 h (4 + of_nat k) =
     demux_ext h (pin_port (EXT ! k)) (pin_num (EXT ! k)) (pin_port (EXT ! (k + 8)))
       (pin_num (EXT ! (k + 8))) (EXT0_BASE + of_nat k) (EXT0_BASE + of_nat (k + 8))"
proof -
  have "k = 0 \<or> k = 1 \<or> k = 2 \<or> k = 3 \<or> k = 4 \<or> k = 5 \<or> k = 6 \<or> k = 7" using assms by arith
  moreover have "ext_port (of_nat k + 8) = pin_port (EXT ! (k + 8))"
    "ext_num (of_nat k + 8) = pin_num (EXT ! (k + 8))"
    using ext_port_pin[of "k + 8"] assms by simp_all
  ultimately show ?thesis
    using ext_port_pin[of k] assms
    by (elim disjE; hypsubst; simp add: nuc970_irq_demux_intgroup2_def Let_def)
qed

text \<open>Splitting an external interrupt.  For each of the eight lines \<open>k\<close>,
  \<open>nuc970_irq_demux_intgroup2\<close> runs the action of the first pin of the pair when that pin is
  pending, otherwise that of the second pin when it is pending, otherwise none, and acknowledges
  exactly the pin it served.\<close>

theorem irq_ext_demux:
  assumes "quiet_action h" "k < 8" "p < 10"
  shows "let g0 = EXT ! k; g1 = EXT ! (k + 8);
       s' = exec (nuc970_irq_demux_intgroup2 h (4 + of_nat k)) s;
       first = ext_pending s (now s) g0; second = \<not> first \<and> ext_pending s (Suc (now s)) g1
     in handled s' = handled s @ (if first then [EXT0_BASE + of_nat k]
          else if second then [EXT0_BASE + of_nat (k + 8)] else [])
      \<and> written (gpio_reg p ISR) (wlog s') = written (gpio_reg p ISR) (wlog s) @
          (if first \<and> p = pin_port g0 then [BIT (pin_num g0)]
           else if second \<and> p = pin_port g1 then [BIT (pin_num g1)] else [])"
  using assms EXT_less[of k] EXT_less[of "k + 8"]
  by (simp add: Let_def intgroup2_pair demux_ext_handled demux_ext_acked)

theorem irq_ext_demux_witness:
  "handled (exec (nuc970_irq_demux_intgroup2 (\<lambda>_. return ()) 5)
     (irq_reset\<lparr>pins := \<lambda>n a. if a = gpio_reg 5 ISR then 0x1000 else 0\<rparr>)) = [109]"
  using irq_ext_demux[of "\<lambda>_. return ()" 1 5
      "irq_reset\<lparr>pins := \<lambda>n a. if a = gpio_reg 5 ISR then 0x1000 else 0\<rparr>"]
  by (simp add: Let_def quiet_action_def ext_pending_def EXT_def pin_port_def pin_num_def
      EXT0_BASE_def)

text \<open>The pin an interrupt number of this file stands for.\<close>

definition irq_pin :: "u32 \<Rightarrow> u32" where
  "irq_pin r = (if r < IRQ_GPIO_START then ext_pin (r - EXT0_BASE) else r - IRQ_GPIO_START)"

lemma irq_pin_plain:
  assumes "g < NUMGPIO"
  shows "irq_pin (IRQ_GPIO_START + g) = g"
proof -
  have "unat g < 320" using assms by (simp add: NUMGPIO_def word_less_nat_alt)
  then have "\<not> IRQ_GPIO_START + g < IRQ_GPIO_START"
    by (simp add: IRQ_GPIO_START_def word_less_nat_alt unat_word_ariths)
  then show ?thesis by (simp add: irq_pin_def)
qed

lemma irq_pin_ext: "k < 16 \<Longrightarrow> irq_pin (EXT0_BASE + of_nat k) = EXT ! k"
  by (drule ext_cases)
    (elim disjE; simp add: irq_pin_def EXT0_BASE_def IRQ_GPIO_START_def ext_pin_def EXT_def)

lemma ext_or_cases: "result_of (ext_or reg sh ext irqno) s \<in> {ext, irqno}"
  by (simp add: ext_or_def)

lemma to_irq_cases:
  "result_of (nuc970_gpio_core_to_irq g) s = IRQ_GPIO_START + g
   \<or> (\<exists>k<16. g = EXT ! k \<and> result_of (nuc970_gpio_core_to_irq g) s = EXT0_BASE + of_nat k)"
proof (cases "g \<in> set EXT")
  case True
  then obtain k where k: "k < 16" "g = EXT ! k"
    by (auto simp: in_set_conv_nth length_EXT)
  have "result_of (nuc970_gpio_core_to_irq g) s \<in> {EXT0_BASE + of_nat k, IRQ_GPIO_START + g}"
    using ext_cases[OF k(1)] unfolding k(2)
    by (elim disjE; hypsubst; simp add: EXT_def nuc970_gpio_core_to_irq_def Let_def ext_or_def)
  then show ?thesis using k by auto
next
  case False
  then show ?thesis by (simp add: EXT_def nuc970_gpio_core_to_irq_def Let_def)
qed

text \<open>C36. Pins and interrupt numbers.  The number \<open>nuc970_gpio_core_to_irq\<close> hands out for a pin
  always leads the interrupt code back to that pin, be it the plain GPIO number or one of the
  external numbers; two pins never share a number.\<close>

theorem irq_number_roundtrip:
  assumes "g < NUMGPIO"
  shows "irq_pin (result_of (nuc970_gpio_core_to_irq g) s) = g"
  using to_irq_cases[of g s] irq_pin_plain[OF assms] irq_pin_ext by auto

theorem irq_number_roundtrip_witness:
  "irq_pin (result_of (nuc970_gpio_core_to_irq 0xE3) (hw0\<lparr>mmio := \<lambda>_. 0xF000\<rparr>)) = 0xE3"
  by (rule irq_number_roundtrip) (simp add: NUMGPIO_def)

section \<open>The table built at start-up\<close>

text \<open>The chip and the flow handler of a number after a sequence of calls: the last call wins.\<close>

fun chip_after :: "irq_setup list \<Rightarrow> nat \<Rightarrow> irq_chip option \<Rightarrow> irq_chip option" where
  "chip_after [] n c = c"
| "chip_after (irq_set_chip_and_handler m x f # cs) n c = chip_after cs n (if m = n then Some x else c)"
| "chip_after (irq_set_chip m x # cs) n c = chip_after cs n (if m = n then Some x else c)"
| "chip_after (_ # cs) n c = chip_after cs n c"

fun flow_after :: "irq_setup list \<Rightarrow> nat \<Rightarrow> irq_flow option \<Rightarrow> irq_flow option" where
  "flow_after [] n c = c"
| "flow_after (irq_set_chip_and_handler m x f # cs) n c = flow_after cs n (if m = n then Some f else c)"
| "flow_after (irq_set_chained_handler m f # cs) n c = flow_after cs n (if m = n then Some f else c)"
| "flow_after (_ # cs) n c = flow_after cs n c"

lemma chip_after_append [simp]: "chip_after (xs @ ys) n c = chip_after ys n (chip_after xs n c)"
  by (induction xs n c rule: chip_after.induct) simp_all

lemma flow_after_append [simp]: "flow_after (xs @ ys) n c = flow_after ys n (flow_after xs n c)"
  by (induction xs n c rule: flow_after.induct) simp_all

lemma after_chip_and_handler [simp]:
  "chip_after (concat (map (\<lambda>m. [irq_set_chip_and_handler m x f, set_irq_flags m]) ms)) n c
     = (if n \<in> set ms then Some x else c)"
  "flow_after (concat (map (\<lambda>m. [irq_set_chip_and_handler m x f, set_irq_flags m]) ms)) n d
     = (if n \<in> set ms then Some f else d)"
  by (induction ms arbitrary: c d) auto

lemma after_chained [simp]:
  "chip_after (concat (map (\<lambda>m. [irq_set_chip m x, irq_set_chained_handler m f]) ms)) n c
     = (if n \<in> set ms then Some x else c)"
  "flow_after (concat (map (\<lambda>m. [irq_set_chip m x, irq_set_chained_handler m f]) ms)) n d
     = (if n \<in> set ms then Some f else d)"
  by (induction ms arbitrary: c d) auto

text \<open>The interrupt table.  \<open>nuc970_init_irq\<close> gives every number from 1 to 560 a chip and a
  handler: the pins 0x100 to 0x22F the GPIO chip, 100 to 115 the external chip, all others the
  main chip; number 57 is split by \<open>nuc970_irq_demux_intgroup\<close>, 4 to 11 by
  \<open>nuc970_irq_demux_intgroup2\<close>, and the rest are plain level interrupts.\<close>

theorem irq_table:
  "let cs = result_of nuc970_init_irq s in
     chip_after cs n None =
       (if 100 \<le> n \<and> n \<le> 115 then Some nuc970_irq_ext
        else if 0x100 \<le> n \<and> n < 0x230 then Some nuc970_irq_gpio
        else if 1 \<le> n \<and> n \<le> 560 then Some nuc970_irq_chip else None)
   \<and> flow_after cs n None =
       (if n = 57 then Some demux_intgroup
        else if 4 \<le> n \<and> n \<le> 11 then Some demux_intgroup2
        else if 1 \<le> n \<and> n \<le> 560 then Some handle_level_irq else None)"
  by (simp add: nuc970_init_irq_def del: upt_rec_numeral)

end
