(* ===== verification/Kres.thy ===== *)
theory Kres
  imports Nuc_Prelude
begin

text \<open>
  A ledger of the kernel resources a driver holds.  The kernel functions that hand out or take
  back a resource (\<open>kmalloc\<close>, \<open>register_chrdev\<close>, \<open>cdev_add\<close>, \<open>class_create\<close>, \<open>device_create\<close>,
  \<open>proc_create\<close>, \<open>request_irq\<close>, timers and their counterparts) are not part of the sources; what
  the drivers rely on is that a successful request holds the resource until it is given back.
  Whether a request succeeds is an argument of each driver's start-up function.  Giving back a
  resource that is not held is recorded: it is an error the kernel would act on.
\<close>

datatype resource =
    Chrdev string
  | Memory string
  | Cdev string
  | Class string
  | Device string
  | Proc_dir
  | Proc_entry string
  | Irq_line nat
  | Timer string
  | Region string
  | Clk string
  | Clk_prepared string
  | Clk_enabled string
  | Mapped string
  | Adapter string
  | Rtc_dev string
  | Attribute string
  | Spi_master string
  | Workqueue string
  | Bad_class string

record kres =
  held :: "resource \<Rightarrow> bool"
  bogus :: "resource list"

definition acquire :: "resource \<Rightarrow> ('a kres_scheme, unit) state" where
  "acquire r = modify (\<lambda>s. s\<lparr>held := (held s)(r := True)\<rparr>)"

definition release :: "resource \<Rightarrow> ('a kres_scheme, unit) state" where
  "release r = modify (\<lambda>s. if held s r then s\<lparr>held := (held s)(r := False)\<rparr>
     else s\<lparr>bogus := bogus s @ [r]\<rparr>)"

definition none_of :: "resource set \<Rightarrow> 'a kres_scheme \<Rightarrow> bool" where
  "none_of rs s \<longleftrightarrow> (\<forall>r \<in> rs. \<not> held s r)"

text \<open>A request with its outcome: the resource is held when it succeeds.\<close>

definition request :: "bool \<Rightarrow> resource \<Rightarrow> ('a kres_scheme, bool) state" where
  "request ok r = (if ok then do { acquire r; return True } else return False)"

lemma exec_acquire [simp]: "exec (acquire r) s = s\<lparr>held := (held s)(r := True)\<rparr>"
  by (simp add: acquire_def)

lemma exec_release_held: "held s r \<Longrightarrow> exec (release r) s = s\<lparr>held := (held s)(r := False)\<rparr>"
  by (simp add: release_def)

lemma exec_release_missing: "\<not> held s r \<Longrightarrow> exec (release r) s = s\<lparr>bogus := bogus s @ [r]\<rparr>"
  by (simp add: release_def)

lemma held_release [simp]: "held (exec (release r) s) q = (held s q \<and> q \<noteq> r)"
  by (auto simp: release_def)

lemma bogus_release [simp]: "bogus (exec (release r) s) = (if held s r then bogus s else bogus s @ [r])"
  by (simp add: release_def)

lemma more_release [simp]: "kres.more (exec (release r) s) = kres.more s"
  by (simp add: release_def)

lemma result_request [simp]: "result_of (request ok r) s = ok"
  by (simp add: request_def)

lemma held_request [simp]: "held (exec (request ok r) s) q = (held s q \<or> ok \<and> q = r)"
  by (simp add: request_def)

lemma bogus_request [simp]: "bogus (exec (request ok r) s) = bogus s"
  by (simp add: request_def)

lemma more_request [simp]: "kres.more (exec (request ok r) s) = kres.more s"
  by (simp add: request_def)

lemma request_eq: "exec (request ok r) s = (if ok then s\<lparr>held := (held s)(r := True)\<rparr> else s)"
  by (simp add: request_def)

section \<open>Classes and their devices\<close>

text \<open>\<open>class_create\<close> and \<open>device_create\<close> (\<open>src/drivers/base/class.c\<close>, \<open>core.c\<close>) return an error pointer when they fail,
  never a null pointer.  \<open>device_create\<close> and \<open>class_destroy\<close> look for error pointers; \<open>device_destroy\<close> follows the
  class pointer it is given, and does nothing when the class has no such device.  Following an error pointer is
  recorded as \<open>Bad_class\<close>.\<close>

datatype kptr = Null | Err_ptr | Ptr

definition class_create :: "bool \<Rightarrow> string \<Rightarrow> ('a kres_scheme, kptr) state" where
  "class_create ok n = do {
     c \<leftarrow> request ok (Class n);
     return (if c then Ptr else Err_ptr) }"

definition device_create :: "kptr \<Rightarrow> bool \<Rightarrow> string \<Rightarrow> ('a kres_scheme, kptr) state" where
  "device_create cls ok n =
    (if cls = Null \<or> cls = Err_ptr then return Err_ptr
     else do {
       d \<leftarrow> request ok (Device n);
       return (if d then Ptr else Err_ptr) })"

definition device_destroy :: "kptr \<Rightarrow> string \<Rightarrow> ('a kres_scheme, unit) state" where
  "device_destroy cls n = (case cls of
     Null \<Rightarrow> return ()
   | Err_ptr \<Rightarrow> modify (\<lambda>s. s\<lparr>bogus := bogus s @ [Bad_class n]\<rparr>)
   | Ptr \<Rightarrow> do {
       d \<leftarrow> gets (\<lambda>s. held s (Device n));
       if d then release (Device n) else return () })"

definition class_destroy :: "kptr \<Rightarrow> string \<Rightarrow> ('a kres_scheme, unit) state" where
  "class_destroy cls n = (if cls = Null \<or> cls = Err_ptr then return () else release (Class n))"

lemma kptr_if [simp]:
  "(if b then Ptr else Err_ptr) = Null \<longleftrightarrow> False" "(if b then Ptr else Err_ptr) = Ptr \<longleftrightarrow> b"
  "(if b then Ptr else Err_ptr) = Err_ptr \<longleftrightarrow> \<not> b"
  by simp_all

lemma class_create_run [simp]:
  "exec (class_create ok n) s = exec (request ok (Class n)) s" "result_of (class_create ok n) s = (if ok then Ptr else Err_ptr)"
  by (simp_all add: class_create_def)

lemma device_create_run [simp]:
  "exec (device_create cls ok n) s = (if cls = Ptr then exec (request ok (Device n)) s else s)"
  "result_of (device_create cls ok n) s = (if cls = Ptr \<and> ok then Ptr else Err_ptr)"
  by (cases cls; simp add: device_create_def)+

lemma device_destroy_run [simp]:
  "exec (device_destroy Null n) s = s" "exec (device_destroy Err_ptr n) s = s\<lparr>bogus := bogus s @ [Bad_class n]\<rparr>"
  "exec (device_destroy Ptr n) s = (if held s (Device n) then exec (release (Device n)) s else s)"
  by (simp_all add: device_destroy_def)

lemma class_destroy_run [simp]:
  "exec (class_destroy Null n) s = s" "exec (class_destroy Err_ptr n) s = s"
  "exec (class_destroy Ptr n) s = exec (release (Class n)) s"
  by (simp_all add: class_destroy_def)

section \<open>Devices that one process may open\<close>

text \<open>Run a sequence of calls, \<open>True\<close> for open and \<open>False\<close> for release; the number returned is
  successful opens minus successful releases.\<close>

fun open_balance :: "('s, 'f result) state \<Rightarrow> ('s, unit result) state \<Rightarrow> bool list \<Rightarrow> 's
    \<Rightarrow> 's \<times> int" where
  "open_balance opn rel [] s = (s, 0)"
| "open_balance opn rel (True # us) s =
    (let (s', n) = open_balance opn rel us (exec opn s)
     in (s', if isl (result_of opn s) then n else n + 1))"
| "open_balance opn rel (False # us) s =
    (let (s', n) = open_balance opn rel us (exec rel s)
     in (s', if isl (result_of rel s) then n else n - 1))"

locale exclusive_open =
  fixes opn :: "('s, 'f result) state" and rel :: "('s, unit result) state"
    and busy :: "'s \<Rightarrow> bool" and good :: "'s \<Rightarrow> bool"
  assumes open_result: "good s \<Longrightarrow> isl (result_of opn s) = busy s"
    and open_busy: "good s \<Longrightarrow> busy (exec opn s)"
    and open_good: "good s \<Longrightarrow> good (exec opn s)"
    and rel_result: "good s \<Longrightarrow> isl (result_of rel s) = (\<not> busy s)"
    and rel_free: "good s \<Longrightarrow> \<not> busy (exec rel s)"
    and rel_good: "good s \<Longrightarrow> good (exec rel s)"
begin

lemma balance:
  "good s \<Longrightarrow>
     case open_balance opn rel us s of (s', n) \<Rightarrow> of_bool (busy s) + n = of_bool (busy s')"
proof (induction us arbitrary: s)
  case (Cons u us)
  show ?case
  proof (cases u)
    case True
    then show ?thesis using Cons.IH[OF open_good[OF Cons.prems]] Cons.prems
      by (auto simp: open_result open_busy split: prod.splits)
  next
    case False
    then show ?thesis using Cons.IH[OF rel_good[OF Cons.prems]] Cons.prems
      by (auto simp: rel_result rel_free split: prod.splits)
  qed
qed simp

lemma at_most_one:
  assumes "good s" "\<not> busy s"
  shows "snd (open_balance opn rel us s) \<in> {0, 1}"
  using balance[OF assms(1), of us] assms(2) by (auto split: prod.splits)

end

end
