(* ===== verification/Proc_Intf.thy ===== *)
theory Proc_Intf
  imports Kres
begin

text \<open>
  The shared directory \<open>/proc/hndl\<close>, \<open>src/drivers/char/hndl_char_devices/hnos_proc_intf.c\<close>:
  a reference count and a pointer that is set while the directory exists.  Every board driver
  with entries under that directory goes through \<open>hnos_proc_mkdir\<close> and \<open>hnos_proc_rmdir\<close>.
  The outcome of \<open>proc_mkdir\<close> is the argument \<open>ok\<close>.
\<close>

record proc_state = kres +
  hnos_proc_root :: bool
  ref_cnt :: int

definition hnos_proc_mkdir :: "bool \<Rightarrow> ('a proc_state_scheme, bool) state" where
  "hnos_proc_mkdir ok = do {
     modify (\<lambda>s. s\<lparr>ref_cnt := ref_cnt s + 1\<rparr>);
     n \<leftarrow> gets ref_cnt;
     root \<leftarrow> gets hnos_proc_root;
     (if n = 1 \<and> \<not> root then do {
        made \<leftarrow> request ok Proc_dir;
        modify (\<lambda>s. s\<lparr>hnos_proc_root := made\<rparr>)
      } else return ());
     gets hnos_proc_root }"

definition hnos_proc_rmdir :: "('a proc_state_scheme, unit) state" where
  "hnos_proc_rmdir = do {
     modify (\<lambda>s. s\<lparr>ref_cnt := ref_cnt s - 1\<rparr>);
     n \<leftarrow> gets ref_cnt;
     root \<leftarrow> gets hnos_proc_root;
     (if n = 0 \<and> root then do {
        release Proc_dir;
        modify (\<lambda>s. s\<lparr>hnos_proc_root := False\<rparr>)
      } else return ()) }"

text \<open>An entry of the item table: \<open>None\<close> is an item without a name.\<close>

fun remove_items :: "string option list \<Rightarrow> ('a kres_scheme, unit) state" where
  "remove_items [] = return ()"
| "remove_items (None # items) = remove_items items"
| "remove_items (Some name # items) = do { release (Proc_entry name); remove_items items }"

definition hnos_proc_items_remove ::
    "string option list option \<Rightarrow> ('a proc_state_scheme, int) state" where
  "hnos_proc_items_remove items = (case items of
     None \<Rightarrow> return (- 1)
   | Some xs \<Rightarrow> if xs = [] then return (- 1)
       else do { remove_items xs; hnos_proc_rmdir; return 0 })"

section \<open>The directory follows the count\<close>

lemma proc_fields_request [simp]:
  "ref_cnt (exec (request ok r) s) = ref_cnt s"
  "hnos_proc_root (exec (request ok r) s) = hnos_proc_root s"
  by (simp_all add: request_def)

lemma proc_fields_release [simp]:
  "ref_cnt (exec (release r) s) = ref_cnt s"
  "hnos_proc_root (exec (release r) s) = hnos_proc_root s"
  by (simp_all add: release_def)

lemma mkdir_fields:
  "result_of (hnos_proc_mkdir ok) s = (if ref_cnt s = 0 \<and> \<not> hnos_proc_root s then ok else hnos_proc_root s)"
  "hnos_proc_root (exec (hnos_proc_mkdir ok) s)
     = (if ref_cnt s = 0 \<and> \<not> hnos_proc_root s then ok else hnos_proc_root s)"
  "ref_cnt (exec (hnos_proc_mkdir ok) s) = ref_cnt s + 1"
  "held (exec (hnos_proc_mkdir ok) s) q
     = (held s q \<or> q = Proc_dir \<and> ref_cnt s = 0 \<and> \<not> hnos_proc_root s \<and> ok)"
  "bogus (exec (hnos_proc_mkdir ok) s) = bogus s"
  "proc_state.more (exec (hnos_proc_mkdir ok) s) = proc_state.more s"
  by (auto simp: hnos_proc_mkdir_def request_def)

lemma rmdir_fields:
  "hnos_proc_root (exec hnos_proc_rmdir s) = (hnos_proc_root s \<and> ref_cnt s \<noteq> 1)"
  "ref_cnt (exec hnos_proc_rmdir s) = ref_cnt s - 1"
  "held (exec hnos_proc_rmdir s) q = (held s q \<and> \<not> (q = Proc_dir \<and> ref_cnt s = 1 \<and> hnos_proc_root s))"
  "bogus (exec hnos_proc_rmdir s)
     = (if ref_cnt s = 1 \<and> hnos_proc_root s \<and> \<not> held s Proc_dir then bogus s @ [Proc_dir] else bogus s)"
  "proc_state.more (exec hnos_proc_rmdir s) = proc_state.more s"
  by (auto simp: hnos_proc_rmdir_def release_def)

definition proc_ok :: "'a proc_state_scheme \<Rightarrow> bool" where
  "proc_ok s \<longleftrightarrow> 0 \<le> ref_cnt s \<and> hnos_proc_root s = (0 < ref_cnt s)
     \<and> held s Proc_dir = (0 < ref_cnt s)"

lemma mkdir_ok:
  assumes "proc_ok s"
  shows "exec (hnos_proc_mkdir True) s =
       s\<lparr>ref_cnt := ref_cnt s + 1, held := (held s)(Proc_dir := True), hnos_proc_root := True\<rparr>"
    and "result_of (hnos_proc_mkdir True) s"
    and "proc_ok (exec (hnos_proc_mkdir True) s)"
  using assms by (cases s; auto simp: hnos_proc_mkdir_def request_def proc_ok_def fun_upd_idem)+

lemma rmdir_ok:
  assumes "proc_ok s" "0 < ref_cnt s"
  shows "proc_ok (exec hnos_proc_rmdir s)" "ref_cnt (exec hnos_proc_rmdir s) = ref_cnt s - 1"
    "bogus (exec hnos_proc_rmdir s) = bogus s"
  using assms by (auto simp: rmdir_fields proc_ok_def)

definition dir_ok :: "'a proc_state_scheme \<Rightarrow> bool" where
  "dir_ok s \<longleftrightarrow> 0 \<le> ref_cnt s \<and> (hnos_proc_root s \<longrightarrow> 0 < ref_cnt s) \<and> held s Proc_dir = hnos_proc_root s
     \<and> bogus s = []"

lemma dir_ok_steps:
  "dir_ok s \<Longrightarrow> dir_ok (exec (hnos_proc_mkdir ok) s)"
  "dir_ok s \<Longrightarrow> 0 < ref_cnt s \<Longrightarrow> dir_ok (exec hnos_proc_rmdir s)"
  by (auto simp: dir_ok_def mkdir_fields rmdir_fields)

text \<open>The contract the drivers rely on: a count of users, and a directory that is made for the first user and
  removed after the last.  A user comes with \<open>Some ok\<close>, where \<open>ok\<close> is the outcome \<open>proc_mkdir\<close> would have, and goes
  with \<open>None\<close>; the count never gets below zero.\<close>

fun run_users :: "(bool \<Rightarrow> ('s, bool) state) \<Rightarrow> ('s, unit) state \<Rightarrow> bool option list \<Rightarrow> 's \<Rightarrow> 's" where
  "run_users get put [] s = s"
| "run_users get put (Some ok # us) s = run_users get put us (exec (get ok) s)"
| "run_users get put (None # us) s = run_users get put us (exec put s)"

fun proper :: "int \<Rightarrow> bool option list \<Rightarrow> bool" where
  "proper n [] = True"
| "proper n (Some ok # us) = proper (n + 1) us"
| "proper n (None # us) = (0 < n \<and> proper (n - 1) us)"

definition users_after :: "int \<Rightarrow> bool option list \<Rightarrow> int" where
  "users_after n us = n + (\<Sum>u\<leftarrow>us. if u = None then - 1 else 1)"

text \<open>Whether the creation tried for the most recent first user succeeded.\<close>

fun made :: "int \<Rightarrow> bool \<Rightarrow> bool option list \<Rightarrow> bool" where
  "made n p [] = p"
| "made n p (Some ok # us) = made (n + 1) (if n = 0 then ok else p) us"
| "made n p (None # us) = made (n - 1) p us"

lemma users_after_simps [simp]:
  "users_after n [] = n" "users_after n (Some ok # us) = users_after (n + 1) us"
  "users_after n (None # us) = users_after (n - 1) us"
  by (simp_all add: users_after_def)

lemma made_always:
  "set us \<subseteq> {Some True, None} \<Longrightarrow> p \<or> n = 0 \<Longrightarrow> 0 \<le> n \<Longrightarrow> proper n us \<Longrightarrow> 0 < users_after n us \<Longrightarrow> made n p us"
  by (induction n p us rule: made.induct) auto

locale shared_dir =
  fixes mkdir :: "bool \<Rightarrow> ('s, bool) state" and rmdir :: "('s, unit) state"
    and users :: "'s \<Rightarrow> int" and present :: "'s \<Rightarrow> bool" and good :: "'s \<Rightarrow> bool"
  assumes mkdir_good: "good s \<Longrightarrow> good (exec (mkdir ok) s)"
    and mkdir_users: "good s \<Longrightarrow> users (exec (mkdir ok) s) = users s + 1"
    and mkdir_present: "good s \<Longrightarrow> present (exec (mkdir ok) s) = (if users s = 0 then ok else present s)"
    and rmdir_good: "good s \<Longrightarrow> 0 < users s \<Longrightarrow> good (exec rmdir s)"
    and rmdir_users: "good s \<Longrightarrow> 0 < users s \<Longrightarrow> users (exec rmdir s) = users s - 1"
    and rmdir_present: "good s \<Longrightarrow> 0 < users s \<Longrightarrow> present (exec rmdir s) = (present s \<and> users s \<noteq> 1)"
    and users_pos: "good s \<Longrightarrow> 0 \<le> users s"
    and present_used: "good s \<Longrightarrow> present s \<Longrightarrow> 0 < users s"
begin

lemma run_good:
  "good s \<Longrightarrow> proper (users s) us \<Longrightarrow>
     good (run_users mkdir rmdir us s) \<and> users (run_users mkdir rmdir us s) = users_after (users s) us"
proof (induction us arbitrary: s)
  case (Cons u us)
  then show ?case by (cases u) (simp_all add: mkdir_good mkdir_users rmdir_good rmdir_users)
qed simp

lemma run_made:
  "good s \<Longrightarrow> proper (users s) us \<Longrightarrow> present s = (0 < users s \<and> p) \<Longrightarrow>
     present (run_users mkdir rmdir us s) = (0 < users_after (users s) us \<and> made (users s) p us)"
proof (induction "users s" p us arbitrary: s rule: made.induct)
  case (2 p ok us)
  have "0 \<le> users s" by (rule users_pos[OF 2(2)])
  then have "present (exec (mkdir ok) s) = (0 < users (exec (mkdir ok) s) \<and> (if users s = 0 then ok else p))"
    using 2 by (auto simp: mkdir_present mkdir_users)
  then show ?case using 2 by (simp add: mkdir_good mkdir_users)
next
  case (3 p us)
  then have "present (exec rmdir s) = (0 < users (exec rmdir s) \<and> p)"
    by (auto simp: rmdir_present rmdir_users)
  then show ?case using 3 by (simp add: rmdir_good rmdir_users)
qed simp

lemma run_present:
  assumes "good s" "proper (users s) us"
  shows "present (run_users mkdir rmdir us s) = (0 < users_after (users s) us \<and> made (users s) (present s) us)"
  using run_made[OF assms] present_used[OF assms(1)] by blast

end

interpretation hnos_dir: shared_dir hnos_proc_mkdir hnos_proc_rmdir ref_cnt "\<lambda>s. held s Proc_dir" dir_ok
  by unfold_locales (auto simp: dir_ok_steps dir_ok_def mkdir_fields rmdir_fields)

text \<open>C37. Lifetime of \<open>/proc/hndl\<close>.  After any sequence of \<open>hnos_proc_mkdir\<close> and
  \<open>hnos_proc_rmdir\<close> calls in which no driver gives back more than was taken, whatever \<open>proc_mkdir\<close> answers, the
  count is the number of users, and the directory and the pointer to it exist exactly while there are users and
  the one creation tried for the first of them succeeded; the directory is never removed twice.  When \<open>proc_mkdir\<close>
  never fails, it exists exactly while some driver uses it.\<close>

theorem proc_dir_lifetime:
  assumes "dir_ok s" "proper (ref_cnt s) us"
  shows "let s' = run_users hnos_proc_mkdir hnos_proc_rmdir us s in
     ref_cnt s' = users_after (ref_cnt s) us
   \<and> held s' Proc_dir = (0 < ref_cnt s' \<and> made (ref_cnt s) (hnos_proc_root s) us)
   \<and> hnos_proc_root s' = held s' Proc_dir \<and> bogus s' = []
   \<and> (set us \<subseteq> {Some True, None} \<and> hnos_proc_root s = (0 < ref_cnt s) \<longrightarrow> held s' Proc_dir = (0 < ref_cnt s'))"
proof -
  have "held s Proc_dir = hnos_proc_root s" "0 \<le> ref_cnt s" using assms(1) by (simp_all add: dir_ok_def)
  then show ?thesis
    using hnos_dir.run_good[OF assms] hnos_dir.run_present[OF assms] made_always[of us "hnos_proc_root s" "ref_cnt s"] assms(2)
    unfolding Let_def by (auto simp: dir_ok_def)
qed

definition proc0 :: proc_state where
  "proc0 = \<lparr>held = (\<lambda>_. False), bogus = [], hnos_proc_root = False, ref_cnt = 0\<rparr>"

theorem proc_dir_lifetime_witness:
  "held (run_users hnos_proc_mkdir hnos_proc_rmdir [Some True, Some False, None] proc0) Proc_dir
   \<and> \<not> held (run_users hnos_proc_mkdir hnos_proc_rmdir [Some True, Some True, None, None] proc0) Proc_dir
   \<and> \<not> held (run_users hnos_proc_mkdir hnos_proc_rmdir [Some False, Some True] proc0) Proc_dir"
  using proc_dir_lifetime[of proc0 "[Some True, Some False, None]"]
    proc_dir_lifetime[of proc0 "[Some True, Some True, None, None]"] proc_dir_lifetime[of proc0 "[Some False, Some True]"]
  by (simp add: Let_def proc0_def dir_ok_def)

lemma mkdir_refused:
  assumes "\<not> hnos_proc_root s" "0 < ref_cnt s"
  shows "\<not> result_of (hnos_proc_mkdir ok) s \<and> \<not> hnos_proc_root (exec (hnos_proc_mkdir ok) s)
    \<and> ref_cnt (exec (hnos_proc_mkdir ok) s) = ref_cnt s + 1"
  using assms by (simp add: mkdir_fields)

fun mkdir_all :: "bool list \<Rightarrow> ('a proc_state_scheme, bool) state" where
  "mkdir_all [] = return False"
| "mkdir_all (ok # oks) = do {
     r \<leftarrow> hnos_proc_mkdir ok;
     q \<leftarrow> mkdir_all oks;
     return (r \<or> q) }"

lemma mkdir_all_refused:
  "\<not> hnos_proc_root s \<Longrightarrow> 0 < ref_cnt s \<Longrightarrow> \<not> result_of (mkdir_all oks) s"
proof (induction oks arbitrary: s)
  case (Cons ok oks)
  then show ?case using mkdir_refused[of s ok] by simp
qed simp

text \<open>A failed creation is final.  When \<open>proc_mkdir\<close> fails for the first user, the count
  stays at one, so every later \<open>hnos_proc_mkdir\<close> fails as well, even if \<open>proc_mkdir\<close> would now
  succeed: the creation is never tried again.\<close>

theorem proc_mkdir_failure_sticks:
  assumes "\<not> hnos_proc_root s" "ref_cnt s = 0"
  shows "\<not> result_of (do { r \<leftarrow> hnos_proc_mkdir False; q \<leftarrow> mkdir_all oks; return (r \<or> q) }) s"
proof -
  have "\<not> hnos_proc_root (exec (hnos_proc_mkdir False) s)" "ref_cnt (exec (hnos_proc_mkdir False) s) = 1"
    "\<not> result_of (hnos_proc_mkdir False) s"
    using assms by (simp_all add: mkdir_fields)
  then show ?thesis by (simp add: mkdir_all_refused)
qed

theorem proc_mkdir_failure_sticks_witness:
  "\<not> result_of (do { r \<leftarrow> hnos_proc_mkdir False; q \<leftarrow> mkdir_all [True]; return (r \<or> q) }) proc0"
  by (rule proc_mkdir_failure_sticks) (simp_all add: proc0_def)

end
