(* ===== verification/Kbd_Core.thy ===== *)
theory Kbd_Core
  imports Proc_Intf
begin

text \<open>
  The keyboard character device, \<open>src/drivers/char/hndl_char_devices/hnos_kbd_core.c\<close>: a circular
  buffer of key codes filled by the key scanner, read by one process, with a write side that
  switches the backlight, and the start-up and clean-up of the module.

  The macros of \<open>linux/circ_buf.h\<close> are a parameter of type \<open>circ_ops\<close>; \<open>circ_ok\<close> states what
  that header documents.  Blocking is made explicit: \<open>kb_read\<close> takes the outcomes of its
  successive \<open>wait_event_interruptible\<close> calls, with what others did to the buffer meanwhile,
  and returns \<open>None\<close> while it would still be waiting.
\<close>

section \<open>The circular buffer\<close>

record circ_ops =
  CIRC_CNT :: "nat \<Rightarrow> nat \<Rightarrow> nat \<Rightarrow> nat"
  CIRC_SPACE :: "nat \<Rightarrow> nat \<Rightarrow> nat \<Rightarrow> nat"
  CIRC_CNT_TO_END :: "nat \<Rightarrow> nat \<Rightarrow> nat \<Rightarrow> nat"
  CIRC_SPACE_TO_END :: "nat \<Rightarrow> nat \<Rightarrow> nat \<Rightarrow> nat"

definition circ_ok :: "circ_ops \<Rightarrow> bool" where
  "circ_ok k \<longleftrightarrow> (\<forall>h t n. h < n \<longrightarrow> t < n \<longrightarrow>
     CIRC_CNT k h t n = (h + n - t) mod n
   \<and> CIRC_SPACE k h t n = n - 1 - CIRC_CNT k h t n
   \<and> CIRC_CNT_TO_END k h t n = min (CIRC_CNT k h t n) (n - t)
   \<and> CIRC_SPACE_TO_END k h t n = min (CIRC_SPACE k h t n) (n - h))"

record circ_buf =
  buf :: "u8 list"
  head :: nat
  tail :: nat

definition KB_BUF_LEN :: nat where "KB_BUF_LEN = push_bit 8 1"

definition kb_buf_clear :: "circ_buf \<Rightarrow> circ_buf" where
  "kb_buf_clear cb = cb\<lparr>head := 0, tail := 0\<rparr>"

definition kb_buf_data_avail :: "circ_ops \<Rightarrow> circ_buf \<Rightarrow> nat" where
  "kb_buf_data_avail k cb = CIRC_CNT k (head cb) (tail cb) KB_BUF_LEN"

definition kb_buf_space_avail :: "circ_ops \<Rightarrow> circ_buf \<Rightarrow> nat" where
  "kb_buf_space_avail k cb = CIRC_SPACE k (head cb) (tail cb) KB_BUF_LEN"

text \<open>\<open>memcpy\<close> into an array at an index; it never changes the length when it stays inside.\<close>

definition memcpy_to :: "'b list \<Rightarrow> nat \<Rightarrow> 'b list \<Rightarrow> 'b list" where
  "memcpy_to dst i src = take i dst @ src @ drop (i + length src) dst"

text \<open>The bytes to put are the list; its length is the C argument \<open>count\<close>.\<close>

function kb_buf_put :: "circ_ops \<Rightarrow> circ_buf \<Rightarrow> u8 list \<Rightarrow> circ_buf \<times> nat" where
  "kb_buf_put k cb data =
    (let space = CIRC_SPACE_TO_END k (head cb) (tail cb) KB_BUF_LEN;
         c = (if length data < space then length data else space)
     in if c \<le> 0 then (cb, 0)
        else let cb' = cb\<lparr>buf := memcpy_to (buf cb) (head cb) (take c data),
                          head := (head cb + c) AND (KB_BUF_LEN - 1)\<rparr>;
                 (cb'', ret) = kb_buf_put k cb' (drop c data)
             in (cb'', c + ret))"
  by auto
termination
  by (relation "measure (\<lambda>(k, cb, data). length data)") (auto split: if_splits)

function kb_buf_get :: "circ_ops \<Rightarrow> circ_buf \<Rightarrow> nat \<Rightarrow> circ_buf \<times> u8 list" where
  "kb_buf_get k cb count =
    (let avail = CIRC_CNT_TO_END k (head cb) (tail cb) KB_BUF_LEN;
         c = (if count < avail then count else avail)
     in if c \<le> 0 then (cb, [])
        else let got = take c (drop (tail cb) (buf cb));
                 cb' = cb\<lparr>tail := (tail cb + c) AND (KB_BUF_LEN - 1)\<rparr>;
                 (cb'', rest) = kb_buf_get k cb' (count - c)
             in (cb'', got @ rest))"
  by auto
termination
  by (relation "measure (\<lambda>(k, cb, count). count)") (auto split: if_splits)

declare kb_buf_put.simps [simp del] kb_buf_get.simps [simp del]

section \<open>The device\<close>

text \<open>\<open>dev\<close> says whether \<open>hndl_kb_device\<close> is set; \<open>cir_buf\<close> is its buffer pointer.  \<open>blt\<close> is
  whether a backlight routine is registered;
  \<open>kfault\<close> records the use of a null pointer.\<close>

record kbd = proc_state +
  dev :: bool
  is_open :: bool
  lastkey_time :: nat
  cir_buf :: "circ_buf option"
  myclass :: kptr
  hndl_proc_dir :: bool
  blt :: bool
  kfault :: bool

definition with_buf :: "(circ_buf \<Rightarrow> circ_buf) \<Rightarrow> ('a kbd_scheme, unit) state" where
  "with_buf f = modify (\<lambda>s. case cir_buf s of None \<Rightarrow> s\<lparr>kfault := True\<rparr>
     | Some cb \<Rightarrow> s\<lparr>cir_buf := Some (f cb)\<rparr>)"

definition kb_lastkey_time_update :: "nat \<Rightarrow> ('a kbd_scheme, unit) state" where
  "kb_lastkey_time_update uptime = modify (\<lambda>s. if dev s then s\<lparr>lastkey_time := uptime\<rparr>
     else s\<lparr>kfault := True\<rparr>)"

definition kb_key_insert :: "circ_ops \<Rightarrow> nat \<Rightarrow> u8 \<Rightarrow> ('a kbd_scheme, unit) state" where
  "kb_key_insert k uptime key = do {
     d \<leftarrow> gets dev;
     if \<not> d then return ()
     else do {
       with_buf (\<lambda>cb. fst (kb_buf_put k cb [key]));
       kb_lastkey_time_update uptime
     } }"

definition kb_custom_key_insert :: "circ_ops \<Rightarrow> u8 list option \<Rightarrow> ('a kbd_scheme, unit) state" where
  "kb_custom_key_insert k key = do {
     d \<leftarrow> gets dev;
     case key of
       None \<Rightarrow> return ()
     | Some bytes \<Rightarrow> if \<not> d then return ()
         else with_buf (\<lambda>cb. fst (kb_buf_put k cb bytes)) }"

text \<open>The argument is whether the routine passed in is not null.\<close>

definition lcd_blt_register :: "bool \<Rightarrow> ('a kbd_scheme, unit result) state" where
  "lcd_blt_register routine = do {
     b \<leftarrow> gets blt;
     if b then return (Inl EBUSY)
     else if \<not> routine then return (Inl EINVAL)
     else do { modify (\<lambda>s. s\<lparr>blt := True\<rparr>); return (Inr ()) } }"

definition lcd_blt_unregister :: "bool \<Rightarrow> ('a kbd_scheme, unit result) state" where
  "lcd_blt_unregister routine = do {
     b \<leftarrow> gets blt;
     if \<not> b then return (Inl EBUSY)
     else if \<not> routine then return (Inl EINVAL)
     else do { modify (\<lambda>s. s\<lparr>blt := False\<rparr>); return (Inr ()) } }"

definition kb_open :: "('a kbd_scheme, unit result) state" where
  "kb_open = do {
     was \<leftarrow> gets is_open;
     modify (\<lambda>s. s\<lparr>is_open := True\<rparr>);
     return (if was then Inl EBUSY else Inr ()) }"

definition kb_release :: "('a kbd_scheme, unit result) state" where
  "kb_release = do {
     was \<leftarrow> gets is_open;
     modify (\<lambda>s. s\<lparr>is_open := False\<rparr>);
     return (if was then Inr () else Inl EINVAL) }"

section \<open>Reading\<close>

definition kb_buf_not_empty :: "circ_ops \<Rightarrow> circ_buf \<Rightarrow> bool" where
  "kb_buf_not_empty k cb \<longleftrightarrow> 0 < kb_buf_data_avail k cb"

text \<open>What others do to the buffer: a producer puts bytes, another reader takes some.\<close>

datatype ring_op = Put "u8 list" | Get nat

fun ring_run :: "circ_ops \<Rightarrow> ring_op list \<Rightarrow> circ_buf \<Rightarrow> circ_buf" where
  "ring_run k [] cb = cb"
| "ring_run k (Put xs # os) cb = ring_run k os (fst (kb_buf_put k cb xs))"
| "ring_run k (Get n # os) cb = ring_run k os (fst (kb_buf_get k cb n))"

text \<open>The outcome of one wait: interrupted by a signal, or woken after some buffer operations.\<close>

datatype wait_end = Signal | Woken "ring_op list"

fun kb_wait :: "circ_ops \<Rightarrow> bool \<Rightarrow> wait_end list \<Rightarrow> circ_buf \<Rightarrow> unit result option \<times> circ_buf" where
  "kb_wait k nonblock ws cb =
    (if kb_buf_not_empty k cb then (Some (Inr ()), cb)
     else if nonblock then (Some (Inl EAGAIN), cb)
     else case ws of
       [] \<Rightarrow> (None, cb)
     | Signal # _ \<Rightarrow> (Some (Inl ERESTARTSYS), cb)
     | Woken os # ws' \<Rightarrow> kb_wait k nonblock ws' (ring_run k os cb))"

declare kb_wait.simps [simp del]

text \<open>\<open>key_v\<close> starts as four 0xff bytes and receives the bytes taken from the buffer at its
  front; \<open>copied\<close> is whether \<open>copy_to_user\<close> succeeds.\<close>

definition kb_read :: "circ_ops \<Rightarrow> bool \<Rightarrow> wait_end list \<Rightarrow> bool \<Rightarrow> nat \<Rightarrow> circ_buf
    \<Rightarrow> u8 list result option \<times> circ_buf" where
  "kb_read k nonblock ws copied count cb =
    (let sz_key_kernel = (if count = 4 then 4 else 1);
         sz_key_userspace = (if count = 4 then 4 else 2)
     in case kb_wait k nonblock ws cb of
       (None, cb') \<Rightarrow> (None, cb')
     | (Some (Inl e), cb') \<Rightarrow> (Some (Inl e), cb')
     | (Some (Inr _), cb') \<Rightarrow>
         let (cb'', got) = kb_buf_get k cb' sz_key_kernel;
             key_v = got @ drop (length got) [0xff, 0xff, 0xff, 0xff]
         in if length got \<noteq> sz_key_kernel then (Some (Inl EFAULT), cb'')
            else if \<not> copied then (Some (Inl EFAULT), cb'')
            else (Some (Inr (take sz_key_userspace key_v)), cb''))"

text \<open>\<open>user\<close> is the byte \<open>get_user\<close> fetches, or \<open>None\<close> when it fails.  The registered backlight routine belongs to
  another driver and works on that driver's state; whether one is registered and the routine itself are
  arguments.\<close>

definition kb_write :: "('s \<Rightarrow> bool) \<Rightarrow> (u32 \<Rightarrow> ('s, unit result) state) \<Rightarrow> nat \<Rightarrow> u8 option \<Rightarrow> ('s, nat result) state" where
  "kb_write registered lcd_backlight count user = do {
     b \<leftarrow> gets registered;
     if count \<noteq> 1 then return (Inl EINVAL)
     else if \<not> b then return (Inl EINVAL)
     else case user of
       None \<Rightarrow> return (Inl EFAULT)
     | Some data \<Rightarrow> do {
         lcd_backlight (if data \<noteq> 0 then 1 else 0);
         return (Inr 1) } }"

definition kb_lastkey_time_read :: "nat \<Rightarrow> nat \<Rightarrow> ('a kbd_scheme, bool \<times> string) state" where
  "kb_lastkey_time_read off count = do {
     tv_sec \<leftarrow> gets lastkey_time;
     return (proc_window (show_dec tv_sec @ ''\<newline>'') off count) }"

fun kb_drain :: "circ_ops \<Rightarrow> nat \<Rightarrow> circ_buf \<Rightarrow> circ_buf \<times> string" where
  "kb_drain k 0 cb = (cb, [])"
| "kb_drain k (Suc n) cb =
    (let (cb', got) = kb_buf_get k cb 1; (cb'', rest) = kb_drain k n cb'
     in (cb'', concat (map (\<lambda>b. show_hex2 b @ ''\<newline>'') got) @ rest))"

definition kb_proc_read :: "circ_ops \<Rightarrow> circ_buf \<Rightarrow> circ_buf \<times> string" where
  "kb_proc_read k cb =
    (let len = kb_buf_data_avail k cb;
         title = ''data available='' @ show_dec len @ '', space available='' @
           show_dec (kb_buf_space_avail k cb) @ ''\<newline>'';
         (cb', keys) = kb_drain k len cb
     in (cb', title @ keys @ ''\<newline>''))"

section \<open>Start-up and clean-up\<close>

text \<open>The outcomes of the kernel calls of \<open>kb_module_init\<close>, in order.\<close>

record kb_env =
  ok_chrdev :: bool
  ok_device :: bool
  ok_ring :: bool
  ok_ringbuf :: bool
  ok_class :: bool
  ok_node :: bool
  ok_cdev :: bool
  ok_debug :: bool
  ok_dir :: bool
  ok_time :: bool

abbreviation (input) KB_NAME :: string where "KB_NAME \<equiv> ''hndl1000kb''"

definition kb_buf_alloc :: "bool \<Rightarrow> bool \<Rightarrow> ('a kres_scheme, circ_buf option) state" where
  "kb_buf_alloc ok1 ok2 = do {
     cb \<leftarrow> request ok1 (Memory ''circ_buf'');
     if \<not> cb then return None
     else do {
       b \<leftarrow> request ok2 (Memory ''circ_buf.buf'');
       if \<not> b then do { release (Memory ''circ_buf''); return None }
       else return (Some (kb_buf_clear \<lparr>buf = replicate KB_BUF_LEN 0, head = 0, tail = 0\<rparr>))
     } }"

definition kb_buf_free :: "('a kres_scheme, unit) state" where
  "kb_buf_free = do { release (Memory ''circ_buf.buf''); release (Memory ''circ_buf'') }"

definition kb_cdev_setup :: "bool \<Rightarrow> ('a kres_scheme, unit) state" where
  "kb_cdev_setup ok = do { _ \<leftarrow> request ok (Cdev KB_NAME); return () }"

definition kb_module_cleanup :: "('a kbd_scheme, unit) state" where
  "kb_module_cleanup = do {
     release (Proc_entry KB_NAME);
     p \<leftarrow> gets hndl_proc_dir;
     (if p then do { release (Proc_entry ''last_key_time''); hnos_proc_rmdir } else return ());
     d \<leftarrow> gets dev;
     (if d then do {
        release (Cdev KB_NAME);
        cb \<leftarrow> gets cir_buf;
        (if cb \<noteq> None then kb_buf_free else return ());
        c \<leftarrow> gets myclass;
        (if c \<noteq> Null then do { device_destroy c KB_NAME; class_destroy c KB_NAME } else return ());
        release (Memory ''hndl_kb_cdev'');
        modify (\<lambda>s. s\<lparr>dev := False, cir_buf := None, myclass := Null, is_open := False\<rparr>)
      } else return ());
     release (Chrdev KB_NAME) }"

text \<open>The part of \<open>kb_module_init\<close> up to the label \<open>fail\<close>: \<open>Inl\<close> is a jump there with the
  value of \<open>result\<close> (\<open>Inr ()\<close> inside means 0).\<close>

definition kb_module_setup :: "kb_env \<Rightarrow> ('a kbd_scheme, unit result + unit) state" where
  "kb_module_setup e = do {
     d \<leftarrow> request (ok_device e) (Memory ''hndl_kb_cdev'');
     if \<not> d then return (Inl (Inl ENOMEM))
     else do {
       modify (\<lambda>s. s\<lparr>dev := True, is_open := False, lastkey_time := 0, cir_buf := None,
         myclass := Null\<rparr>);
       cb \<leftarrow> kb_buf_alloc (ok_ring e) (ok_ringbuf e);
       modify (\<lambda>s. s\<lparr>cir_buf := cb\<rparr>);
       if cb = None then return (Inl (Inl ENOMEM))
       else do {
         c \<leftarrow> class_create (ok_class e) KB_NAME;
         if c = Null then return (Inl (Inr ()))
         else do {
           device_create c (ok_node e) KB_NAME;
           modify (\<lambda>s. s\<lparr>myclass := c\<rparr>);
           kb_cdev_setup (ok_cdev e);
           request (ok_debug e) (Proc_entry KB_NAME);
           p \<leftarrow> hnos_proc_mkdir (ok_dir e);
           modify (\<lambda>s. s\<lparr>hndl_proc_dir := p\<rparr>);
           if \<not> p then return (Inl (Inl ENODEV))
           else do {
             t \<leftarrow> request (ok_time e) (Proc_entry ''last_key_time'');
             return (if t then Inr () else Inl (Inl EPERM))
           } } } } }"

definition kb_module_init :: "kb_env \<Rightarrow> ('a kbd_scheme, unit result) state" where
  "kb_module_init e = do {
     r \<leftarrow> request (ok_chrdev e) (Chrdev KB_NAME);
     if \<not> r then return (Inl EBUSY)
     else do {
       res \<leftarrow> kb_module_setup e;
       case res of
         Inr _ \<Rightarrow> return (Inr ())
       | Inl result \<Rightarrow> do { kb_module_cleanup; return result } } }"

section \<open>The buffer is a bounded queue\<close>

definition ring_ok :: "circ_buf \<Rightarrow> bool" where
  "ring_ok cb \<longleftrightarrow> length (buf cb) = 256 \<and> head cb < 256 \<and> tail cb < 256"

definition ring_len :: "circ_buf \<Rightarrow> nat" where
  "ring_len cb = (head cb + 256 - tail cb) mod 256"

definition ring_list :: "circ_buf \<Rightarrow> u8 list" where
  "ring_list cb = map (\<lambda>i. buf cb ! ((tail cb + i) mod 256)) [0..<ring_len cb]"

lemma length_ring_list [simp]: "length (ring_list cb) = ring_len cb"
  by (simp add: ring_list_def)

lemma KB_BUF_LEN_256: "KB_BUF_LEN = 256"
  by (simp add: KB_BUF_LEN_def)

lemma and_255: "n AND 255 = n mod (256::nat)"
  using take_bit_eq_mask[of 8 n] by (simp add: take_bit_eq_mod mask_eq_exp_minus_1)

lemma wrap_256: "a < 256 \<Longrightarrow> b \<le> 256 \<Longrightarrow> (a + b) mod 256 = (if a + b < 256 then a + b else a + b - (256::nat))"
  by (simp add: mod_if)

lemma ring_len_cases:
  "ring_ok cb \<Longrightarrow> ring_len cb = (if tail cb \<le> head cb then head cb - tail cb else head cb + 256 - tail cb)"
  by (auto simp: ring_ok_def ring_len_def mod_if)

lemma ring_len_less: "ring_ok cb \<Longrightarrow> ring_len cb < 256"
  by (simp add: ring_len_def)

lemma nth_memcpy_to:
  "i + length src \<le> length dst \<Longrightarrow> j < length dst \<Longrightarrow>
     memcpy_to dst i src ! j = (if i \<le> j \<and> j < i + length src then src ! (j - i) else dst ! j)"
  by (auto simp: memcpy_to_def nth_append min_def)

lemma length_memcpy_to [simp]:
  "i + length src \<le> length dst \<Longrightarrow> length (memcpy_to dst i src) = length dst"
  by (simp add: memcpy_to_def)

text \<open>One round of the copy loop of \<open>kb_buf_put\<close>, and of \<open>kb_buf_get\<close>.\<close>

lemma ring_put_step:
  assumes "ring_ok cb" "head cb + length xs \<le> 256" "ring_len cb + length xs \<le> 255"
  defines "cb' \<equiv> cb\<lparr>buf := memcpy_to (buf cb) (head cb) xs, head := (head cb + length xs) mod 256\<rparr>"
  shows "ring_ok cb'" "ring_list cb' = ring_list cb @ xs"
proof -
  show ok: "ring_ok cb'" using assms by (simp add: ring_ok_def)
  have len: "ring_len cb' = ring_len cb + length xs"
    using assms(1-3) ok ring_len_cases[OF assms(1)] ring_len_cases[OF ok]
    by (auto simp: cb'_def wrap_256 ring_ok_def split: if_splits)
  show "ring_list cb' = ring_list cb @ xs"
  proof (rule nth_equalityI)
    show "length (ring_list cb') = length (ring_list cb @ xs)" by (simp add: len)
  next
    fix i assume "i < length (ring_list cb')"
    then have i: "i < ring_len cb + length xs" by (simp add: len)
    have "ring_list cb' ! i = memcpy_to (buf cb) (head cb) xs ! ((tail cb + i) mod 256)"
      using i by (simp add: ring_list_def len) (simp add: cb'_def)
    also have "\<dots> = (ring_list cb @ xs) ! i"
    proof (cases "i < ring_len cb")
      case True
      have "\<not> (head cb \<le> (tail cb + i) mod 256 \<and> (tail cb + i) mod 256 < head cb + length xs)"
        using True assms(1-3) ring_len_cases[OF assms(1)]
        by (auto simp: wrap_256 ring_ok_def split: if_splits)
      then show ?thesis
        using True assms(1,2) by (auto simp: nth_memcpy_to ring_ok_def nth_append ring_list_def)
    next
      case False
      then obtain j where j: "i = ring_len cb + j" "j < length xs"
        using i by (metis le_Suc_ex linorder_not_less nat_add_left_cancel_less)
      have "(tail cb + i) mod 256 = head cb + j"
        using j assms(1-3) ring_len_cases[OF assms(1)]
        by (auto simp: wrap_256 ring_ok_def split: if_splits)
      then show ?thesis
        using j assms(1,2) by (simp add: nth_memcpy_to ring_ok_def nth_append)
    qed
    finally show "ring_list cb' ! i = (ring_list cb @ xs) ! i" .
  qed
qed

lemma ring_get_step:
  assumes "ring_ok cb" "c \<le> ring_len cb" "tail cb + c \<le> 256"
  defines "cb' \<equiv> cb\<lparr>tail := (tail cb + c) mod 256\<rparr>"
  shows "ring_ok cb'" "ring_list cb' = drop c (ring_list cb)"
    "take c (drop (tail cb) (buf cb)) = take c (ring_list cb)"
proof -
  show ok: "ring_ok cb'" using assms by (simp add: ring_ok_def)
  have len: "ring_len cb' = ring_len cb - c"
    using assms(1-3) ok ring_len_cases[OF assms(1)] ring_len_cases[OF ok]
    by (auto simp: cb'_def wrap_256 ring_ok_def split: if_splits)
  show "ring_list cb' = drop c (ring_list cb)"
  proof (rule nth_equalityI)
    show "length (ring_list cb') = length (drop c (ring_list cb))" by (simp add: len)
  next
    fix i assume "i < length (ring_list cb')"
    then have i: "i < ring_len cb - c" by (simp add: len)
    have "ring_list cb' ! i = buf cb ! (((tail cb + c) mod 256 + i) mod 256)"
      using i by (simp add: ring_list_def len) (simp add: cb'_def)
    also have "\<dots> = drop c (ring_list cb) ! i"
      using less_diff_conv[of i "ring_len cb" c] i assms(2)
      by (simp add: ring_list_def mod_add_left_eq add.assoc add.commute[of c])
    finally show "ring_list cb' ! i = drop c (ring_list cb) ! i" .
  qed
  show "take c (drop (tail cb) (buf cb)) = take c (ring_list cb)"
    using assms(1-3) by (intro nth_equalityI) (auto simp: ring_list_def ring_ok_def)
qed

section \<open>Queue contract\<close>

text \<open>What the readers and writers of the buffer rely on: a queue of bytes of bounded length.
  \<open>put\<close> appends as much as fits, \<open>get\<close> takes from the front.\<close>

fun fifo_run :: "('s \<Rightarrow> u8 list \<Rightarrow> 's \<times> nat) \<Rightarrow> ('s \<Rightarrow> nat \<Rightarrow> 's \<times> u8 list) \<Rightarrow> ring_op list \<Rightarrow> 's
    \<Rightarrow> 's \<times> u8 list \<times> u8 list" where
  "fifo_run put get [] s = (s, [], [])"
| "fifo_run put get (Put xs # os) s =
    (let (s', n) = put s xs; (s'', taken, given) = fifo_run put get os s'
     in (s'', take n xs @ taken, given))"
| "fifo_run put get (Get n # os) s =
    (let (s', ys) = get s n; (s'', taken, given) = fifo_run put get os s'
     in (s'', taken, ys @ given))"

text \<open>The reference: a list of at most \<open>cap\<close> bytes.\<close>

definition ref_put :: "nat \<Rightarrow> u8 list \<Rightarrow> u8 list \<Rightarrow> u8 list \<times> nat" where
  "ref_put cap q xs = (let n = min (length xs) (cap - length q) in (q @ take n xs, n))"

definition ref_get :: "u8 list \<Rightarrow> nat \<Rightarrow> u8 list \<times> u8 list" where
  "ref_get q n = (drop n q, take n q)"

locale bounded_fifo =
  fixes put :: "'s \<Rightarrow> u8 list \<Rightarrow> 's \<times> nat" and get :: "'s \<Rightarrow> nat \<Rightarrow> 's \<times> u8 list"
    and content :: "'s \<Rightarrow> u8 list" and good :: "'s \<Rightarrow> bool" and cap :: nat
  assumes put_good: "good s \<Longrightarrow> good (fst (put s xs))"
    and put_content: "good s \<Longrightarrow>
      content (fst (put s xs)) = content s @ take (cap - length (content s)) xs"
    and put_ret: "good s \<Longrightarrow> snd (put s xs) = min (length xs) (cap - length (content s))"
    and get_good: "good s \<Longrightarrow> good (fst (get s n))"
    and get_content: "good s \<Longrightarrow> content (fst (get s n)) = drop n (content s)"
    and get_ret: "good s \<Longrightarrow> snd (get s n) = take n (content s)"
    and bounded: "good s \<Longrightarrow> length (content s) \<le> cap"
begin

lemma run_order:
  "good s \<Longrightarrow> (case fifo_run put get os s of (s', taken, given) \<Rightarrow>
     good s' \<and> content s @ taken = given @ content s')"
proof (induction os arbitrary: s)
  case (Cons x os)
  show ?case
  proof (cases x)
    case (Put xs)
    obtain s' n where p: "put s xs = (s', n)" by fastforce
    then have "good s'" "content s' = content s @ take n xs"
      using put_good[OF Cons.prems, of xs] put_content[OF Cons.prems, of xs]
        put_ret[OF Cons.prems, of xs] by (auto simp: min_def)
    then show ?thesis using Cons.IH[of s'] Put p by (auto split: prod.splits)
  next
    case (Get n)
    obtain s' ys where g: "get s n = (s', ys)" by fastforce
    then have "good s'" "content s = ys @ content s'"
      using get_good[OF Cons.prems, of n] get_content[OF Cons.prems, of n]
        get_ret[OF Cons.prems, of n] by auto
    then show ?thesis using Cons.IH[of s'] Get g by (auto split: prod.splits)
  qed
qed simp

lemma run_refines:
  "good s \<Longrightarrow> (case fifo_run put get os s of (s', taken, given) \<Rightarrow>
     good s' \<and> fifo_run (ref_put cap) ref_get os (content s) = (content s', taken, given))"
proof (induction os arbitrary: s)
  case (Cons x os)
  show ?case
  proof (cases x)
    case (Put xs)
    obtain s' n where p: "put s xs = (s', n)" by fastforce
    then have "good s'" "ref_put cap (content s) xs = (content s', n)"
      using put_good[OF Cons.prems, of xs] put_content[OF Cons.prems, of xs]
        put_ret[OF Cons.prems, of xs] by (auto simp: ref_put_def Let_def min_def)
    then show ?thesis using Cons.IH[of s'] Put p by (auto split: prod.splits)
  next
    case (Get n)
    obtain s' ys where g: "get s n = (s', ys)" by fastforce
    then have "good s'" "ref_get (content s) n = (content s', ys)"
      using get_good[OF Cons.prems, of n] get_content[OF Cons.prems, of n]
        get_ret[OF Cons.prems, of n] by (auto simp: ref_get_def)
    then show ?thesis using Cons.IH[of s'] Get g by (auto split: prod.splits)
  qed
qed simp

lemma run_spec:
  assumes "good s"
  shows "case fifo_run put get os s of (s', taken, given) \<Rightarrow>
     good s' \<and> length (content s') \<le> cap \<and> content s @ taken = given @ content s'
     \<and> fifo_run (ref_put cap) ref_get os (content s) = (content s', taken, given)"
  using run_order[OF assms, of os] run_refines[OF assms, of os] by (auto simp: bounded split: prod.splits)

lemma put_then_get:
  "good s \<Longrightarrow> content s = [] \<Longrightarrow> length xs \<le> cap \<Longrightarrow>
     snd (get (fst (put s xs)) (length xs)) = xs"
  by (simp add: put_good put_content get_ret)

end

lemma min_if: "(if a < b then a else b) = min a (b::nat)"
  by simp

text \<open>The buffer with the documented macros is such a queue, of 255 bytes.\<close>

locale kb_ring =
  fixes k :: circ_ops
  assumes circ: "circ_ok k"
begin

lemma macros:
  assumes "ring_ok cb"
  shows "CIRC_CNT k (head cb) (tail cb) 256 = ring_len cb"
    "CIRC_SPACE k (head cb) (tail cb) 256 = 255 - ring_len cb"
    "CIRC_CNT_TO_END k (head cb) (tail cb) 256 = min (ring_len cb) (256 - tail cb)"
    "CIRC_SPACE_TO_END k (head cb) (tail cb) 256 = min (255 - ring_len cb) (256 - head cb)"
  using circ assms by (simp_all add: circ_ok_def ring_ok_def ring_len_def)

lemma put_spec:
  "ring_ok cb \<Longrightarrow> ring_ok (fst (kb_buf_put k cb xs))
    \<and> ring_list (fst (kb_buf_put k cb xs)) = ring_list cb @ take (255 - ring_len cb) xs
    \<and> snd (kb_buf_put k cb xs) = min (length xs) (255 - ring_len cb)"
proof (induction "length xs" arbitrary: cb xs rule: less_induct)
  case less
  define c where "c = min (length xs) (min (255 - ring_len cb) (256 - head cb))"
  define cb' where "cb' = cb\<lparr>buf := memcpy_to (buf cb) (head cb) (take c xs),
    head := (head cb + length (take c xs)) mod 256\<rparr>"
  have c: "c \<le> length xs" "c \<le> 255 - ring_len cb" "head cb + c \<le> 256"
    using less.prems by (auto simp: c_def ring_ok_def)
  have eq: "kb_buf_put k cb xs = (if c = 0 then (cb, 0)
      else (fst (kb_buf_put k cb' (drop c xs)), c + snd (kb_buf_put k cb' (drop c xs))))"
    using c(1) by (subst kb_buf_put.simps)
      (simp add: macros[OF less.prems] cb'_def Let_def and_255 KB_BUF_LEN_256 split_beta
        min_if min_absorb2 flip: c_def)
  show ?case
  proof (cases "c = 0")
    case True
    then have "xs = [] \<or> ring_len cb = 255"
      using less.prems ring_len_less[OF less.prems]
      unfolding c_def ring_ok_def length_0_conv[symmetric] by linarith
    then show ?thesis using True eq less.prems by auto
  next
    case False
    have len: "ring_len cb + c \<le> 255" using c(2) ring_len_less[OF less.prems] by linarith
    have step: "ring_ok cb'" "ring_list cb' = ring_list cb @ take c xs"
      unfolding cb'_def using ring_put_step[of cb "take c xs"] less.prems c len by simp_all
    have "ring_len cb' = ring_len cb + c"
      using arg_cong[OF step(2), of length] c(1) by simp
    then show ?thesis
      using less.hyps[of "drop c xs" cb'] step False eq c
      by (auto simp: take_add[symmetric] min_def)
  qed
qed

lemma get_spec:
  "ring_ok cb \<Longrightarrow> ring_ok (fst (kb_buf_get k cb n))
    \<and> ring_list (fst (kb_buf_get k cb n)) = drop n (ring_list cb)
    \<and> snd (kb_buf_get k cb n) = take n (ring_list cb)"
proof (induction n arbitrary: cb rule: less_induct)
  case (less n)
  define c where "c = min n (min (ring_len cb) (256 - tail cb))"
  define cb' where "cb' = cb\<lparr>tail := (tail cb + c) mod 256\<rparr>"
  have c: "c \<le> n" "c \<le> ring_len cb" "tail cb + c \<le> 256"
    using less.prems by (auto simp: c_def ring_ok_def)
  have eq: "kb_buf_get k cb n = (if c = 0 then (cb, [])
      else (fst (kb_buf_get k cb' (n - c)),
        take c (drop (tail cb) (buf cb)) @ snd (kb_buf_get k cb' (n - c))))"
    by (subst kb_buf_get.simps)
      (simp add: macros[OF less.prems] cb'_def Let_def and_255 KB_BUF_LEN_256 split_beta
        min_if flip: c_def)
  show ?case
  proof (cases "c = 0")
    case True
    then have "n = 0 \<or> ring_list cb = []"
      using less.prems unfolding c_def ring_ok_def length_0_conv[symmetric] length_ring_list by linarith
    then show ?thesis using True eq less.prems by auto
  next
    case False
    note step = ring_get_step[OF less.prems c(2,3), folded cb'_def]
    have "take c (ring_list cb) @ take (n - c) (drop c (ring_list cb)) = take n (ring_list cb)"
      using take_add[of c "n - c" "ring_list cb"] c(1) by simp
    then show ?thesis
      using less.IH[of "n - c" cb'] step False eq c by simp
  qed
qed

end

sublocale kb_ring \<subseteq> fifo: bounded_fifo "kb_buf_put k" "kb_buf_get k" ring_list ring_ok 255
proof unfold_locales
  fix cb xs n assume ok: "ring_ok cb"
  show "ring_ok (fst (kb_buf_put k cb xs))"
    "ring_list (fst (kb_buf_put k cb xs)) = ring_list cb @ take (255 - length (ring_list cb)) xs"
    "snd (kb_buf_put k cb xs) = min (length xs) (255 - length (ring_list cb))"
    using put_spec[OF ok, of xs] by simp_all
  show "ring_ok (fst (kb_buf_get k cb n))" "ring_list (fst (kb_buf_get k cb n)) = drop n (ring_list cb)"
    "snd (kb_buf_get k cb n) = take n (ring_list cb)"
    using get_spec[OF ok, of n] by simp_all
  show "length (ring_list cb) \<le> 255" using ring_len_less[OF ok] by simp
qed

text \<open>An instance of the macros with the documented behaviour.\<close>

definition circ_linux :: circ_ops where
  "circ_linux = \<lparr>
     CIRC_CNT = (\<lambda>h t n. (h + n - t) mod n),
     CIRC_SPACE = (\<lambda>h t n. n - 1 - (h + n - t) mod n),
     CIRC_CNT_TO_END = (\<lambda>h t n. min ((h + n - t) mod n) (n - t)),
     CIRC_SPACE_TO_END = (\<lambda>h t n. min (n - 1 - (h + n - t) mod n) (n - h))\<rparr>"

interpretation linux_ring: kb_ring circ_linux
  by unfold_locales (simp add: circ_ok_def circ_linux_def)

section \<open>Properties of the buffer and of reading\<close>

context kb_ring
begin

lemma queue_spec:
  "ring_ok cb \<Longrightarrow> (case fifo_run (kb_buf_put k) (kb_buf_get k) os cb of (cb', taken, given) \<Rightarrow>
     ring_ok cb' \<and> length (ring_list cb') \<le> 255 \<and> ring_list cb @ taken = given @ ring_list cb'
     \<and> fifo_run (ref_put 255) ref_get os (ring_list cb) = (ring_list cb', taken, given))"
  by (rule fifo.run_spec)

lemma ring_run_fifo: "ring_run k os cb = fst (fifo_run (kb_buf_put k) (kb_buf_get k) os cb)"
  by (induction k os cb rule: ring_run.induct) (auto simp: split_beta)

lemma ring_run_ref:
  assumes "ring_ok cb"
  shows "ring_ok (ring_run k os cb)"
    "ring_list (ring_run k os cb) = fst (fifo_run (ref_put 255) ref_get os (ring_list cb))"
  using fifo.run_refines[OF assms, of os] by (auto simp: ring_run_fifo split: prod.splits)

lemma not_empty: "ring_ok cb \<Longrightarrow> kb_buf_not_empty k cb \<longleftrightarrow> ring_list cb \<noteq> []"
  by (simp add: kb_buf_not_empty_def kb_buf_data_avail_def KB_BUF_LEN_256 macros
      length_0_conv[symmetric] del: length_0_conv)

lemma wait_ready: "ring_ok cb \<Longrightarrow> ring_list cb \<noteq> [] \<Longrightarrow> kb_wait k nb ws cb = (Some (Inr ()), cb)"
  by (simp add: kb_wait.simps not_empty)

lemma wait_nonblock:
  "ring_ok cb \<Longrightarrow> ring_list cb = [] \<Longrightarrow> kb_wait k True ws cb = (Some (Inl EAGAIN), cb)"
  by (simp add: kb_wait.simps not_empty)

lemma wait_signal:
  "ring_ok cb \<Longrightarrow> ring_list cb = [] \<Longrightarrow>
     kb_wait k False (Signal # ws) cb = (Some (Inl ERESTARTSYS), cb)"
  by (simp add: kb_wait.simps not_empty)

lemma wait_woken:
  "ring_ok cb \<Longrightarrow> ring_list cb = [] \<Longrightarrow>
     kb_wait k False (Woken os # ws) cb = kb_wait k False ws (ring_run k os cb)"
  by (subst kb_wait.simps) (simp add: not_empty)

lemma read_ready:
  assumes "ring_ok cb" "ring_list cb \<noteq> []" and n_def: "n = (if count = 4 then 4 else 1 :: nat)"
  shows "kb_read k nb ws copied count cb = (Some
     (if count = 4 \<and> length (ring_list cb) < 4 \<or> \<not> copied then Inl EFAULT
      else Inr (if count = 4 then take 4 (ring_list cb) else [hd (ring_list cb), 0xff])),
     fst (kb_buf_get k cb n))"
proof -
  have got: "snd (kb_buf_get k cb n) = take n (ring_list cb)" using get_spec[OF assms(1)] by blast
  obtain x xs where q: "ring_list cb = x # xs" using assms(2) by (cases "ring_list cb") auto
  have len: "length (ring_list cb) = ring_len cb" by simp
  show ?thesis
    using got q len unfolding n_def
    by (auto simp: kb_read_def wait_ready[OF assms(1,2)] Let_def split_beta min_def)
qed

lemma wait_through:
  "ring_ok cb \<Longrightarrow> ring_list cb = [] \<Longrightarrow> (\<forall>os \<in> set oss. fst (fifo_run (ref_put 255) ref_get os []) = []) \<Longrightarrow>
     \<exists>cb'. ring_ok cb' \<and> ring_list cb' = [] \<and>
       kb_wait k False (map Woken oss @ ws) cb = kb_wait k False ws cb'"
proof (induction oss arbitrary: cb)
  case (Cons os oss)
  have "ring_ok (ring_run k os cb)" "ring_list (ring_run k os cb) = []"
    using ring_run_ref[OF Cons.prems(1), of os] Cons.prems by simp_all
  from Cons.IH[OF this] Cons.prems show ?case by (simp add: wait_woken)
qed auto

end

lemmas ring_intro = kb_ring.intro

text \<open>C9. The key buffer is a bounded queue.  With the documented buffer macros, any sequence of
  \<open>kb_buf_put\<close> and \<open>kb_buf_get\<close> calls behaves as on a list of at most 255 bytes: each put accepts the bytes that
  still fit, from the front of its input, each get returns the oldest bytes, as many as asked for or as there are.
  The accepted bytes come out in order, none lost and none twice, and the indices stay inside the array.\<close>

theorem kb_buffer_is_queue:
  assumes "circ_ok k" "ring_ok cb"
  shows "case fifo_run (kb_buf_put k) (kb_buf_get k) ops cb of (cb', taken, given) \<Rightarrow>
     ring_ok cb' \<and> length (ring_list cb') \<le> 255 \<and> ring_list cb @ taken = given @ ring_list cb'
     \<and> fifo_run (ref_put 255) ref_get ops (ring_list cb) = (ring_list cb', taken, given)"
  by (rule kb_ring.queue_spec[OF ring_intro[OF assms(1)] assms(2)])

definition ring0 :: circ_buf where
  "ring0 = \<lparr>buf = replicate 256 0, head = 0, tail = 0\<rparr>"

lemma ring0_ok [simp]: "ring_ok ring0" "ring_list ring0 = []"
  by (simp_all add: ring0_def ring_ok_def ring_list_def ring_len_def)

lemma circ_linux_ok: "circ_ok circ_linux"
  by (rule linux_ring.circ)

theorem kb_buffer_is_queue_witness:
  "case fifo_run (kb_buf_put circ_linux) (kb_buf_get circ_linux) [Put [8, 2], Get 1, Put (replicate 300 4)] ring0 of
     (cb', taken, given) \<Rightarrow> ring_ok cb' \<and> taken = 8 # 2 # replicate 254 4 \<and> given = [8]
       \<and> ring_list cb' = 2 # replicate 254 4"
  using kb_buffer_is_queue[OF circ_linux_ok ring0_ok(1), of "[Put [8, 2], Get 1, Put (replicate 300 4)]"]
  by (auto simp: ref_put_def ref_get_def Let_def split: prod.splits)

text \<open>Capacity.  \<open>kb_buf_put\<close> takes the bytes that fit into the 255 places of the buffer,
  from the front of its input, and returns how many; \<open>kb_buf_space_avail\<close> and
  \<open>kb_buf_data_avail\<close> tell the two numbers.\<close>

theorem kb_put_capacity:
  assumes "circ_ok k" "ring_ok cb"
  shows "kb_buf_data_avail k cb = length (ring_list cb)
    \<and> kb_buf_space_avail k cb = 255 - length (ring_list cb)
    \<and> snd (kb_buf_put k cb data) = min (length data) (kb_buf_space_avail k cb)
    \<and> ring_list (fst (kb_buf_put k cb data)) = ring_list cb @ take (kb_buf_space_avail k cb) data"
  using kb_ring.put_spec[OF ring_intro[OF assms(1)] assms(2), of data]
    kb_ring.macros[OF ring_intro[OF assms(1)] assms(2)]
  by (simp add: kb_buf_data_avail_def kb_buf_space_avail_def KB_BUF_LEN_256)

theorem kb_put_capacity_witness:
  "snd (kb_buf_put circ_linux ring0 (replicate 300 8)) = 255"
  using kb_put_capacity[OF circ_linux_ok ring0_ok(1), of "replicate 300 8"] by simp

text \<open>Reading a key.  When a key is waiting, \<open>kb_read\<close> (with any count but 4) returns the
  oldest key followed by 0xff and removes just that key; when none is waiting it returns
  \<open>-EAGAIN\<close> in non-blocking mode and \<open>-ERESTARTSYS\<close> after a signal, leaving the buffer alone.\<close>

theorem kb_read_branches:
  assumes "circ_ok k" "ring_ok cb" "count \<noteq> 4"
  shows "case kb_read k nb ws True count cb of (r, cb') \<Rightarrow>
     (ring_list cb \<noteq> [] \<longrightarrow> r = Some (Inr [hd (ring_list cb), 0xff])
        \<and> ring_ok cb' \<and> ring_list cb' = tl (ring_list cb))
   \<and> (ring_list cb = [] \<longrightarrow> nb \<longrightarrow> r = Some (Inl EAGAIN) \<and> cb' = cb)
   \<and> (ring_list cb = [] \<longrightarrow> \<not> nb \<longrightarrow> ws \<noteq> [] \<longrightarrow> hd ws = Signal \<longrightarrow>
        r = Some (Inl ERESTARTSYS) \<and> cb' = cb)"
proof (cases "ring_list cb = []")
  case True
  then show ?thesis
    using kb_ring.wait_nonblock[OF ring_intro[OF assms(1)] assms(2)]
      kb_ring.wait_signal[OF ring_intro[OF assms(1)] assms(2)]
    by (cases nb; cases ws) (auto simp: kb_read_def split: prod.splits)
next
  case False
  then show ?thesis
    using assms kb_ring.read_ready[OF ring_intro[OF assms(1)] assms(2) False refl]
      kb_ring.get_spec[OF ring_intro[OF assms(1)] assms(2), of 1]
    by (simp add: drop_Suc)
qed

theorem kb_read_branches_witness:
  "fst (kb_read circ_linux True [] True 2 ring0) = Some (Inl EAGAIN)"
  using kb_read_branches[OF circ_linux_ok ring0_ok(1), of 2 True "[]"] by (auto split: prod.splits)

text \<open>C28. A waiting reader is served by the first wake-up that leaves it a key.  A blocking \<open>kb_read\<close> on an
  empty buffer sleeps through every wake-up after which the buffer is empty again because other readers took
  the keys; at the first wake-up after which a key is there it returns, whatever happens later: with the oldest
  key and 0xff, or, for a count of four, with four keys, or \<open>-EFAULT\<close> when there are fewer.  The keys it looked at
  are gone from the buffer, and no others.\<close>

theorem kb_read_wakes_up:
  assumes "circ_ok k" "ring_ok cb" "ring_list cb = []"
    and "\<forall>os \<in> set oss. fst (fifo_run (ref_put 255) ref_get os []) = []"
    and "fst (fifo_run (ref_put 255) ref_get os []) = key # rest"
  shows "case kb_read k False (map Woken oss @ Woken os # ws) True count cb of (r, cb') \<Rightarrow>
     r = Some (if count \<noteq> 4 then Inr [key, 0xff]
       else if length rest < 3 then Inl EFAULT else Inr (key # take 3 rest))
     \<and> ring_ok cb' \<and> ring_list cb' = (if count \<noteq> 4 then rest else drop 3 rest)"
proof -
  have kr: "kb_ring k" by (rule ring_intro[OF assms(1)])
  obtain cb1 where cb1: "ring_ok cb1" "ring_list cb1 = []"
    and w: "kb_wait k False (map Woken oss @ Woken os # ws) cb = kb_wait k False (Woken os # ws) cb1"
    using kb_ring.wait_through[OF kr assms(2-4)] by blast
  let ?cb = "ring_run k os cb1"
  have put: "ring_ok ?cb" "ring_list ?cb = key # rest"
    using kb_ring.ring_run_ref[OF kr cb1(1), of os] cb1(2) assms(5) by simp_all
  have "kb_read k False (map Woken oss @ Woken os # ws) True count cb = kb_read k False ws True count ?cb"
    unfolding kb_read_def w by (simp add: kb_ring.wait_woken[OF kr cb1])
  then show ?thesis
    using kb_ring.read_ready[OF kr put(1) _ refl, where count = count] put
      kb_ring.get_spec[OF kr put(1), of 1] kb_ring.get_spec[OF kr put(1), of 4]
    by (auto simp: drop_Cons' numeral_eq_Suc simp del: length_ring_list)
qed

theorem kb_read_wakes_up_witness:
  "fst (kb_read circ_linux False [Woken [Put [5], Get 1], Woken [Put [8]]] True 2 ring0) = Some (Inr [8, 0xff])"
  using kb_read_wakes_up[OF circ_linux_ok ring0_ok, of "[[Put [5], Get 1]]" "[Put [8]]" 8 "[]" 2 "[]"]
  by (auto simp: ref_put_def ref_get_def Let_def split: prod.splits)

lemma ring_with_key:
  "ring_ok (fst (kb_buf_put circ_linux ring0 [key]))"
  "ring_list (fst (kb_buf_put circ_linux ring0 [key])) = [key]"
  using linux_ring.put_spec[of ring0 "[key]"] ring0_ok length_ring_list[of ring0]
  by (simp_all del: length_ring_list)

text \<open>A four byte read drops keys.  With \<open>count = 4\<close> and one to three bytes in the buffer,
  \<open>kb_read\<close> answers \<open>-EFAULT\<close> and the bytes are gone.\<close>

theorem kb_read4_drops_keys:
  assumes "circ_ok k" "ring_ok cb" "ring_list cb \<noteq> []" "length (ring_list cb) < 4"
  shows "case kb_read k nb ws copied 4 cb of (r, cb') \<Rightarrow> r = Some (Inl EFAULT) \<and> ring_list cb' = []"
  using kb_ring.read_ready[OF ring_intro[OF assms(1)] assms(2,3) refl, where count = 4] assms(4)
    kb_ring.get_spec[OF ring_intro[OF assms(1)] assms(2), of 4]
  by (simp add: drop_all)

theorem kb_read4_drops_keys_witness:
  "fst (kb_read circ_linux True [] True 4 (fst (kb_buf_put circ_linux ring0 [8]))) = Some (Inl EFAULT)"
  using kb_read4_drops_keys[OF circ_linux_ok, of "fst (kb_buf_put circ_linux ring0 [8])" True "[]" True]
  by (auto simp: ring_with_key split: prod.splits simp del: length_ring_list)

text \<open>A short user buffer is overrun.  Asked for no byte or one byte, \<open>kb_read\<close> still copies
  two bytes to the user and returns 2.\<close>

theorem kb_read_ignores_count:
  assumes "circ_ok k" "ring_ok cb" "ring_list cb \<noteq> []" "count < 2"
  shows "\<exists>bytes. fst (kb_read k nb ws True count cb) = Some (Inr bytes) \<and> count < length bytes"
  using kb_ring.read_ready[OF ring_intro[OF assms(1)] assms(2,3) refl, where count = count] assms(4) by simp

theorem kb_read_ignores_count_witness:
  "\<exists>bytes. fst (kb_read circ_linux True [] True 1 (fst (kb_buf_put circ_linux ring0 [8])))
     = Some (Inr bytes) \<and> 1 < length bytes"
  using kb_read_ignores_count[OF circ_linux_ok, of "fst (kb_buf_put circ_linux ring0 [8])" 1 True "[]"]
  by (simp add: ring_with_key)

section \<open>Open, release and the module's resources\<close>

interpretation kb_dev: exclusive_open kb_open kb_release is_open "\<lambda>_. True"
  by unfold_locales (simp_all add: kb_open_def kb_release_def)

lemma kbd_fields_request [simp]:
  "dev (exec (request ok r) s) = dev s" "cir_buf (exec (request ok r) s) = cir_buf s"
  "myclass (exec (request ok r) s) = myclass s"
  "hndl_proc_dir (exec (request ok r) s) = hndl_proc_dir s"
  by (simp_all add: request_def)

lemma kbd_fields_release [simp]:
  "dev (exec (release r) s) = dev s" "cir_buf (exec (release r) s) = cir_buf s"
  "myclass (exec (release r) s) = myclass s"
  "hndl_proc_dir (exec (release r) s) = hndl_proc_dir s"
  by (simp_all add: release_def)

lemma kbd_fields_dir [simp]:
  "dev (exec (hnos_proc_mkdir ok) s) = dev s" "cir_buf (exec (hnos_proc_mkdir ok) s) = cir_buf s"
  "myclass (exec (hnos_proc_mkdir ok) s) = myclass s"
  "hndl_proc_dir (exec (hnos_proc_mkdir ok) s) = hndl_proc_dir s"
  "dev (exec hnos_proc_rmdir s) = dev s" "cir_buf (exec hnos_proc_rmdir s) = cir_buf s"
  "myclass (exec hnos_proc_rmdir s) = myclass s"
  "hndl_proc_dir (exec hnos_proc_rmdir s) = hndl_proc_dir s"
  by (simp_all add: hnos_proc_mkdir_def hnos_proc_rmdir_def)

lemmas kb_init_defs = kb_module_init_def kb_module_setup_def kb_module_cleanup_def
  kb_buf_alloc_def kb_buf_free_def kb_cdev_setup_def mkdir_fields rmdir_fields

text \<open>Before start-up: no device, and none of the module's resources held.\<close>

definition kb_fresh :: "'a kbd_scheme \<Rightarrow> bool" where
  "kb_fresh s \<longleftrightarrow> \<not> dev s \<and> \<not> hndl_proc_dir s \<and> proc_ok s
     \<and> \<not> held s (Chrdev KB_NAME) \<and> \<not> held s (Memory ''hndl_kb_cdev'')
     \<and> \<not> held s (Memory ''circ_buf'') \<and> \<not> held s (Memory ''circ_buf.buf'')
     \<and> \<not> held s (Class KB_NAME) \<and> \<not> held s (Device KB_NAME) \<and> \<not> held s (Cdev KB_NAME)
     \<and> \<not> held s (Proc_entry KB_NAME) \<and> \<not> held s (Proc_entry ''last_key_time'')"

lemma kb_failed_early:
  assumes "kb_fresh s" "ok_chrdev e"
    and "\<not> (ok_device e \<and> ok_ring e \<and> ok_ringbuf e)"
  shows "held (exec (kb_module_init e) s) r = held s r \<and> \<not> dev (exec (kb_module_init e) s)"
  using assms unfolding kb_fresh_def
  by (cases "ok_device e"; cases "ok_ring e"; cases "ok_ringbuf e"; auto simp: kb_init_defs)

lemma kb_failed_late:
  assumes "kb_fresh s" "ok_chrdev e" "ok_device e" "ok_ring e" "ok_ringbuf e"
    and "result_of (kb_module_init e) s \<noteq> Inr ()"
  shows "held (exec (kb_module_init e) s) r = held s r \<and> \<not> dev (exec (kb_module_init e) s)"
  using assms unfolding kb_fresh_def proc_ok_def
  by (cases "ref_cnt s = 0"; cases "ok_dir e"; cases "ok_time e"; cases "ok_class e"; auto simp: kb_init_defs)

text \<open>Failed start-up.  When \<open>kb_module_init\<close> reports an error, every resource it had obtained
  is given back and no device is left behind.\<close>

theorem kb_init_failure_clean:
  assumes "kb_fresh s" "result_of (kb_module_init e) s = Inl err"
  shows "held (exec (kb_module_init e) s) = held s \<and> \<not> dev (exec (kb_module_init e) s)"
proof (cases "ok_chrdev e")
  case False
  then show ?thesis using assms by (simp add: kb_module_init_def kb_fresh_def fun_eq_iff)
next
  case True
  have "result_of (kb_module_init e) s \<noteq> Inr ()" using assms(2) by simp
  then show ?thesis
    using kb_failed_early[OF assms(1) True] kb_failed_late[OF assms(1) True]
    by (auto simp: fun_eq_iff)
qed

definition kbd0 :: kbd where
  "kbd0 = \<lparr>held = (\<lambda>_. False), bogus = [], hnos_proc_root = False, ref_cnt = 0, dev = False,
     is_open = False, lastkey_time = 0, cir_buf = None, myclass = Null, hndl_proc_dir = False,
     blt = False, kfault = False\<rparr>"

definition kb_all_ok :: kb_env where
  "kb_all_ok = \<lparr>ok_chrdev = True, ok_device = True, ok_ring = True, ok_ringbuf = True, ok_class = True,
     ok_node = True, ok_cdev = True, ok_debug = True, ok_dir = True, ok_time = True\<rparr>"

lemma kbd0_fresh: "kb_fresh kbd0"
  by (simp add: kb_fresh_def proc_ok_def kbd0_def)

theorem kb_init_failure_clean_witness:
  "held (exec (kb_module_init (kb_all_ok\<lparr>ok_ringbuf := False\<rparr>)) kbd0) = (\<lambda>_. False)"
proof -
  have "result_of (kb_module_init (kb_all_ok\<lparr>ok_ringbuf := False\<rparr>)) kbd0 = Inl ENOMEM"
    by (simp add: kb_init_defs kb_all_ok_def)
  from kb_init_failure_clean[OF kbd0_fresh this] show ?thesis by (simp add: kbd0_def)
qed

text \<open>A missing class passes for success.  When \<open>class_create\<close> fails it returns an error pointer, which the
  comparison with null in \<open>kb_module_init\<close> does not catch: start-up goes on without a device node, returns 0, and
  the clean-up later follows the error pointer.\<close>

theorem kb_init_class_failure:
  assumes "kb_fresh s" "ok_chrdev e" "ok_device e" "ok_ring e" "ok_ringbuf e" "\<not> ok_class e"
    and "ok_cdev e" "ok_debug e" "ok_dir e" "ok_time e"
  shows "let s1 = exec (kb_module_init e) s in
     result_of (kb_module_init e) s = Inr () \<and> dev s1 \<and> myclass s1 = Err_ptr \<and> \<not> held s1 (Device KB_NAME)
     \<and> Bad_class KB_NAME \<in> set (bogus (exec kb_module_cleanup s1))"
  using assms unfolding kb_fresh_def proc_ok_def
  by (cases "ref_cnt s = 0") (auto simp: kb_init_defs Let_def)

theorem kb_init_class_failure_witness:
  "result_of (kb_module_init (kb_all_ok\<lparr>ok_class := False\<rparr>)) kbd0 = Inr ()"
  using kb_init_class_failure[OF kbd0_fresh, of "kb_all_ok\<lparr>ok_class := False\<rparr>"]
  by (simp add: kb_all_ok_def Let_def)

lemma kb_init_success:
  assumes "kb_fresh s" "result_of (kb_module_init e) s = Inr ()"
  shows "ok_chrdev e \<and> ok_device e \<and> ok_ring e \<and> ok_ringbuf e \<and> ok_time e
    \<and> (ref_cnt s = 0 \<longrightarrow> ok_dir e)"
  using assms unfolding kb_fresh_def proc_ok_def
  by (auto simp: kb_init_defs split: if_splits)

text \<open>Start-up and clean-up.  After a successful \<open>kb_module_init\<close> the device has an empty,
  well-formed key buffer, and \<open>kb_module_cleanup\<close> gives back exactly what was obtained, without
  returning anything twice.\<close>

theorem kb_init_cleanup:
  assumes "kb_fresh s" "result_of (kb_module_init e) s = Inr ()" "ok_class e"
    and "ok_node e" "ok_cdev e" "ok_debug e"
  shows "let s1 = exec (kb_module_init e) s; s2 = exec kb_module_cleanup s1 in
      (\<exists>cb. cir_buf s1 = Some cb \<and> ring_ok cb \<and> ring_list cb = []) \<and> dev s1
    \<and> held s2 = held s \<and> bogus s2 = bogus s \<and> ref_cnt s2 = ref_cnt s \<and> \<not> dev s2"
  using assms kb_init_success[OF assms(1,2)] unfolding kb_fresh_def proc_ok_def
  by (cases "ref_cnt s = 0")
    (auto simp: kb_init_defs Let_def fun_eq_iff kb_buf_clear_def KB_BUF_LEN_256 ring_ok_def
      ring_list_def ring_len_def)

theorem kb_init_cleanup_witness:
  "held (exec kb_module_cleanup (exec (kb_module_init kb_all_ok) kbd0)) = (\<lambda>_. False)"
proof -
  have "result_of (kb_module_init kb_all_ok) kbd0 = Inr ()"
    by (simp add: kb_init_defs kb_all_ok_def kbd0_def)
  from kb_init_cleanup[OF kbd0_fresh this] show ?thesis
    by (simp add: kb_all_ok_def Let_def) (simp add: kbd0_def)
qed

end
