(* ===== verification/Kbd_Scan.thy ===== *)
theory Kbd_Scan
  imports Gpio Kbd_Core
begin

text \<open>
  The key scanner, \<open>src/drivers/char/hndl_char_devices/hnos_kbd_hntt1800x.c\<close>: a timer function
  that samples six pins of port H, turns them into one code, and on a change hands the mapped
  key to the keyboard core.  The state is the register file together with the keyboard device
  the keys go to.  The old memory mapped scan function is compiled but never installed; its
  read of the bus and the call into the programming button module are parameters.
\<close>

section \<open>Codes\<close>

definition KEY_INPUT_INVALID :: u8 where "KEY_INPUT_INVALID = 0x7f"
definition KEY_INPUT_ENTER :: u8 where "KEY_INPUT_ENTER = NOT (push_bit 4 1) AND 0x7f"
definition KEY_INPUT_UP :: u8 where "KEY_INPUT_UP = NOT (push_bit 5 1) AND 0x7f"
definition KEY_INPUT_ESC :: u8 where "KEY_INPUT_ESC = NOT (push_bit 6 1) AND 0x7f"
definition KEY_INPUT_DOWN :: u8 where "KEY_INPUT_DOWN = NOT (push_bit 3 1) AND 0x7f"
definition KEY_INPUT_LEFT :: u8 where "KEY_INPUT_LEFT = NOT (push_bit 2 1) AND 0x7f"
definition KEY_INPUT_RIGHT :: u8 where "KEY_INPUT_RIGHT = NOT (push_bit 1 1) AND 0x7f"
definition KEY_INPUT_SET :: u8 where "KEY_INPUT_SET = NOT (push_bit 0 1) AND 0x7f"

lemmas key_input_defs = KEY_INPUT_INVALID_def KEY_INPUT_ENTER_def KEY_INPUT_UP_def
  KEY_INPUT_ESC_def KEY_INPUT_DOWN_def KEY_INPUT_LEFT_def KEY_INPUT_RIGHT_def KEY_INPUT_SET_def

definition eKEY_UP :: u8 where "eKEY_UP = 8"
definition eKEY_DOWN :: u8 where "eKEY_DOWN = 2"
definition eKEY_CANCEL :: u8 where "eKEY_CANCEL = 1"
definition eKEY_ENTER :: u8 where "eKEY_ENTER = 4"
definition eKEY_LEFT :: u8 where "eKEY_LEFT = 5"
definition eKEY_RIGHT :: u8 where "eKEY_RIGHT = 7"
definition eKEY_NULL :: u8 where "eKEY_NULL = 0"

lemmas key_map_defs = eKEY_UP_def eKEY_DOWN_def eKEY_CANCEL_def eKEY_ENTER_def eKEY_LEFT_def
  eKEY_RIGHT_def eKEY_NULL_def

definition kbd_prog_btn_pressed :: int where
  "kbd_prog_btn_pressed = (let key_i = KEY_INPUT_INVALID in if KEY_INPUT_SET = key_i then 1 else 0)"

definition kbd_key_remap :: "u8 \<Rightarrow> u8" where
  "kbd_key_remap key_rd =
    (if key_rd = KEY_INPUT_UP then eKEY_UP
     else if key_rd = KEY_INPUT_DOWN then eKEY_DOWN
     else if key_rd = KEY_INPUT_ENTER then eKEY_ENTER
     else if key_rd = KEY_INPUT_LEFT then eKEY_LEFT
     else if key_rd = KEY_INPUT_RIGHT then eKEY_RIGHT
     else if key_rd = KEY_INPUT_ESC then eKEY_CANCEL
     else eKEY_NULL)"

text \<open>\<open>shift\<close> is not initialised in the C function: \<open>junk\<close> is what it happens to hold.\<close>

definition pin_shift :: "nat \<Rightarrow> u32 \<Rightarrow> nat" where
  "pin_shift junk pin_number =
    (let shift = junk;
         shift = (if pin_number = 228 then 6 else shift);
         shift = (if pin_number = 229 then 5 else shift);
         shift = (if pin_number = 230 then 4 else shift);
         shift = (if pin_number = 231 then 3 else shift);
         shift = (if pin_number = 232 then 2 else shift);
         shift = (if pin_number = 233 then 1 else shift)
     in shift)"

section \<open>The scanner\<close>

record scan_state = hw +
  kdev :: kbd
  kbd_hntt1800x :: bool
  iomem :: u32
  timeout :: nat
  key_i_last :: u8
  timer_on :: bool

text \<open>A call into the keyboard core.\<close>

definition on_kbd :: "(kbd, 'b) state \<Rightarrow> ('a scan_state_scheme, 'b) state" where
  "on_kbd m = State (\<lambda>s. (result_of m (kdev s), s\<lparr>kdev := exec m (kdev s)\<rparr>))"

definition init_key_pin :: "('a hw_scheme, unit) state" where
  "init_key_pin = do {
     nuc970_gpio_core_direction_in1 228;
     nuc970_gpio_core_direction_in1 229;
     nuc970_gpio_core_direction_in1 230;
     nuc970_gpio_core_direction_in1 231;
     nuc970_gpio_core_direction_in1 232;
     nuc970_gpio_core_direction_in1 233;
     return () }"

text \<open>The loop over the pins, given as the list of their numbers.\<close>

fun scan_pins :: "nat \<Rightarrow> u32 list \<Rightarrow> u8 \<Rightarrow> ('a hw_scheme, u8) state" where
  "scan_pins junk [] key_i = return key_i"
| "scan_pins junk (i # is) key_i = do {
     v \<leftarrow> nuc970_gpio_core_get1 i;
     let t = push_bit (pin_shift junk i) v;
     scan_pins junk is (key_i OR ucast ((t AND 0x7f) OR 0x01)) }"

text \<open>What both scan functions do with the code they have read.\<close>

definition scan_decide ::
    "circ_ops \<Rightarrow> nat \<Rightarrow> ('a scan_state_scheme, unit) state \<Rightarrow> u8 \<Rightarrow> ('a scan_state_scheme, unit) state" where
  "scan_decide k uptime btn key_i = do {
     last \<leftarrow> gets key_i_last;
     (if key_i = last then return ()
      else do {
        (if key_i \<noteq> KEY_INPUT_INVALID then do {
           btn;
           on_kbd (kb_key_insert k uptime (kbd_key_remap key_i))
         } else return ());
        modify (\<lambda>s. s\<lparr>key_i_last := key_i\<rparr>) });
     modify (\<lambda>s. s\<lparr>timer_on := True\<rparr>) }"

definition kbd_hntt1800x_test ::
    "circ_ops \<Rightarrow> nat \<Rightarrow> nat \<Rightarrow> ('a scan_state_scheme, unit) state" where
  "kbd_hntt1800x_test k junk uptime = do {
     key_i \<leftarrow> scan_pins junk [228, 229, 230, 231, 232, 233] 0;
     scan_decide k uptime (return ()) key_i }"

definition kbd_hntt1800x_scan ::
    "circ_ops \<Rightarrow> nat \<Rightarrow> u8 \<Rightarrow> ('a scan_state_scheme, unit) state \<Rightarrow> ('a scan_state_scheme, unit) state" where
  "kbd_hntt1800x_scan k uptime byte prog_btn_event = (let key_i = (byte AND 0x7f) OR 0x01 in
     scan_decide k uptime (if key_i = KEY_INPUT_SET then prog_btn_event else return ()) key_i)"

definition kbd_hntt1800x_cleanup :: "('a scan_state_scheme, unit) state" where
  "kbd_hntt1800x_cleanup = do {
     d \<leftarrow> gets kbd_hntt1800x;
     if d then do {
       modify (\<lambda>s. s\<lparr>timer_on := False, iomem := 0\<rparr>);
       on_kbd (release (Memory ''kbd_hntt1800x''));
       modify (\<lambda>s. s\<lparr>kbd_hntt1800x := False\<rparr>)
     } else return () }"

definition kbd_hntt1800x_init :: "bool \<Rightarrow> ('a scan_state_scheme, unit result) state" where
  "kbd_hntt1800x_init ok = do {
     d \<leftarrow> on_kbd (request ok (Memory ''kbd_hntt1800x''));
     modify (\<lambda>s. s\<lparr>kbd_hntt1800x := d\<rparr>);
     if \<not> d then do { kbd_hntt1800x_cleanup; return (Inl ENOMEM) }
     else do {
       modify (\<lambda>s. s\<lparr>timeout := 5, key_i_last := KEY_INPUT_INVALID, iomem := 1\<rparr>);
       io \<leftarrow> gets iomem;
       if io = 0 then do { kbd_hntt1800x_cleanup; return (Inl EPERM) }
       else do {
         init_key_pin;
         modify (\<lambda>s. s\<lparr>timer_on := True\<rparr>);
         return (Inr ()) } } }"

section \<open>The code of the six pins\<close>

lemma exec_on_kbd [simp]: "exec (on_kbd m) s = s\<lparr>kdev := exec m (kdev s)\<rparr>"
  and result_on_kbd [simp]: "result_of (on_kbd m) s = result_of m (kdev s)"
  by (simp_all add: on_kbd_def)

text \<open>The code for the levels of pins 228 to 233: bits 6 to 1, bit 0 always set.\<close>

definition key_code :: "bool list \<Rightarrow> u8" where
  "key_code ls = (if ls ! 0 then 0x40 else 0) OR (if ls ! 1 then 0x20 else 0)
     OR (if ls ! 2 then 0x10 else 0) OR (if ls ! 3 then 0x08 else 0)
     OR (if ls ! 4 then 0x04 else 0) OR (if ls ! 5 then 0x02 else 0) OR 1"

definition key_pins :: "u32 list" where
  "key_pins = [228, 229, 230, 231, 232, 233]"

text \<open>The levels the scanner sees, one sample per pin.\<close>

definition key_levels :: "'a hw_scheme \<Rightarrow> bool list" where
  "key_levels s = map (\<lambda>j. bit (pins s (now s + j) (gpio_reg 7 DATAIN)) (4 + j)) [0, 1, 2, 3, 4, 5]"

definition keys_input :: "'a hw_scheme \<Rightarrow> bool" where
  "keys_input s \<longleftrightarrow> (\<forall>g\<in>set key_pins. \<not> is_output s g)"

lemma scan_fields_put_all [simp]:
  "kdev (put_all ws s) = kdev s" "key_i_last (put_all ws s) = key_i_last s"
  by (induction ws s rule: put_all.induct) simp_all

lemma get1_input_fields:
  assumes "g < NUMGPIO" "\<not> is_output s g"
  shows "result_of (nuc970_gpio_core_get1 g) s = of_bool (in_level s g)"
    "pins (exec (nuc970_gpio_core_get1 g) s) = pins s"
    "now (exec (nuc970_gpio_core_get1 g) s) = Suc (now s)"
    "h < NUMGPIO \<Longrightarrow> is_output (exec (nuc970_gpio_core_get1 g) s) h = is_output s h"
  using assms get1_input[OF assms]
  by (simp_all add: result_of_def exec_def is_output_def)

lemma get1_scan_fields:
  assumes "g < NUMGPIO" "\<not> is_output s g"
  shows "kdev (exec (nuc970_gpio_core_get1 g) s) = kdev s"
    "key_i_last (exec (nuc970_gpio_core_get1 g) s) = key_i_last s"
  using get1_input[OF assms] by (simp_all add: exec_def)

lemma key_pin_range: "228 < NUMGPIO" "229 < NUMGPIO" "230 < NUMGPIO" "231 < NUMGPIO" "232 < NUMGPIO" "233 < NUMGPIO"
  by (simp_all add: NUMGPIO_def)

lemma key_pin_level:
  "in_level s 228 = bit (pins s (now s) (gpio_reg 7 DATAIN)) 4"
  "in_level s 229 = bit (pins s (now s) (gpio_reg 7 DATAIN)) 5"
  "in_level s 230 = bit (pins s (now s) (gpio_reg 7 DATAIN)) 6"
  "in_level s 231 = bit (pins s (now s) (gpio_reg 7 DATAIN)) 7"
  "in_level s 232 = bit (pins s (now s) (gpio_reg 7 DATAIN)) 8"
  "in_level s 233 = bit (pins s (now s) (gpio_reg 7 DATAIN)) 9"
  by (simp_all add: in_level_def pin_port_def pin_num_def)

definition contrib :: "u8 \<Rightarrow> bool \<Rightarrow> u8" where
  "contrib x b = (if b then x else 1)"

lemma pin_contribution:
  "ucast ((push_bit (pin_shift junk 228) (of_bool b :: u32) AND 0x7f) OR 1) = contrib 0x41 b"
  "ucast ((push_bit (pin_shift junk 229) (of_bool b :: u32) AND 0x7f) OR 1) = contrib 0x21 b"
  "ucast ((push_bit (pin_shift junk 230) (of_bool b :: u32) AND 0x7f) OR 1) = contrib 0x11 b"
  "ucast ((push_bit (pin_shift junk 231) (of_bool b :: u32) AND 0x7f) OR 1) = contrib 0x09 b"
  "ucast ((push_bit (pin_shift junk 232) (of_bool b :: u32) AND 0x7f) OR 1) = contrib 0x05 b"
  "ucast ((push_bit (pin_shift junk 233) (of_bool b :: u32) AND 0x7f) OR 1) = contrib 0x03 b"
  by (simp_all add: pin_shift_def contrib_def)

lemma code_sum:
  "contrib 0x41 a OR contrib 0x21 b OR contrib 0x11 c OR contrib 0x09 d OR contrib 0x05 e
     OR contrib 0x03 f = key_code [a, b, c, d, e, f]"
  by (cases a; cases b; cases c; cases d; cases e; cases f) (simp_all add: key_code_def contrib_def)

lemma add_numeral_Suc:
  "n + 3 = Suc (Suc (Suc n))" "n + 4 = Suc (Suc (Suc (Suc n)))"
  "n + 5 = Suc (Suc (Suc (Suc (Suc n))))" for n :: nat
  by simp_all

lemma scan_pins_keys:
  assumes "keys_input s"
  shows "result_of (scan_pins junk [228, 229, 230, 231, 232, 233] 0) s = key_code (key_levels s)"
  using assms unfolding keys_input_def key_pins_def
  by (simp add: get1_input_fields key_pin_range key_pin_level pin_contribution key_levels_def
      code_sum[unfolded or.assoc] or.assoc add_numeral_Suc)

lemma scan_pins_frame:
  assumes "keys_input s"
  shows "kdev (exec (scan_pins junk [228, 229, 230, 231, 232, 233] v) s) = kdev s"
    "key_i_last (exec (scan_pins junk [228, 229, 230, 231, 232, 233] v) s) = key_i_last s"
  using assms unfolding keys_input_def key_pins_def
  by (simp_all add: get1_input_fields get1_scan_fields key_pin_range)

section \<open>What a scan does\<close>

text \<open>C31. One scan.  With the six pins set as inputs, a run of the timer function computes the code of
  the sampled levels, remembers it, re-arms the timer, and puts the mapped key into the key
  buffer exactly when the code differs from the previous one and is not the idle code.\<close>

theorem kbd_scan_step:
  assumes "circ_ok k" "keys_input s" "dev (kdev s)" "cir_buf (kdev s) = Some cb" "ring_ok cb"
  shows "let code = key_code (key_levels s); s' = exec (kbd_hntt1800x_test k junk uptime) s in
     key_i_last s' = code \<and> timer_on s' \<and>
     (\<exists>cb'. cir_buf (kdev s') = Some cb' \<and> ring_ok cb' \<and>
        ring_list cb' = ring_list cb @
          (if code = key_i_last s \<or> code = KEY_INPUT_INVALID then []
           else take (255 - length (ring_list cb)) [kbd_key_remap code]))"
proof -
  have put: "ring_ok (fst (kb_buf_put k cb [key]))"
    "ring_list (fst (kb_buf_put k cb [key])) = ring_list cb @ take (255 - ring_len cb) [key]" for key
    using kb_ring.put_spec[OF ring_intro[OF assms(1)] assms(5), of "[key]"] by blast+
  show ?thesis
    using assms(3-5)
    by (simp add: Let_def kbd_hntt1800x_test_def scan_decide_def scan_pins_keys[OF assms(2)]
        scan_pins_frame[OF assms(2)] kb_key_insert_def with_buf_def kb_lastkey_time_update_def put
        del: scan_pins.simps)
qed

definition scan0 :: scan_state where
  "scan0 = \<lparr>mmio = (\<lambda>_. 0), pins = (\<lambda>_ _. 0x3D0), now = 0, wlog = [], fault = False,
     kdev = kbd0\<lparr>dev := True, cir_buf := Some ring0\<rparr>, kbd_hntt1800x = True, iomem = 1, timeout = 5,
     key_i_last = KEY_INPUT_INVALID, timer_on = False\<rparr>"

theorem kbd_scan_step_witness:
  "\<exists>cb'. cir_buf (kdev (exec (kbd_hntt1800x_test circ_linux 0 7) scan0)) = Some cb'
     \<and> ring_list cb' = [eKEY_UP]"
proof -
  have "keys_input scan0" "dev (kdev scan0)" "cir_buf (kdev scan0) = Some ring0"
    by (simp_all add: keys_input_def is_output_def scan0_def)
  from kbd_scan_step[OF circ_linux_ok this ring0_ok(1), of 0 7] show ?thesis
    by (auto simp: Let_def scan0_def key_levels_def key_code_def key_input_defs kbd_key_remap_def
        ring0_ok length_ring_list[of ring0, unfolded ring0_ok(2), symmetric] simp del: length_ring_list)
qed

text \<open>Keys and pins.  The idle code means that all six pins are high.  Exactly one low pin gives
  the key of that pin - 228 cancel, 229 up, 230 enter, 231 down, 232 left, 233 right - and any
  other combination of two or more low pins gives the key code 0.\<close>

theorem kbd_key_table:
  assumes "length ls = 6"
  shows "(key_code ls = KEY_INPUT_INVALID) = (\<forall>l\<in>set ls. l)
   \<and> kbd_key_remap (key_code ls) = (case filter (\<lambda>j. \<not> ls ! j) [0..<6] of
       [j] \<Rightarrow> [eKEY_CANCEL, eKEY_UP, eKEY_ENTER, eKEY_DOWN, eKEY_LEFT, eKEY_RIGHT] ! j
     | _ \<Rightarrow> eKEY_NULL)"
proof -
  obtain a b c d e f where ls: "ls = [a, b, c, d, e, f]"
    using assms by (auto simp: numeral_eq_Suc length_Suc_conv)
  show ?thesis unfolding ls
    by (cases a; cases b; cases c; cases d; cases e; cases f)
      (simp_all add: key_code_def key_input_defs key_map_defs kbd_key_remap_def upt_rec)
qed

theorem kbd_key_table_witness:
  "kbd_key_remap (key_code [True, True, False, True, True, True]) = eKEY_ENTER
   \<and> kbd_key_remap (key_code [True, False, False, True, True, True]) = eKEY_NULL"
  using kbd_key_table[of "[True, True, False, True, True, True]"]
    kbd_key_table[of "[True, False, False, True, True, True]"]
  by (simp add: upt_rec)

end
