(* ===== verification/Pulse.thy ===== *)
theory Pulse
  imports Gpio Proc_Intf
begin

text \<open>
  The pulse counter, \<open>src/drivers/char/hndl_char_devices/pulse_count.c\<close>: a timer interrupt at 1 kHz
  samples two input pins and counts pulses, a read-once text file under \<open>/proc/hndl\<close> reports the
  counters.  The static variables of the interrupt handler are one record \<open>channel\<close> per pin.
  The clock framework and the outcomes of the kernel calls are arguments.
\<close>

section \<open>One channel\<close>

record channel =
  count_h :: u32
  count_l :: u32
  hFlag :: bool
  lFlag :: bool
  pulse_count :: u32

definition chan0 :: channel where
  "chan0 = \<lparr>count_h = 0, count_l = 0, hFlag = False, lFlag = False, pulse_count = 0\<rparr>"

definition sample_high :: "channel \<Rightarrow> channel" where
  "sample_high c =
    (let c = (if 15 < count_h c \<and> \<not> hFlag c
              then c\<lparr>hFlag := True, count_l := 0, lFlag := False\<rparr> else c)
     in c\<lparr>count_h := count_h c + 1\<rparr>)"

definition sample_low :: "channel \<Rightarrow> channel" where
  "sample_low c =
    (let c = c\<lparr>count_l := count_l c + 1\<rparr>;
         c = (if 55 < count_l c \<and> \<not> lFlag c then c\<lparr>lFlag := True, count_l := 0\<rparr> else c)
     in if hFlag c \<and> lFlag c
        then c\<lparr>count_h := 0, count_l := 0, hFlag := False, lFlag := False,
               pulse_count := pulse_count c + 1\<rparr>
        else c)"

definition sample :: "bool \<Rightarrow> channel \<Rightarrow> channel" where
  "sample level c = (if level then sample_high c else sample_low c)"

section \<open>The driver\<close>

record pulse_state = hw +
  kern :: proc_state
  ch1 :: channel
  ch2 :: channel
  timer2_load :: u32
  pulse_is_open :: bool
  pulse_is_first_read :: bool
  g_my_device :: bool
  my_class :: kptr
  proc_dir :: bool

definition on_kern :: "(proc_state, 'b) state \<Rightarrow> ('a pulse_state_scheme, 'b) state" where
  "on_kern m = State (\<lambda>s. (result_of m (kern s), s\<lparr>kern := exec m (kern s)\<rparr>))"

definition hnos_proc_dispatch_close :: "('a pulse_state_scheme, unit result) state" where
  "hnos_proc_dispatch_close = do {
     modify (\<lambda>s. s\<lparr>pulse_is_open := False\<rparr>);
     return (Inr ()) }"

definition hnos_proc_dispatch_open :: "('a pulse_state_scheme, unit result) state" where
  "hnos_proc_dispatch_open = do {
     b \<leftarrow> gets pulse_is_open;
     if b then return (Inl EBUSY)
     else do {
       modify (\<lambda>s. s\<lparr>pulse_is_open := True, pulse_is_first_read := True\<rparr>);
       return (Inr ()) } }"

definition timer1_interrupt :: "('a pulse_state_scheme, unit) state" where
  "timer1_interrupt = do {
     raw_writel 0x04 REG_TMR_TISR;
     v1 \<leftarrow> nuc970_gpio_core_get1 134;
     modify (\<lambda>s. s\<lparr>ch1 := sample (v1 \<noteq> 0) (ch1 s)\<rparr>);
     v2 \<leftarrow> nuc970_gpio_core_get1 133;
     modify (\<lambda>s. s\<lparr>ch2 := sample (v2 \<noteq> 0) (ch2 s)\<rparr>) }"

definition PRESCALE :: u32 where "PRESCALE = 0x63"
definition TMR2HZ :: u32 where "TMR2HZ = 1000"

text \<open>\<open>clk\<close> is the rate of the clock \<open>timer2\<close>, or \<open>None\<close> when there is no such clock, which stops
  the kernel.\<close>

definition pulse_start :: "u32 option \<Rightarrow> ('a pulse_state_scheme, unit) state" where
  "pulse_start clk = (case clk of
     None \<Rightarrow> modify (\<lambda>s. s\<lparr>fault := True\<rparr>)
   | Some clk_rate \<Rightarrow> do {
       raw_writel 0x00 REG_TMR_TCSR2;
       let rate = clk_rate div (PRESCALE + 1);
       let load = rate div TMR2HZ;
       modify (\<lambda>s. s\<lparr>timer2_load := load\<rparr>);
       val \<leftarrow> raw_readl REG_TMR_TCSR2;
       let val = val AND NOT (BIT 27);
       raw_writel load REG_TMR_TICR2;
       raw_writel (val OR (BIT 27 OR BIT 30 OR BIT 29 OR PRESCALE)) REG_TMR_TCSR2 })"

text \<open>The format \<open>%d\<close> on a C \<open>int\<close>.\<close>

definition show_int :: "u32 \<Rightarrow> string" where
  "show_int w = (let i = sint w in if i < 0 then CHR ''-'' # show_dec (nat (- i)) else show_dec (nat i))"

definition pulse_proc_read :: "u32 \<Rightarrow> u32 \<Rightarrow> string" where
  "pulse_proc_read n0 n1 = ''pulse0:'' @ [CHR 0x09] @ show_int n0 @ [CHR 0x0A] @
     ''pulse1:'' @ [CHR 0x09] @ show_int n1 @ [CHR 0x0A]"

text \<open>The file is read at once: the first read after open writes the whole text to the user's
  page and returns at most \<open>count\<close>; later reads return 0.  The result is the return value and
  the bytes written to the user.\<close>

definition hnos_proc_dispatch_read :: "nat \<Rightarrow> ('a pulse_state_scheme, nat \<times> string) state" where
  "hnos_proc_dispatch_read count = do {
     first \<leftarrow> gets pulse_is_first_read;
     if first then do {
       modify (\<lambda>s. s\<lparr>pulse_is_first_read := False\<rparr>);
       n0 \<leftarrow> gets (\<lambda>s. pulse_count (ch1 s));
       n1 \<leftarrow> gets (\<lambda>s. pulse_count (ch2 s));
       let page = pulse_proc_read n0 n1;
       let len = length page;
       return (if len < count then len else count, page)
     } else return (0, []) }"

definition my_open :: "('a pulse_state_scheme, unit result) state" where
  "my_open = return (Inr ())"

definition my_release :: "('a pulse_state_scheme, unit result) state" where
  "my_release = return (Inr ())"

section \<open>Start-up and exit\<close>

abbreviation (input) PULSE :: string where "PULSE \<equiv> ''pulse_input''"

record pulse_env =
  ok_chrdev :: bool
  ok_class :: bool
  ok_node :: bool
  ok_mem :: bool
  ok_cdev :: bool
  ok_irq :: bool
  ok_dir :: bool
  ok_entry :: bool
  tmr2_clk :: "u32 option"

definition my_device_exit :: "('a pulse_state_scheme, unit) state" where
  "my_device_exit = do {
     d \<leftarrow> gets g_my_device;
     (if d then do {
        on_kern (release (Cdev PULSE));
        on_kern (release (Memory PULSE));
        modify (\<lambda>s. s\<lparr>g_my_device := False\<rparr>)
      } else return ());
     c \<leftarrow> gets my_class;
     (if c \<noteq> Null then do {
        on_kern (device_destroy c PULSE);
        on_kern (class_destroy c PULSE)
      } else return ());
     on_kern (release (Proc_entry PULSE));
     on_kern (release (Chrdev PULSE));
     on_kern (release (Irq_line 30)) }"

text \<open>The labels at the end of \<open>my_device_init\<close>, each falling through to the next.\<close>

definition release_g_my_device :: "('a pulse_state_scheme, unit) state" where
  "release_g_my_device = do {
     on_kern (release (Memory PULSE));
     modify (\<lambda>s. s\<lparr>g_my_device := False\<rparr>) }"

definition request_irq_err :: "('a pulse_state_scheme, unit) state" where
  "request_irq_err = do { on_kern (release (Cdev PULSE)); release_g_my_device }"

definition proc_entry_failed :: "('a pulse_state_scheme, unit) state" where
  "proc_entry_failed = do { on_kern hnos_proc_rmdir; request_irq_err }"

definition proc_entry_failed1 :: "('a pulse_state_scheme, unit) state" where
  "proc_entry_failed1 = do { on_kern (release (Proc_entry PULSE)); proc_entry_failed }"

text \<open>A failed \<open>kmalloc\<close> is not checked: the following \<open>memset\<close> goes through a null pointer.\<close>

definition my_device_init :: "pulse_env \<Rightarrow> ('a pulse_state_scheme, unit result) state" where
  "my_device_init e = do {
     r \<leftarrow> on_kern (request (ok_chrdev e) (Chrdev PULSE));
     if \<not> r then return (Inl EPERM)
     else do {
       c \<leftarrow> on_kern (class_create (ok_class e) PULSE);
       modify (\<lambda>s. s\<lparr>my_class := c\<rparr>);
       if c = Err_ptr then return (Inl EPERM)
       else do {
         on_kern (device_create c (ok_node e) PULSE);
         m \<leftarrow> on_kern (request (ok_mem e) (Memory PULSE));
         modify (\<lambda>s. s\<lparr>g_my_device := m, fault := fault s \<or> \<not> m\<rparr>);
         a \<leftarrow> on_kern (request (ok_cdev e) (Cdev PULSE));
         if \<not> a then do { release_g_my_device; return (Inr ()) }
         else do {
           i \<leftarrow> on_kern (request (ok_irq e) (Irq_line 30));
           if \<not> i then do { request_irq_err; return (Inl EAGAIN) }
           else do {
             d \<leftarrow> gets proc_dir;
             (if \<not> d then do {
                p \<leftarrow> on_kern (hnos_proc_mkdir (ok_dir e));
                modify (\<lambda>s. s\<lparr>proc_dir := p\<rparr>)
              } else return ());
             d \<leftarrow> gets proc_dir;
             if \<not> d then do { proc_entry_failed1; return (Inl ENODEV) }
             else do {
               p \<leftarrow> on_kern (request (ok_entry e) (Proc_entry PULSE));
               if \<not> p then do { proc_entry_failed; return (Inl EPERM) }
               else do {
                 pulse_start (tmr2_clk e);
                 return (Inr ()) } } } } } } }"

section \<open>Counting\<close>

text \<open>A sequence of samples, one per millisecond.\<close>

definition samples :: "bool list \<Rightarrow> channel \<Rightarrow> channel" where
  "samples ls c = fold sample ls c"

lemma samples_simps [simp]:
  "samples [] c = c" "samples (l # ls) c = samples ls (sample l c)"
  "samples (xs @ ys) c = samples ys (samples xs c)"
  by (simp_all add: samples_def)

text \<open>The two flags are never both up between samples; progress towards the next pulse in
  samples.\<close>

definition chan_ok :: "channel \<Rightarrow> bool" where
  "chan_ok c \<longleftrightarrow> \<not> (hFlag c \<and> lFlag c) \<and> (hFlag c \<longrightarrow> unat (count_l c) \<le> 55)
     \<and> (\<not> hFlag c \<longrightarrow> unat (count_h c) \<le> 16)"

definition progress :: "channel \<Rightarrow> nat" where
  "progress c = (if hFlag c then 17 + unat (count_l c) else unat (count_h c))"

lemma unat_inc: "unat a < 1000 \<Longrightarrow> unat (a + 1 :: u32) = Suc (unat a)"
  by (simp add: unat_word_ariths)

lemma unat_inc_le: "unat (a + 1 :: u32) \<le> Suc (unat a)"
  by (simp add: unat_word_ariths)

lemma sample_high_ok:
  assumes "chan_ok c"
  shows "chan_ok (sample_high c)" "pulse_count (sample_high c) = pulse_count c"
    "progress (sample_high c) \<le> progress c + 1"
  using assms unat_inc[of "count_h c"]
  by (auto simp: chan_ok_def progress_def sample_high_def Let_def word_less_nat_alt)

lemma sample_low_ok:
  assumes "chan_ok c"
  shows "chan_ok (sample_low c)"
    "73 * unat (pulse_count (sample_low c)) + progress (sample_low c)
       \<le> 73 * unat (pulse_count c) + progress c + 1"
  using assms unat_inc[of "count_l c"] unat_inc_le[of "pulse_count c"]
  by (auto simp: chan_ok_def progress_def sample_low_def Let_def word_less_nat_alt)

lemma samples_bound:
  "chan_ok c \<Longrightarrow> chan_ok (samples ls c)
    \<and> 73 * unat (pulse_count (samples ls c)) + progress (samples ls c)
      \<le> 73 * unat (pulse_count c) + progress c + length ls"
proof (induction ls arbitrary: c)
  case (Cons l ls)
  have "chan_ok (sample l c)"
    "73 * unat (pulse_count (sample l c)) + progress (sample l c)
       \<le> 73 * unat (pulse_count c) + progress c + 1"
    using sample_high_ok[OF Cons.prems] sample_low_ok[OF Cons.prems] by (auto simp: sample_def)
  then show ?case using Cons.IH[of "sample l c"] by simp
qed simp

lemma chan0_ok [simp]: "chan_ok chan0" "progress chan0 = 0"
  and chan0_pulses: "pulse_count chan0 = 0"
  by (simp_all add: chan_ok_def progress_def chan0_def)

lemma progress_le: "chan_ok c \<Longrightarrow> progress c \<le> 72"
  by (auto simp: chan_ok_def progress_def)

text \<open>C29. Rate of counting.  Whatever the input does, each counted pulse takes at least 73 samples
  (17 high and 56 low ones): from a cleared channel, \<open>n\<close> samples count at most \<open>n div 73\<close> pulses, and any later
  stretch of \<open>n\<close> samples adds at most \<open>(n + 72) div 73\<close>, since part of the first pulse may already have been seen.\<close>

theorem pulse_rate_bound:
  "unat (pulse_count (samples ls chan0)) \<le> length ls div 73
   \<and> unat (pulse_count (samples (past @ ls) chan0)) \<le> unat (pulse_count (samples past chan0)) + (length ls + 72) div 73"
proof -
  have "73 * unat (pulse_count (samples ls chan0)) \<le> length ls"
    using samples_bound[of chan0 ls] by (simp add: chan0_pulses)
  moreover have "73 * unat (pulse_count (samples (past @ ls) chan0))
      \<le> 73 * unat (pulse_count (samples past chan0)) + 72 + length ls"
    using samples_bound[of chan0 past] samples_bound[of "samples past chan0" ls] progress_le[of "samples past chan0"] by simp
  ultimately show ?thesis by linarith
qed

section \<open>A clean pulse is counted once\<close>

text \<open>Between pulses: no high level seen yet since the last count.\<close>

definition between :: "channel \<Rightarrow> bool" where
  "between c \<longleftrightarrow> \<not> hFlag c \<and> count_h c = 0"

definition armed :: "channel \<Rightarrow> nat \<Rightarrow> bool" where
  "armed c n \<longleftrightarrow> hFlag c \<and> \<not> lFlag c \<and> unat (count_l c) = n"

lemma high_run:
  "\<not> hFlag c \<Longrightarrow> unat (count_h c) + n \<le> 16 \<Longrightarrow>
     \<not> hFlag (samples (replicate n True) c)
   \<and> unat (count_h (samples (replicate n True) c)) = unat (count_h c) + n
   \<and> pulse_count (samples (replicate n True) c) = pulse_count c"
proof (induction n arbitrary: c)
  case (Suc n)
  then have "unat (count_h c) < 16" by simp
  then have "\<not> hFlag (sample True c)" "unat (count_h (sample True c)) = Suc (unat (count_h c))"
    "pulse_count (sample True c) = pulse_count c"
    using Suc.prems unat_inc[of "count_h c"]
    by (auto simp: sample_def sample_high_def word_less_nat_alt)
  then show ?case using Suc.IH[of "sample True c"] Suc.prems by simp
qed simp

lemma high_arms:
  assumes "\<not> hFlag c" "unat (count_h c) = 16"
  shows "armed (sample True c) 0" "pulse_count (sample True c) = pulse_count c"
  using assms by (simp_all add: armed_def sample_def sample_high_def word_less_nat_alt)

lemma high_keeps_armed:
  "armed c n \<Longrightarrow> armed (samples (replicate m True) c) n
     \<and> pulse_count (samples (replicate m True) c) = pulse_count c"
proof (induction m arbitrary: c)
  case (Suc m)
  have "armed (sample True c) n" "pulse_count (sample True c) = pulse_count c"
    using Suc.prems by (simp_all add: armed_def sample_def sample_high_def)
  then show ?case using Suc.IH[of "sample True c"] by simp
qed simp

lemma low_counts:
  "armed c n \<Longrightarrow> n + m \<le> 55 \<Longrightarrow> armed (samples (replicate m False) c) (n + m)
     \<and> pulse_count (samples (replicate m False) c) = pulse_count c"
proof (induction m arbitrary: c n)
  case (Suc m)
  have "armed (sample False c) (Suc n)" "pulse_count (sample False c) = pulse_count c"
    using Suc.prems unat_inc[of "count_l c"]
    by (simp_all add: armed_def sample_def sample_low_def Let_def word_less_nat_alt)
  then show ?case using Suc.IH[of "sample False c" "Suc n"] Suc.prems by simp
qed simp

lemma low_fires:
  assumes "armed c 55"
  shows "between (sample False c)" "pulse_count (sample False c) = pulse_count c + 1"
  using assms unat_inc[of "count_l c"]
  by (simp_all add: armed_def between_def sample_def sample_low_def Let_def word_less_nat_alt)

lemma low_idle:
  "between c \<Longrightarrow> between (samples (replicate m False) c)
     \<and> pulse_count (samples (replicate m False) c) = pulse_count c"
proof (induction m arbitrary: c)
  case (Suc m)
  have "between (sample False c)" "pulse_count (sample False c) = pulse_count c"
    using Suc.prems by (simp_all add: between_def sample_def sample_low_def Let_def)
  then show ?case using Suc.IH[of "sample False c"] by simp
qed simp

definition pulse :: "nat \<Rightarrow> nat \<Rightarrow> bool list" where
  "pulse h l = replicate h True @ replicate l False"

lemma samples_replicate_Suc: "samples (replicate (Suc n) l) c = sample l (samples (replicate n l) c)"
  unfolding replicate_Suc replicate_append_same[symmetric] by simp

lemma samples_replicate_add:
  "samples (replicate (m + n) l) c = samples (replicate n l) (samples (replicate m l) c)"
  by (simp add: replicate_add)

lemma one_pulse:
  assumes "between c" "17 \<le> h" "56 \<le> l"
  shows "between (samples (pulse h l) c) \<and> pulse_count (samples (pulse h l) c) = pulse_count c + 1"
proof -
  let ?a = "samples (replicate 16 True) c"
  let ?b = "samples (replicate (h - 17) True) (sample True ?a)"
  let ?d = "samples (replicate 55 False) ?b"
  have h: "samples (replicate h True) c = ?b"
    using samples_replicate_add[of 17 "h - 17" True c] samples_replicate_Suc[of 16 True c] assms(2)
    by simp
  have l: "samples (replicate l False) ?b = samples (replicate (l - 56) False) (sample False ?d)"
    using samples_replicate_add[of 56 "l - 56" False ?b] samples_replicate_Suc[of 55 False ?b] assms(3)
    by simp
  have a: "\<not> hFlag ?a" "unat (count_h ?a) = 16" "pulse_count ?a = pulse_count c"
    using high_run[of c 16] assms(1) by (simp_all add: between_def)
  have b: "armed ?b 0" "pulse_count ?b = pulse_count c"
    using high_keeps_armed[OF high_arms(1)[OF a(1,2)], of "h - 17"] high_arms(2)[OF a(1,2)] a(3)
    by simp_all
  have d: "armed ?d 55" "pulse_count ?d = pulse_count c"
    using low_counts[OF b(1), of 55] b(2) by simp_all
  show ?thesis
    using low_idle[OF low_fires(1)[OF d(1)], of "l - 56"] low_fires(2)[OF d(1)] d(2)
    by (simp add: pulse_def h l)
qed

lemma pulse_train:
  "between c \<Longrightarrow> \<forall>(h, l)\<in>set ps. 17 \<le> h \<and> 56 \<le> l \<Longrightarrow>
     pulse_count (samples (concat (map (\<lambda>(h, l). pulse h l) ps)) c) = pulse_count c + of_nat (length ps)"
proof (induction ps arbitrary: c)
  case (Cons p ps)
  obtain h l where p: "p = (h, l)" by fastforce
  have "between (samples (pulse h l) c) \<and> pulse_count (samples (pulse h l) c) = pulse_count c + 1"
    using one_pulse[of c h l] Cons.prems p by auto
  then show ?case using Cons.IH[of "samples (pulse h l) c"] Cons.prems p by auto
qed simp

text \<open>C13. Every clean pulse counts once.  A train of pulses, each high for at least 17 samples and
  then low for at least 56, is counted exactly: one per pulse, modulo the 32-bit width of the counter, however long the levels last.\<close>

theorem pulse_train_counted:
  assumes "\<forall>(h, l)\<in>set ps. 17 \<le> h \<and> 56 \<le> l"
  shows "pulse_count (samples (concat (map (\<lambda>(h, l). pulse h l) ps)) chan0) = of_nat (length ps)"
  using pulse_train[of chan0 ps] assms by (simp add: between_def chan0_def)

theorem pulse_train_counted_witness:
  "pulse_count (samples (concat (map (\<lambda>(h, l). pulse h l) [(20, 80), (17, 56), (40, 100)])) chan0) = 3"
  using pulse_train_counted[of "[(20, 80), (17, 56), (40, 100)]"] by simp

text \<open>Levels need not be held.  The comment in the handler asks for a high level of more than
  15 ms followed by a low level of more than 55 ms; the counters are not cleared when the level
  changes, so an input that toggles at every sample is counted as a pulse as well.\<close>

theorem pulse_counts_toggling:
  "pulse_count (samples (concat (replicate 72 [True, False])) chan0) = 1"
  by code_simp

section \<open>The interrupt handler\<close>

lemma exec_on_kern [simp]: "exec (on_kern m) s = s\<lparr>kern := exec m (kern s)\<rparr>"
  and result_on_kern [simp]: "result_of (on_kern m) s = result_of m (kern s)"
  by (simp_all add: on_kern_def)

lemma pulse_fields_put_all [simp]:
  "ch1 (put_all ws s) = ch1 s" "ch2 (put_all ws s) = ch2 s" "kern (put_all ws s) = kern s"
  by (induction ws s rule: put_all.induct) simp_all

lemma pulse_pins: "133 < NUMGPIO" "134 < NUMGPIO" "pin_port 133 = 4" "pin_num 133 = 5"
    "pin_port 134 = 4" "pin_num 134 = 6"
  by (simp_all add: NUMGPIO_def pin_port_def pin_num_def)

lemma get1_pulse_input:
  assumes "g < NUMGPIO" "\<not> is_output s g"
  shows "result_of (nuc970_gpio_core_get1 g) s = of_bool (in_level s g)"
    "exec (nuc970_gpio_core_get1 g) s =
       put_all [(gpio_reg (pin_port g) DATAIN, of_bool (in_level s g))] (s\<lparr>now := now s + 1\<rparr>)"
  using get1_input[OF assms] by (simp_all add: result_of_def exec_def)

lemma tisr_plain: "REG_TMR_TISR \<noteq> 0" "gpio_reg 4 DIR \<noteq> REG_TMR_TISR" "gpio_reg 4 DATAIN \<noteq> REG_TMR_TISR"
  by (simp_all add: reg_defs)

text \<open>One timer interrupt.  With both pins left as inputs, \<open>timer1_interrupt\<close> first clears the
  timer flag, then feeds the level of pin 134 to channel 1 and the level of pin 133, sampled
  after it, to channel 2, each exactly once.\<close>

theorem pulse_interrupt:
  assumes "\<not> is_output s 133" "\<not> is_output s 134"
  shows "let s' = exec timer1_interrupt s; r = gpio_reg 4 DATAIN in
     ch1 s' = sample (bit (pins s (now s) r) 6) (ch1 s)
   \<and> ch2 s' = sample (bit (pins s (Suc (now s)) r) 5) (ch2 s)
   \<and> now s' = now s + 2 \<and> written REG_TMR_TISR (wlog s') = written REG_TMR_TISR (wlog s) @ [0x04]"
proof -
  define s1 where "s1 = put_all [(REG_TMR_TISR, 0x04)] s"
  have w: "exec (raw_writel 0x04 REG_TMR_TISR) s = s1"
    using tisr_plain(1) by (simp add: s1_def run_simps)
  have out: "\<not> is_output s1 134" using assms(2) tisr_plain(2)[symmetric]
    by (simp add: s1_def is_output_def pulse_pins)
  define s2 where "s2 = put_all [(gpio_reg 4 DATAIN, of_bool (in_level s1 134))] (s1\<lparr>now := now s1 + 1\<rparr>)"
  have g: "result_of (nuc970_gpio_core_get1 134) s1 = of_bool (in_level s1 134)"
    "exec (nuc970_gpio_core_get1 134) s1 = s2"
    using get1_pulse_input[OF pulse_pins(2) out] by (simp_all add: pulse_pins s2_def)
  define s3 where "s3 = s2\<lparr>ch1 := sample (in_level s1 134) (ch1 s2)\<rparr>"
  have out3: "\<not> is_output s3 133" using assms(1) tisr_plain(2)[symmetric]
    by (simp add: s3_def s2_def s1_def is_output_def pulse_pins)
  have "exec timer1_interrupt s = (exec (nuc970_gpio_core_get1 133) s3)
     \<lparr>ch2 := sample (in_level s3 133) (ch2 (exec (nuc970_gpio_core_get1 133) s3))\<rparr>"
    by (simp add: timer1_interrupt_def w g s3_def[symmetric] get1_pulse_input(1)[OF pulse_pins(1) out3])
  then show ?thesis
    using tisr_plain
    by (simp add: get1_pulse_input(2)[OF pulse_pins(1) out3] Let_def)
      (simp add: s3_def s2_def s1_def in_level_def pulse_pins)
qed

definition pulse_idle :: pulse_state where
  "pulse_idle = \<lparr>mmio = (\<lambda>_. 0), pins = (\<lambda>t r. if t = 0 then 0x40 else 0), now = 0, wlog = [],
     fault = False, kern = proc0, ch1 = chan0, ch2 = chan0, timer2_load = 0,
     pulse_is_open = False, pulse_is_first_read = False, g_my_device = False, my_class = Null,
     proc_dir = False\<rparr>"

theorem pulse_interrupt_witness:
  "let s' = exec timer1_interrupt pulse_idle in count_h (ch1 s') = 1 \<and> count_l (ch2 s') = 1"
  using pulse_interrupt[of pulse_idle]
  by (simp add: Let_def is_output_def pulse_idle_def chan0_def sample_def sample_high_def
      sample_low_def bit_simps)

section \<open>The text file\<close>

text \<open>Reading the counters.  The first read after an open reports both counters once and the next
  read returns 0; but the text is always written whole to the user's page, also when the caller
  asked for fewer bytes than it is long.\<close>

theorem pulse_read_once:
  "let s1 = exec hnos_proc_dispatch_open s;
       text = pulse_proc_read (pulse_count (ch1 s)) (pulse_count (ch2 s));
       s2 = exec (hnos_proc_dispatch_read n) s1
   in result_of hnos_proc_dispatch_open s = (if pulse_is_open s then Inl EBUSY else Inr ())
    \<and> (if pulse_is_open s then s1 = s
       else result_of (hnos_proc_dispatch_read n) s1 = (min n (length text), text)
         \<and> result_of (hnos_proc_dispatch_read m) s2 = (0, []))"
  by (simp add: Let_def hnos_proc_dispatch_open_def hnos_proc_dispatch_read_def min_def)

section \<open>What start-up and exit leave behind\<close>

lemma raw_keeps_kern [simp]:
  "kern (exec (raw_writel v a) s) = kern s" "kern (exec (raw_readl a) s) = kern s"
  by (simp_all add: raw_writel_def raw_readl_def)

lemma kern_pulse_start [simp]: "kern (exec (pulse_start c) s) = kern s"
  by (simp add: pulse_start_def Let_def split: option.splits)

lemma flags_pulse_start [simp]:
  "g_my_device (exec (pulse_start c) s) = g_my_device s"
  "my_class (exec (pulse_start c) s) = my_class s"
  by (simp_all add: pulse_start_def raw_writel_def raw_readl_def Let_def split: option.splits)

lemmas pulse_init_defs = my_device_init_def release_g_my_device_def request_irq_err_def
  proc_entry_failed_def proc_entry_failed1_def

definition all_ok :: pulse_env where
  "all_ok = \<lparr>ok_chrdev = True, ok_class = True, ok_node = True, ok_mem = True, ok_cdev = True,
     ok_irq = True, ok_dir = True, ok_entry = True, tmr2_clk = Some 12000000\<rparr>"

text \<open>A failed start-up keeps the interrupt.  When the file under \<open>/proc\<close> cannot be created,
  \<open>my_device_init\<close> reports an error and frees the device, but the interrupt line, the class, its
  node and the device number stay taken.\<close>

theorem pulse_init_failure_leaks:
  assumes "proc_ok (kern s)" "\<not> proc_dir s"
  shows "let e = all_ok\<lparr>ok_entry := False\<rparr>; s' = exec (my_device_init e) s
     in result_of (my_device_init e) s = Inl EPERM
      \<and> held (kern s') (Irq_line 30) \<and> held (kern s') (Class PULSE) \<and> held (kern s') (Device PULSE)
      \<and> held (kern s') (Chrdev PULSE) \<and> \<not> held (kern s') (Memory PULSE) \<and> \<not> held (kern s') (Cdev PULSE)"
  using assms by (simp add: pulse_init_defs all_ok_def Let_def mkdir_fields rmdir_fields proc_ok_def)

theorem pulse_init_failure_leaks_witness:
  "held (kern (exec (my_device_init (all_ok\<lparr>ok_entry := False\<rparr>)) pulse_idle)) (Irq_line 30)"
  using pulse_init_failure_leaks[of pulse_idle] by (simp add: Let_def pulse_idle_def proc_ok_def proc0_def)

abbreviation pulse_resources :: "resource set" where
  "pulse_resources \<equiv> {Chrdev PULSE, Memory PULSE, Cdev PULSE, Class PULSE, Device PULSE,
     Proc_entry PULSE, Irq_line 30}"

text \<open>Start-up and exit.  After a successful start-up, \<open>my_device_exit\<close> gives back everything the
  start-up took and nothing else, except that the use of \<open>/proc/hndl\<close> is never given back: the
  directory stays, with one user more than before.\<close>

theorem pulse_init_exit:
  assumes "proc_ok (kern s)" "\<not> proc_dir s" "\<forall>r\<in>pulse_resources. \<not> held (kern s) r"
  shows "let s1 = exec (my_device_init all_ok) s; s2 = exec my_device_exit s1
     in result_of (my_device_init all_ok) s = Inr ()
      \<and> (\<forall>r. held (kern s1) r = (r \<in> pulse_resources \<or> r = Proc_dir \<or> held (kern s) r))
      \<and> (\<forall>r. held (kern s2) r = (r = Proc_dir \<or> held (kern s) r))
      \<and> ref_cnt (kern s2) = ref_cnt (kern s) + 1 \<and> bogus (kern s2) = bogus (kern s)"
  using assms
  by (auto simp: pulse_init_defs my_device_exit_def all_ok_def Let_def mkdir_fields proc_ok_def)

theorem pulse_init_exit_witness:
  "held (kern (exec my_device_exit (exec (my_device_init all_ok) pulse_idle))) Proc_dir"
  using pulse_init_exit[of pulse_idle] by (simp add: Let_def pulse_idle_def proc_ok_def proc0_def)

end
