(* ===== verification/Serial.thy ===== *)
theory Serial
  imports Gpio
begin

text \<open>
  Serial lines driven by software.  The metering chip, the security module and the display hang on
  port lines that the drivers toggle one write at a time.  This theory holds the other end of such
  lines: a receiver that watches the values written to a port register, takes a sample at each
  active clock edge while its select line is low, and closes a frame when the select line rises.
  It is the reference against which the drivers' waveforms are read, and the contract the drivers'
  byte routines promise to their callers.
\<close>

section \<open>The receiver\<close>

record 'b port =
  preg :: u32
  pclk :: nat
  pcs :: nat
  ppol :: bool
  pobs :: "u32 \<Rightarrow> 'b"

text \<open>The state is the last value of the register, the samples of the frame under way and the
  frames closed so far.  \<open>ppol\<close> is \<open>True\<close> when the rising edge of the clock is the active one.\<close>

definition receive :: "'b port \<Rightarrow> u32 \<Rightarrow> u32 \<times> 'b list \<times> 'b list list \<Rightarrow> u32 \<times> 'b list \<times> 'b list list" where
  "receive P v = (\<lambda>(old, cur, fs).
     if bit old (pcs P) \<noteq> bit v (pcs P) then (v, [], if bit v (pcs P) then fs @ [cur] else fs)
     else if \<not> bit v (pcs P) \<and> bit old (pclk P) \<noteq> bit v (pclk P) \<and> bit v (pclk P) = ppol P
       then (v, cur @ [pobs P v], fs)
     else (v, cur, fs))"

text \<open>A receiver that has watched the register from the value \<open>v0\<close> on holds these samples and
  frames.\<close>

definition link :: "'b port \<Rightarrow> u32 \<Rightarrow> 'a hw_scheme \<Rightarrow> 'b list \<Rightarrow> 'b list list \<Rightarrow> bool" where
  "link P v0 s cur fs \<longleftrightarrow>
     fold (receive P) (written (preg P) (wlog s)) (v0, [], []) = (mmio s (preg P), cur, fs)"

lemma link_start: "wlog s = [] \<Longrightarrow> link P (mmio s (preg P)) s [] []"
  by (simp add: link_def)

lemma link_other:
  "link P v0 s cur fs \<Longrightarrow> r \<noteq> preg P \<Longrightarrow> link P v0 (put_all [(r, v)] s) cur fs"
  by (simp add: link_def)

lemma link_put:
  assumes "link P v0 s cur fs" "receive P v (mmio s (preg P), cur, fs) = (v, cur', fs')"
  shows "link P v0 (put_all [(preg P, v)] s) cur' fs'"
  using assms by (simp add: link_def)

lemma link_eq:
  "link P v0 s cur fs \<Longrightarrow> wlog s' = wlog s \<Longrightarrow> mmio s' (preg P) = mmio s (preg P) \<Longrightarrow>
     link P v0 s' cur fs"
  by (simp add: link_def)

text \<open>Changing a line that is neither the clock nor the select line is not seen; raising and
  lowering the two are.\<close>

lemma receive_data:
  "n \<noteq> pclk P \<Longrightarrow> n \<noteq> pcs P \<Longrightarrow> n < 32 \<Longrightarrow>
     receive P (put_bit b n old) (old, cur, fs) = (put_bit b n old, cur, fs)"
  by (simp add: receive_def bit_simps)

lemma receive_clk:
  "pclk P \<noteq> pcs P \<Longrightarrow> pclk P < 32 \<Longrightarrow> \<not> bit old (pcs P) \<Longrightarrow>
     receive P (put_bit b (pclk P) old) (old, cur, fs) =
       (put_bit b (pclk P) old,
        if bit old (pclk P) \<noteq> b \<and> b = ppol P then cur @ [pobs P (put_bit b (pclk P) old)] else cur, fs)"
  by (auto simp: receive_def bit_simps)

lemma receive_clk_idle:
  "pclk P \<noteq> pcs P \<Longrightarrow> pclk P < 32 \<Longrightarrow> bit old (pcs P) \<Longrightarrow>
     receive P (put_bit b (pclk P) old) (old, cur, fs) = (put_bit b (pclk P) old, cur, fs)"
  by (auto simp: receive_def bit_simps)

lemma receive_select:
  "pclk P \<noteq> pcs P \<Longrightarrow> pcs P < 32 \<Longrightarrow> bit old (pcs P) \<Longrightarrow>
     receive P (put_bit False (pcs P) old) (old, cur, fs) = (put_bit False (pcs P) old, [], fs)"
  by (auto simp: receive_def bit_simps)

lemma receive_deselect:
  "pclk P \<noteq> pcs P \<Longrightarrow> pcs P < 32 \<Longrightarrow> \<not> bit old (pcs P) \<Longrightarrow>
     receive P (put_bit True (pcs P) old) (old, cur, fs) = (put_bit True (pcs P) old, [], fs @ [cur])"
  by (auto simp: receive_def bit_simps)

lemma receive_same_cs:
  "pclk P \<noteq> pcs P \<Longrightarrow> pcs P < 32 \<Longrightarrow> bit old (pcs P) = b \<Longrightarrow>
     receive P (put_bit b (pcs P) old) (old, cur, fs) = (put_bit b (pcs P) old, cur, fs)"
  by (auto simp: receive_def bit_simps)

text \<open>One line of a port register as the drivers' macros set it.\<close>

definition set_line :: "u32 \<Rightarrow> nat \<Rightarrow> bool \<Rightarrow> ('a hw_scheme, unit) state" where
  "set_line r n b = (if b then or_reg r (BIT n) else andn_reg r (BIT n))"

lemma set_line_exec:
  "r \<noteq> 0 \<Longrightarrow> \<not> hw_input r \<Longrightarrow> exec (set_line r n b) s = put_all [(r, put_bit b n (mmio s r))] s"
  by (simp add: set_line_def put_bit_def run_simps)

section \<open>Within a frame\<close>

text \<open>The levels of the clock and of the data line \<open>d\<close> while a frame is under way.\<close>

definition lines :: "bool port \<Rightarrow> nat \<Rightarrow> u32 \<Rightarrow> bool list list \<Rightarrow> bool list \<Rightarrow> bool \<Rightarrow> bool \<Rightarrow> 'a hw_scheme \<Rightarrow> bool" where
  "lines P d v0 fs cur clk dat s \<longleftrightarrow> link P v0 s cur fs \<and> \<not> bit (mmio s (preg P)) (pcs P)
     \<and> bit (mmio s (preg P)) (pclk P) = clk \<and> bit (mmio s (preg P)) d = dat"

definition data_port :: "bool port \<Rightarrow> nat \<Rightarrow> bool" where
  "data_port P d \<longleftrightarrow> pobs P = (\<lambda>v. bit v d) \<and> distinct [d, pclk P, pcs P] \<and> pclk P < 32"

lemma lines_put:
  assumes "lines P d v0 fs cur clk dat s" "data_port P d" "n < 32" "n \<noteq> pcs P"
  shows "lines P d v0 fs (if n = pclk P \<and> clk \<noteq> b \<and> b = ppol P then cur @ [dat] else cur)
     (if n = pclk P then b else clk) (if n = d then b else dat)
     (put_all [(preg P, put_bit b n (mmio s (preg P)))] s)"
proof -
  let ?v = "put_bit b n (mmio s (preg P))"
  have o: "\<not> bit (mmio s (preg P)) (pcs P)" "clk = bit (mmio s (preg P)) (pclk P)"
    "dat = bit (mmio s (preg P)) d"
    using assms(1) by (simp_all add: lines_def)
  have p: "pobs P = (\<lambda>v. bit v d)" "d \<noteq> pclk P" "pclk P \<noteq> pcs P"
    using assms(2) by (auto simp: data_port_def)
  have "receive P ?v (mmio s (preg P), cur, fs) =
      (?v, if n = pclk P \<and> clk \<noteq> b \<and> b = ppol P then cur @ [dat] else cur, fs)"
    unfolding o(2,3) receive_def p(1) using o(1) p(2,3) assms(3,4) by (auto simp: bit_put_bit)
  then have "link P v0 (put_all [(preg P, ?v)] s)
      (if n = pclk P \<and> clk \<noteq> b \<and> b = ppol P then cur @ [dat] else cur) fs"
    using link_put[of P v0 s cur fs ?v] assms(1) by (simp add: lines_def)
  then show ?thesis using assms by (simp add: lines_def bit_simps)
qed

lemma top_bit: "(x AND 0x80 = 0x80) = bit (x :: u8) 7"
  using and_BIT[of x 7] by (simp add: BIT_def)

lemma bit_shl1: "bit (push_bit 1 x :: u8) n \<longleftrightarrow> n < 8 \<and> 0 < n \<and> bit x (n - 1)"
  unfolding bit_push_bit_iff by (cases n) auto

text \<open>The upper bits of a byte, and the byte that is left after shifting one out.\<close>

definition high_bits :: "nat \<Rightarrow> u8 \<Rightarrow> bool list" where
  "high_bits n x = map (\<lambda>i. bit x (7 - i)) [0..<n]"

lemma high_bits_Suc: "n < 8 \<Longrightarrow> high_bits (Suc n) x = bit x 7 # high_bits n (push_bit 1 x)"
proof -
  assume n: "n < 8"
  have "high_bits (Suc n) x = bit x 7 # map (\<lambda>i. bit x (7 - Suc i)) [0..<n]"
    unfolding high_bits_def upt_conv_Cons[OF zero_less_Suc] map_Suc_upt[symmetric] by (simp add: comp_def)
  also have "map (\<lambda>i. bit x (7 - Suc i)) [0..<n] = high_bits n (push_bit 1 x)"
    unfolding high_bits_def using n by (intro map_cong refl) (unfold bit_shl1, auto)
  finally show ?thesis .
qed

lemma high_bits_0 [simp]: "high_bits 0 x = []"
  by (simp add: high_bits_def)

lemma high_bits_8: "high_bits 8 x = bits_msb x"
  by (simp add: high_bits_def bits_msb_def upt_rec)

lemma shift_last: "0 < n \<Longrightarrow> n < 8 \<Longrightarrow> bit (push_bit 1 x :: u8) (8 - n) = bit x (8 - Suc n)"
  unfolding bit_shl1 by auto

text \<open>Bytes on the line, and a quiet line while \<open>k\<close> bytes are read.\<close>

definition stream :: "u8 list \<Rightarrow> bool list" where
  "stream bs = concat (map bits_msb bs)"

definition pad :: "nat \<Rightarrow> bool list" where
  "pad k = replicate (8 * k) False"

lemma stream_simps [simp]: "stream [] = []" "stream (b # bs) = bits_msb b @ stream bs"
  "stream (as @ bs) = stream as @ stream bs"
  by (simp_all add: stream_def)

section \<open>Before the first frame\<close>

text \<open>Nothing but closed empty frames so far, and nothing in the frame under way.\<close>

definition quiet :: "bool port \<Rightarrow> u32 \<Rightarrow> 'a hw_scheme \<Rightarrow> bool" where
  "quiet P v0 s \<longleftrightarrow> (\<exists>fs. link P v0 s [] fs \<and> concat fs = [])"

lemma quiet_put:
  assumes "quiet P v0 s" "n < 32" "n = pclk P \<longrightarrow> b \<noteq> ppol P \<or> bit (mmio s (preg P)) (pcs P)" "pclk P \<noteq> pcs P"
  shows "quiet P v0 (put_all [(preg P, put_bit b n (mmio s (preg P)))] s)"
proof -
  let ?o = "mmio s (preg P)"
  obtain fs where fs: "link P v0 s [] fs" "concat fs = []" using assms(1) by (auto simp: quiet_def)
  have "\<exists>fs'. receive P (put_bit b n ?o) (?o, [], fs) = (put_bit b n ?o, [], fs') \<and> concat fs' = []"
    using assms(2-4) fs(2) by (auto simp: receive_def bit_simps)
  then show ?thesis using link_put[OF fs(1)] by (fastforce simp: quiet_def)
qed

lemma quiet_other: "quiet P v0 s \<Longrightarrow> r \<noteq> preg P \<Longrightarrow> quiet P v0 (put_all [(r, v)] s)"
  unfolding quiet_def using link_other[of P v0 s "[]" _ r v] by auto

lemma put_all_pair: "put_all [a, b] s = put_all [b] (put_all [a] s)"
  by (cases a; cases b) simp

text \<open>Moving the pins of the port, except for an active clock edge at a selected receiver.\<close>

lemma quiet_out:
  assumes "quiet P v0 s" "preg P = gpio_reg p DATAOUT" "g < NUMGPIO" "pin_port g = p" "pclk P \<noteq> pcs P"
    "pin_num g = pclk P \<longrightarrow> (v \<noteq> 0) \<noteq> ppol P"
  shows "quiet P v0 (exec (nuc970_gpio_core_direction_out1 g v) s)"
proof -
  have p: "p < 10" using assms(3,4) by auto
  let ?d = "[(gpio_reg p DIR, put_bit True (pin_num g) (mmio s (gpio_reg p DIR)))]"
  have "quiet P v0 (put_all ?d s)" using p by (intro quiet_other[OF assms(1)]) (simp add: assms(2))
  from quiet_put[OF this, of "pin_num g" "v \<noteq> 0"] show ?thesis
    using assms p by (simp add: direction_out1_exec put_all_pair[where s = s] del: put_all.simps)
      (simp add: quiet_def link_def)
qed

lemma quiet_set:
  assumes "quiet P v0 s" "preg P = gpio_reg p DATAOUT" "g < NUMGPIO" "pin_port g = p" "pclk P \<noteq> pcs P"
    "is_output s g" "pin_num g = pclk P \<longrightarrow> (v \<noteq> 0) \<noteq> ppol P \<or> bit (mmio s (preg P)) (pcs P)"
  shows "quiet P v0 (exec (nuc970_gpio_core_set1 g v) s)"
  using quiet_put[OF assms(1), of "pin_num g" "v \<noteq> 0"] assms(2-7)
  by (simp add: set1_output del: put_all.simps)

lemma quiet_in:
  assumes "quiet P v0 s" "g < NUMGPIO" "preg P \<noteq> gpio_reg (pin_port g) DIR"
  shows "quiet P v0 (exec (nuc970_gpio_core_direction_in1 g) s)"
  using quiet_other[OF assms(1), of "gpio_reg (pin_port g) DIR"] assms(2,3)
  by (simp add: direction_in1_exec del: put_all.simps)

lemma truncate_views:
  assumes "hw.truncate s = hw.truncate t"
  shows "mmio s = mmio t" "wlog s = wlog t"
  using assms by (simp_all add: hw.truncate_def)

section \<open>The contract of a byte routine\<close>

text \<open>\<open>sel s cur\<close>: a frame is under way with the samples \<open>cur\<close>; \<open>rx s k\<close> is the byte the next
  but \<open>k\<close> receptions will return; \<open>idle\<close> is the level of the data line between bytes.\<close>

fun send_all :: "(u8 \<Rightarrow> ('s, unit) state) \<Rightarrow> u8 list \<Rightarrow> ('s, unit) state" where
  "send_all send [] = return ()"
| "send_all send (b # bs) = do { send b; send_all send bs }"

text \<open>Receiving into a buffer, at the places of a list, with the sum of the bytes.\<close>

fun fill :: "('s, u8) state \<Rightarrow> (nat \<Rightarrow> u8 \<Rightarrow> 's \<Rightarrow> 's) \<Rightarrow> nat list \<Rightarrow> u8 \<Rightarrow> ('s, u8) state" where
  "fill recv store [] acc = return acc"
| "fill recv store (i # is) acc = do {
     b \<leftarrow> recv;
     modify (store i b);
     fill recv store is (acc + b) }"

fun put_list :: "nat list \<Rightarrow> (nat \<Rightarrow> u8) \<Rightarrow> (nat \<Rightarrow> u8) \<Rightarrow> nat \<Rightarrow> u8" where
  "put_list [] g f = f"
| "put_list (i # is) g f = put_list is (\<lambda>k. g (Suc k)) (f(i := g 0))"

lemma put_list_other: "i \<notin> set is \<Longrightarrow> put_list is g f i = f i"
  by (induction "is" g f rule: put_list.induct) auto

lemma put_list_nth: "distinct is \<Longrightarrow> j < length is \<Longrightarrow> put_list is g f (is ! j) = g j"
  by (induction "is" g f arbitrary: j rule: put_list.induct)
    (auto simp: put_list_other nth_Cons split: nat.splits)

lemma put_list_down:
  "put_list (rev [b..<b + n]) g f = (\<lambda>i. if b \<le> i \<and> i < b + n then g (b + n - Suc i) else f i)"
proof (rule ext)
  fix i
  show "put_list (rev [b..<b + n]) g f i = (if b \<le> i \<and> i < b + n then g (b + n - Suc i) else f i)"
  proof (cases "b \<le> i \<and> i < b + n")
    case True
    then have k: "b + n - Suc i < n" "n - Suc (b + n - Suc i) = i - b" by auto
    then have "rev [b..<b + n] ! (b + n - Suc i) = i" using True by (simp add: rev_nth)
    then show ?thesis using True k(1) put_list_nth[of "rev [b..<b + n]" "b + n - Suc i" g f] by simp
  next
    case False
    then show ?thesis by (auto intro: put_list_other)
  qed
qed

lemma put_list_up:
  "put_list [b..<b + n] g f = (\<lambda>i. if b \<le> i \<and> i < b + n then g (i - b) else f i)"
proof (rule ext)
  fix i
  show "put_list [b..<b + n] g f i = (if b \<le> i \<and> i < b + n then g (i - b) else f i)"
  proof (cases "b \<le> i \<and> i < b + n")
    case True
    then have k: "i - b < n" by auto
    then have "[b..<b + n] ! (i - b) = i" using True by simp
    then show ?thesis using True k put_list_nth[of "[b..<b + n]" "i - b" g f] by simp
  next
    case False
    then show ?thesis by (auto intro: put_list_other)
  qed
qed

locale byte_in =
  fixes sel :: "'s \<Rightarrow> bool list \<Rightarrow> bool" and idle :: "'s \<Rightarrow> bool" and buf :: "'s \<Rightarrow> nat \<Rightarrow> u8"
    and recv :: "('s, u8) state" and rx :: "'s \<Rightarrow> nat \<Rightarrow> u8" and store :: "nat \<Rightarrow> u8 \<Rightarrow> 's \<Rightarrow> 's"
  assumes recv_result: "sel s cur \<Longrightarrow> result_of recv s = rx s 0"
    and recv_rx: "sel s cur \<Longrightarrow> rx (exec recv s) = (\<lambda>k. rx s (Suc k))"
    and recv_sel: "sel s cur \<Longrightarrow> sel (exec recv s) (cur @ replicate 8 (idle s))"
    and recv_idle: "sel s cur \<Longrightarrow> idle (exec recv s) = idle s"
    and recv_buf: "sel s cur \<Longrightarrow> buf (exec recv s) = buf s"
    and store_sel: "sel s cur \<Longrightarrow> sel (store i b s) cur"
    and store_rx: "rx (store i b s) = rx s"
    and store_idle: "idle (store i b s) = idle s"
    and store_buf: "buf (store i b s) = (buf s)(i := b)"
begin

lemma fill_line:
  "sel s cur \<Longrightarrow> sel (exec (fill recv store is a) s) (cur @ replicate (8 * length is) (idle s))
     \<and> idle (exec (fill recv store is a) s) = idle s
     \<and> rx (exec (fill recv store is a) s) = (\<lambda>k. rx s (length is + k))
     \<and> result_of (fill recv store is a) s = a + (\<Sum>j\<leftarrow>[0..<length is]. rx s j)"
proof (induction "is" arbitrary: s cur a)
  case (Cons i "is")
  let ?t = "store i (rx s 0) (exec recv s)"
  have t: "sel ?t (cur @ replicate 8 (idle s))" "idle ?t = idle s" "rx ?t = (\<lambda>k. rx s (Suc k))"
    using Cons.prems by (simp_all add: store_sel store_idle store_rx recv_sel recv_idle recv_rx)
  have sum: "(\<Sum>j\<leftarrow>[0..<Suc n]. f j) = f 0 + (\<Sum>j\<leftarrow>[0..<n]. f (Suc j))" for f :: "nat \<Rightarrow> u8" and n
    unfolding upt_conv_Cons[OF zero_less_Suc] map_Suc_upt[symmetric] list.map sum_list.Cons map_map
    by (simp add: comp_def)
  show ?case using Cons.IH[OF t(1)] Cons.prems
    by (simp add: recv_result t(2,3) sum replicate_add[symmetric] add.assoc del: upt_Suc)
qed simp


lemma fill_buf:
  "sel s cur \<Longrightarrow> buf (exec (fill recv store is a) s) = put_list is (rx s) (buf s)"
proof (induction "is" arbitrary: s cur a)
  case (Cons i "is")
  have "sel (store i (rx s 0) (exec recv s)) (cur @ replicate 8 (idle s))"
    using Cons.prems by (simp add: store_sel recv_sel)
  from Cons.IH[OF this] show ?case using Cons.prems
    by (simp add: recv_result store_rx recv_rx store_buf recv_buf fun_upd_def)
qed simp

end

locale byte_link = byte_in +
  fixes send :: "u8 \<Rightarrow> ('s, unit) state"
  assumes send_sel: "sel s cur \<Longrightarrow> sel (exec (send b) s) (cur @ bits_msb b)"
    and send_idle: "sel s cur \<Longrightarrow> idle (exec (send b) s) = bit b 0"
    and send_buf: "sel s cur \<Longrightarrow> buf (exec (send b) s) = buf s"
    and send_rx: "sel s cur \<Longrightarrow> rx (exec (send b) s) = rx s"
begin

text \<open>A block of bytes reaches the other end in order, and neither the buffer nor what is to
  come in changes.\<close>

lemma send_all_law:
  "sel s cur \<Longrightarrow> sel (exec (send_all send bs) s) (cur @ stream bs)
     \<and> buf (exec (send_all send bs) s) = buf s \<and> rx (exec (send_all send bs) s) = rx s
     \<and> idle (exec (send_all send bs) s) = (if bs = [] then idle s else bit (last bs) 0)"
proof (induction bs arbitrary: s cur)
  case (Cons b bs)
  then show ?case using Cons.IH[OF send_sel[OF Cons.prems]]
    by (simp add: send_buf send_rx send_idle)
qed simp

end

end
