(* ===== verification/Rn8302b.thy ===== *)
theory Rn8302b
  imports Serial Kres
begin

text \<open>
  The driver of the metering chip RN8302B, \<open>src/drivers/char/hndl_char_devices/rn8302b.c\<close>: a
  serial bus on port D toggled by software, register reads and writes with a check sum and a
  second look at the chip's echo registers, and the character device around them.  The caller's
  buffer is the memory from \<open>buf\<close> on, addressed by offset, as the code accesses it directly and
  without a bound.
\<close>

section \<open>The lines\<close>

record rn_state = hw +
  kern :: kres
  RN8302Status :: u8
  ram :: "nat \<Rightarrow> u8"
  rn8302b_spi :: bool
  rn_class :: kptr
  is_open :: bool

definition P_ADE78XX_SCL_H :: "('a hw_scheme, unit) state" where
  "P_ADE78XX_SCL_H = or_reg REG_GPIOD_DATAOUT 0x10"
definition P_ADE78XX_SCL_L :: "('a hw_scheme, unit) state" where
  "P_ADE78XX_SCL_L = andn_reg REG_GPIOD_DATAOUT 0x10"
definition P_ADE78XX_SDO_H :: "('a hw_scheme, unit) state" where
  "P_ADE78XX_SDO_H = or_reg REG_GPIOD_DATAOUT 0x04"
definition P_ADE78XX_SDO_L :: "('a hw_scheme, unit) state" where
  "P_ADE78XX_SDO_L = andn_reg REG_GPIOD_DATAOUT 0x04"
definition P_ADE78XX_SDI_Read :: "('a hw_scheme, u32) state" where
  "P_ADE78XX_SDI_Read = nuc970_gpio_core_get1 101"
definition P_ADE78XX_CS_H :: "('a hw_scheme, unit) state" where
  "P_ADE78XX_CS_H = or_reg REG_GPIOD_DATAOUT 0x08"
definition P_ADE78XX_CS_L :: "('a hw_scheme, unit) state" where
  "P_ADE78XX_CS_L = andn_reg REG_GPIOD_DATAOUT 0x08"

definition RN8302_SPI_Init :: "('a hw_scheme, unit) state" where
  "RN8302_SPI_Init = do {
     nuc970_gpio_core_direction_out1 100 1;
     nuc970_gpio_core_direction_out1 98 1;
     nuc970_gpio_core_direction_out1 99 1;
     nuc970_gpio_core_direction_out1 102 1;
     return () }"

text \<open>A delay is a loop of empty instructions.\<close>

fun nops :: "nat \<Rightarrow> ('s, unit) state" where
  "nops 0 = return ()"
| "nops (Suc n) = do { return (); nops n }"

definition RN8302_Delay :: "nat \<Rightarrow> ('s, unit) state" where
  "RN8302_Delay n = nops (n * 20)"

section \<open>Bytes\<close>

fun rn_send_bits :: "nat \<Rightarrow> u8 \<Rightarrow> ('a hw_scheme, unit) state" where
  "rn_send_bits 0 TxData = return ()"
| "rn_send_bits (Suc n) TxData = do {
     P_ADE78XX_SCL_H;
     RN8302_Delay 10;
     (if TxData AND 0x80 = 0x80 then P_ADE78XX_SDO_H else P_ADE78XX_SDO_L);
     RN8302_Delay 10;
     P_ADE78XX_SCL_L;
     RN8302_Delay 10;
     rn_send_bits n (push_bit 1 TxData) }"

definition RN8302_SendByte :: "u8 \<Rightarrow> ('a hw_scheme, unit) state" where
  "RN8302_SendByte TxData = rn_send_bits 8 TxData"

fun rn_recv_bits :: "nat \<Rightarrow> u8 \<Rightarrow> ('a hw_scheme, u8) state" where
  "rn_recv_bits 0 RxData = return RxData"
| "rn_recv_bits (Suc n) RxData = do {
     P_ADE78XX_SCL_H;
     RN8302_Delay 10;
     P_ADE78XX_SCL_L;
     let RxData = push_bit 1 RxData;
     RN8302_Delay 10;
     b \<leftarrow> P_ADE78XX_SDI_Read;
     let RxData = (if b \<noteq> 0 then RxData OR 0x01 else RxData);
     RN8302_Delay 3;
     rn_recv_bits n RxData }"

definition RN8302_ReceiveByte :: "('a hw_scheme, u8) state" where
  "RN8302_ReceiveByte = rn_recv_bits 8 0"

section \<open>Registers of the chip\<close>

text \<open>\<open>base\<close> is the offset of \<open>RAM_Addr\<close> in the caller's buffer.\<close>

definition ram_put :: "nat \<Rightarrow> u8 \<Rightarrow> 'a rn_state_scheme \<Rightarrow> 'a rn_state_scheme" where
  "ram_put i b s = s\<lparr>ram := (ram s)(i := b)\<rparr>"

definition set_status :: "u8 \<Rightarrow> ('a rn_state_scheme, unit) state" where
  "set_status v = modify (\<lambda>s. s\<lparr>RN8302Status := v\<rparr>)"

fun rn_read_data :: "nat \<Rightarrow> nat \<Rightarrow> u8 \<Rightarrow> ('a rn_state_scheme, u8) state" where
  "rn_read_data base 0 chksum = return chksum"
| "rn_read_data base (Suc i) chksum = do {
     b \<leftarrow> RN8302_ReceiveByte;
     modify (ram_put (base + i) b);
     v \<leftarrow> gets (\<lambda>s. ram s (base + i));
     rn_read_data base i (chksum + v) }"

fun rn_reread :: "nat \<Rightarrow> u8 \<Rightarrow> nat \<Rightarrow> u8 \<Rightarrow> ('a rn_state_scheme, u8) state" where
  "rn_reread base Lenth 0 chksum = return chksum"
| "rn_reread base Lenth (Suc i) chksum = do {
     Temp \<leftarrow> RN8302_ReceiveByte;
     (if Suc i \<le> unat Lenth then do {
        v \<leftarrow> gets (\<lambda>s. ram s (base + i));
        (if Temp \<noteq> v then modify (ram_put (base + i) Temp) else return ())
      } else return ());
     rn_reread base Lenth i (chksum + Temp) }"

fun rn_zero :: "nat \<Rightarrow> nat \<Rightarrow> ('a rn_state_scheme, unit) state" where
  "rn_zero base 0 = return ()"
| "rn_zero base (Suc i) = do { modify (ram_put (base + i) 0); rn_zero base i }"

definition RN8302_Read :: "nat \<Rightarrow> u32 \<Rightarrow> u8 \<Rightarrow> ('a rn_state_scheme, u8) state" where
  "RN8302_Read base RN8302_Addr Lenth = do {
     set_status 0x01;
     P_ADE78XX_CS_L;
     RN8302_Delay 10;
     let Temp = (ucast (RN8302_Addr AND 0x00ff) :: u8);
     let chksum = Temp;
     RN8302_SendByte Temp;
     let Temp = ((ucast (drop_bit 4 RN8302_Addr) :: u8) AND 0xf0) + 0x00;
     let chksum = chksum + Temp;
     RN8302_SendByte Temp;
     RN8302_Delay 10;
     chksum \<leftarrow> rn_read_data base (unat Lenth) chksum;
     let chksum = NOT chksum;
     Temp \<leftarrow> RN8302_ReceiveByte;
     (if Temp \<noteq> chksum then do {
        RN8302_SendByte 0x8c;
        let chksum = 0x8c;
        let Temp = ((ucast (drop_bit 4 (0x018C :: u32)) :: u8) AND 0xf0) + 0x00;
        let chksum = chksum + Temp;
        RN8302_SendByte Temp;
        chksum \<leftarrow> rn_reread base Lenth 4 chksum;
        let chksum = NOT chksum;
        Temp \<leftarrow> RN8302_ReceiveByte;
        (if Temp \<noteq> chksum then do {
           rn_zero base (unat Lenth);
           set_status 0x00
         } else return ())
      } else return ());
     P_ADE78XX_CS_H;
     gets RN8302Status }"

fun rn_send_data :: "nat \<Rightarrow> nat \<Rightarrow> u8 \<Rightarrow> ('a rn_state_scheme, u8) state" where
  "rn_send_data base 0 chksum = return chksum"
| "rn_send_data base (Suc i) chksum = do {
     v \<leftarrow> gets (\<lambda>s. ram s (base + i));
     RN8302_SendByte v;
     rn_send_data base i (chksum + v) }"

fun rn_echo :: "nat \<Rightarrow> u8 \<Rightarrow> nat \<Rightarrow> u8 \<Rightarrow> ('a rn_state_scheme, u8) state" where
  "rn_echo base Lenth 0 chksum = return chksum"
| "rn_echo base Lenth (Suc i) chksum = do {
     Temp \<leftarrow> RN8302_ReceiveByte;
     v \<leftarrow> gets (\<lambda>s. ram s (base + i));
     if Suc i \<le> unat Lenth \<and> Temp \<noteq> v then do { set_status 0x00; return chksum }
     else rn_echo base Lenth i (chksum + Temp) }"

definition rn_write_once :: "u32 \<Rightarrow> nat \<Rightarrow> u8 \<Rightarrow> ('a rn_state_scheme, unit) state" where
  "rn_write_once RN8302_Addr base Lenth = do {
     set_status 0x01;
     P_ADE78XX_CS_L;
     RN8302_Delay 10;
     let Temp = (ucast (RN8302_Addr AND 0x00ff) :: u8);
     let chksum = Temp;
     RN8302_SendByte Temp;
     let Temp = ((ucast (drop_bit 4 RN8302_Addr) :: u8) AND 0xf0) + 0x80;
     let chksum = chksum + Temp;
     RN8302_SendByte Temp;
     RN8302_Delay 10;
     chksum \<leftarrow> rn_send_data base (unat Lenth) chksum;
     let chksum = NOT chksum;
     RN8302_SendByte chksum;
     RN8302_SendByte 0x8D;
     let chksum = 0x8D;
     let Temp = ((ucast (drop_bit 4 (0x018D :: u32)) :: u8) AND 0xf0) + 0x00;
     let chksum = chksum + Temp;
     RN8302_SendByte Temp;
     RN8302_Delay 10;
     chksum \<leftarrow> rn_echo base Lenth 3 chksum;
     st \<leftarrow> gets RN8302Status;
     (if st = 0x01 then do {
        let chksum = NOT chksum;
        Temp \<leftarrow> RN8302_ReceiveByte;
        (if Temp \<noteq> chksum then set_status 0x00 else return ())
      } else return ());
     P_ADE78XX_CS_H }"

fun rn_write_tries :: "nat \<Rightarrow> u32 \<Rightarrow> nat \<Rightarrow> u8 \<Rightarrow> ('a rn_state_scheme, unit) state" where
  "rn_write_tries 0 RN8302_Addr base Lenth = return ()"
| "rn_write_tries (Suc Repeat) RN8302_Addr base Lenth = do {
     rn_write_once RN8302_Addr base Lenth;
     st \<leftarrow> gets RN8302Status;
     if st = 0x01 then return () else rn_write_tries Repeat RN8302_Addr base Lenth }"

definition RN8302_Write :: "u32 \<Rightarrow> nat \<Rightarrow> u8 \<Rightarrow> ('a rn_state_scheme, u8) state" where
  "RN8302_Write RN8302_Addr base Lenth = do {
     rn_write_tries 10 RN8302_Addr base Lenth;
     gets RN8302Status }"

section \<open>The device\<close>

text \<open>The two address bytes in the caller's buffer; in \<open>rn8302b_write\<close> the upper half of the
  variable is not initialised, so its value \<open>junk\<close> is an argument.\<close>

definition rn_addr :: "u32 \<Rightarrow> (nat \<Rightarrow> u8) \<Rightarrow> u32" where
  "rn_addr junk m = (junk AND 0xFFFF0000) OR push_bit 8 (ucast (m 1)) OR ucast (m 0)"

definition rn8302b_write :: "u32 \<Rightarrow> bool \<Rightarrow> u32 \<Rightarrow> ('a rn_state_scheme, u32 result) state" where
  "rn8302b_write junk dev count = do {
     opened \<leftarrow> gets is_open;
     if \<not> dev \<or> \<not> opened then return (Inl EFAULT)
     else do {
       RN8302_Addr \<leftarrow> gets (\<lambda>s. rn_addr junk (ram s));
       ret \<leftarrow> RN8302_Write RN8302_Addr 2 (ucast (count - 2));
       if ret = 0x00 then return (Inl EIO) else return (Inr count) } }"

definition rn8302b_read :: "bool \<Rightarrow> u32 \<Rightarrow> ('a rn_state_scheme, u32 result) state" where
  "rn8302b_read dev count = do {
     opened \<leftarrow> gets is_open;
     if \<not> dev \<or> \<not> opened then return (Inl EFAULT)
     else do {
       RN8302_Addr \<leftarrow> gets (\<lambda>s. rn_addr 0 (ram s));
       ret \<leftarrow> RN8302_Read 0 RN8302_Addr (ucast count);
       if ret = 0x00 then return (Inl EIO) else return (Inr count) } }"

definition on_kern :: "(kres, 'b) state \<Rightarrow> ('a rn_state_scheme, 'b) state" where
  "on_kern m = State (\<lambda>s. (result_of m (kern s), s\<lparr>kern := exec m (kern s)\<rparr>))"

abbreviation RN8302B :: string where "RN8302B \<equiv> ''rn8302b''"

definition rn8302b_spi_setup_cdev :: "bool \<Rightarrow> ('a rn_state_scheme, unit) state" where
  "rn8302b_spi_setup_cdev ok = do { on_kern (request ok (Cdev RN8302B)); return () }"

text \<open>A successful open returns what it stores in the file: whether there is a device.\<close>

definition rn8302b_open :: "('a rn_state_scheme, bool result) state" where
  "rn8302b_open = do {
     dev \<leftarrow> gets rn8302b_spi;
     was \<leftarrow> gets is_open;
     (if dev then modify (\<lambda>s. s\<lparr>is_open := True\<rparr>) else return ());
     return (if dev \<and> was then Inl EBUSY else Inr dev) }"

definition rn8302b_release :: "bool \<Rightarrow> ('a rn_state_scheme, unit result) state" where
  "rn8302b_release dev = do {
     was \<leftarrow> gets is_open;
     (if dev then modify (\<lambda>s. s\<lparr>is_open := False\<rparr>) else return ());
     return (if dev \<and> \<not> was then Inl EINVAL else Inr ()) }"

text \<open>The outcomes of the kernel calls of the start-up: memory, device number (with the error it
  reports), class, node, and adding the device.\<close>

record rn_env =
  ok_mem :: bool
  err_chrdev :: "errno option"
  ok_class :: bool
  ok_node :: bool
  ok_cdev :: bool

definition rn8302b_init :: "rn_env \<Rightarrow> ('a rn_state_scheme, unit result) state" where
  "rn8302b_init e = do {
     RN8302_SPI_Init;
     nuc970_gpio_core_set1 102 0;
     nuc970_gpio_core_direction_in1 101;
     nuc970_gpio_core_set1 102 1;
     m \<leftarrow> on_kern (request (ok_mem e) (Memory RN8302B));
     modify (\<lambda>s. s\<lparr>rn8302b_spi := m\<rparr>);
     if \<not> m then return (Inl ENOMEM)
     else do {
       modify (\<lambda>s. s\<lparr>rn_class := Null, is_open := False\<rparr>);
       on_kern (request (err_chrdev e = None) (Chrdev RN8302B));
       case err_chrdev e of Some ret \<Rightarrow> return (Inl ret)
       | None \<Rightarrow> do {
           c \<leftarrow> on_kern (class_create (ok_class e) RN8302B);
           if c = Null then return (Inl ENOMEM)
           else do {
             d \<leftarrow> on_kern (device_create c (ok_node e) RN8302B);
             if d = Null then return (Inl ENOMEM)
             else do {
               modify (\<lambda>s. s\<lparr>rn_class := c\<rparr>);
               rn8302b_spi_setup_cdev (ok_cdev e);
               return (Inr ()) } } } } }"

definition rn8302b_exit :: "('a rn_state_scheme, unit) state" where
  "rn8302b_exit = do {
     on_kern (release (Cdev RN8302B));
     c \<leftarrow> gets rn_class;
     (if c \<noteq> Null then do {
        on_kern (device_destroy c RN8302B);
        on_kern (class_destroy c RN8302B)
      } else return ());
     on_kern (release (Chrdev RN8302B)) }"

section \<open>What the chip sees\<close>

text \<open>The chip samples the data line at the falling edge of the clock.\<close>

definition rn_port :: "bool port" where
  "rn_port = \<lparr>preg = REG_GPIOD_DATAOUT, pclk = 4, pcs = 3, ppol = False, pobs = (\<lambda>v. bit v 2)\<rparr>"

lemma rn_port_sel [simp]:
  "preg rn_port = gpio_reg 3 DATAOUT" "pclk rn_port = 4" "pcs rn_port = 3" "\<not> ppol rn_port"
  "pobs rn_port v = bit v 2"
  by (simp_all add: rn_port_def named_port_regs)

text \<open>A frame is under way; \<open>st\<close> is the driver's status variable.\<close>

definition rn_sel :: "u32 \<Rightarrow> bool list list \<Rightarrow> u8 \<Rightarrow> 'a rn_state_scheme \<Rightarrow> bool list \<Rightarrow> bool" where
  "rn_sel v0 fs st s cur \<longleftrightarrow> link rn_port v0 s cur fs \<and> \<not> bit (mmio s (gpio_reg 3 DATAOUT)) 3
     \<and> \<not> bit (mmio s (gpio_reg 3 DIR)) 5 \<and> RN8302Status s = st"

definition rn_idle :: "'a hw_scheme \<Rightarrow> bool" where
  "rn_idle s = bit (mmio s (gpio_reg 3 DATAOUT)) 2"

text \<open>The level of the chip's data line at the \<open>j\<close>-th next sample, and the bytes made of them.\<close>

definition rn_in :: "'a hw_scheme \<Rightarrow> nat \<Rightarrow> bool" where
  "rn_in s j = bit (pins s (now s + j) (gpio_reg 3 DATAIN)) 5"

definition rn_rx :: "'a hw_scheme \<Rightarrow> nat \<Rightarrow> u8" where
  "rn_rx s k = byte_of_msb (map (\<lambda>j. rn_in s (8 * k + j)) [0..<8])"

lemma nops_skip [simp]: "nops n = return ()"
  by (induction n) simp_all

lemma delay_skip [simp]: "RN8302_Delay n = return ()"
  by (simp add: RN8302_Delay_def)

lemma line_exec:
  "exec P_ADE78XX_SCL_H s = put_all [(gpio_reg 3 DATAOUT, put_bit True 4 (mmio s (gpio_reg 3 DATAOUT)))] s"
  "exec P_ADE78XX_SCL_L s = put_all [(gpio_reg 3 DATAOUT, put_bit False 4 (mmio s (gpio_reg 3 DATAOUT)))] s"
  "exec P_ADE78XX_SDO_H s = put_all [(gpio_reg 3 DATAOUT, put_bit True 2 (mmio s (gpio_reg 3 DATAOUT)))] s"
  "exec P_ADE78XX_SDO_L s = put_all [(gpio_reg 3 DATAOUT, put_bit False 2 (mmio s (gpio_reg 3 DATAOUT)))] s"
  "exec P_ADE78XX_CS_H s = put_all [(gpio_reg 3 DATAOUT, put_bit True 3 (mmio s (gpio_reg 3 DATAOUT)))] s"
  "exec P_ADE78XX_CS_L s = put_all [(gpio_reg 3 DATAOUT, put_bit False 3 (mmio s (gpio_reg 3 DATAOUT)))] s"
  by (simp_all add: P_ADE78XX_SCL_H_def P_ADE78XX_SCL_L_def P_ADE78XX_SDO_H_def P_ADE78XX_SDO_L_def
      P_ADE78XX_CS_H_def P_ADE78XX_CS_L_def named_port_regs put_bit_def BIT_def run_simps)

text \<open>The state of the lines within a frame, with the levels of clock and data.\<close>

definition rn_lines where
  "rn_lines v0 fs st cur clk dat s \<longleftrightarrow> lines rn_port 2 v0 fs cur clk dat s
     \<and> \<not> bit (mmio s (gpio_reg 3 DIR)) 5 \<and> RN8302Status s = st"

lemma rn_data_port: "data_port rn_port 2"
  by (simp add: data_port_def rn_port_def)

lemma rn_fields_put_all [simp]:
  "RN8302Status (put_all ws s) = RN8302Status s" "ram (put_all ws s) = ram s"
  "kern (put_all ws s) = kern s" "is_open (put_all ws s) = is_open s"
  "rn8302b_spi (put_all ws s) = rn8302b_spi s" "rn_class (put_all ws s) = rn_class s"
  by (induction ws s rule: put_all.induct) simp_all

lemma lines_steps:
  assumes "rn_lines v0 fs st cur clk dat s"
  shows "rn_lines v0 fs st cur True dat (exec P_ADE78XX_SCL_H s)"
    "rn_lines v0 fs st (if clk then cur @ [dat] else cur) False dat (exec P_ADE78XX_SCL_L s)"
    "rn_lines v0 fs st cur clk b (exec (if b then P_ADE78XX_SDO_H else P_ADE78XX_SDO_L) s)"
  using assms lines_put[OF _ rn_data_port, of v0 fs cur clk dat s 4 True]
    lines_put[OF _ rn_data_port, of v0 fs cur clk dat s 4 False]
    lines_put[OF _ rn_data_port, of v0 fs cur clk dat s 2 b]
  by (cases b; simp add: line_exec rn_lines_def)+

lemma line_frame [simp]:
  fixes s :: "'a rn_state_scheme"
  shows "ram (exec P_ADE78XX_SCL_H s) = ram s" "ram (exec P_ADE78XX_SCL_L s) = ram s"
    "ram (exec P_ADE78XX_SDO_H s) = ram s" "ram (exec P_ADE78XX_SDO_L s) = ram s"
    "ram (exec P_ADE78XX_CS_H s) = ram s" "ram (exec P_ADE78XX_CS_L s) = ram s"
    "RN8302Status (exec P_ADE78XX_CS_H s) = RN8302Status s"
    "RN8302Status (exec P_ADE78XX_CS_L s) = RN8302Status s"
  by (simp_all add: line_exec del: put_all.simps)

lemma rn_in_lines [simp]:
  "rn_in (exec P_ADE78XX_SCL_H s) = rn_in s" "rn_in (exec P_ADE78XX_SCL_L s) = rn_in s"
  "rn_in (exec P_ADE78XX_SDO_H s) = rn_in s" "rn_in (exec P_ADE78XX_SDO_L s) = rn_in s"
  "rn_in (exec P_ADE78XX_CS_H s) = rn_in s" "rn_in (exec P_ADE78XX_CS_L s) = rn_in s"
  by (simp_all add: line_exec rn_in_def fun_eq_iff del: put_all.simps)

section \<open>Sending\<close>

lemma send_bits_lines:
  "rn_lines v0 fs st cur clk dat s \<Longrightarrow> n \<le> 8 \<Longrightarrow>
     rn_lines v0 fs st (cur @ high_bits n x) (if n = 0 then clk else False)
       (if n = 0 then dat else bit x (8 - n)) (exec (rn_send_bits n x) s)
     \<and> ram (exec (rn_send_bits n x) s) = ram s \<and> rn_in (exec (rn_send_bits n x) s) = rn_in s"
proof (induction n arbitrary: x s cur clk dat)
  case (Suc n)
  let ?s1 = "exec P_ADE78XX_SCL_H s"
  let ?s2 = "exec (if bit x 7 then P_ADE78XX_SDO_H else P_ADE78XX_SDO_L) ?s1"
  let ?s3 = "exec P_ADE78XX_SCL_L ?s2"
  have l: "rn_lines v0 fs st (cur @ [bit x 7]) False (bit x 7) ?s3"
    using lines_steps(2)[OF lines_steps(3)[OF lines_steps(1)[OF Suc.prems(1)], of "bit x 7"]] by simp
  have fr: "ram ?s3 = ram s" "rn_in ?s3 = rn_in s" by (cases "bit x 7"; simp)+
  define y where "y = push_bit 1 x"
  have e: "exec (rn_send_bits (Suc n) x) s = exec (rn_send_bits n y) ?s3"
    by (simp add: top_bit y_def)
  have d: "(if n = 0 then bit x 7 else bit y (8 - n)) = bit x (8 - Suc n)"
    unfolding y_def using Suc.prems(2) shift_last[of n x] by auto
  have h: "high_bits (Suc n) x = bit x 7 # high_bits n y"
    unfolding y_def using Suc.prems(2) by (intro high_bits_Suc) simp
  show ?case
    using Suc.IH[OF l, of y] Suc.prems(2) unfolding e h fr d by simp
qed simp

lemma rn_sel_lines:
  "rn_sel v0 fs st s cur \<longleftrightarrow> rn_lines v0 fs st cur (bit (mmio s (gpio_reg 3 DATAOUT)) 4) (rn_idle s) s"
  by (auto simp: rn_sel_def rn_lines_def lines_def rn_idle_def)

lemma send_byte_law:
  assumes "rn_sel v0 fs st s cur"
  shows "rn_sel v0 fs st (exec (RN8302_SendByte b) s) (cur @ bits_msb b)"
    "rn_idle (exec (RN8302_SendByte b) s) = bit b 0"
    "ram (exec (RN8302_SendByte b) s) = ram s" "rn_in (exec (RN8302_SendByte b) s) = rn_in s"
  using send_bits_lines[OF assms[unfolded rn_sel_lines], of 8 b]
  by (simp_all add: RN8302_SendByte_def high_bits_8 rn_lines_def lines_def rn_sel_def rn_idle_def)

section \<open>Receiving\<close>

lemma rn_rx_eq: "rn_in s' = rn_in s \<Longrightarrow> rn_rx s' = rn_rx s"
  by (simp add: rn_rx_def fun_eq_iff)

lemma get1_sdi:
  assumes "rn_lines v0 fs st cur clk dat s"
  shows "result_of P_ADE78XX_SDI_Read s = of_bool (rn_in s 0)"
    "rn_lines v0 fs st cur clk dat (exec P_ADE78XX_SDI_Read s)"
    "rn_in (exec P_ADE78XX_SDI_Read s) = (\<lambda>j. rn_in s (Suc j))"
    "ram (exec P_ADE78XX_SDI_Read s) = ram s"
proof -
  have pin: "101 < NUMGPIO" "pin_port 101 = 3" "pin_num 101 = 5"
    by (simp_all add: NUMGPIO_def pin_port_def pin_num_def)
  have "\<not> is_output s 101"
    using assms by (simp add: rn_lines_def is_output_def pin)
  note g = get1_input[OF pin(1) this, unfolded pin]
  have lev: "in_level s 101 = rn_in s 0" by (simp add: in_level_def rn_in_def pin)
  show "result_of P_ADE78XX_SDI_Read s = of_bool (rn_in s 0)"
    by (simp add: P_ADE78XX_SDI_Read_def result_of_def g lev)
  have e: "exec P_ADE78XX_SDI_Read s =
      put_all [(gpio_reg 3 DATAIN, of_bool (rn_in s 0))] (s\<lparr>now := now s + 1\<rparr>)"
    by (simp add: P_ADE78XX_SDI_Read_def exec_def g lev)
  show "rn_in (exec P_ADE78XX_SDI_Read s) = (\<lambda>j. rn_in s (Suc j))"
    "ram (exec P_ADE78XX_SDI_Read s) = ram s"
    by (simp_all add: e rn_in_def fun_eq_iff)
  show "rn_lines v0 fs st cur clk dat (exec P_ADE78XX_SDI_Read s)"
    using assms unfolding e by (simp add: rn_lines_def lines_def link_def)
qed

lemma recv_bits_lines:
  "rn_lines v0 fs st cur clk dat s \<Longrightarrow>
     rn_lines v0 fs st (cur @ replicate n dat) (if n = 0 then clk else False) dat (exec (rn_recv_bits n x) s)
     \<and> result_of (rn_recv_bits n x) s = shift_in x (map (rn_in s) [0..<n])
     \<and> ram (exec (rn_recv_bits n x) s) = ram s
     \<and> rn_in (exec (rn_recv_bits n x) s) = (\<lambda>j. rn_in s (n + j))"
proof (induction n arbitrary: x s cur clk)
  case (Suc n)
  let ?s2 = "exec P_ADE78XX_SCL_L (exec P_ADE78XX_SCL_H s)"
  let ?s3 = "exec P_ADE78XX_SDI_Read ?s2"
  define y where "y = push_bit 1 x OR of_bool (rn_in s 0)"
  have l2: "rn_lines v0 fs st (cur @ [dat]) False dat ?s2"
    using lines_steps(2)[OF lines_steps(1)[OF Suc.prems]] by simp
  note g = get1_sdi[OF l2]
  have g0: "result_of P_ADE78XX_SDI_Read ?s2 = of_bool (rn_in s 0)" "rn_in ?s2 = rn_in s" "ram ?s2 = ram s"
    using g(1) by simp_all
  have y: "(if (of_bool (rn_in s 0) :: u32) \<noteq> 0 then push_bit 1 x OR 0x01 else push_bit 1 x) = y"
    by (cases "rn_in s 0") (simp_all add: y_def del: push_bit_numeral)
  have e: "exec (rn_recv_bits (Suc n) x) s = exec (rn_recv_bits n y) ?s3"
    "result_of (rn_recv_bits (Suc n) x) s = result_of (rn_recv_bits n y) ?s3"
    unfolding rn_recv_bits.simps delay_skip Let_def exec_bind result_bind exec_return result_return g0(1) y
    by simp_all
  have up: "shift_in x (map (rn_in s) [0..<Suc n]) = shift_in y (map (\<lambda>i. rn_in s (Suc i)) [0..<n])"
    unfolding upt_conv_Cons[OF zero_less_Suc] map_Suc_upt[symmetric] y_def
    by (simp only: comp_def list.map shift_in.simps map_map)
  show ?case
    using Suc.IH[OF g(2), of y] unfolding e up g(3,4) g0(2,3) by simp
qed simp

lemma recv_byte_law:
  assumes "rn_sel v0 fs st s cur"
  shows "result_of RN8302_ReceiveByte s = rn_rx s 0"
    "rn_rx (exec RN8302_ReceiveByte s) = (\<lambda>k. rn_rx s (Suc k))"
    "rn_sel v0 fs st (exec RN8302_ReceiveByte s) (cur @ replicate 8 (rn_idle s))"
    "rn_idle (exec RN8302_ReceiveByte s) = rn_idle s"
    "ram (exec RN8302_ReceiveByte s) = ram s"
  using recv_bits_lines[OF assms[unfolded rn_sel_lines], of 8 0]
  by (simp_all add: RN8302_ReceiveByte_def rn_rx_def byte_of_msb_def rn_lines_def lines_def rn_sel_def
      rn_idle_def fun_eq_iff algebra_simps)

lemma store_law:
  "rn_sel v0 fs st s cur \<Longrightarrow> rn_sel v0 fs st (ram_put i b s) cur" "rn_rx (ram_put i b s) = rn_rx s"
  "rn_idle (ram_put i b s) = rn_idle s" "ram (ram_put i b s) = (ram s)(i := b)"
  by (simp_all add: ram_put_def rn_sel_def link_def rn_rx_def rn_in_def rn_idle_def fun_eq_iff)

interpretation rn: byte_link "rn_sel v0 fs st" rn_idle ram RN8302_ReceiveByte rn_rx ram_put
  RN8302_SendByte
  by unfold_locales
    (assumption | rule send_byte_law recv_byte_law store_law rn_rx_eq)+

section \<open>Blocks of bytes\<close>

definition byte_sum :: "(nat \<Rightarrow> u8) \<Rightarrow> nat \<Rightarrow> u8" where
  "byte_sum rx n = (\<Sum>j\<leftarrow>[0..<n]. rx j)"

lemma byte_sum_0 [simp]: "byte_sum rx 0 = 0"
  by (simp add: byte_sum_def)

lemma byte_sum_Suc: "byte_sum rx (Suc n) = rx 0 + byte_sum (\<lambda>k. rx (Suc k)) n"
  unfolding byte_sum_def upt_conv_Cons[OF zero_less_Suc] map_Suc_upt[symmetric]
  by (simp add: comp_def)

lemma rev_upt_Suc: "rev [b..<b + Suc n] = (b + n) # rev [b..<b + n]"
  by simp

lemma read_data_fill:
  "exec (rn_read_data base n a) s = exec (fill RN8302_ReceiveByte ram_put (rev [base..<base + n]) a) s
 \<and> result_of (rn_read_data base n a) s =
     result_of (fill RN8302_ReceiveByte ram_put (rev [base..<base + n]) a) s"
proof (induction n arbitrary: a s)
  case (Suc n)
  show ?case unfolding rev_upt_Suc by (simp add: Suc.IH store_law(4) del: upt_Suc)
qed simp

lemma read_data_law:
  assumes "rn_sel v0 fs st s cur"
  shows "rn_sel v0 fs st (exec (rn_read_data base n a) s) (cur @ replicate (8 * n) (rn_idle s))"
    "rn_idle (exec (rn_read_data base n a) s) = rn_idle s"
    "rn_rx (exec (rn_read_data base n a) s) = (\<lambda>k. rn_rx s (n + k))"
    "result_of (rn_read_data base n a) s = a + byte_sum (rn_rx s) n"
    "ram (exec (rn_read_data base n a) s) =
       (\<lambda>i. if base \<le> i \<and> i < base + n then rn_rx s (base + n - Suc i) else ram s i)"
  using rn.fill_line[OF assms, of "rev [base..<base + n]" a] rn.fill_buf[OF assms, of "rev [base..<base + n]" a]
  unfolding read_data_fill[THEN conjunct1] read_data_fill[THEN conjunct2] put_list_down byte_sum_def
  by simp_all

lemma ram_put_same [simp]: "ram_put i (ram s i) s = s"
  by (simp add: ram_put_def)

lemma reread_law:
  assumes "rn_sel v0 fs st s cur"
  shows "rn_sel v0 fs st (exec (rn_reread base len n a) s) (cur @ replicate (8 * n) (rn_idle s))
    \<and> rn_idle (exec (rn_reread base len n a) s) = rn_idle s
    \<and> rn_rx (exec (rn_reread base len n a) s) = (\<lambda>k. rn_rx s (n + k))
    \<and> result_of (rn_reread base len n a) s = a + byte_sum (rn_rx s) n
    \<and> ram (exec (rn_reread base len n a) s) =
       (\<lambda>i. if base \<le> i \<and> i < base + n \<and> i < base + unat len then rn_rx s (base + n - Suc i) else ram s i)"
  using assms
proof (induction n arbitrary: s cur a)
  case (Suc n)
  let ?r = "exec RN8302_ReceiveByte s"
  define t where "t = (if n < unat len then ram_put (base + n) (rn_rx s 0) ?r else ?r)"
  note l = recv_byte_law[OF Suc.prems]
  have t: "rn_sel v0 fs st t (cur @ replicate 8 (rn_idle s))" "rn_idle t = rn_idle s"
    "rn_rx t = (\<lambda>k. rn_rx s (Suc k))"
    "ram t = (\<lambda>i. if i = base + n \<and> n < unat len then rn_rx s 0 else ram s i)"
    using store_law(1)[OF l(3)] l by (auto simp: t_def store_law)
  have e: "exec (rn_reread base len (Suc n) a) s = exec (rn_reread base len n (a + rn_rx s 0)) t"
    "result_of (rn_reread base len (Suc n) a) s = result_of (rn_reread base len n (a + rn_rx s 0)) t"
    using ram_put_same[of "base + n" ?r]
    by (auto simp: t_def l(1) l(5) Suc_le_eq simp del: ram_put_same)
  show ?case
    using Suc.IH[OF t(1), of "a + rn_rx s 0"] unfolding e t(2,3,4) byte_sum_Suc
    by (auto simp: replicate_add[symmetric] add.assoc fun_eq_iff Suc_diff_Suc)
qed (auto simp: fun_eq_iff)

lemma zero_law:
  "rn_sel v0 fs st s cur \<Longrightarrow> rn_sel v0 fs st (exec (rn_zero base n) s) cur
    \<and> rn_rx (exec (rn_zero base n) s) = rn_rx s
    \<and> ram (exec (rn_zero base n) s) = (\<lambda>i. if base \<le> i \<and> i < base + n then 0 else ram s i)"
proof (induction n arbitrary: s)
  case (Suc n)
  show ?case using Suc.IH[OF store_law(1)[OF Suc.prems, of "base + n" 0]]
    by (auto simp: store_law fun_eq_iff)
qed (auto simp: fun_eq_iff)

definition ram_block :: "(nat \<Rightarrow> u8) \<Rightarrow> nat \<Rightarrow> nat \<Rightarrow> u8 list" where
  "ram_block m base n = map m (rev [base..<base + n])"

lemma ram_block_Suc: "ram_block m base (Suc n) = m (base + n) # ram_block m base n"
  unfolding ram_block_def rev_upt_Suc by simp

lemma send_data_law:
  "rn_sel v0 fs st s cur \<Longrightarrow>
     rn_sel v0 fs st (exec (rn_send_data base n a) s) (cur @ stream (ram_block (ram s) base n))
   \<and> rn_rx (exec (rn_send_data base n a) s) = rn_rx s
   \<and> ram (exec (rn_send_data base n a) s) = ram s
   \<and> result_of (rn_send_data base n a) s = a + sum_list (ram_block (ram s) base n)"
proof (induction n arbitrary: s cur a)
  case (Suc n)
  note l = send_byte_law[OF Suc.prems, of "ram s (base + n)"]
  show ?case using Suc.IH[OF l(1), of "a + ram s (base + n)"]
    by (simp add: ram_block_Suc l(3) rn.send_rx[OF Suc.prems] add.assoc)
qed (simp add: ram_block_def)

section \<open>A register write\<close>

text \<open>The bus between frames.\<close>

definition rn_ready :: "u32 \<Rightarrow> bool list list \<Rightarrow> 'a rn_state_scheme \<Rightarrow> bool" where
  "rn_ready v0 fs s \<longleftrightarrow> link rn_port v0 s [] fs \<and> bit (mmio s (gpio_reg 3 DATAOUT)) 3
     \<and> \<not> bit (mmio s (gpio_reg 3 DIR)) 5"

lemma status_law [simp]:
  "ram (exec (set_status v) s) = ram s" "rn_in (exec (set_status v) s) = rn_in s"
  "RN8302Status (exec (set_status v) s) = v"
  "rn_rx (exec (set_status v) s) = rn_rx s"
  "rn_idle (exec (set_status v) s) = rn_idle s"
  by (simp_all add: set_status_def rn_rx_def rn_in_def rn_idle_def fun_eq_iff)

lemma status_sel: "rn_sel v0 fs st s cur \<Longrightarrow> rn_sel v0 fs v (exec (set_status v) s) cur"
  by (simp add: rn_sel_def set_status_def link_def)

lemma rn_rx_cs: "rn_rx (exec P_ADE78XX_CS_L s) = rn_rx s" "rn_rx (exec P_ADE78XX_CS_H s) = rn_rx s"
  by (rule rn_rx_eq, simp)+

lemma select_law:
  assumes "rn_ready v0 fs s"
  shows "rn_sel v0 fs v (exec P_ADE78XX_CS_L (exec (set_status v) s)) []"
proof -
  let ?s = "exec (set_status v) s"
  have l: "link rn_port v0 ?s [] fs" "bit (mmio ?s (gpio_reg 3 DATAOUT)) 3"
    "\<not> bit (mmio ?s (gpio_reg 3 DIR)) 5" "RN8302Status ?s = v"
    using assms by (simp_all add: rn_ready_def set_status_def link_def)
  have "receive rn_port (put_bit False 3 (mmio ?s (gpio_reg 3 DATAOUT))) (mmio ?s (gpio_reg 3 DATAOUT), [], fs)
      = (put_bit False 3 (mmio ?s (gpio_reg 3 DATAOUT)), [], fs)"
    using receive_select[of rn_port "mmio ?s (gpio_reg 3 DATAOUT)" "[]" fs] l(2) by simp
  from link_put[OF l(1), unfolded rn_port_sel, OF this]
  show "rn_sel v0 fs v (exec P_ADE78XX_CS_L ?s) []"
    using l(3,4) unfolding line_exec rn_sel_def by (simp add: bit_simps)
qed

lemma deselect_law:
  assumes "rn_sel v0 fs st s cur"
  shows "rn_ready v0 (fs @ [cur]) (exec P_ADE78XX_CS_H s)"
proof -
  have l: "link rn_port v0 s cur fs" "\<not> bit (mmio s (gpio_reg 3 DATAOUT)) 3"
    "\<not> bit (mmio s (gpio_reg 3 DIR)) 5"
    using assms by (simp_all add: rn_sel_def)
  have "receive rn_port (put_bit True 3 (mmio s (gpio_reg 3 DATAOUT))) (mmio s (gpio_reg 3 DATAOUT), cur, fs)
      = (put_bit True 3 (mmio s (gpio_reg 3 DATAOUT)), [], fs @ [cur])"
    using receive_deselect[of rn_port "mmio s (gpio_reg 3 DATAOUT)" cur fs] l(2) by simp
  from link_put[OF l(1), unfolded rn_port_sel, OF this]
  show "rn_ready v0 (fs @ [cur]) (exec P_ADE78XX_CS_H s)"
    using l(3) unfolding line_exec rn_ready_def by (simp add: bit_simps)
qed

text \<open>What the chip is to be told: address, direction and data, closed by the check sum, then a
  read of its echo register.\<close>

definition rn_header :: "u32 \<Rightarrow> u8 \<Rightarrow> u8 list" where
  "rn_header a rw = [ucast (a AND 0xff), (ucast (drop_bit 4 a) AND 0xf0) + rw]"

definition rn_write_frame :: "u32 \<Rightarrow> u8 list \<Rightarrow> nat \<Rightarrow> bool list" where
  "rn_write_frame a d k =
     (let h = rn_header a 0x80 @ d in stream (h @ [NOT (sum_list h), 0x8D, 0x10]) @ pad k)"

text \<open>The comparison with the echo, on the bytes \<open>rx\<close> that arrive: the outcome, how many bytes
  it takes and the sum so far.\<close>

fun echo_ref :: "(nat \<Rightarrow> u8) \<Rightarrow> nat \<Rightarrow> nat \<Rightarrow> (nat \<Rightarrow> u8) \<Rightarrow> u8 \<Rightarrow> bool \<times> nat \<times> u8" where
  "echo_ref m len 0 rx a = (True, 0, a)"
| "echo_ref m len (Suc i) rx a =
     (if i < len \<and> rx 0 \<noteq> m i then (False, 1, a)
      else let (ok, k, b) = echo_ref m len i (\<lambda>j. rx (Suc j)) (a + rx 0) in (ok, Suc k, b))"

definition try_ref :: "(nat \<Rightarrow> u8) \<Rightarrow> nat \<Rightarrow> (nat \<Rightarrow> u8) \<Rightarrow> bool \<times> nat" where
  "try_ref m len rx =
     (let (ok, k, a) = echo_ref m len 3 rx 0x9D in if ok then (rx k = NOT a, Suc k) else (False, k))"

fun write_ref :: "nat \<Rightarrow> u32 \<Rightarrow> (nat \<Rightarrow> u8) \<Rightarrow> nat \<Rightarrow> (nat \<Rightarrow> u8) \<Rightarrow> bool \<times> bool list list" where
  "write_ref 0 a m len rx = (False, [])"
| "write_ref (Suc n) a m len rx =
     (let (ok, k) = try_ref m len rx; f = rn_write_frame a (ram_block m 0 len) k
      in if ok then (True, [f])
         else let (ok', fs) = write_ref n a m len (\<lambda>j. rx (k + j)) in (ok', f # fs))"

lemma echo_law:
  "rn_sel v0 fs st s cur \<Longrightarrow> \<not> rn_idle s \<Longrightarrow>
     case echo_ref (\<lambda>i. ram s (base + i)) (unat len) n (rn_rx s) a of (ok, k, b) \<Rightarrow>
       rn_sel v0 fs (if ok then st else 0) (exec (rn_echo base len n a) s) (cur @ pad k)
     \<and> \<not> rn_idle (exec (rn_echo base len n a) s)
     \<and> rn_rx (exec (rn_echo base len n a) s) = (\<lambda>j. rn_rx s (k + j))
     \<and> ram (exec (rn_echo base len n a) s) = ram s
     \<and> result_of (rn_echo base len n a) s = b"
proof (induction n arbitrary: s cur a)
  case (Suc n)
  let ?r = "exec RN8302_ReceiveByte s"
  note l = recv_byte_law[OF Suc.prems(1)]
  have r: "rn_sel v0 fs st ?r (cur @ replicate 8 False)" "\<not> rn_idle ?r" using l Suc.prems(2) by simp_all
  show ?case
  proof (cases "n < unat len \<and> rn_rx s 0 \<noteq> ram s (base + n)")
    case True
    then show ?thesis using status_sel[OF r(1), of 0] r(2) by (simp add: l Suc_le_eq pad_def)
  next
    case False
    have e: "exec (rn_echo base len (Suc n) a) s = exec (rn_echo base len n (a + rn_rx s 0)) ?r"
      "result_of (rn_echo base len (Suc n) a) s = result_of (rn_echo base len n (a + rn_rx s 0)) ?r"
      using False by (auto simp: l Suc_le_eq)
    have p: "replicate 8 False @ pad k = pad (Suc k)" for k by (simp add: pad_def replicate_add[symmetric])
    show ?thesis using Suc.IH[OF r, of "a + rn_rx s 0"] False p
      unfolding e l(5) l(2) by (auto simp: Let_def split: prod.splits)
  qed
qed (simp add: pad_def)

lemma ram_block_shift: "ram_block (\<lambda>i. m (base + i)) 0 n = ram_block m base n"
  by (induction n) (simp_all add: ram_block_Suc, simp_all add: ram_block_def)

lemma low_nibble: "\<not> bit (x AND 0xf0 :: u8) 0" "\<not> bit (0x10 :: u8) 0"
  by (simp_all add: bit_and_iff)

text \<open>Fixed bytes of a frame.\<close>

lemma send_law:
  assumes "rn_sel v0 fs st s cur"
  shows "rn_sel v0 fs st (exec (RN8302_SendByte b) s) (cur @ stream [b])"
    "rn_rx (exec (RN8302_SendByte b) s) = rn_rx s" "ram (exec (RN8302_SendByte b) s) = ram s"
  using rn.send_all_law[OF assms, of "[b]"] by simp_all

lemma send2_law:
  assumes "rn_sel v0 fs st s cur"
  shows "rn_sel v0 fs st (exec (RN8302_SendByte b) (exec (RN8302_SendByte a) s)) (cur @ stream [a, b])"
    "rn_rx (exec (RN8302_SendByte b) (exec (RN8302_SendByte a) s)) = rn_rx s"
    "ram (exec (RN8302_SendByte b) (exec (RN8302_SendByte a) s)) = ram s"
    "rn_idle (exec (RN8302_SendByte b) (exec (RN8302_SendByte a) s)) = bit b 0"
  using rn.send_all_law[OF assms, of "[a, b]"] by simp_all

lemma header_law:
  assumes "rn_ready v0 fs s"
  defines "t \<equiv> exec P_ADE78XX_CS_L (exec (set_status 1) s)"
  shows "rn_sel v0 fs 1 (exec (RN8302_SendByte b) (exec (RN8302_SendByte a) t)) (stream [a, b])"
    "rn_rx (exec (RN8302_SendByte b) (exec (RN8302_SendByte a) t)) = rn_rx s"
    "ram (exec (RN8302_SendByte b) (exec (RN8302_SendByte a) t)) = ram s"
    "rn_idle (exec (RN8302_SendByte b) (exec (RN8302_SendByte a) t)) = bit b 0"
  using send2_law[OF select_law[OF assms(1), of 1], of b a] unfolding t_def by (simp_all add: rn_rx_cs)

text \<open>The last byte of a confirmed exchange decides the status.\<close>

lemma checksum_law:
  fixes c :: u8
  assumes "rn_sel v0 fs 1 s cur" "\<not> rn_idle s"
  defines "u \<equiv> exec RN8302_ReceiveByte s"
  defines "t \<equiv> if result_of RN8302_ReceiveByte s \<noteq> c then exec (set_status 0) u else u"
  shows "rn_sel v0 fs (of_bool (rn_rx s 0 = c)) t (cur @ pad 1)" "ram t = ram s"
    "rn_rx t = (\<lambda>j. rn_rx s (Suc j))"
proof -
  note l = recv_byte_law[OF assms(1), folded u_def]
  have "rn_sel v0 fs 1 u (cur @ pad 1)" using l(3) assms(2) by (simp add: pad_def)
  then show "rn_sel v0 fs (of_bool (rn_rx s 0 = c)) t (cur @ pad 1)" "ram t = ram s"
    "rn_rx t = (\<lambda>j. rn_rx s (Suc j))"
    using status_sel[of v0 fs 1 u "cur @ pad 1" 0] l by (simp_all add: t_def)
qed

lemma write_once_law:
  fixes base :: nat
  assumes "rn_ready v0 fs s"
  defines "m \<equiv> \<lambda>i. ram s (base + i)"
  shows "case try_ref m (unat len) (rn_rx s) of (ok, k) \<Rightarrow>
      rn_ready v0 (fs @ [rn_write_frame a (ram_block m 0 (unat len)) k]) (exec (rn_write_once a base len) s)
    \<and> RN8302Status (exec (rn_write_once a base len) s) = of_bool ok
    \<and> ram (exec (rn_write_once a base len) s) = ram s
    \<and> rn_rx (exec (rn_write_once a base len) s) = (\<lambda>j. rn_rx s (k + j))"
proof -
  define h1 where "h1 = (ucast (a AND 0xff) :: u8)"
  define h2 where "h2 = ((ucast (drop_bit 4 a) :: u8) AND 0xf0) + 0x80"
  define d where "d = ram_block (ram s) base (unat len)"
  define c where "c = NOT (h1 + h2 + sum_list d)"
  define s1 where "s1 = exec (RN8302_SendByte h2) (exec (RN8302_SendByte h1)
    (exec P_ADE78XX_CS_L (exec (set_status 1) s)))"
  define s2 where "s2 = exec (rn_send_data base (unat len) (h1 + h2)) s1"
  define s3 where "s3 = exec (RN8302_SendByte 0x10) (exec (RN8302_SendByte 0x8D) (exec (RN8302_SendByte c) s2))"
  define s4 where "s4 = exec (rn_echo base len 3 0x9D) s3"
  note s1 = header_law[OF assms(1), of h2 h1, folded s1_def]
  have s2: "rn_sel v0 fs 1 s2 (stream (h1 # h2 # d))" "rn_rx s2 = rn_rx s" "ram s2 = ram s"
    "result_of (rn_send_data base (unat len) (h1 + h2)) s1 = h1 + h2 + sum_list d"
    using send_data_law[OF s1(1), of base "unat len" "h1 + h2"] s1
    by (simp_all add: s2_def d_def)
  have s3: "rn_sel v0 fs 1 s3 (stream (h1 # h2 # d @ [c, 0x8D, 0x10]))" "rn_rx s3 = rn_rx s" "ram s3 = ram s"
    "\<not> rn_idle s3"
    using send2_law[OF send_law(1)[OF s2(1), of c], of "0x10" "0x8D"] send_law[OF s2(1), of c] s2
    by (simp_all add: s3_def)
  obtain ok k b where er: "echo_ref m (unat len) 3 (rn_rx s) 0x9D = (ok, k, b)" by (metis prod_cases3)
  have s4: "rn_sel v0 fs (if ok then 1 else 0) s4 (stream (h1 # h2 # d @ [c, 0x8D, 0x10]) @ pad k)"
    "\<not> rn_idle s4" "rn_rx s4 = (\<lambda>j. rn_rx s (k + j))" "ram s4 = ram s"
    "result_of (rn_echo base len 3 0x9D) s3 = b"
    using echo_law[OF s3(1,4), of base len 3 "0x9D"] er unfolding s3(2,3) m_def by (simp_all add: s4_def)
  have fr: "rn_write_frame a (ram_block m 0 (unat len)) k = stream (h1 # h2 # d @ [c, 0x8D, 0x10]) @ pad k" for k
    unfolding m_def ram_block_shift rn_write_frame_def rn_header_def
    by (simp add: h1_def h2_def d_def c_def Let_def add.assoc)
  have run: "exec (rn_write_once a base len) s =
      (let t = (if RN8302Status s4 = 1 then
          (let u = exec RN8302_ReceiveByte s4 in if result_of RN8302_ReceiveByte s4 \<noteq> NOT b then exec (set_status 0) u else u)
         else s4) in exec P_ADE78XX_CS_H t)"
    using s2(4) s4(5) unfolding rn_write_once_def
    by (simp add: Let_def flip: h1_def h2_def s1_def s2_def s3_def s4_def c_def)
  show ?thesis
  proof (cases ok)
    case False
    then have "exec (rn_write_once a base len) s = exec P_ADE78XX_CS_H s4"
      using s4(1) by (simp add: run rn_sel_def)
    then show ?thesis using False er fr deselect_law[OF s4(1)] s4
      by (simp add: try_ref_def rn_sel_def rn_rx_cs)
  next
    case True
    have "rn_sel v0 fs 1 s4 (stream (h1 # h2 # d @ [c, 0x8D, 0x10]) @ pad k)" using s4(1) True by simp
    note t = checksum_law[OF this s4(2), where c = "NOT b"]
    have p: "pad k @ pad 1 = pad (Suc k)" by (simp add: pad_def replicate_add[symmetric])
    have "RN8302Status s4 = 1" using s4(1) True by (simp add: rn_sel_def)
    then show ?thesis using True er fr deselect_law[OF t(1)] t p s4(3,4)
      by (simp add: run try_ref_def rn_sel_def rn_rx_cs Let_def)
  qed
qed

lemma write_tries_law:
  "rn_ready v0 fs s \<Longrightarrow> RN8302Status s = 0 \<or> 0 < n \<Longrightarrow>
     case write_ref n a (\<lambda>i. ram s (base + i)) (unat len) (rn_rx s) of (ok, gs) \<Rightarrow>
       rn_ready v0 (fs @ gs) (exec (rn_write_tries n a base len) s)
     \<and> RN8302Status (exec (rn_write_tries n a base len) s) = of_bool ok
     \<and> ram (exec (rn_write_tries n a base len) s) = ram s
     \<and> length gs \<le> n"
proof (induction n arbitrary: s fs)
  case (Suc n)
  let ?m = "\<lambda>i. ram s (base + i)" and ?t = "exec (rn_write_once a base len) s"
  obtain ok k where r: "try_ref ?m (unat len) (rn_rx s) = (ok, k)" by fastforce
  note w = write_once_law[OF Suc.prems(1), where base = base and len = len and a = a, unfolded r prod.case]
  show ?case
  proof (cases ok)
    case True
    then show ?thesis using w r by (simp add: Let_def)
  next
    case False
    have ih: "case write_ref n a ?m (unat len) (\<lambda>j. rn_rx s (k + j)) of (ok', gs) \<Rightarrow>
       rn_ready v0 ((fs @ [rn_write_frame a (ram_block ?m 0 (unat len)) k]) @ gs) (exec (rn_write_tries n a base len) ?t)
     \<and> RN8302Status (exec (rn_write_tries n a base len) ?t) = of_bool ok'
     \<and> ram (exec (rn_write_tries n a base len) ?t) = ram s \<and> length gs \<le> n"
      using Suc.IH[of "fs @ [rn_write_frame a (ram_block ?m 0 (unat len)) k]" ?t] w False by simp
    have e: "exec (rn_write_tries (Suc n) a base len) s = exec (rn_write_tries n a base len) ?t"
      using w False by simp
    show ?thesis using ih False r unfolding e by (auto simp: Let_def split: prod.splits)
  qed
qed simp

text \<open>C2. A register write on the wire.  \<open>RN8302_Write\<close> refines its byte level description: it sends
  the frame of address, data and check sum, compares the chip's echo, and repeats up to ten times
  until one attempt is confirmed.  The chip receives exactly the frames of the description, the
  bus is idle afterwards, the result is 1 exactly when an attempt was confirmed, and the caller's
  buffer is unchanged.\<close>

theorem rn_write_refines:
  assumes "rn_ready v0 fs s"
  shows "case write_ref 10 a (\<lambda>i. ram s (base + i)) (unat len) (rn_rx s) of (ok, gs) \<Rightarrow>
      result_of (RN8302_Write a base len) s = of_bool ok
    \<and> rn_ready v0 (fs @ gs) (exec (RN8302_Write a base len) s)
    \<and> ram (exec (RN8302_Write a base len) s) = ram s \<and> length gs \<le> 10"
  using write_tries_law[OF assms, of 10 a base len]
  by (simp add: RN8302_Write_def split: prod.splits)

definition rn_demo :: rn_state where
  "rn_demo = \<lparr>mmio = (\<lambda>r. if r = gpio_reg 3 DATAOUT then 0x08 else 0),
     pins = (\<lambda>t r. if t < 32 \<and> stream [0x11, 0x22, 0x5A, 0xD5] ! t then 0x20 else 0),
     now = 0, wlog = [], fault = False, kern = \<lparr>held = (\<lambda>_. False), bogus = []\<rparr>,
     RN8302Status = 0, ram = (\<lambda>i. if i = 0 then 0x5A else 0), rn8302b_spi = True, rn_class = Ptr,
     is_open = True\<rparr>"

lemma rn_demo_ready: "rn_ready 0x08 [] rn_demo"
  using link_start[of rn_demo rn_port] by (simp add: rn_ready_def rn_demo_def)

lemma rn_demo_confirmed: "fst (write_ref 10 0x123 (\<lambda>i. ram rn_demo (0 + i)) 1 (rn_rx rn_demo))"
  by code_simp

theorem rn_write_refines_witness: "result_of (RN8302_Write 0x123 0 1) rn_demo = 1"
  using rn_write_refines[OF rn_demo_ready, where a = "0x123" and base = 0 and len = 1] rn_demo_confirmed
  by (auto split: prod.splits)

text \<open>The last bytes that decide.\<close>

definition echo_ok :: "(nat \<Rightarrow> u8) \<Rightarrow> nat \<Rightarrow> (nat \<Rightarrow> u8) \<Rightarrow> bool" where
  "echo_ok m len rx \<longleftrightarrow> (\<forall>i<min 3 len. rx (2 - i) = m i) \<and> rx 3 = NOT (0x9D + rx 0 + rx 1 + rx 2)"

lemma less3: "(\<forall>i<min 3 len. P i) \<longleftrightarrow> (0 < len \<longrightarrow> P 0) \<and> (1 < len \<longrightarrow> P 1) \<and> (2 < len \<longrightarrow> P (2::nat))"
  by (auto simp: less_Suc_eq numeral_3_eq_3 numeral_2_eq_2)

lemma try_ref_ok: "try_ref m len rx = (ok, k) \<Longrightarrow> ok = echo_ok m len rx \<and> (ok \<longrightarrow> k = 4)"
  unfolding echo_ok_def less3
  by (auto simp: try_ref_def eval_nat_numeral Let_def add.assoc split: if_splits prod.splits)

lemma write_ref_ok:
  "write_ref n a m len rx = (True, gs) \<Longrightarrow>
     \<exists>k gs'. gs = gs' @ [rn_write_frame a (ram_block m 0 len) 4] \<and> echo_ok m len (\<lambda>j. rx (k + j))"
proof (induction n arbitrary: rx gs)
  case (Suc n)
  obtain ok k where r: "try_ref m len rx = (ok, k)" by fastforce
  show ?case
  proof (cases ok)
    case True
    then show ?thesis using Suc.prems r try_ref_ok[OF r] by (intro exI[of _ 0] exI[of _ "[]"]) (simp add: Let_def)
  next
    case False
    then obtain gs2 where w: "write_ref n a m len (\<lambda>j. rx (k + j)) = (True, gs2)"
      "gs = rn_write_frame a (ram_block m 0 len) k # gs2"
      using Suc.prems r by (auto simp: Let_def split: prod.splits)
    from Suc.IH[OF w(1)] obtain k' gs' where
      "gs2 = gs' @ [rn_write_frame a (ram_block m 0 len) 4]" "echo_ok m len (\<lambda>j. rx (k + (k' + j)))"
      by blast
    then show ?thesis using w(2)
      by (intro exI[of _ "k + k'"] exI[of _ "rn_write_frame a (ram_block m 0 len) k # gs'"]) (simp add: add.assoc)
  qed
qed simp

text \<open>C32. A confirmed write.  When \<open>RN8302_Write\<close> returns 1, then after any earlier attempts the last frame the chip received carries
  the address, all data bytes from the last to the first and the check sum, and in answer the chip
  sent three bytes that agree with the first three data bytes, followed by their check sum.\<close>

theorem rn_write_confirmed:
  assumes "rn_ready v0 fs s" "result_of (RN8302_Write a base len) s = 1"
  shows "\<exists>k gs. echo_ok (\<lambda>i. ram s (base + i)) (unat len) (\<lambda>j. rn_rx s (k + j))
     \<and> rn_ready v0 (fs @ gs @ [rn_write_frame a (ram_block (ram s) base (unat len)) 4])
         (exec (RN8302_Write a base len) s)"
proof -
  obtain ok gs where w: "write_ref 10 a (\<lambda>i. ram s (base + i)) (unat len) (rn_rx s) = (ok, gs)" by fastforce
  have t: "RN8302Status (exec (rn_write_tries 10 a base len) s) = of_bool ok"
    "rn_ready v0 (fs @ gs) (exec (rn_write_tries 10 a base len) s)"
    using write_tries_law[OF assms(1), of 10 a base len] by (simp_all add: w)
  then have ok using assms(2) by (simp add: RN8302_Write_def)
  with w obtain k gs' where "gs = gs' @ [rn_write_frame a (ram_block (ram s) base (unat len)) 4]"
    "echo_ok (\<lambda>i. ram s (base + i)) (unat len) (\<lambda>j. rn_rx s (k + j))"
    using write_ref_ok[of 10 a "\<lambda>i. ram s (base + i)" "unat len" "rn_rx s" gs]
    by (auto simp: ram_block_shift)
  then show ?thesis using t(2) by (auto simp: RN8302_Write_def)
qed

theorem rn_write_confirmed_witness:
  "\<exists>k gs. echo_ok (\<lambda>i. ram rn_demo i) 1 (\<lambda>j. rn_rx rn_demo (k + j))
     \<and> rn_ready 0x08 (gs @ [rn_write_frame 0x123 [0x5A] 4]) (exec (RN8302_Write 0x123 0 1) rn_demo)"
proof -
  have "result_of (RN8302_Write 0x123 0 1) rn_demo = 1"
    using write_tries_law[OF rn_demo_ready, of 10 "0x123" 0 1] rn_demo_confirmed
    by (auto simp: RN8302_Write_def split: prod.splits)
  from rn_write_confirmed[OF rn_demo_ready this] show ?thesis
    by (simp add: ram_block_def rn_demo_def)
qed

section \<open>A register read\<close>

definition rn_read_frame :: "u32 \<Rightarrow> nat \<Rightarrow> bool \<Rightarrow> bool list" where
  "rn_read_frame a len again =
     stream (rn_header a 0) @ pad (len + 1) @ (if again then stream [0x8C, 0x10] @ pad 5 else [])"

text \<open>C21. A register read.  \<open>RN8302_Read\<close> sends one frame and returns 1 exactly when the check sum over
  address and data is right or, failing that, the check sum of the second look at the chip's read
  register is.  The caller gets the bytes in reverse order of arrival, the lowest four of them
  replaced by the second look if there was one, and zeros on failure; no other byte is touched.\<close>

theorem rn_read_spec:
  fixes len :: u8
  assumes "rn_ready v0 fs s"
  shows "let rx = rn_rx s; L = unat len; ry = (\<lambda>k. rx (L + 1 + k));
      first = (rx L = NOT (sum_list (rn_header a 0) + byte_sum rx L));
      second = (ry 4 = NOT (0x9C + byte_sum ry 4));
      s' = exec (RN8302_Read base a len) s
    in result_of (RN8302_Read base a len) s = of_bool (first \<or> second)
     \<and> ram s' = (\<lambda>i. if base \<le> i \<and> i < base + L then
           (if first then rx (base + L - Suc i)
            else if \<not> second then 0
            else if i < base + 4 then ry (base + 4 - Suc i) else rx (base + L - Suc i))
         else ram s i)
     \<and> rn_ready v0 (fs @ [rn_read_frame a L (\<not> first)]) s'"
proof -
  define h1 where "h1 = (ucast (a AND 0xff) :: u8)"
  define h2 where "h2 = ((ucast (drop_bit 4 a) :: u8) AND 0xf0)"
  define s1 where "s1 = exec (RN8302_SendByte h2) (exec (RN8302_SendByte h1)
    (exec P_ADE78XX_CS_L (exec (set_status 1) s)))"
  define s2 where "s2 = exec (rn_read_data base (unat len) (h1 + h2)) s1"
  define s3 where "s3 = exec RN8302_ReceiveByte s2"
  define s4 where "s4 = exec (RN8302_SendByte 0x10) (exec (RN8302_SendByte 0x8C) s3)"
  define s5 where "s5 = exec (rn_reread base len 4 0x9C) s4"
  define s6 where "s6 = exec RN8302_ReceiveByte s5"
  define s7 where "s7 = exec (rn_zero base (unat len)) s6"
  let ?L = "unat len" and ?rx = "rn_rx s"
  have s1: "rn_sel v0 fs 1 s1 (stream (rn_header a 0))" "rn_rx s1 = ?rx" "ram s1 = ram s" "\<not> rn_idle s1"
    using header_law[OF assms, of h2 h1, folded s1_def] by (simp_all add: rn_header_def h1_def h2_def low_nibble)
  note d = read_data_law[OF s1(1), of base ?L "h1 + h2", folded s2_def]
  have s3: "rn_sel v0 fs 1 s3 (stream (rn_header a 0) @ pad (?L + 1))"
    "rn_rx s3 = (\<lambda>k. ?rx (?L + 1 + k))" "ram s3 = ram s2" "result_of RN8302_ReceiveByte s2 = ?rx ?L"
    using recv_byte_law[OF d(1)] d s1
    by (simp_all add: s3_def pad_def replicate_add[symmetric] add.commute)
  have s4: "rn_sel v0 fs 1 s4 (stream (rn_header a 0) @ pad (?L + 1) @ stream [0x8C, 0x10])"
    "rn_rx s4 = (\<lambda>k. ?rx (?L + 1 + k))" "ram s4 = ram s2" "\<not> rn_idle s4"
    using send2_law[OF s3(1), of "0x10" "0x8C"] s3 by (simp_all add: s4_def)
  note e = reread_law[OF s4(1), of base len 4 "0x9C", folded s5_def]
  have s6: "rn_sel v0 fs 1 s6 (rn_read_frame a ?L True)" "ram s6 = ram s5"
    "result_of RN8302_ReceiveByte s5 = ?rx (?L + 1 + 4)"
    using recv_byte_law[OF e[THEN conjunct1]] e s4 replicate_add[of 32 8 False]
    by (simp_all add: s6_def rn_read_frame_def pad_def replicate_add[symmetric])
  note z = zero_law[OF s6(1), of base ?L, folded s7_def]
  define first where "first = (?rx ?L = NOT (sum_list (rn_header a 0) + byte_sum ?rx ?L))"
  define ry where "ry = (\<lambda>k. ?rx (?L + 1 + k))"
  define second where "second = (ry 4 = NOT (0x9C + byte_sum ry 4))"
  define t where "t = (if first then s3 else if second then s6 else exec (set_status 0) s7)"
  have c: "result_of (rn_read_data base ?L (h1 + h2)) s1 = sum_list (rn_header a 0) + byte_sum ?rx ?L"
    "result_of (rn_reread base len 4 0x9C) s4 = 0x9C + byte_sum ry 4"
    using d(4) e s1(2) s4(2) by (simp_all add: rn_header_def h1_def h2_def ry_def)
  have run: "exec (RN8302_Read base a len) s = exec P_ADE78XX_CS_H t"
    "result_of (RN8302_Read base a len) s = RN8302Status (exec P_ADE78XX_CS_H t)"
    unfolding RN8302_Read_def using c s3(4) s6(3)
    by (simp_all add: Let_def t_def first_def second_def ry_def
        flip: h1_def h2_def s1_def s2_def s3_def s4_def s5_def s6_def s7_def)
  have ram_t: "ram t = (\<lambda>i. if base \<le> i \<and> i < base + ?L then
           (if first then ?rx (base + ?L - Suc i)
            else if \<not> second then 0
            else if i < base + 4 then ry (base + 4 - Suc i) else ?rx (base + ?L - Suc i))
         else ram s i)"
    using d(5) s3(3) s4(2,3) s6(2) e z s1(2,3)
    by (auto simp: t_def fun_eq_iff ry_def)
  have sel_t: "rn_sel v0 fs (of_bool (first \<or> second)) t (rn_read_frame a ?L (\<not> first))"
    using s3(1) s6(1) status_sel[OF z[THEN conjunct1], of 0] by (simp add: t_def rn_read_frame_def)
  have "RN8302Status t = of_bool (first \<or> second)" using sel_t by (simp add: rn_sel_def)
  then have "result_of (RN8302_Read base a len) s = of_bool (first \<or> second)
     \<and> ram (exec (RN8302_Read base a len) s) = ram t
     \<and> rn_ready v0 (fs @ [rn_read_frame a ?L (\<not> first)]) (exec (RN8302_Read base a len) s)"
    using deselect_law[OF sel_t] by (simp add: run)
  then show ?thesis unfolding ram_t unfolding first_def second_def ry_def Let_def .
qed

lemma rn_demo_bytes:
  "rn_rx rn_demo 0 = 0x11" "rn_rx rn_demo 1 = 0x22" "rn_rx rn_demo 2 = 0x5A" "rn_rx rn_demo 3 = 0xD5"
  by code_simp+

theorem rn_read_spec_witness:
  "let s' = exec (RN8302_Read 0 0x9D 3) rn_demo
   in result_of (RN8302_Read 0 0x9D 3) rn_demo = 1 \<and> map (ram s') [0, 1, 2] = [0x5A, 0x22, 0x11]"
proof -
  have "rn_rx rn_demo 3 = NOT (sum_list (rn_header 0x9D 0) + byte_sum (rn_rx rn_demo) 3)"
    by code_simp
  then show ?thesis
    using rn_read_spec[OF rn_demo_ready, where a = "0x9D" and base = 0 and len = 3]
    by (simp add: Let_def rn_demo_bytes[unfolded One_nat_def])
qed

section \<open>The device node\<close>

interpretation rn_dev: exclusive_open rn8302b_open "rn8302b_release True" is_open rn8302b_spi
  by unfold_locales (simp_all add: rn8302b_open_def rn8302b_release_def)

text \<open>Only twelve bits of the address reach the chip.\<close>

lemma addr_junk:
  "(ucast (rn_addr junk m AND 0xff) :: u8) = ucast (rn_addr 0 m AND 0xff)"
  "(ucast (drop_bit 4 (rn_addr junk m)) :: u8) AND 0xf0 = ucast (drop_bit 4 (rn_addr 0 m)) AND 0xf0"
  unfolding rn_addr_def
  by (rule bit_word_eqI, auto simp: Bit_Operations.bit_simps bit_unsigned_iff lt8_cases)+

lemma write_tries_cong:
  assumes "(ucast (a AND 0xff) :: u8) = ucast (b AND 0xff)"
    "(ucast (drop_bit 4 a) :: u8) AND 0xf0 = ucast (drop_bit 4 b) AND 0xf0"
  shows "(rn_write_tries n a base len :: ('a rn_state_scheme, unit) state) = rn_write_tries n b base len"
proof -
  have "(rn_write_once a base len :: ('a rn_state_scheme, unit) state) = rn_write_once b base len"
    using assms by (simp add: rn_write_once_def)
  then show ?thesis by (induction n) (simp_all cong: if_cong)
qed

text \<open>An uninitialised half of the address.  \<open>rn8302b_write\<close> copies two bytes into a four byte
  variable that it does not initialise; whatever the other two hold, the behaviour is the same.\<close>

theorem rn_write_junk: "rn8302b_write junk dev count = rn8302b_write 0 dev count"
  by (rule state.expand, rule ext)
    (simp add: run_state_eq rn8302b_write_def RN8302_Write_def write_tries_cong[OF addr_junk[of junk]])

section \<open>Start-up\<close>

lemma rn_pins: "98 < NUMGPIO" "99 < NUMGPIO" "100 < NUMGPIO" "101 < NUMGPIO" "102 < NUMGPIO"
  "pin_port 98 = 3" "pin_port 99 = 3" "pin_port 100 = 3" "pin_port 101 = 3" "pin_port 102 = 3"
  "pin_num 98 = 2" "pin_num 99 = 3" "pin_num 100 = 4" "pin_num 101 = 5" "pin_num 102 = 6"
  by (simp_all add: NUMGPIO_def pin_port_def pin_num_def)

lemma SPI_Init_law:
  assumes "quiet rn_port v0 s"
  shows "quiet rn_port v0 (exec RN8302_SPI_Init s)" "out_level (exec RN8302_SPI_Init s) 99"
    "is_output (exec RN8302_SPI_Init s) 102"
  using assms
  by (simp_all add: RN8302_SPI_Init_def quiet_out[where p = 3] rn_pins out_level_direction_out1 is_output_direction_out1)

text \<open>The part of the start-up that touches the pins.\<close>

definition rn_pins_up :: "('a hw_scheme, int) state" where
  "rn_pins_up = do {
     RN8302_SPI_Init;
     nuc970_gpio_core_set1 102 0;
     r \<leftarrow> nuc970_gpio_core_direction_in1 101;
     nuc970_gpio_core_set1 102 1;
     return r }"

lemma pins_up_law:
  assumes "quiet rn_port v0 s"
  shows "quiet rn_port v0 (exec rn_pins_up s) \<and> out_level (exec rn_pins_up s) 99 \<and> \<not> is_output (exec rn_pins_up s) 101
     \<and> out_level (exec rn_pins_up s) 102"
  using SPI_Init_law[OF assms]
  by (simp add: rn_pins_up_def quiet_set[where p = 3] quiet_in pin_view_set1 pin_view_in1 rn_pins)

lemma rn_on_kern [simp]:
  "exec (on_kern m) s = s\<lparr>kern := exec m (kern s)\<rparr>" "result_of (on_kern m) s = result_of m (kern s)"
  by (simp_all add: on_kern_def)

lemma init_pins:
  "hw.truncate (exec (rn8302b_init e) s) = hw.truncate (exec rn_pins_up s)"
  by (simp add: rn8302b_init_def rn_pins_up_def rn8302b_spi_setup_cdev_def hw.truncate_def split: option.splits)

text \<open>Start-up leaves the bus idle.  Whatever the port registers held before, after
  \<open>rn8302b_init\<close>, with success or not, the chip is deselected and out of reset, the driver can
  read its data line, and the chip has not been sent a single bit.\<close>

theorem rn_init_ready:
  assumes "wlog s = []"
  shows "let s' = exec (rn8302b_init e) s
     in \<exists>fs. rn_ready (mmio s (gpio_reg 3 DATAOUT)) fs s' \<and> concat fs = [] \<and> out_level s' 102"
proof -
  have "quiet rn_port (mmio s (gpio_reg 3 DATAOUT)) s"
    using link_start[OF assms, of rn_port] by (auto simp: quiet_def)
  note p = pins_up_law[OF this] and v = truncate_views[OF init_pins[of e s]]
  show ?thesis using p
    by (auto simp: Let_def quiet_def rn_ready_def link_def out_level_def is_output_def rn_pins v)
qed

theorem rn_init_ready_witness:
  "\<exists>fs. rn_ready 0x08 fs (exec (rn8302b_init \<lparr>ok_mem = False, err_chrdev = None, ok_class = True,
      ok_node = True, ok_cdev = True\<rparr>) rn_demo) \<and> concat fs = []"
proof -
  have "wlog rn_demo = []" "mmio rn_demo (gpio_reg 3 DATAOUT) = 0x08" by (simp_all add: rn_demo_def)
  with rn_init_ready[of rn_demo] show ?thesis by (auto simp: Let_def)
qed

lemma rn_raw_frame [simp]:
  fixes s :: "'a rn_state_scheme"
  shows "kern (exec (raw_writel v a) s) = kern s" "kern (exec (raw_readl a) s) = kern s"
  by (simp_all add: raw_writel_def raw_readl_def)

lemma rn_gpio_frame [simp]:
  fixes s :: "'a rn_state_scheme"
  shows "kern (exec (nuc970_gpio_core_direction_out1 g i) s) = kern s"
    "kern (exec (nuc970_gpio_core_direction_in1 g) s) = kern s"
    "kern (exec (nuc970_gpio_core_set1 g i) s) = kern s"
  by (simp_all add: nuc970_gpio_core_direction_out1_def nuc970_gpio_core_direction_in1_def
      nuc970_gpio_core_set1_def split: prod.splits)

text \<open>What a failed start-up leaves.  When no device number can be had, \<open>rn8302b_init\<close> returns the
  error but keeps the memory of the device; and \<open>rn8302b_exit\<close>, after a successful start-up, gives
  back everything except that memory.\<close>

theorem rn_init_memory:
  assumes "\<forall>r\<in>{Memory RN8302B, Chrdev RN8302B, Class RN8302B, Device RN8302B, Cdev RN8302B}. \<not> held (kern s) r"
  shows "let e = \<lparr>ok_mem = True, err_chrdev = Some EBUSY, ok_class = True, ok_node = True, ok_cdev = True\<rparr>;
       e' = e\<lparr>err_chrdev := None\<rparr>; s1 = exec (rn8302b_init e) s;
       s2 = exec rn8302b_exit (exec (rn8302b_init e') s)
     in result_of (rn8302b_init e) s = Inl EBUSY \<and> held (kern s1) = (held (kern s))(Memory RN8302B := True)
      \<and> result_of (rn8302b_init e') s = Inr ()
      \<and> held (kern s2) = (held (kern s))(Memory RN8302B := True) \<and> bogus (kern s2) = bogus (kern s)"
  using assms
  by (auto simp: rn8302b_init_def rn8302b_exit_def RN8302_SPI_Init_def rn8302b_spi_setup_cdev_def Let_def
      fun_eq_iff)

theorem rn_init_memory_witness:
  "held (kern (exec rn8302b_exit (exec (rn8302b_init \<lparr>ok_mem = True, err_chrdev = None, ok_class = True,
      ok_node = True, ok_cdev = True\<rparr>) rn_demo))) (Memory RN8302B)"
proof -
  have "held (kern rn_demo) = (\<lambda>_. False)" by (simp add: rn_demo_def)
  with rn_init_memory[of rn_demo] show ?thesis by (simp add: Let_def)
qed

end
