(* ===== verification/Esam.thy ===== *)
theory Esam
  imports Serial Kres
begin

text \<open>
  The driver of the security module, \<open>src/drivers/char/hndl_char_devices/hnos_esam_intf.c\<close> and
  \<open>hnos_esam_intf.h\<close>: a serial bus on port I toggled by software, commands framed by a start byte
  and a check byte, replies awaited with a bounded number of polls, and the character device around
  them.  The caller's buffer is the memory from \<open>buf\<close> on, by offset.  The two buffers of the device
  have 2048 bytes; an access beyond their end is recorded in \<open>fault\<close>.
\<close>

section \<open>Lines and bytes\<close>

record esam_state = hw +
  kern :: kres
  tx_buf :: "nat \<Rightarrow> u8"
  rx_buf :: "nat \<Rightarrow> u8"
  user :: "nat \<Rightarrow> u8"
  CMD_SENT :: u8
  esam_spi :: bool
  esam_class :: kptr
  is_open :: bool

definition ESAM_BUF_SIZE :: nat where "ESAM_BUF_SIZE = 2048"

definition ESAM_CLK_H :: "('a hw_scheme, unit) state" where
  "ESAM_CLK_H = or_reg REG_GPIOI_DATAOUT 0x08"
definition ESAM_CLK_L :: "('a hw_scheme, unit) state" where
  "ESAM_CLK_L = andn_reg REG_GPIOI_DATAOUT 0x08"
definition ESAM_MOSI_H :: "('a hw_scheme, unit) state" where
  "ESAM_MOSI_H = or_reg REG_GPIOI_DATAOUT 0x40"
definition ESAM_MOSI_L :: "('a hw_scheme, unit) state" where
  "ESAM_MOSI_L = andn_reg REG_GPIOI_DATAOUT 0x40"
definition ESAM_MISO_Read :: "('a hw_scheme, u32) state" where
  "ESAM_MISO_Read = nuc970_gpio_core_get1 261"

fun esam_recv_bits :: "nat \<Rightarrow> u8 \<Rightarrow> ('a hw_scheme, u8) state" where
  "esam_recv_bits 0 RxData = return RxData"
| "esam_recv_bits (Suc n) RxData = do {
     ESAM_CLK_L;
     let RxData = push_bit 1 RxData;
     b \<leftarrow> ESAM_MISO_Read;
     let RxData = (if b \<noteq> 0 then RxData OR 0x01 else RxData);
     ESAM_CLK_H;
     esam_recv_bits n RxData }"

definition ESAM_ReceiveByte :: "('a hw_scheme, u8) state" where
  "ESAM_ReceiveByte = esam_recv_bits 8 0"

definition es_cspin :: "u8 \<Rightarrow> ('a hw_scheme, unit) state" where
  "es_cspin status = do {
     nuc970_gpio_core_direction_out1 260 (if status \<noteq> 0 then 1 else 0);
     return () }"

definition es_pwrpin :: "u8 \<Rightarrow> ('a hw_scheme, unit) state" where
  "es_pwrpin status = do {
     nuc970_gpio_core_direction_out1 263 (if status \<noteq> 0 then 0 else 1);
     return () }"

text \<open>The check byte of \<open>len\<close> bytes.\<close>

fun lrc_loop :: "(nat \<Rightarrow> u8) \<Rightarrow> nat \<Rightarrow> nat \<Rightarrow> u8 \<Rightarrow> u8" where
  "lrc_loop d i 0 LRCx = LRCx"
| "lrc_loop d i (Suc n) LRCx = lrc_loop d (Suc i) n (LRCx XOR d i)"

definition cal_lrc :: "(nat \<Rightarrow> u8) \<Rightarrow> nat \<Rightarrow> u8" where
  "cal_lrc d len =
    (if len = 0 then 0
     else if len = 1 then NOT (d 0)
     else NOT (lrc_loop d 1 (len - 1) (d 0)))"

section \<open>Sending a command\<close>

definition tx_put :: "nat \<Rightarrow> u8 \<Rightarrow> 'a esam_state_scheme \<Rightarrow> 'a esam_state_scheme" where
  "tx_put i b s = s\<lparr>tx_buf := (tx_buf s)(i := b), fault := fault s \<or> ESAM_BUF_SIZE \<le> i\<rparr>"

definition rx_put :: "nat \<Rightarrow> u8 \<Rightarrow> 'a esam_state_scheme \<Rightarrow> 'a esam_state_scheme" where
  "rx_put i b s = s\<lparr>rx_buf := (rx_buf s)(i := b), fault := fault s \<or> ESAM_BUF_SIZE \<le> i\<rparr>"

text \<open>\<open>copy_from_user\<close> into the transmit buffer and \<open>copy_to_user\<close> from the receive buffer.\<close>

definition tx_copy :: "nat \<Rightarrow> nat \<Rightarrow> ('a esam_state_scheme, unit) state" where
  "tx_copy off n = modify (\<lambda>s. s\<lparr>
     tx_buf := (\<lambda>i. if off \<le> i \<and> i < off + n then user s (i - off) else tx_buf s i),
     fault := fault s \<or> ESAM_BUF_SIZE < off + n\<rparr>)"

definition rx_copy :: "nat \<Rightarrow> nat \<Rightarrow> ('a esam_state_scheme, unit) state" where
  "rx_copy off n = modify (\<lambda>s. s\<lparr>
     user := (\<lambda>i. if off \<le> i \<and> i < off + n then rx_buf s i else user s i),
     fault := fault s \<or> ESAM_BUF_SIZE < off + n\<rparr>)"

text \<open>Each byte is shifted out of the buffer, which is left cleared.\<close>

fun esam_send_bits :: "nat \<Rightarrow> nat \<Rightarrow> ('a esam_state_scheme, unit) state" where
  "esam_send_bits i 0 = return ()"
| "esam_send_bits i (Suc j) = do {
     ESAM_CLK_L;
     b \<leftarrow> gets (\<lambda>s. tx_buf s i);
     (if b AND 0x80 = 0x80 then ESAM_MOSI_H else ESAM_MOSI_L);
     ESAM_CLK_H;
     modify (\<lambda>s. tx_put i (push_bit 1 (tx_buf s i)) s);
     esam_send_bits i j }"

fun esam_send_bytes :: "nat \<Rightarrow> nat \<Rightarrow> ('a esam_state_scheme, unit) state" where
  "esam_send_bytes i 0 = return ()"
| "esam_send_bytes i (Suc n) = do {
     esam_send_bits i 8;
     esam_send_bytes (Suc i) n }"

definition esam_spi_write :: "u32 \<Rightarrow> bool \<Rightarrow> ('a esam_state_scheme, unit result) state" where
  "esam_spi_write len reslt = do {
     nuc970_gpio_core_set1 262 0;
     nuc970_gpio_core_set1 259 0;
     ESAM_CLK_H;
     es_cspin 1;
     dev \<leftarrow> gets esam_spi;
     if \<not> dev \<or> \<not> reslt \<or> ESAM_BUF_SIZE < unat (len + 2) then return (Inl EINVAL)
     else do {
       modify (tx_put 0 0x55);
       tx_copy 1 (unat len);
       d \<leftarrow> gets (\<lambda>s i. tx_buf s (1 + i));
       modify (tx_put (unat (1 + len)) (cal_lrc d (unat len)));
       es_cspin 0;
       esam_send_bytes 0 (unat (len + 2));
       es_cspin 1;
       modify (\<lambda>s. s\<lparr>CMD_SENT := 1\<rparr>);
       return (Inr ()) } }"

section \<open>Reading the reply\<close>

text \<open>At most \<open>n\<close> polls for the start byte; the driver allows 3200 * 1000 / 50 of them.\<close>

fun esam_waitread :: "nat \<Rightarrow> ('a esam_state_scheme, bool) state" where
  "esam_waitread 0 = return False"
| "esam_waitread (Suc n) = do {
     b \<leftarrow> ESAM_ReceiveByte;
     modify (rx_put 0 b);
     v \<leftarrow> gets (\<lambda>s. rx_buf s 0);
     if v \<noteq> 0x55 then esam_waitread n else return True }"

definition ESAM_POLLS :: nat where "ESAM_POLLS = 3200 * 1000 div 50"

fun esam_recv_bytes :: "nat \<Rightarrow> nat \<Rightarrow> ('a esam_state_scheme, unit) state" where
  "esam_recv_bytes i 0 = return ()"
| "esam_recv_bytes i (Suc n) = do {
     b \<leftarrow> ESAM_ReceiveByte;
     modify (rx_put i b);
     esam_recv_bytes (Suc i) n }"

definition rx_clear :: "nat \<Rightarrow> ('a esam_state_scheme, unit) state" where
  "rx_clear n = modify (\<lambda>s. s\<lparr>rx_buf := (\<lambda>i. if i < n then 0 else rx_buf s i)\<rparr>)"

text \<open>The part of \<open>esam_spi_read\<close> after the start byte: header, data and check byte.\<close>

definition esam_body :: "u32 \<Rightarrow> ('a esam_state_scheme, unit result) state" where
  "esam_body maxlen = do {
     esam_recv_bytes 0 4;
     rx_copy 0 4;
     len \<leftarrow> gets (\<lambda>s. unat (rx_buf s 2) * 256 + unat (rx_buf s 3));
     if len + 4 > unat maxlen then do { es_cspin 1; return (Inl EINVAL) }
     else do {
       esam_recv_bytes 4 len;
       rx_copy 4 len;
       b \<leftarrow> ESAM_ReceiveByte;
       modify (rx_put (len + 4) b);
       es_cspin 1;
       modify (\<lambda>s. s\<lparr>CMD_SENT := 0\<rparr>);
       d \<leftarrow> gets rx_buf;
       return (if d (len + 4) = cal_lrc d (len + 4) then Inr () else Inl EIO) } }"

definition esam_spi_read :: "u32 \<Rightarrow> bool \<Rightarrow> ('a esam_state_scheme, unit result) state" where
  "esam_spi_read maxlen reslt = do {
     nuc970_gpio_core_set1 262 1;
     dev \<leftarrow> gets esam_spi;
     if \<not> dev \<or> \<not> reslt then return (Inl EINVAL)
     else do {
       sent \<leftarrow> gets CMD_SENT;
       if sent = 0 then do {
         let n = (if maxlen > 5 then 5 else unat maxlen);
         rx_clear n;
         rx_copy 0 n;
         return (Inr ())
       } else do {
         es_cspin 0;
         started \<leftarrow> esam_waitread ESAM_POLLS;
         if \<not> started then do { es_cspin 1; return (Inl EIO) }
         else esam_body maxlen } } }"

section \<open>The device\<close>

text \<open>The argument \<open>dev\<close> is whether the open file carries a device.\<close>

definition esam_write :: "bool \<Rightarrow> u32 \<Rightarrow> bool \<Rightarrow> ('a esam_state_scheme, nat result) state" where
  "esam_write dev count buf = do {
     opened \<leftarrow> gets is_open;
     if \<not> dev \<or> \<not> opened then return (Inl EFAULT)
     else do {
       ret \<leftarrow> esam_spi_write count buf;
       return (case ret of Inl _ \<Rightarrow> Inl EIO | Inr _ \<Rightarrow> Inr (unat count)) } }"

definition esam_read :: "bool \<Rightarrow> u32 \<Rightarrow> bool \<Rightarrow> ('a esam_state_scheme, nat result) state" where
  "esam_read dev count buf = do {
     opened \<leftarrow> gets is_open;
     if \<not> dev \<or> \<not> opened then return (Inl EFAULT)
     else do {
       ret \<leftarrow> esam_spi_read count buf;
       u \<leftarrow> gets user;
       return (case ret of Inl _ \<Rightarrow> Inl EIO | Inr _ \<Rightarrow> Inr (unat (u 2) * 256 + unat (u 3) + 4)) } }"

definition on_kern :: "(kres, 'b) state \<Rightarrow> ('a esam_state_scheme, 'b) state" where
  "on_kern m = State (\<lambda>s. (result_of m (kern s), s\<lparr>kern := exec m (kern s)\<rparr>))"

abbreviation ESAM :: string where "ESAM \<equiv> ''esam''"

definition esam_spi_setup_cdev :: "bool \<Rightarrow> ('a esam_state_scheme, unit) state" where
  "esam_spi_setup_cdev ok = do { on_kern (request ok (Cdev ESAM)); return () }"

definition esam_open :: "('a esam_state_scheme, bool result) state" where
  "esam_open = do {
     dev \<leftarrow> gets esam_spi;
     was \<leftarrow> gets is_open;
     (if dev then modify (\<lambda>s. s\<lparr>is_open := True\<rparr>) else return ());
     return (if dev \<and> was then Inl EBUSY else Inr dev) }"

definition esam_release :: "bool \<Rightarrow> ('a esam_state_scheme, unit result) state" where
  "esam_release dev = do {
     was \<leftarrow> gets is_open;
     (if dev then modify (\<lambda>s. s\<lparr>is_open := False\<rparr>) else return ());
     return (if dev \<and> \<not> was then Inl EINVAL else Inr ()) }"

record esam_env =
  ok_mem :: bool
  err_chrdev :: "errno option"
  ok_class :: bool
  ok_node :: bool
  ok_cdev :: bool

definition esam_spi_init :: "esam_env \<Rightarrow> ('a esam_state_scheme, unit result) state" where
  "esam_spi_init e = do {
     es_pwrpin 0;
     nuc970_gpio_core_direction_out1 259 0;
     nuc970_gpio_core_direction_in1 261;
     nuc970_gpio_core_direction_out1 262 0;
     es_cspin 0;
     es_cspin 1;
     es_pwrpin 1;
     nuc970_gpio_core_set1 262 1;
     nuc970_gpio_core_set1 259 1;
     m \<leftarrow> on_kern (request (ok_mem e) (Memory ESAM));
     modify (\<lambda>s. s\<lparr>esam_spi := m\<rparr>);
     if \<not> m then return (Inl ENOMEM)
     else do {
       modify (\<lambda>s. s\<lparr>esam_class := Null, is_open := False, tx_buf := (\<lambda>_. 0), rx_buf := (\<lambda>_. 0)\<rparr>);
       on_kern (request (err_chrdev e = None) (Chrdev ESAM));
       case err_chrdev e of Some ret \<Rightarrow> return (Inl ret)
       | None \<Rightarrow> do {
           c \<leftarrow> on_kern (class_create (ok_class e) ESAM);
           if c = Null then return (Inl ENOMEM)
           else do {
             d \<leftarrow> on_kern (device_create c (ok_node e) ESAM);
             if d = Null then return (Inl ENOMEM)
             else do {
               modify (\<lambda>s. s\<lparr>esam_class := c\<rparr>);
               esam_spi_setup_cdev (ok_cdev e);
               return (Inr ()) } } } } }"

definition esam_spi_exit :: "('a esam_state_scheme, unit) state" where
  "esam_spi_exit = do {
     on_kern (release (Cdev ESAM));
     c \<leftarrow> gets esam_class;
     (if c \<noteq> Null then do {
        on_kern (device_destroy c ESAM);
        on_kern (class_destroy c ESAM)
      } else return ());
     on_kern (release (Chrdev ESAM));
     es_pwrpin 0;
     nuc970_gpio_core_set1 262 0;
     nuc970_gpio_core_set1 259 0;
     es_cspin 0 }"

section \<open>What the module sees\<close>

text \<open>The module samples the data line at the rising edge of the clock.\<close>

definition esam_port :: "bool port" where
  "esam_port = \<lparr>preg = REG_GPIOI_DATAOUT, pclk = 3, pcs = 4, ppol = True, pobs = (\<lambda>v. bit v 6)\<rparr>"

lemma esam_port_sel [simp]:
  "preg esam_port = gpio_reg 8 DATAOUT" "pclk esam_port = 3" "pcs esam_port = 4" "ppol esam_port"
  "pobs esam_port v = bit v 6"
  by (simp_all add: esam_port_def named_port_regs)

lemma esam_data_port: "data_port esam_port 6"
  by (simp add: data_port_def esam_port_def)

lemma esam_pins: "259 < NUMGPIO" "260 < NUMGPIO" "261 < NUMGPIO" "262 < NUMGPIO" "263 < NUMGPIO"
  "pin_port 259 = 8" "pin_port 260 = 8" "pin_port 261 = 8" "pin_port 262 = 8" "pin_port 263 = 8"
  "pin_num 259 = 3" "pin_num 260 = 4" "pin_num 261 = 5" "pin_num 262 = 6" "pin_num 263 = 7"
  by (simp_all add: NUMGPIO_def pin_port_def pin_num_def)

text \<open>Clock and data out are outputs, data in is not.\<close>

definition esam_dirs :: "'a hw_scheme \<Rightarrow> bool" where
  "esam_dirs s \<longleftrightarrow> bit (mmio s (gpio_reg 8 DIR)) 3 \<and> bit (mmio s (gpio_reg 8 DIR)) 6
     \<and> \<not> bit (mmio s (gpio_reg 8 DIR)) 5"

text \<open>The rest of the driver's state that the bus routines leave alone.\<close>

definition esam_rest :: "'a esam_state_scheme \<Rightarrow> (nat \<Rightarrow> u8) \<times> u8 \<times> bool \<times> bool" where
  "esam_rest s = (user s, CMD_SENT s, esam_spi s, is_open s)"

definition esam_lines where
  "esam_lines v0 fs q cur clk dat s \<longleftrightarrow> lines esam_port 6 v0 fs cur clk dat s \<and> esam_dirs s \<and> esam_rest s = q"

definition esam_sel :: "u32 \<Rightarrow> bool list list \<Rightarrow> (nat \<Rightarrow> u8) \<times> u8 \<times> bool \<times> bool \<Rightarrow> 'a esam_state_scheme
    \<Rightarrow> bool list \<Rightarrow> bool" where
  "esam_sel v0 fs q s cur \<longleftrightarrow> link esam_port v0 s cur fs \<and> \<not> bit (mmio s (gpio_reg 8 DATAOUT)) 4
     \<and> esam_dirs s \<and> esam_rest s = q"

definition esam_idle :: "'a hw_scheme \<Rightarrow> bool" where
  "esam_idle s = bit (mmio s (gpio_reg 8 DATAOUT)) 6"

definition esam_in :: "'a hw_scheme \<Rightarrow> nat \<Rightarrow> bool" where
  "esam_in s j = bit (pins s (now s + j) (gpio_reg 8 DATAIN)) 5"

definition esam_rx :: "'a hw_scheme \<Rightarrow> nat \<Rightarrow> u8" where
  "esam_rx s k = byte_of_msb (map (\<lambda>j. esam_in s (8 * k + j)) [0..<8])"

lemma esam_line_exec:
  "exec ESAM_CLK_H s = put_all [(gpio_reg 8 DATAOUT, put_bit True 3 (mmio s (gpio_reg 8 DATAOUT)))] s"
  "exec ESAM_CLK_L s = put_all [(gpio_reg 8 DATAOUT, put_bit False 3 (mmio s (gpio_reg 8 DATAOUT)))] s"
  "exec ESAM_MOSI_H s = put_all [(gpio_reg 8 DATAOUT, put_bit True 6 (mmio s (gpio_reg 8 DATAOUT)))] s"
  "exec ESAM_MOSI_L s = put_all [(gpio_reg 8 DATAOUT, put_bit False 6 (mmio s (gpio_reg 8 DATAOUT)))] s"
  by (simp_all add: ESAM_CLK_H_def ESAM_CLK_L_def ESAM_MOSI_H_def ESAM_MOSI_L_def named_port_regs
      put_bit_def BIT_def run_simps)

lemma esam_fields_put_all [simp]:
  "tx_buf (put_all ws s) = tx_buf s" "rx_buf (put_all ws s) = rx_buf s" "user (put_all ws s) = user s"
  "CMD_SENT (put_all ws s) = CMD_SENT s" "esam_spi (put_all ws s) = esam_spi s"
  "is_open (put_all ws s) = is_open s" "kern (put_all ws s) = kern s"
  "esam_class (put_all ws s) = esam_class s"
  by (induction ws s rule: put_all.induct) simp_all

lemma esam_rest_put_all [simp]: "esam_rest (put_all ws s) = esam_rest s"
  by (simp add: esam_rest_def)

lemma esam_dirs_put [simp]: "r \<noteq> gpio_reg 8 DIR \<Longrightarrow> esam_dirs (put_all [(r, v)] s) = esam_dirs s"
  by (simp add: esam_dirs_def)

lemma esam_lines_put:
  assumes "esam_lines v0 fs q cur clk dat s" "n < 32" "n \<noteq> 4"
  shows "esam_lines v0 fs q (if n = 3 \<and> clk \<noteq> b \<and> b then cur @ [dat] else cur)
     (if n = 3 then b else clk) (if n = 6 then b else dat)
     (put_all [(gpio_reg 8 DATAOUT, put_bit b n (mmio s (gpio_reg 8 DATAOUT)))] s)"
proof -
  have l: "lines esam_port 6 v0 fs cur clk dat s" "esam_dirs s" "esam_rest s = q"
    using assms(1) by (simp_all add: esam_lines_def)
  show ?thesis using lines_put[OF l(1) esam_data_port, of n b] assms(2,3) l(2,3)
    unfolding esam_lines_def by (auto simp del: put_all.simps)
qed

lemma esam_lines_steps:
  assumes "esam_lines v0 fs q cur clk dat s"
  shows "esam_lines v0 fs q (if clk then cur else cur @ [dat]) True dat (exec ESAM_CLK_H s)"
    "esam_lines v0 fs q cur False dat (exec ESAM_CLK_L s)"
    "esam_lines v0 fs q cur clk b (exec (if b then ESAM_MOSI_H else ESAM_MOSI_L) s)"
  unfolding exec_if esam_line_exec
  using esam_lines_put[OF assms, of 3 True] esam_lines_put[OF assms, of 3 False]
    esam_lines_put[OF assms, of 6 b]
  by (cases clk; cases b; simp del: put_all.simps)+

text \<open>What none of the line changes touches.\<close>

lemma esam_line_frame [simp]:
  fixes s :: "'a esam_state_scheme"
  shows "tx_buf (exec ESAM_CLK_H s) = tx_buf s" "tx_buf (exec ESAM_CLK_L s) = tx_buf s"
    "tx_buf (exec ESAM_MOSI_H s) = tx_buf s" "tx_buf (exec ESAM_MOSI_L s) = tx_buf s"
    "rx_buf (exec ESAM_CLK_H s) = rx_buf s" "rx_buf (exec ESAM_CLK_L s) = rx_buf s"
    "rx_buf (exec ESAM_MOSI_H s) = rx_buf s" "rx_buf (exec ESAM_MOSI_L s) = rx_buf s"
  by (simp_all add: esam_line_exec del: put_all.simps)

lemma esam_line_frame_hw [simp]:
  "esam_in (exec ESAM_CLK_H s) = esam_in s" "esam_in (exec ESAM_CLK_L s) = esam_in s"
  "esam_in (exec ESAM_MOSI_H s) = esam_in s" "esam_in (exec ESAM_MOSI_L s) = esam_in s"
  "fault (exec ESAM_CLK_H s) = fault s" "fault (exec ESAM_CLK_L s) = fault s"
  "fault (exec ESAM_MOSI_H s) = fault s" "fault (exec ESAM_MOSI_L s) = fault s"
  by (simp_all add: esam_line_exec esam_in_def fun_eq_iff del: put_all.simps)

section \<open>Receiving\<close>

lemma get1_miso:
  assumes "esam_lines v0 fs q cur clk dat s"
  shows "result_of ESAM_MISO_Read s = of_bool (esam_in s 0)"
    "esam_lines v0 fs q cur clk dat (exec ESAM_MISO_Read s)"
    "esam_in (exec ESAM_MISO_Read s) = (\<lambda>j. esam_in s (Suc j))"
    "tx_buf (exec ESAM_MISO_Read s) = tx_buf s" "rx_buf (exec ESAM_MISO_Read s) = rx_buf s"
    "fault (exec ESAM_MISO_Read s) = fault s"
proof -
  have "\<not> is_output s 261"
    using assms by (simp add: esam_lines_def esam_dirs_def is_output_def esam_pins)
  note g = get1_input[OF esam_pins(3) this, unfolded esam_pins]
  have lev: "in_level s 261 = esam_in s 0" by (simp add: in_level_def esam_in_def esam_pins)
  show "result_of ESAM_MISO_Read s = of_bool (esam_in s 0)"
    by (simp add: ESAM_MISO_Read_def result_of_def g lev)
  have e: "exec ESAM_MISO_Read s =
      put_all [(gpio_reg 8 DATAIN, of_bool (esam_in s 0))] (s\<lparr>now := now s + 1\<rparr>)"
    by (simp add: ESAM_MISO_Read_def exec_def g lev)
  show "esam_in (exec ESAM_MISO_Read s) = (\<lambda>j. esam_in s (Suc j))"
    "tx_buf (exec ESAM_MISO_Read s) = tx_buf s" "rx_buf (exec ESAM_MISO_Read s) = rx_buf s"
    "fault (exec ESAM_MISO_Read s) = fault s"
    by (simp_all add: e esam_in_def fun_eq_iff)
  show "esam_lines v0 fs q cur clk dat (exec ESAM_MISO_Read s)"
    using assms unfolding e by (simp add: esam_lines_def lines_def link_def esam_dirs_def esam_rest_def)
qed

lemma esam_recv_bits_lines:
  "esam_lines v0 fs q cur clk dat s \<Longrightarrow>
     esam_lines v0 fs q (cur @ replicate n dat) (if n = 0 then clk else True) dat (exec (esam_recv_bits n x) s)
     \<and> result_of (esam_recv_bits n x) s = shift_in x (map (esam_in s) [0..<n])
     \<and> tx_buf (exec (esam_recv_bits n x) s) = tx_buf s
     \<and> rx_buf (exec (esam_recv_bits n x) s) = rx_buf s
     \<and> fault (exec (esam_recv_bits n x) s) = fault s
     \<and> esam_in (exec (esam_recv_bits n x) s) = (\<lambda>j. esam_in s (n + j))"
proof (induction n arbitrary: x s cur clk)
  case (Suc n)
  let ?s1 = "exec ESAM_CLK_L s"
  let ?s2 = "exec ESAM_MISO_Read ?s1"
  let ?s3 = "exec ESAM_CLK_H ?s2"
  define y where "y = push_bit 1 x OR of_bool (esam_in s 0)"
  note l1 = esam_lines_steps(2)[OF Suc.prems]
  note g = get1_miso[OF l1]
  have l3: "esam_lines v0 fs q (cur @ [dat]) True dat ?s3"
    using esam_lines_steps(1)[OF g(2)] by simp
  have f: "esam_in ?s3 = (\<lambda>j. esam_in s (Suc j))" "tx_buf ?s3 = tx_buf s" "rx_buf ?s3 = rx_buf s" "fault ?s3 = fault s"
    using g by simp_all
  have y: "(if (of_bool (esam_in s 0) :: u32) \<noteq> 0 then push_bit 1 x OR 0x01 else push_bit 1 x) = y"
    by (cases "esam_in s 0") (simp_all add: y_def)
  have g1: "result_of ESAM_MISO_Read ?s1 = of_bool (esam_in s 0)" using g(1) by simp
  have e: "exec (esam_recv_bits (Suc n) x) s = exec (esam_recv_bits n y) ?s3"
    "result_of (esam_recv_bits (Suc n) x) s = result_of (esam_recv_bits n y) ?s3"
    unfolding esam_recv_bits.simps Let_def exec_bind result_bind exec_return result_return g1 y by simp_all
  have up: "shift_in x (map (esam_in s) [0..<Suc n]) = shift_in y (map (\<lambda>i. esam_in s (Suc i)) [0..<n])"
    unfolding upt_conv_Cons[OF zero_less_Suc] map_Suc_upt[symmetric] y_def
    by (simp only: comp_def list.map shift_in.simps map_map)
  show ?case
    using Suc.IH[OF l3, of y] unfolding e up f by simp
qed simp

lemma esam_sel_lines:
  "esam_sel v0 fs q s cur \<longleftrightarrow>
     esam_lines v0 fs q cur (bit (mmio s (gpio_reg 8 DATAOUT)) 3) (esam_idle s) s"
  by (auto simp: esam_sel_def esam_lines_def lines_def esam_idle_def)

lemma esam_recv_law:
  assumes "esam_sel v0 fs q s cur"
  shows "result_of ESAM_ReceiveByte s = esam_rx s 0"
    "esam_rx (exec ESAM_ReceiveByte s) = (\<lambda>k. esam_rx s (Suc k))"
    "esam_sel v0 fs q (exec ESAM_ReceiveByte s) (cur @ replicate 8 (esam_idle s))"
    "esam_idle (exec ESAM_ReceiveByte s) = esam_idle s"
    "rx_buf (exec ESAM_ReceiveByte s) = rx_buf s"
    "fault (exec ESAM_ReceiveByte s) = fault s"
  using esam_recv_bits_lines[OF assms[unfolded esam_sel_lines], of 8 0]
  by (simp_all add: ESAM_ReceiveByte_def esam_rx_def byte_of_msb_def esam_lines_def lines_def
      esam_sel_def esam_idle_def fun_eq_iff algebra_simps)

lemma rx_put_law:
  "esam_sel v0 fs q s cur \<Longrightarrow> esam_sel v0 fs q (rx_put i b s) cur" "esam_rx (rx_put i b s) = esam_rx s"
  "esam_idle (rx_put i b s) = esam_idle s" "rx_buf (rx_put i b s) = (rx_buf s)(i := b)"
  "fault (rx_put i b s) = (fault s \<or> ESAM_BUF_SIZE \<le> i)"
  by (simp_all add: rx_put_def esam_sel_def esam_dirs_def esam_rest_def link_def esam_rx_def esam_in_def
      esam_idle_def fun_eq_iff)

interpretation esam: byte_in "esam_sel v0 fs q" esam_idle rx_buf ESAM_ReceiveByte esam_rx rx_put
  by unfold_locales (assumption | rule esam_recv_law rx_put_law)+

section \<open>Sending\<close>

lemma tx_put_law:
  "esam_lines v0 fs q cur clk dat s \<Longrightarrow> esam_lines v0 fs q cur clk dat (tx_put i b s)"
  "esam_in (tx_put i b s) = esam_in s" "tx_buf (tx_put i b s) = (tx_buf s)(i := b)"
  "fault (tx_put i b s) = (fault s \<or> ESAM_BUF_SIZE \<le> i)" "rx_buf (tx_put i b s) = rx_buf s"
  by (simp_all add: tx_put_def esam_lines_def lines_def link_def esam_dirs_def esam_rest_def esam_in_def
      fun_eq_iff)

lemma esam_send_bits_law:
  "esam_lines v0 fs q cur clk dat s \<Longrightarrow> n \<le> 8 \<Longrightarrow>
     esam_lines v0 fs q (cur @ high_bits n (tx_buf s i)) (if n = 0 then clk else True)
       (if n = 0 then dat else bit (tx_buf s i) (8 - n)) (exec (esam_send_bits i n) s)
     \<and> (\<forall>j. j \<noteq> i \<longrightarrow> tx_buf (exec (esam_send_bits i n) s) j = tx_buf s j)
     \<and> esam_in (exec (esam_send_bits i n) s) = esam_in s
     \<and> fault (exec (esam_send_bits i n) s) = (fault s \<or> 0 < n \<and> ESAM_BUF_SIZE \<le> i)"
proof (induction n arbitrary: s cur clk dat)
  case (Suc n)
  let ?x = "tx_buf s i"
  let ?s1 = "exec ESAM_CLK_L s"
  let ?s2 = "exec (if bit ?x 7 then ESAM_MOSI_H else ESAM_MOSI_L) ?s1"
  let ?s3 = "exec ESAM_CLK_H ?s2"
  define y where "y = push_bit 1 ?x"
  let ?s4 = "tx_put i y ?s3"
  have "esam_lines v0 fs q (cur @ [bit ?x 7]) True (bit ?x 7) ?s3"
    using esam_lines_steps(1)[OF esam_lines_steps(3)[OF esam_lines_steps(2)[OF Suc.prems(1)], of "bit ?x 7"]]
    by simp
  note l = tx_put_law(1)[OF this, of i y]
  have f: "tx_buf ?s3 = tx_buf s" "esam_in ?s3 = esam_in s" "fault ?s3 = fault s"
    by (cases "bit ?x 7"; simp)+
  have e: "exec (esam_send_bits i (Suc n)) s = exec (esam_send_bits i n) ?s4"
    using f(1) by (cases "bit ?x 7") (simp_all add: top_bit y_def)
  have d: "(if n = 0 then bit ?x 7 else bit y (8 - n)) = bit ?x (8 - Suc n)"
    unfolding y_def using Suc.prems(2) shift_last[of n ?x] by auto
  have h: "high_bits (Suc n) ?x = bit ?x 7 # high_bits n y"
    unfolding y_def using Suc.prems(2) by (intro high_bits_Suc) simp
  have t: "tx_buf ?s4 i = y" by (simp add: tx_put_law)
  show ?case
    using Suc.IH[OF l] Suc.prems(2) unfolding e h t d by (auto simp: tx_put_law f)
qed simp

lemma esam_send_bytes_law:
  "esam_sel v0 fs q s cur \<Longrightarrow>
     esam_sel v0 fs q (exec (esam_send_bytes i n) s) (cur @ stream (map (tx_buf s) [i..<i + n]))
     \<and> esam_in (exec (esam_send_bytes i n) s) = esam_in s
     \<and> fault (exec (esam_send_bytes i n) s) = (fault s \<or> 0 < n \<and> ESAM_BUF_SIZE < i + n)"
proof (induction n arbitrary: i s cur)
  case (Suc n)
  let ?t = "exec (esam_send_bits i 8) s"
  note b = esam_send_bits_law[OF Suc.prems[unfolded esam_sel_lines], of 8 i]
  have t: "esam_sel v0 fs q ?t (cur @ bits_msb (tx_buf s i))"
    using b by (simp add: esam_lines_def lines_def esam_sel_def high_bits_8)
  have m: "map (tx_buf ?t) [Suc i..<Suc i + n] = map (tx_buf s) [Suc i..<Suc i + n]"
    using b by (intro map_cong) auto
  have up: "[i..<i + Suc n] = i # [Suc i..<Suc i + n]" by (simp add: upt_conv_Cons del: upt_Suc)
  show ?case using Suc.IH[OF t, of "Suc i"] b unfolding m up by auto
qed simp

section \<open>Between frames\<close>

definition esam_ready :: "u32 \<Rightarrow> bool list list \<Rightarrow> 'a hw_scheme \<Rightarrow> bool" where
  "esam_ready v0 fs s \<longleftrightarrow> link esam_port v0 s [] fs \<and> bit (mmio s (gpio_reg 8 DATAOUT)) 4 \<and> esam_dirs s"

lemma esam_ready_put:
  assumes "esam_ready v0 fs s" "n < 32" "n \<noteq> 4"
  shows "esam_ready v0 fs (put_all [(gpio_reg 8 DATAOUT, put_bit b n (mmio s (gpio_reg 8 DATAOUT)))] s)"
proof -
  let ?o = "mmio s (gpio_reg 8 DATAOUT)"
  have "receive esam_port (put_bit b n ?o) (?o, [], fs) = (put_bit b n ?o, [], fs)"
    using assms by (simp add: receive_def esam_ready_def bit_simps)
  with assms link_put[of esam_port v0 s "[]" fs "put_bit b n ?o"] show ?thesis
    by (simp add: esam_ready_def bit_simps esam_dirs_def)
qed

lemma esam_ready_lines:
  assumes "esam_ready v0 fs s"
  shows "esam_ready v0 fs (exec ESAM_CLK_H s)" "esam_ready v0 fs (exec (nuc970_gpio_core_set1 262 v) s)"
    "esam_ready v0 fs (exec (nuc970_gpio_core_set1 259 v) s)"
proof -
  have "is_output s 262" "is_output s 259"
    using assms by (simp_all add: esam_ready_def esam_dirs_def is_output_def esam_pins)
  then show "esam_ready v0 fs (exec ESAM_CLK_H s)" "esam_ready v0 fs (exec (nuc970_gpio_core_set1 262 v) s)"
    "esam_ready v0 fs (exec (nuc970_gpio_core_set1 259 v) s)"
    using esam_ready_put[OF assms, of 3 True] esam_ready_put[OF assms, of 6 "v \<noteq> 0"]
      esam_ready_put[OF assms, of 3 "v \<noteq> 0"]
    by (simp_all add: esam_line_exec set1_output esam_pins del: put_all.simps)
qed

lemma cspin_exec:
  "exec (es_cspin v) s = put_all [(gpio_reg 8 DATAOUT, put_bit (v \<noteq> 0) 4 (mmio s (gpio_reg 8 DATAOUT)))]
     (put_all [(gpio_reg 8 DIR, put_bit True 4 (mmio s (gpio_reg 8 DIR)))] s)"
  by (simp add: es_cspin_def direction_out1_exec esam_pins)

lemma esam_select:
  assumes "esam_ready v0 fs s"
  shows "esam_sel v0 fs (esam_rest s) (exec (es_cspin 0) s) []"
proof -
  let ?t = "put_all [(gpio_reg 8 DIR, put_bit True 4 (mmio s (gpio_reg 8 DIR)))] s"
  let ?o = "mmio s (gpio_reg 8 DATAOUT)"
  have l: "link esam_port v0 ?t [] fs" "bit ?o 4" "mmio ?t (gpio_reg 8 DATAOUT) = ?o"
    using assms link_other[of esam_port v0 s "[]" fs "gpio_reg 8 DIR"] by (simp_all add: esam_ready_def)
  have "receive esam_port (put_bit False 4 ?o) (?o, [], fs) = (put_bit False 4 ?o, [], fs)"
    using receive_select[of esam_port ?o "[]" fs] l(2) by simp
  with link_put[OF l(1), of "put_bit False 4 ?o"] assms show ?thesis
    by (simp add: cspin_exec esam_sel_def esam_ready_def bit_simps esam_dirs_def esam_rest_def)
qed

lemma esam_deselect:
  assumes "esam_sel v0 fs q s cur"
  shows "esam_ready v0 (fs @ [cur]) (exec (es_cspin 1) s)"
proof -
  let ?t = "put_all [(gpio_reg 8 DIR, put_bit True 4 (mmio s (gpio_reg 8 DIR)))] s"
  let ?o = "mmio s (gpio_reg 8 DATAOUT)"
  have l: "link esam_port v0 ?t cur fs" "\<not> bit ?o 4" "mmio ?t (gpio_reg 8 DATAOUT) = ?o"
    using assms link_other[of esam_port v0 s cur fs "gpio_reg 8 DIR"] by (simp_all add: esam_sel_def)
  have "receive esam_port (put_bit True 4 ?o) (?o, cur, fs) = (put_bit True 4 ?o, [], fs @ [cur])"
    using receive_deselect[of esam_port ?o cur fs] l(2) by simp
  with link_put[OF l(1), of "put_bit True 4 ?o"] assms show ?thesis
    by (simp add: cspin_exec esam_sel_def esam_ready_def bit_simps esam_dirs_def)
qed

lemma esam_ready_cs1:
  assumes "esam_ready v0 fs s"
  shows "esam_ready v0 fs (exec (es_cspin 1) s)"
proof -
  let ?t = "put_all [(gpio_reg 8 DIR, put_bit True 4 (mmio s (gpio_reg 8 DIR)))] s"
  let ?o = "mmio s (gpio_reg 8 DATAOUT)"
  have l: "link esam_port v0 ?t [] fs" "bit ?o 4" "mmio ?t (gpio_reg 8 DATAOUT) = ?o"
    using assms link_other[of esam_port v0 s "[]" fs "gpio_reg 8 DIR"] by (simp_all add: esam_ready_def)
  have "receive esam_port (put_bit True 4 ?o) (?o, [], fs) = (put_bit True 4 ?o, [], fs)"
    using receive_same_cs[of esam_port ?o True "[]" fs] l(2) by simp
  with link_put[OF l(1), of "put_bit True 4 ?o"] assms show ?thesis
    by (simp add: cspin_exec esam_ready_def bit_simps esam_dirs_def)
qed

section \<open>Commands\<close>

lemma esam_raw_frame [simp]:
  fixes s :: "'a esam_state_scheme"
  shows "tx_buf (exec (raw_writel v a) s) = tx_buf s" "tx_buf (exec (raw_readl a) s) = tx_buf s"
    "rx_buf (exec (raw_writel v a) s) = rx_buf s" "rx_buf (exec (raw_readl a) s) = rx_buf s"
    "esam_rest (exec (raw_writel v a) s) = esam_rest s" "esam_rest (exec (raw_readl a) s) = esam_rest s"
    "kern (exec (raw_writel v a) s) = kern s" "kern (exec (raw_readl a) s) = kern s"
    "esam_class (exec (raw_writel v a) s) = esam_class s" "esam_class (exec (raw_readl a) s) = esam_class s"
  by (simp_all add: raw_writel_def raw_readl_def esam_rest_def)

lemma esam_gpio_frame [simp]:
  fixes s :: "'a esam_state_scheme"
  shows "tx_buf (exec (nuc970_gpio_core_set1 g i) s) = tx_buf s"
    "rx_buf (exec (nuc970_gpio_core_set1 g i) s) = rx_buf s"
    "esam_rest (exec (nuc970_gpio_core_set1 g i) s) = esam_rest s"
    "kern (exec (nuc970_gpio_core_set1 g i) s) = kern s"
    "esam_class (exec (nuc970_gpio_core_set1 g i) s) = esam_class s"
  by (simp_all add: nuc970_gpio_core_set1_def split: prod.splits)

lemma esam_gpio_frame2 [simp]:
  fixes s :: "'a esam_state_scheme"
  shows "tx_buf (exec (nuc970_gpio_core_direction_out1 g i) s) = tx_buf s"
    "rx_buf (exec (nuc970_gpio_core_direction_out1 g i) s) = rx_buf s"
    "esam_rest (exec (nuc970_gpio_core_direction_out1 g i) s) = esam_rest s"
    "kern (exec (nuc970_gpio_core_direction_out1 g i) s) = kern s"
    "esam_class (exec (nuc970_gpio_core_direction_out1 g i) s) = esam_class s"
    "kern (exec (nuc970_gpio_core_direction_in1 g) s) = kern s"
  by (simp_all add: nuc970_gpio_core_direction_out1_def nuc970_gpio_core_direction_in1_def split: prod.splits)

lemma cspin_frame [simp]:
  fixes s :: "'a esam_state_scheme"
  shows "tx_buf (exec (es_cspin v) s) = tx_buf s" "rx_buf (exec (es_cspin v) s) = rx_buf s"
    "esam_rest (exec (es_cspin v) s) = esam_rest s"
  by (simp_all add: es_cspin_def)

lemma cspin_frame_hw [simp]:
  "fault (exec (es_cspin v) s) = fault s" "esam_in (exec (es_cspin v) s) = esam_in s"
  by (simp_all add: cspin_exec esam_in_def fun_eq_iff del: put_all.simps)

lemma esam_set1_hw:
  assumes "esam_ready v0 fs s"
  shows "fault (exec (nuc970_gpio_core_set1 262 i) s) = fault s" "esam_in (exec (nuc970_gpio_core_set1 262 i) s) = esam_in s"
    "fault (exec (nuc970_gpio_core_set1 259 i) s) = fault s"
    "esam_idle (exec (nuc970_gpio_core_set1 262 i) s) = (i \<noteq> 0)"
proof -
  have "is_output s 262" "is_output s 259"
    using assms by (simp_all add: esam_ready_def esam_dirs_def is_output_def esam_pins)
  then show "fault (exec (nuc970_gpio_core_set1 262 i) s) = fault s"
    "esam_in (exec (nuc970_gpio_core_set1 262 i) s) = esam_in s"
    "fault (exec (nuc970_gpio_core_set1 259 i) s) = fault s"
    "esam_idle (exec (nuc970_gpio_core_set1 262 i) s) = (i \<noteq> 0)"
    by (simp_all add: set1_output esam_pins esam_in_def esam_idle_def bit_simps fun_eq_iff)
qed

lemma lrc_loop_cong: "(\<forall>j<n. d (i + j) = e (i + j)) \<Longrightarrow> lrc_loop d i n a = lrc_loop e i n a"
proof (induction n arbitrary: i a)
  case (Suc n)
  have "\<forall>j<n. d (Suc i + j) = e (Suc i + j)" using Suc.prems by (metis Suc_less_eq add_Suc_shift)
  moreover have "d i = e i" using Suc.prems by (metis add.right_neutral zero_less_Suc)
  ultimately show ?case using Suc.IH[of "Suc i"] by simp
qed simp

lemma cal_lrc_cong: "(\<And>i. i < n \<Longrightarrow> d i = e i) \<Longrightarrow> cal_lrc d n = cal_lrc e n"
  using lrc_loop_cong[of "n - 1" d 1 e] by (auto simp: cal_lrc_def)

lemma cal_lrc_alt: "0 < n \<Longrightarrow> cal_lrc d n = NOT (lrc_loop d 0 n 0)"
  by (cases n) (auto simp: cal_lrc_def)

lemma lrc_loop_fold: "lrc_loop d i n x = fold (XOR) (map d [i..<i + n]) x"
  by (induction d i n x rule: lrc_loop.induct) (simp_all add: upt_rec xor.commute)

text \<open>The check byte is the complement of the exclusive or of the bytes.\<close>

lemma cal_lrc_fold: "cal_lrc d n = (if n = 0 then 0 else NOT (fold (XOR) (map d [0..<n]) 0))"
  using cal_lrc_alt[of n d] lrc_loop_fold[of d 0 n 0] by (simp add: cal_lrc_def)

text \<open>The frame of a command.\<close>

definition esam_frame :: "(nat \<Rightarrow> u8) \<Rightarrow> nat \<Rightarrow> u8 list" where
  "esam_frame d n = 0x55 # map d [0..<n] @ [cal_lrc d n]"

text \<open>The buffer just before the bytes go out.\<close>

definition esam_loaded :: "u32 \<Rightarrow> 'a esam_state_scheme \<Rightarrow> 'a esam_state_scheme" where
  "esam_loaded len s = (let s = exec (tx_copy 1 (unat len)) (tx_put 0 0x55 s)
     in tx_put (unat (1 + len)) (cal_lrc (\<lambda>i. tx_buf s (1 + i)) (unat len)) s)"

lemma upt_frame: "[0..<Suc (Suc n)] = 0 # map Suc [0..<n] @ [Suc n]"
proof -
  have "[0..<Suc n] = 0 # map Suc [0..<n]"
    unfolding upt_conv_Cons[OF zero_less_Suc] map_Suc_upt ..
  then show ?thesis unfolding upt_Suc[of 0 "Suc n"] by simp
qed

lemma esam_loaded_law:
  assumes "esam_ready v0 fs s" "unat len + 2 \<le> ESAM_BUF_SIZE"
  shows "esam_ready v0 fs (esam_loaded len s)" "fault (esam_loaded len s) = fault s"
    "esam_rest (esam_loaded len s) = esam_rest s" "esam_in (esam_loaded len s) = esam_in s"
    "map (tx_buf (esam_loaded len s)) [0..<0 + unat (len + 2)] = esam_frame (user s) (unat len)"
proof -
  have u: "unat (1 + len) = unat len + 1" "unat (len + 2) = unat len + 2"
    using assms(2) by (simp_all add: ESAM_BUF_SIZE_def unat_word_ariths)
  show "esam_ready v0 fs (esam_loaded len s)" "fault (esam_loaded len s) = fault s"
    "esam_rest (esam_loaded len s) = esam_rest s" "esam_in (esam_loaded len s) = esam_in s"
    using assms by (simp_all add: esam_loaded_def tx_copy_def tx_put_def Let_def u esam_ready_def esam_dirs_def
        link_def esam_rest_def esam_in_def fun_eq_iff ESAM_BUF_SIZE_def)
  define t where "t = exec (tx_copy 1 (unat len)) (tx_put 0 0x55 s)"
  have c: "cal_lrc (\<lambda>i. tx_buf t (1 + i)) (unat len) = cal_lrc (user s) (unat len)"
    by (rule cal_lrc_cong) (simp add: t_def tx_copy_def tx_put_def)
  have b: "tx_buf (esam_loaded len s) = (tx_buf t)(unat len + 1 := cal_lrc (user s) (unat len))"
    unfolding esam_loaded_def t_def[symmetric] Let_def c u by (simp add: tx_put_def)
  have "[0..<0 + unat (len + 2)] = 0 # map Suc [0..<unat len] @ [Suc (unat len)]"
    unfolding u add_2_eq_Suc' add_0 upt_frame ..
  then show "map (tx_buf (esam_loaded len s)) [0..<0 + unat (len + 2)] = esam_frame (user s) (unat len)"
    by (simp add: b esam_frame_def t_def tx_copy_def tx_put_def)
qed

lemma esam_spi_write_law:
  fixes len :: u32
  assumes "esam_ready v0 fs s" "esam_spi s" "unat len + 2 < 2 ^ 32"
  shows "let s' = exec (esam_spi_write len reslt) s; fits = (reslt \<and> unat len + 2 \<le> ESAM_BUF_SIZE)
     in result_of (esam_spi_write len reslt) s = (if fits then Inr () else Inl EINVAL)
      \<and> esam_ready v0 (fs @ (if fits then [stream (esam_frame (user s) (unat len))] else [])) s'
      \<and> CMD_SENT s' = (if fits then 1 else CMD_SENT s) \<and> fault s' = fault s"
proof -
  have u: "unat (len + 2) = unat len + 2" using assms(3) by (simp add: unat_word_ariths)
  define s1 where "s1 = exec (nuc970_gpio_core_set1 262 0) s"
  define s2 where "s2 = exec (nuc970_gpio_core_set1 259 0) s1"
  define s3 where "s3 = exec (es_cspin 1) (exec ESAM_CLK_H s2)"
  have r: "esam_ready v0 fs s1" "esam_ready v0 fs s2" "esam_ready v0 fs s3"
    using assms(1) by (simp_all add: s1_def s2_def s3_def esam_ready_lines esam_ready_cs1)
  have f: "fault s3 = fault s" "esam_rest s3 = esam_rest s"
    using esam_set1_hw[OF assms(1)] esam_set1_hw[OF r(1)]
    by (simp_all add: s1_def s2_def s3_def esam_line_exec del: put_all.simps)
  have q: "esam_spi s3" "CMD_SENT s3 = CMD_SENT s" "user s3 = user s" using f(2) assms(2) by (simp_all add: esam_rest_def)
  show ?thesis
  proof (cases "reslt \<and> unat len + 2 \<le> ESAM_BUF_SIZE")
    case False
    then show ?thesis using r(3) f q
      by (auto simp: esam_spi_write_def u simp flip: s1_def s2_def s3_def)
  next
    case True
    define s4 where "s4 = esam_loaded len s3"
    note l = esam_loaded_law[OF r(3) conjunct2[OF True], folded s4_def]
    define s5 where "s5 = exec (esam_send_bytes 0 (unat (len + 2))) (exec (es_cspin 0) s4)"
    have nf: "\<not> ESAM_BUF_SIZE < 0 + unat (len + 2)" using u True by simp
    have s5: "esam_sel v0 fs (esam_rest s) s5 (stream (esam_frame (user s) (unat len)))" "fault s5 = fault s"
      using esam_send_bytes_law[OF esam_select[OF l(1)], of 0 "unat (len + 2)", unfolded cspin_frame l(5)]
        nf l(2,3) f q(3) by (simp_all add: s5_def)
    have "exec (esam_spi_write len reslt) s = (exec (es_cspin 1) s5)\<lparr>CMD_SENT := 1\<rparr>"
      "result_of (esam_spi_write len reslt) s = Inr ()"
      using q(1) True unfolding s5_def s4_def esam_loaded_def
      by (simp_all add: esam_spi_write_def u Let_def flip: s1_def s2_def s3_def)
    then show ?thesis using esam_deselect[OF s5(1)] s5(2) True
      by (simp add: esam_ready_def link_def esam_dirs_def)
  qed
qed

text \<open>C22. Sending a command.  From an idle bus, \<open>esam_write\<close> on an open device sends exactly one frame: the start
  byte 0x55, the caller's bytes and their check byte, the complement of their exclusive or (0 for no bytes); it
  returns the count and remembers that a command is out.  Without a buffer, or when the frame does not fit the 2048
  bytes of the transmit buffer, it returns \<open>-EIO\<close>, and on a device that is not open \<open>-EFAULT\<close>; the module sees nothing
  then.  The count is one for which \<open>count + 2\<close> does not wrap at 32 bits.\<close>

theorem esam_write_spec:
  fixes count :: u32
  assumes "esam_ready v0 fs s" "esam_spi s" "unat count + 2 < 2 ^ 32"
  shows "let m = esam_write dev count buf; s' = exec m s; d = map (user s) [0..<unat count];
       fits = (buf \<and> unat count + 2 \<le> ESAM_BUF_SIZE); check = (if d = [] then 0 else NOT (fold (XOR) d 0))
     in if \<not> dev \<or> \<not> is_open s then result_of m s = Inl EFAULT \<and> s' = s
      else result_of m s = (if fits then Inr (unat count) else Inl EIO)
        \<and> esam_ready v0 (fs @ (if fits then [stream (0x55 # d @ [check])] else [])) s'
        \<and> CMD_SENT s' = (if fits then 1 else CMD_SENT s) \<and> fault s' = fault s"
  using esam_spi_write_law[OF assms, of buf]
  by (auto simp: Let_def esam_write_def esam_frame_def cal_lrc_fold split: if_splits)

section \<open>Replies\<close>

lemma esam_rx_eq: "esam_in s' = esam_in s \<Longrightarrow> esam_rx s' = esam_rx s"
  by (simp add: esam_rx_def fun_eq_iff)

text \<open>Polling for the start byte: found at poll \<open>k\<close>, or not within the polls allowed.\<close>

lemma waitread_step:
  assumes "esam_sel v0 fs q s cur"
  defines "t \<equiv> rx_put 0 (esam_rx s 0) (exec ESAM_ReceiveByte s)"
  shows "esam_sel v0 fs q t (cur @ replicate 8 (esam_idle s))" "esam_idle t = esam_idle s"
    "esam_rx t = (\<lambda>j. esam_rx s (Suc j))" "fault t = fault s"
    "exec (esam_waitread (Suc n)) s = (if esam_rx s 0 \<noteq> 0x55 then exec (esam_waitread n) t else t)"
    "result_of (esam_waitread (Suc n)) s = (if esam_rx s 0 \<noteq> 0x55 then result_of (esam_waitread n) t else True)"
  using esam_recv_law[OF assms(1)] rx_put_law(1)[OF esam_recv_law(3)[OF assms(1)], of 0 "esam_rx s 0"]
  by (simp_all add: t_def rx_put_law ESAM_BUF_SIZE_def)

lemma waitread_found:
  "esam_sel v0 fs q s cur \<Longrightarrow> k < n \<Longrightarrow> \<forall>j<k. esam_rx s j \<noteq> 0x55 \<Longrightarrow> esam_rx s k = 0x55 \<Longrightarrow>
     result_of (esam_waitread n) s
   \<and> esam_sel v0 fs q (exec (esam_waitread n) s) (cur @ replicate (8 * Suc k) (esam_idle s))
   \<and> esam_idle (exec (esam_waitread n) s) = esam_idle s
   \<and> esam_rx (exec (esam_waitread n) s) = (\<lambda>j. esam_rx s (Suc k + j))
   \<and> fault (exec (esam_waitread n) s) = fault s"
proof (induction k arbitrary: s cur n)
  case 0
  then obtain m where "n = Suc m" by (cases n) auto
  then show ?case using 0 waitread_step[OF 0(1)] by simp
next
  case (Suc k)
  then obtain m where n: "n = Suc m" "k < m" by (cases n) auto
  note w = waitread_step[OF Suc.prems(1)]
  have "esam_rx s 0 \<noteq> 0x55" "\<forall>j<k. esam_rx s (Suc j) \<noteq> 0x55" using Suc.prems(3) by auto
  then show ?case using Suc.IH[OF w(1) n(2)] Suc.prems(4) w(2-6)
    by (simp add: n(1) replicate_add[symmetric] del: esam_waitread.simps)
qed

lemma waitread_timeout:
  "esam_sel v0 fs q s cur \<Longrightarrow> \<forall>j<n. esam_rx s j \<noteq> 0x55 \<Longrightarrow>
     \<not> result_of (esam_waitread n) s
   \<and> esam_sel v0 fs q (exec (esam_waitread n) s) (cur @ replicate (8 * n) (esam_idle s))
   \<and> fault (exec (esam_waitread n) s) = fault s"
proof (induction n arbitrary: s cur)
  case (Suc n)
  note w = waitread_step[OF Suc.prems(1)]
  have "esam_rx s 0 \<noteq> 0x55" "\<forall>j<n. esam_rx s (Suc j) \<noteq> 0x55" using Suc.prems(2) by auto
  then show ?case using Suc.IH[OF w(1)] w(2-6)
    by (simp add: replicate_add[symmetric] del: esam_waitread.simps)
qed simp

lemma recv_bytes_fill:
  "exec (esam_recv_bytes i n) s = exec (fill ESAM_ReceiveByte rx_put [i..<i + n] a) s"
proof (induction n arbitrary: i s a)
  case (Suc n)
  have up: "[i..<i + Suc n] = i # [Suc i..<Suc i + n]" by (simp add: upt_conv_Cons del: upt_Suc)
  show ?case unfolding up using Suc.IH[of "Suc i"] by simp
qed simp

lemma recv_bytes_law:
  assumes "esam_sel v0 fs q s cur"
  shows "esam_sel v0 fs q (exec (esam_recv_bytes i n) s) (cur @ replicate (8 * n) (esam_idle s))"
    "esam_idle (exec (esam_recv_bytes i n) s) = esam_idle s"
    "esam_rx (exec (esam_recv_bytes i n) s) = (\<lambda>k. esam_rx s (n + k))"
    "rx_buf (exec (esam_recv_bytes i n) s) =
       (\<lambda>j. if i \<le> j \<and> j < i + n then esam_rx s (j - i) else rx_buf s j)"
  using esam.fill_line[OF assms, of "[i..<i + n]" 0] esam.fill_buf[OF assms, of "[i..<i + n]" 0]
  unfolding recv_bytes_fill[where a = 0] put_list_up by simp_all

lemma recv_bytes_fault:
  "esam_sel v0 fs q s cur \<Longrightarrow>
     fault (exec (esam_recv_bytes i n) s) = (fault s \<or> 0 < n \<and> ESAM_BUF_SIZE < i + n)"
proof (induction n arbitrary: i s cur)
  case (Suc n)
  note l = esam_recv_law[OF Suc.prems]
  show ?case using Suc.IH[OF rx_put_law(1)[OF l(3)], of "Suc i"] l(6) by (auto simp: rx_put_law)
qed simp

lemma rx_copy_law:
  "esam_sel v0 fs (u, q) s cur \<Longrightarrow> esam_sel v0 fs (\<lambda>i. if off \<le> i \<and> i < off + n then rx_buf s i else u i, q) (exec (rx_copy off n) s) cur"
  "esam_rx (exec (rx_copy off n) s) = esam_rx s" "esam_idle (exec (rx_copy off n) s) = esam_idle s"
  "rx_buf (exec (rx_copy off n) s) = rx_buf s"
  "fault (exec (rx_copy off n) s) = (fault s \<or> ESAM_BUF_SIZE < off + n)"
  by (auto simp: rx_copy_def esam_sel_def link_def esam_dirs_def esam_rest_def esam_rx_def esam_in_def
      esam_idle_def fun_eq_iff)

definition reply_len :: "(nat \<Rightarrow> u8) \<Rightarrow> nat" where
  "reply_len p = unat (p 2) * 256 + unat (p 3)"

lemma esam_body_short:
  assumes "esam_sel v0 fs (u, c, q) s cur" "unat maxlen < reply_len (esam_rx s) + 4"
  shows "result_of (esam_body maxlen) s = Inl EINVAL"
    "esam_ready v0 (fs @ [cur @ replicate 32 (esam_idle s)]) (exec (esam_body maxlen) s)"
    "esam_rest (exec (esam_body maxlen) s) = (\<lambda>i. if i < 4 then esam_rx s i else u i, c, q)"
    "fault (exec (esam_body maxlen) s) = fault s"
proof -
  define s1 where "s1 = exec (esam_recv_bytes 0 4) s"
  define s2 where "s2 = exec (rx_copy 0 4) s1"
  note l = recv_bytes_law[OF assms(1), of 0 4, folded s1_def]
  have s2: "esam_sel v0 fs (\<lambda>i. if i < 4 then esam_rx s i else u i, c, q) s2 (cur @ replicate 32 (esam_idle s))"
    using rx_copy_law(1)[OF l(1), of 0 4] by (simp add: s2_def l(4) cong: if_cong)
  have "fault s2 = fault s"
    using recv_bytes_fault[OF assms(1), of 0 4] by (simp add: s2_def s1_def rx_copy_law ESAM_BUF_SIZE_def)
  moreover have "rx_buf s2 2 = esam_rx s 2" "rx_buf s2 3 = esam_rx s 3" by (simp_all add: s2_def rx_copy_law l(4))
  ultimately show "result_of (esam_body maxlen) s = Inl EINVAL"
    "esam_ready v0 (fs @ [cur @ replicate 32 (esam_idle s)]) (exec (esam_body maxlen) s)"
    "esam_rest (exec (esam_body maxlen) s) = (\<lambda>i. if i < 4 then esam_rx s i else u i, c, q)"
    "fault (exec (esam_body maxlen) s) = fault s"
    using esam_deselect[OF s2] s2 assms(2)
    by (simp_all add: esam_body_def reply_len_def esam_sel_def flip: s1_def s2_def)
qed

lemma esam_body_full:
  assumes "esam_sel v0 fs (u, c, q) s cur" "reply_len (esam_rx s) + 4 \<le> unat maxlen"
  defines "n \<equiv> reply_len (esam_rx s) + 4"
  shows "result_of (esam_body maxlen) s =
      (if esam_rx s n = cal_lrc (esam_rx s) n then Inr () else Inl EIO)"
    "esam_ready v0 (fs @ [cur @ replicate (8 * (n + 1)) (esam_idle s)]) (exec (esam_body maxlen) s)"
    "esam_rest (exec (esam_body maxlen) s) = (\<lambda>i. if i < n then esam_rx s i else u i, 0, q)"
    "fault (exec (esam_body maxlen) s) = (fault s \<or> ESAM_BUF_SIZE \<le> n)"
proof -
  let ?rx = "esam_rx s" and ?m = "n - 4"
  have n: "?m = reply_len ?rx" "4 \<le> n" by (simp_all add: n_def)
  define s1 where "s1 = exec (esam_recv_bytes 0 4) s"
  define s2 where "s2 = exec (rx_copy 0 4) s1"
  define s3 where "s3 = exec (esam_recv_bytes 4 ?m) s2"
  define s4 where "s4 = exec (rx_copy 4 ?m) s3"
  define s5 where "s5 = rx_put n (?rx n) (exec ESAM_ReceiveByte s4)"
  note l = recv_bytes_law[OF assms(1), of 0 4, folded s1_def]
  note c2 = rx_copy_law[where s = s1 and off = 0 and n = 4, folded s2_def]
  have s2: "esam_sel v0 fs (\<lambda>i. if i < 4 then ?rx i else u i, c, q) s2 (cur @ replicate 32 (esam_idle s))"
    using rx_copy_law(1)[OF l(1), of 0 4] by (simp add: s2_def l(4) cong: if_cong)
  note k = recv_bytes_law[OF s2, of 4 ?m, folded s3_def]
  have b3: "rx_buf s3 = (\<lambda>j. if j < n then ?rx j else rx_buf s j)"
    using n(2) by (auto simp: k(4) c2 l(3,4) fun_eq_iff)
  note c4 = rx_copy_law[where s = s3 and off = 4 and n = ?m, folded s4_def]
  have s4: "esam_sel v0 fs (\<lambda>i. if i < n then ?rx i else u i, c, q) s4 (cur @ replicate (8 * n) (esam_idle s))"
    "esam_idle s4 = esam_idle s" "esam_rx s4 0 = ?rx n"
  proof -
    have "(\<lambda>i. if 4 \<le> i \<and> i < 4 + ?m then rx_buf s3 i else if i < 4 then ?rx i else u i)
        = (\<lambda>i. if i < n then ?rx i else u i)"
      using n(2) by (auto simp: b3 fun_eq_iff)
    moreover have "replicate 32 x @ replicate (8 * ?m) x = replicate (8 * n) x" for x :: bool
      using n(2) by (simp add: replicate_add[symmetric])
    ultimately show "esam_sel v0 fs (\<lambda>i. if i < n then ?rx i else u i, c, q) s4 (cur @ replicate (8 * n) (esam_idle s))"
      using rx_copy_law(1)[OF k(1), of 4 ?m] by (simp add: c2 l(2) flip: s4_def)
    show "esam_idle s4 = esam_idle s" "esam_rx s4 0 = ?rx n"
      using n(2) by (simp_all add: c4 k(2,3) c2 l(2,3))
  qed
  note r = esam_recv_law[OF s4(1)]
  have "replicate (8 * n) x @ replicate 8 x = replicate (8 * (n + 1)) x" for x :: bool
    by (simp add: replicate_add[symmetric])
  then have s5: "esam_sel v0 fs (\<lambda>i. if i < n then ?rx i else u i, c, q) s5 (cur @ replicate (8 * (n + 1)) (esam_idle s))"
    using rx_put_law(1)[OF r(3), of n "?rx n"] s4(2) by (simp add: s5_def)
  have b5: "rx_buf s5 n = ?rx n" "cal_lrc (rx_buf s5) n = cal_lrc ?rx n"
    by (simp add: s5_def rx_put_law) (rule cal_lrc_cong, simp add: s5_def rx_put_law r(5) c4 b3)
  have f5: "fault s5 = (fault s \<or> ESAM_BUF_SIZE \<le> n)"
    using recv_bytes_fault[OF assms(1), of 0 4] recv_bytes_fault[OF s2, of 4 ?m] n(2)
    by (auto simp: s5_def rx_put_law r(6) c4 c2 s3_def s1_def ESAM_BUF_SIZE_def)
  have len: "unat (rx_buf s2 2) * 256 + unat (rx_buf s2 3) = ?m"
    by (simp add: n(1) reply_len_def c2 l(4))
  have run: "exec (esam_body maxlen) s = (exec (es_cspin 1) s5)\<lparr>CMD_SENT := 0\<rparr>"
    "result_of (esam_body maxlen) s = (if rx_buf s5 n = cal_lrc (rx_buf s5) n then Inr () else Inl EIO)"
    using assms(2) n(2) r(1) s4(3) unfolding n(1)[symmetric] s5_def
    by (simp_all add: esam_body_def len flip: s1_def s2_def s3_def s4_def)
  show "result_of (esam_body maxlen) s = (if ?rx n = cal_lrc ?rx n then Inr () else Inl EIO)"
    by (simp add: run b5)
  have "esam_rest (exec (es_cspin 1) s5) = (\<lambda>i. if i < n then ?rx i else u i, c, q)"
    using s5 by (simp add: esam_sel_def)
  then show "esam_ready v0 (fs @ [cur @ replicate (8 * (n + 1)) (esam_idle s)]) (exec (esam_body maxlen) s)"
    "esam_rest (exec (esam_body maxlen) s) = (\<lambda>i. if i < n then ?rx i else u i, 0, q)"
    "fault (exec (esam_body maxlen) s) = (fault s \<or> ESAM_BUF_SIZE \<le> n)"
    using esam_deselect[OF s5] f5
    by (simp_all add: run esam_ready_def link_def esam_dirs_def esam_rest_def)
qed

lemma esam_poll_start:
  assumes "esam_ready v0 fs s"
  defines "t \<equiv> exec (es_cspin 0) (exec (nuc970_gpio_core_set1 262 1) s)"
  shows "esam_sel v0 fs (esam_rest s) t []" "esam_rx t = esam_rx s" "esam_idle t" "fault t = fault s"
proof -
  note r = esam_ready_lines(2)[OF assms(1), of 1] and h = esam_set1_hw[OF assms(1), of 1]
  show "esam_sel v0 fs (esam_rest s) t []" using esam_select[OF r] by (simp add: t_def)
  have "esam_in t = esam_in s" by (simp add: t_def h)
  then show "esam_rx t = esam_rx s" by (rule esam_rx_eq)
  show "fault t = fault s" by (simp add: t_def h)
  show "esam_idle t" using h(4) by (simp add: t_def esam_idle_def cspin_exec bit_simps)
qed

lemma esam_spi_read_law:
  fixes maxlen :: u32
  assumes "esam_ready v0 fs s" "esam_spi s" "CMD_SENT s \<noteq> 0" "k < ESAM_POLLS"
    "\<forall>j<k. esam_rx s j \<noteq> 0x55" "esam_rx s k = 0x55"
  defines "p \<equiv> \<lambda>i. esam_rx s (Suc k + i)"
  defines "n \<equiv> reply_len p + 4"
  defines "s' \<equiv> exec (esam_spi_read maxlen True) s"
  shows "result_of (esam_spi_read maxlen True) s =
       (if n \<le> unat maxlen then if p n = cal_lrc p n then Inr () else Inl EIO else Inl EINVAL)"
    "user s' = (\<lambda>i. if i < (if n \<le> unat maxlen then n else 4) then p i else user s i)"
    "CMD_SENT s' = (if n \<le> unat maxlen then 0 else CMD_SENT s)"
    "fault s' = (fault s \<or> n \<le> unat maxlen \<and> ESAM_BUF_SIZE \<le> n)"
    "esam_ready v0 (fs @ [replicate (8 * (k + (if n \<le> unat maxlen then n + 2 else 5))) True]) s'"
proof -
  define t where "t = exec (es_cspin 0) (exec (nuc970_gpio_core_set1 262 1) s)"
  define w where "w = exec (esam_waitread ESAM_POLLS) t"
  note a = esam_poll_start[OF assms(1), folded t_def]
  have f: "result_of (esam_waitread ESAM_POLLS) t" "esam_sel v0 fs (esam_rest s) w (replicate (8 * Suc k) True)"
    "esam_idle w" "esam_rx w = p" "fault w = fault s"
    using waitread_found[OF a(1) assms(4)] a assms(5,6) by (simp_all add: w_def p_def)
  have q: "esam_rest s = (user s, CMD_SENT s, esam_spi s, is_open s)" by (simp add: esam_rest_def)
  note sel = f(2)[unfolded q]
  have run: "s' = exec (esam_body maxlen) w" "result_of (esam_spi_read maxlen True) s = result_of (esam_body maxlen) w"
  proof -
    have "esam_rest (exec (nuc970_gpio_core_set1 262 1) s) = esam_rest s" by simp
    then have "esam_spi (exec (nuc970_gpio_core_set1 262 1) s)" "CMD_SENT (exec (nuc970_gpio_core_set1 262 1) s) \<noteq> 0"
      using assms(2,3) unfolding esam_rest_def by auto
    then show "s' = exec (esam_body maxlen) w" "result_of (esam_spi_read maxlen True) s = result_of (esam_body maxlen) w"
      using f(1) by (simp_all add: s'_def esam_spi_read_def flip: t_def w_def)
  qed
  have rep: "replicate (8 * Suc k) True @ replicate m True = replicate (8 * Suc k + m) True" for m
    by (simp only: replicate_add)
  have "result_of (esam_spi_read maxlen True) s =
       (if n \<le> unat maxlen then if p n = cal_lrc p n then Inr () else Inl EIO else Inl EINVAL)
    \<and> user s' = (\<lambda>i. if i < (if n \<le> unat maxlen then n else 4) then p i else user s i)
    \<and> CMD_SENT s' = (if n \<le> unat maxlen then 0 else CMD_SENT s)
    \<and> fault s' = (fault s \<or> n \<le> unat maxlen \<and> ESAM_BUF_SIZE \<le> n)
    \<and> esam_ready v0 (fs @ [replicate (8 * (k + (if n \<le> unat maxlen then n + 2 else 5))) True]) s'"
  proof (cases "n \<le> unat maxlen")
    case True
    note b = esam_body_full[OF sel, of maxlen, unfolded f(4) n_def[symmetric], OF True]
    have "8 * Suc k + 8 * (n + 1) = 8 * (k + (n + 2))" by simp
    then have "esam_ready v0 (fs @ [replicate (8 * (k + (n + 2))) True]) (exec (esam_body maxlen) w)"
      using b(2) by (simp only: f(3) rep)
    then show ?thesis using b(1,3,4) True f(5) unfolding run esam_rest_def by simp
  next
    case False
    then have "unat maxlen < n" by simp
    note b = esam_body_short[OF sel, of maxlen, unfolded f(4) n_def[symmetric], OF this]
    have "8 * Suc k + 32 = 8 * (k + 5)" by simp
    then have "esam_ready v0 (fs @ [replicate (8 * (k + 5)) True]) (exec (esam_body maxlen) w)"
      using b(2) by (simp only: f(3) rep)
    then show ?thesis using b(1,3,4) False f(5) unfolding run esam_rest_def by simp
  qed
  then show "result_of (esam_spi_read maxlen True) s =
       (if n \<le> unat maxlen then if p n = cal_lrc p n then Inr () else Inl EIO else Inl EINVAL)"
    "user s' = (\<lambda>i. if i < (if n \<le> unat maxlen then n else 4) then p i else user s i)"
    "CMD_SENT s' = (if n \<le> unat maxlen then 0 else CMD_SENT s)"
    "fault s' = (fault s \<or> n \<le> unat maxlen \<and> ESAM_BUF_SIZE \<le> n)"
    "esam_ready v0 (fs @ [replicate (8 * (k + (if n \<le> unat maxlen then n + 2 else 5))) True]) s'"
    by blast+
qed

text \<open>C10. A reply.  Once a command is out and the module answers within the polls allowed, \<open>esam_read\<close>
  copies header, data and nothing else to the caller and reports their number exactly when they
  fit the caller's buffer and the check byte is right.  The bus is idle again.  The driver's own
  buffer is overrun exactly when the announced length, though acceptable to the caller, does not
  fit it.\<close>

theorem esam_read_reply:
  assumes "esam_ready v0 fs s" "esam_spi s" "is_open s" "CMD_SENT s \<noteq> 0" "k < ESAM_POLLS"
    "\<forall>j<k. esam_rx s j \<noteq> 0x55" "esam_rx s k = 0x55"
  shows "let p = (\<lambda>i. esam_rx s (Suc k + i)); n = reply_len p + 4; fits = (n \<le> unat maxlen);
       s' = exec (esam_read True maxlen True) s
     in result_of (esam_read True maxlen True) s = (if fits \<and> p n = cal_lrc p n then Inr n else Inl EIO)
      \<and> user s' = (\<lambda>i. if i < (if fits then n else 4) then p i else user s i)
      \<and> CMD_SENT s' = (if fits then 0 else CMD_SENT s)
      \<and> fault s' = (fault s \<or> fits \<and> ESAM_BUF_SIZE \<le> n)
      \<and> (\<exists>m. esam_ready v0 (fs @ [replicate m True]) s')"
proof -
  note l = esam_spi_read_law[OF assms(1,2,4,5,6,7), where maxlen = maxlen]
  have "exec (esam_read True maxlen True) s = exec (esam_spi_read maxlen True) s"
    "result_of (esam_read True maxlen True) s = (case result_of (esam_spi_read maxlen True) s of
       Inl _ \<Rightarrow> Inl EIO | Inr _ \<Rightarrow> Inr (reply_len (user (exec (esam_spi_read maxlen True) s)) + 4))"
    using assms(3) by (simp_all add: esam_read_def reply_len_def split: sum.split)
  then show ?thesis using l by (auto simp: Let_def reply_len_def)
qed

text \<open>An open device with a command out, and a module that first is busy, then sends a reply with two
  data bytes.\<close>

definition esam_demo :: esam_state where
  "esam_demo = \<lparr>mmio = (\<lambda>r. if r = gpio_reg 8 DATAOUT then 0x10 else if r = gpio_reg 8 DIR then 0x48 else 0),
     pins = (\<lambda>t r. if t < 72 \<and> stream [0xFF, 0x55, 0x90, 0x00, 0x00, 0x02, 0xAB, 0xCD, 0x0B] ! t then 0x20 else 0),
     now = 0, wlog = [], fault = False, kern = \<lparr>held = (\<lambda>_. False), bogus = []\<rparr>,
     tx_buf = (\<lambda>_. 0), rx_buf = (\<lambda>_. 0), user = (\<lambda>i. if i = 0 then 0x80 else 0x14), CMD_SENT = 1, esam_spi = True,
     esam_class = Ptr, is_open = True\<rparr>"

lemma esam_demo_ready: "esam_ready 0x10 [] esam_demo"
  using link_start[of esam_demo esam_port] by (simp add: esam_ready_def esam_dirs_def esam_demo_def)

theorem esam_write_spec_witness:
  "result_of (esam_write True 2 True) esam_demo = Inr 2
   \<and> esam_ready 0x10 [stream [0x55, 0x80, 0x14, NOT (0x80 XOR 0x14)]] (exec (esam_write True 2 True) esam_demo)
   \<and> result_of (esam_write True 2 False) esam_demo = Inl EIO"
  using esam_write_spec[OF esam_demo_ready, of 2 True True] esam_write_spec[OF esam_demo_ready, of 2 True False]
  by (simp add: esam_demo_def ESAM_BUF_SIZE_def upt_rec Let_def)

theorem esam_read_reply_witness:
  "result_of (esam_read True 64 True) esam_demo = Inr 6
   \<and> map (user (exec (esam_read True 64 True) esam_demo)) [0..<6] = [0x90, 0x00, 0x00, 0x02, 0xAB, 0xCD]"
proof -
  let ?p = "\<lambda>i. esam_rx esam_demo (Suc 1 + i)"
  have b: "esam_rx esam_demo 0 \<noteq> 0x55" "esam_rx esam_demo 1 = 0x55"
    "map ?p [0..<6] = [0x90, 0x00, 0x00, 0x02, 0xAB, 0xCD]" "reply_len ?p = 2" "?p 6 = cal_lrc ?p 6"
    by code_simp+
  have "1 < ESAM_POLLS" by (simp add: ESAM_POLLS_def)
  moreover have "esam_spi esam_demo" "is_open esam_demo" "CMD_SENT esam_demo \<noteq> 0" by (simp_all add: esam_demo_def)
  moreover have m: "map (\<lambda>i. if i < 6 then f i else g i) [0..<6] = map f [0..<6]" for f g :: "nat \<Rightarrow> u8"
    by (rule map_cong) auto
  ultimately show ?thesis
    using esam_read_reply[OF esam_demo_ready, of 1 64] b by (simp add: Let_def m)
qed

text \<open>C25. A silent module.  When none of the polls brings the start byte, \<open>esam_read\<close> fails after exactly
  \<open>ESAM_POLLS\<close> bytes, deselects the module and leaves the caller's buffer alone; the command still
  counts as sent.\<close>

theorem esam_read_timeout:
  assumes "esam_ready v0 fs s" "esam_spi s" "is_open s" "CMD_SENT s \<noteq> 0"
    "\<forall>j<ESAM_POLLS. esam_rx s j \<noteq> 0x55"
  shows "let s' = exec (esam_read True maxlen True) s
     in result_of (esam_read True maxlen True) s = Inl EIO \<and> user s' = user s \<and> CMD_SENT s' = CMD_SENT s
      \<and> esam_ready v0 (fs @ [replicate (8 * ESAM_POLLS) True]) s'"
proof -
  define t where "t = exec (es_cspin 0) (exec (nuc970_gpio_core_set1 262 1) s)"
  define w where "w = exec (esam_waitread ESAM_POLLS) t"
  note a = esam_poll_start[OF assms(1), folded t_def]
  have f: "\<not> result_of (esam_waitread ESAM_POLLS) t" "esam_sel v0 fs (esam_rest s) w (replicate (8 * ESAM_POLLS) True)"
    using waitread_timeout[OF a(1), of ESAM_POLLS] a assms(5) by (simp_all add: w_def)
  have "esam_rest (exec (nuc970_gpio_core_set1 262 1) s) = esam_rest s" by simp
  then have "esam_spi (exec (nuc970_gpio_core_set1 262 1) s)" "CMD_SENT (exec (nuc970_gpio_core_set1 262 1) s) \<noteq> 0"
    using assms(2,4) unfolding esam_rest_def by auto
  then have run: "exec (esam_read True maxlen True) s = exec (es_cspin 1) w"
    "result_of (esam_read True maxlen True) s = Inl EIO"
    using f(1) assms(3) by (simp_all add: esam_read_def esam_spi_read_def flip: t_def w_def)
  have "esam_rest (exec (es_cspin 1) w) = esam_rest s" using f(2) by (simp add: esam_sel_def)
  then show ?thesis using esam_deselect[OF f(2)] by (simp add: Let_def run esam_rest_def)
qed

theorem esam_read_timeout_witness:
  "let s = esam_demo\<lparr>pins := \<lambda>_ _. 0\<rparr>
   in result_of (esam_read True 64 True) s = Inl EIO \<and> CMD_SENT (exec (esam_read True 64 True) s) = 1"
proof -
  let ?s = "esam_demo\<lparr>pins := \<lambda>_ _. 0\<rparr>"
  have "esam_ready 0x10 [] ?s"
    using esam_demo_ready by (simp add: esam_ready_def link_def esam_dirs_def)
  moreover have "esam_rx ?s j \<noteq> 0x55" for j
  proof -
    have "esam_rx ?s j = byte_of_msb (replicate 8 False)"
      by (simp add: esam_rx_def esam_in_def esam_demo_def numeral_eq_Suc)
    also have "\<dots> \<noteq> 0x55" by code_simp
    finally show ?thesis .
  qed
  moreover have "esam_spi ?s" "is_open ?s" "CMD_SENT ?s \<noteq> 0" "CMD_SENT ?s = 1" by (simp_all add: esam_demo_def)
  ultimately show ?thesis using esam_read_timeout[of "0x10" "[]" ?s 64] by (simp add: Let_def)
qed

section \<open>The check byte\<close>

lemma lrc_loop_acc: "lrc_loop d i n (a XOR b) = lrc_loop d i n a XOR b"
proof (induction n arbitrary: i a)
  case (Suc n)
  have "(a XOR b) XOR d i = (a XOR d i) XOR b" by (simp only: xor.assoc xor.commute[of b])
  then show ?case using Suc.IH[of "Suc i" "a XOR d i"] by simp
qed simp

lemma lrc_loop_upd:
  "lrc_loop (d(j := x)) i n a = lrc_loop d i n a XOR (if i \<le> j \<and> j < i + n then d j XOR x else 0)"
proof (induction n arbitrary: i a)
  case (Suc n)
  show ?case
  proof (cases "i = j")
    case True
    have "a XOR x = (a XOR d j) XOR (d j XOR x)"
      by (simp add: xor.assoc xor.assoc[of "d j" "d j" x, symmetric])
    then show ?thesis using Suc.IH[of "Suc i"] True by (simp add: lrc_loop_acc)
  next
    case False
    then show ?thesis using Suc.IH[of "Suc i"] by (auto simp: Suc_le_eq)
  qed
qed auto

lemma xor_cancel: "y XOR z = y \<longleftrightarrow> z = (0 :: u8)" "y XOR z = 0 \<longleftrightarrow> y = z"
proof -
  have c: "y XOR (y XOR z) = z" by (simp add: xor.assoc[symmetric])
  show "y XOR z = y \<longleftrightarrow> z = 0" using c by (cases "y XOR z = y") auto
  show "y XOR z = 0 \<longleftrightarrow> y = z" using c by (cases "y XOR z = 0") auto
qed

text \<open>C39. The check byte tells single wrong bytes.  Changing one byte of a message that is not empty
  changes its check byte.\<close>

theorem esam_lrc_detects:
  assumes "i < n"
  shows "cal_lrc (d(i := x)) n = cal_lrc d n \<longleftrightarrow> x = d i"
  using assms cal_lrc_alt[of n] by (auto simp: lrc_loop_upd bit.compl_eq_compl_iff xor_cancel)

theorem esam_lrc_detects_witness: "cal_lrc ((\<lambda>_. 7)(2 := 9)) 4 \<noteq> cal_lrc (\<lambda>_. 7) 4"
  using esam_lrc_detects[of 2 4 "\<lambda>_. 7" 9] by simp

section \<open>Start-up\<close>

interpretation esam_dev: exclusive_open esam_open "esam_release True" is_open esam_spi
  by unfold_locales (simp_all add: esam_open_def esam_release_def)

text \<open>The part of the start-up that touches the pins.\<close>

definition esam_pins_up :: "('a hw_scheme, unit) state" where
  "esam_pins_up = do {
     es_pwrpin 0;
     nuc970_gpio_core_direction_out1 259 0;
     nuc970_gpio_core_direction_in1 261;
     nuc970_gpio_core_direction_out1 262 0;
     es_cspin 0;
     es_cspin 1;
     es_pwrpin 1;
     nuc970_gpio_core_set1 262 1;
     nuc970_gpio_core_set1 259 1 }"

lemma esam_pins_law:
  assumes "quiet esam_port v0 s"
  shows "quiet esam_port v0 (exec esam_pins_up s) \<and> out_level (exec esam_pins_up s) 260
     \<and> is_output (exec esam_pins_up s) 259 \<and> is_output (exec esam_pins_up s) 262
     \<and> \<not> is_output (exec esam_pins_up s) 261 \<and> \<not> out_level (exec esam_pins_up s) 263"
proof -
  note v = out_level_direction_out1 is_output_direction_out1 pin_view_set1 pin_view_in1 esam_pins
  define s1 where "s1 = exec (es_pwrpin 0) s"
  define s2 where "s2 = exec (nuc970_gpio_core_direction_out1 259 0) s1"
  define s3 where "s3 = exec (nuc970_gpio_core_direction_in1 261) s2"
  define s4 where "s4 = exec (nuc970_gpio_core_direction_out1 262 0) s3"
  define s5 where "s5 = exec (es_pwrpin 1) (exec (es_cspin 1) (exec (es_cspin 0) s4))"
  define s6 where "s6 = exec (nuc970_gpio_core_set1 262 1) s5"
  have q1: "quiet esam_port v0 s1" using quiet_out[OF assms, of 8 263] by (simp add: s1_def es_pwrpin_def esam_pins)
  have q2: "quiet esam_port v0 s2" using quiet_out[OF q1, of 8 259 0] by (simp add: s2_def esam_pins)
  have q3: "quiet esam_port v0 s3" using quiet_in[OF q2, of 261] by (simp add: s3_def esam_pins)
  have q4: "quiet esam_port v0 s4" using quiet_out[OF q3, of 8 262] by (simp add: s4_def esam_pins)
  have q5: "quiet esam_port v0 s5" using q4 by (simp add: s5_def es_pwrpin_def es_cspin_def quiet_out[where p = 8] esam_pins)
  have p5: "out_level s5 260" "is_output s5 259" "is_output s5 262" "\<not> is_output s5 261" "\<not> out_level s5 263"
    by (simp_all add: s5_def es_pwrpin_def es_cspin_def s4_def s3_def s2_def v)
  have q6: "quiet esam_port v0 s6" "out_level s6 260" "is_output s6 259"
    using quiet_set[OF q5, of 8 262] p5 by (simp_all add: s6_def v)
  have "quiet esam_port v0 (exec (nuc970_gpio_core_set1 259 1) s6)"
    using quiet_set[OF q6(1), of 8 259 1] q6 by (simp add: esam_pins out_level_def)
  moreover have "exec esam_pins_up s = exec (nuc970_gpio_core_set1 259 1) s6"
    by (simp add: esam_pins_up_def s6_def s5_def s4_def s3_def s2_def s1_def)
  ultimately show ?thesis using p5 q6 by (simp add: s6_def v)
qed

lemma esam_on_kern [simp]:
  "exec (on_kern m) s = s\<lparr>kern := exec m (kern s)\<rparr>" "result_of (on_kern m) s = result_of m (kern s)"
  by (simp_all add: on_kern_def)

lemma esam_init_pins:
  "hw.truncate (exec (esam_spi_init e) s) = hw.truncate (exec esam_pins_up s)"
  by (simp add: esam_spi_init_def esam_pins_up_def esam_spi_setup_cdev_def hw.truncate_def split: option.splits)

text \<open>Start-up leaves the bus idle.  After \<open>esam_spi_init\<close>, with success or not, the module is
  powered and deselected, the lines have their directions, and the module has not been sent a
  single bit.\<close>

theorem esam_init_ready:
  assumes "wlog s = []"
  shows "let s' = exec (esam_spi_init e) s
     in \<exists>fs. esam_ready (mmio s (gpio_reg 8 DATAOUT)) fs s' \<and> concat fs = [] \<and> \<not> out_level s' 263"
proof -
  have "quiet esam_port (mmio s (gpio_reg 8 DATAOUT)) s"
    using link_start[OF assms, of esam_port] by (auto simp: quiet_def)
  note p = esam_pins_law[OF this] and v = truncate_views[OF esam_init_pins[of e s]]
  show ?thesis using p
    by (auto simp: Let_def quiet_def esam_ready_def link_def out_level_def is_output_def esam_dirs_def esam_pins v)
qed

theorem esam_init_ready_witness:
  "\<exists>fs. esam_ready 0x10 fs (exec (esam_spi_init \<lparr>ok_mem = False, err_chrdev = None, ok_class = True,
      ok_node = True, ok_cdev = True\<rparr>) esam_demo) \<and> concat fs = []"
proof -
  have "wlog esam_demo = []" "mmio esam_demo (gpio_reg 8 DATAOUT) = 0x10" by (simp_all add: esam_demo_def)
  with esam_init_ready[of esam_demo] show ?thesis by (auto simp: Let_def)
qed

end
