(* ===== verification/Lcd.thy ===== *)
theory Lcd
  imports Serial Kbd_Core
begin

text \<open>
  The driver of the display, \<open>src/drivers/char/hndl_char_devices/hnos_lcd_core.c\<close> and
  \<open>hnos_lcd_cog.h\<close>: bytes shifted out on port B with a line that tells commands from data, the
  command set of the controller as macros, the expansion of a black and white picture to the four
  bits a pixel the controller wants, the backlight, the entry \<open>lcd_status\<close>, and start-up and
  clean-up.  The state of the keyboard driver, with the proc directory and the kernel's ledger, is
  the component \<open>kern\<close>: the backlight routine is handed to that driver.

  The routines a board may register act on the hardware; they are values of the state.  The
  controller is a receiver in the sense of \<open>Serial\<close> that samples the register select line and the
  data line at the rising edge of the clock.
\<close>

section \<open>Lines and bytes\<close>

record lcd_state = hw +
  kern :: kbd
  lcd_COG_device :: bool
  lcd_opened :: bool
  lcd_class :: kptr
  ioaddr_cmd :: u32
  ioaddr_data :: u32
  my_ioaddr_cmd :: u32
  fb_data :: "nat \<Rightarrow> u8"
  uc1698fb_temp_comp :: u32
  uc1698fb_bias_ratio :: u32
  uc1698fb_bias_data :: u32
  lcd_proc_dir :: bool
  cb_init :: "(hw, unit) state option"
  cb_reset :: "(hw, unit) state option"
  cb_backlight :: "(u8 \<Rightarrow> (hw, unit) state) option"
  lcd_is_open :: bool
  lcd_is_first_read :: bool
  proc_len :: nat
  page :: "nat \<Rightarrow> char"

definition RS_HIGH :: "('a hw_scheme, unit) state" where "RS_HIGH = or_reg REG_GPIOB_DATAOUT 0x8000"
definition RS_LOW :: "('a hw_scheme, unit) state" where "RS_LOW = andn_reg REG_GPIOB_DATAOUT 0x8000"
definition nCS_HIGH :: "('a hw_scheme, unit) state" where "nCS_HIGH = or_reg REG_GPIOB_DATAOUT 0x1000"
definition nCS_LOW :: "('a hw_scheme, unit) state" where "nCS_LOW = andn_reg REG_GPIOB_DATAOUT 0x1000"
definition SDA_HIGH :: "('a hw_scheme, unit) state" where "SDA_HIGH = or_reg REG_GPIOB_DATAOUT 0x4000"
definition SDA_LOW :: "('a hw_scheme, unit) state" where "SDA_LOW = andn_reg REG_GPIOB_DATAOUT 0x4000"
definition SCLK_HIGH :: "('a hw_scheme, unit) state" where "SCLK_HIGH = or_reg REG_GPIOB_DATAOUT 0x2000"
definition SCLK_LOW :: "('a hw_scheme, unit) state" where "SCLK_LOW = andn_reg REG_GPIOB_DATAOUT 0x2000"
definition B_HIGH :: "('a hw_scheme, unit) state" where "B_HIGH = or_reg REG_GPIOG_DATAOUT 0x20"
definition B_LOW :: "('a hw_scheme, unit) state" where "B_LOW = andn_reg REG_GPIOG_DATAOUT 0x20"

text \<open>The loop that \<open>write_cmd\<close> and \<open>write_data\<close> both have.\<close>

fun lcd_shift :: "nat \<Rightarrow> u8 \<Rightarrow> ('a hw_scheme, unit) state" where
  "lcd_shift 0 cmd = return ()"
| "lcd_shift (Suc Scnt) cmd = do {
     SCLK_LOW;
     SDA_LOW;
     (if cmd AND 0x80 \<noteq> 0 then SDA_HIGH else return ());
     SCLK_HIGH;
     lcd_shift Scnt (push_bit 1 cmd) }"

definition write_cmd :: "u8 \<Rightarrow> ('a hw_scheme, unit) state" where
  "write_cmd cmd = do { RS_LOW; nCS_LOW; lcd_shift 8 cmd; nCS_HIGH }"

definition write_data :: "u8 \<Rightarrow> ('a hw_scheme, unit) state" where
  "write_data dat = do { RS_HIGH; nCS_LOW; lcd_shift 8 dat; nCS_HIGH }"

definition my_writeb :: "u8 \<Rightarrow> u32 \<Rightarrow> ('a lcd_state_scheme, u32) state" where
  "my_writeb dat flag = do {
     base \<leftarrow> gets my_ioaddr_cmd;
     (if flag = base + 1 then write_data dat else write_cmd dat);
     return 1 }"

section \<open>The command set\<close>

text \<open>An argument of \<open>my_writeb\<close> is an integer expression, cut to a byte by the call.\<close>

definition lcd_byte :: "u32 \<Rightarrow> u32 \<Rightarrow> ('a lcd_state_scheme, unit) state" where
  "lcd_byte x port = do { my_writeb (ucast x) port; return () }"

definition UC1698FB_SET_COLUMN_ADDR :: "u32 \<Rightarrow> u32 \<Rightarrow> ('a lcd_state_scheme, unit) state" where
  "UC1698FB_SET_COLUMN_ADDR port addr = do { lcd_byte (0x00 OR (addr AND 0xf)) port; lcd_byte (0x10 OR drop_bit 4 (addr AND 0x70)) port }"
definition UC1698FB_SET_TEMP_COMP :: "u32 \<Rightarrow> u32 \<Rightarrow> ('a lcd_state_scheme, unit) state" where
  "UC1698FB_SET_TEMP_COMP port val = do { lcd_byte (0x24 OR (val AND 0x3)) port }"
definition UC1698FB_SET_POWER_CNTRL :: "u32 \<Rightarrow> u32 \<Rightarrow> ('a lcd_state_scheme, unit) state" where
  "UC1698FB_SET_POWER_CNTRL port val = do { lcd_byte (0x28 OR (val AND 0x3)) port }"
definition UC1698FB_SET_ADV_POWER :: "u32 \<Rightarrow> u32 \<Rightarrow> ('a lcd_state_scheme, unit) state" where
  "UC1698FB_SET_ADV_POWER port val = do { lcd_byte (0x31) port; lcd_byte (val) port }"
definition UC1698FB_SET_SCROLL_LINE :: "u32 \<Rightarrow> u32 \<Rightarrow> ('a lcd_state_scheme, unit) state" where
  "UC1698FB_SET_SCROLL_LINE port line = do { lcd_byte (0x40 OR (line AND 0xf)) port; lcd_byte (0x50 OR drop_bit 4 (line AND 0xf0)) port }"
definition UC1698FB_SET_ROW_ADDRS :: "u32 \<Rightarrow> u32 \<Rightarrow> ('a lcd_state_scheme, unit) state" where
  "UC1698FB_SET_ROW_ADDRS port addr = do { lcd_byte (0x60 OR (addr AND 0xf)) port; lcd_byte (0x70 OR drop_bit 4 (addr AND 0xf0)) port }"
definition UC1698FB_SET_VBIAS_PM :: "u32 \<Rightarrow> u32 \<Rightarrow> ('a lcd_state_scheme, unit) state" where
  "UC1698FB_SET_VBIAS_PM port val = do { lcd_byte (0x81) port; lcd_byte (val) port }"
definition UC1698FB_SET_PARTIAL_CNTRL :: "u32 \<Rightarrow> u32 \<Rightarrow> ('a lcd_state_scheme, unit) state" where
  "UC1698FB_SET_PARTIAL_CNTRL port val = do { lcd_byte (0x84 OR (val AND 0x1)) port }"
definition UC1698FB_SET_RAM_ADDR_CNTRL :: "u32 \<Rightarrow> u32 \<Rightarrow> ('a lcd_state_scheme, unit) state" where
  "UC1698FB_SET_RAM_ADDR_CNTRL port val = do { lcd_byte (0x88 OR (val AND 0x7)) port }"
definition UC1698FB_SET_FIXED_LINE :: "u32 \<Rightarrow> u32 \<Rightarrow> ('a lcd_state_scheme, unit) state" where
  "UC1698FB_SET_FIXED_LINE port line = do { lcd_byte (0x90) port; lcd_byte (line) port }"
definition UC1698FB_SET_LINE_RATE :: "u32 \<Rightarrow> u32 \<Rightarrow> ('a lcd_state_scheme, unit) state" where
  "UC1698FB_SET_LINE_RATE port rate = do { lcd_byte (0xa0 OR (rate AND 0x3)) port }"
definition UC1698FB_SET_PIXEL_ON :: "u32 \<Rightarrow> u32 \<Rightarrow> ('a lcd_state_scheme, unit) state" where
  "UC1698FB_SET_PIXEL_ON port on = do { lcd_byte (0xa4 OR (on AND 0x1)) port }"
definition UC1698FB_SET_INVERSE_DISP :: "u32 \<Rightarrow> u32 \<Rightarrow> ('a lcd_state_scheme, unit) state" where
  "UC1698FB_SET_INVERSE_DISP port val = do { lcd_byte (0xa6 OR (val AND 0x1)) port }"
definition UC1698FB_SET_DISPLAY_ENABLE :: "u32 \<Rightarrow> u32 \<Rightarrow> ('a lcd_state_scheme, unit) state" where
  "UC1698FB_SET_DISPLAY_ENABLE port val = do { lcd_byte (0xa8 OR (val AND 0x7)) port }"
definition UC1698FB_SET_MAPPING_CNTRL :: "u32 \<Rightarrow> u32 \<Rightarrow> ('a lcd_state_scheme, unit) state" where
  "UC1698FB_SET_MAPPING_CNTRL port val = do { lcd_byte (0xc0 OR (val AND 0x7)) port }"
definition UC1698FB_SET_NLINE_INV :: "u32 \<Rightarrow> u32 \<Rightarrow> ('a lcd_state_scheme, unit) state" where
  "UC1698FB_SET_NLINE_INV port nline = do { lcd_byte (0xc8) port; lcd_byte (nline AND 0x1f) port }"
definition UC1698FB_SET_COLOR_PATTERN :: "u32 \<Rightarrow> u32 \<Rightarrow> ('a lcd_state_scheme, unit) state" where
  "UC1698FB_SET_COLOR_PATTERN port rgb = do { lcd_byte (0xd0 OR (rgb AND 0x1)) port }"
definition UC1698FB_SET_COLOR_MODE :: "u32 \<Rightarrow> u32 \<Rightarrow> ('a lcd_state_scheme, unit) state" where
  "UC1698FB_SET_COLOR_MODE port mode = do { lcd_byte (0xd4 OR (mode AND 0x3)) port }"
definition UC1698FB_SYSTEM_RESET :: "u32 \<Rightarrow> ('a lcd_state_scheme, unit) state" where
  "UC1698FB_SYSTEM_RESET port = do { lcd_byte (0xe2) port }"
definition UC1698FB_SET_BIAS_RATIO :: "u32 \<Rightarrow> u32 \<Rightarrow> ('a lcd_state_scheme, unit) state" where
  "UC1698FB_SET_BIAS_RATIO port ratio = do { lcd_byte (0xe8 OR (ratio AND 0x3)) port }"
definition UC1698FB_SET_COM_END :: "u32 \<Rightarrow> u32 \<Rightarrow> ('a lcd_state_scheme, unit) state" where
  "UC1698FB_SET_COM_END port line = do { lcd_byte (0xf1) port; lcd_byte (line) port }"
definition UC1698FB_SET_WINDOW_COLUMN_START :: "u32 \<Rightarrow> u32 \<Rightarrow> ('a lcd_state_scheme, unit) state" where
  "UC1698FB_SET_WINDOW_COLUMN_START port val = do { lcd_byte (0xf4) port; lcd_byte (val AND 0x7f) port }"
definition UC1698FB_SET_WINDOW_ROW_START :: "u32 \<Rightarrow> u32 \<Rightarrow> ('a lcd_state_scheme, unit) state" where
  "UC1698FB_SET_WINDOW_ROW_START port val = do { lcd_byte (0xf5) port; lcd_byte (val) port }"
definition UC1698FB_SET_WINDOW_COLUMN_END :: "u32 \<Rightarrow> u32 \<Rightarrow> ('a lcd_state_scheme, unit) state" where
  "UC1698FB_SET_WINDOW_COLUMN_END port val = do { lcd_byte (0xf6) port; lcd_byte (val AND 0x7f) port }"
definition UC1698FB_SET_WINDOW_ROW_END :: "u32 \<Rightarrow> u32 \<Rightarrow> ('a lcd_state_scheme, unit) state" where
  "UC1698FB_SET_WINDOW_ROW_END port val = do { lcd_byte (0xf7) port; lcd_byte (val) port }"
definition UC1698FB_SET_WINDOW_MODE :: "u32 \<Rightarrow> u32 \<Rightarrow> ('a lcd_state_scheme, unit) state" where
  "UC1698FB_SET_WINDOW_MODE port mode = do { lcd_byte (0xf8 OR (mode AND 0x1)) port }"

lemmas lcd_macro_defs =
  UC1698FB_SET_COLUMN_ADDR_def UC1698FB_SET_TEMP_COMP_def UC1698FB_SET_POWER_CNTRL_def UC1698FB_SET_ADV_POWER_def UC1698FB_SET_SCROLL_LINE_def UC1698FB_SET_ROW_ADDRS_def UC1698FB_SET_VBIAS_PM_def UC1698FB_SET_PARTIAL_CNTRL_def UC1698FB_SET_RAM_ADDR_CNTRL_def UC1698FB_SET_FIXED_LINE_def UC1698FB_SET_LINE_RATE_def UC1698FB_SET_PIXEL_ON_def UC1698FB_SET_INVERSE_DISP_def UC1698FB_SET_DISPLAY_ENABLE_def UC1698FB_SET_MAPPING_CNTRL_def UC1698FB_SET_NLINE_INV_def UC1698FB_SET_COLOR_PATTERN_def UC1698FB_SET_COLOR_MODE_def UC1698FB_SYSTEM_RESET_def UC1698FB_SET_BIAS_RATIO_def UC1698FB_SET_COM_END_def UC1698FB_SET_WINDOW_COLUMN_START_def UC1698FB_SET_WINDOW_ROW_START_def UC1698FB_SET_WINDOW_COLUMN_END_def UC1698FB_SET_WINDOW_ROW_END_def UC1698FB_SET_WINDOW_MODE_def

definition UC1698FB_CMD_ADDR :: u32 where "UC1698FB_CMD_ADDR = 0x30000000 + 0x20"

abbreviation (input) UC1698FB_ROW_SIZE :: nat where "UC1698FB_ROW_SIZE \<equiv> 160"
abbreviation (input) UC1698FB_COLUMN_SIZE :: nat where "UC1698FB_COLUMN_SIZE \<equiv> 160"
abbreviation (input) UC1698FB_COLUMN_START :: nat where "UC1698FB_COLUMN_START \<equiv> 112"

section \<open>Registered routines, settings and reset\<close>

definition on_hw :: "(hw, 'b) state \<Rightarrow> ('a lcd_state_scheme, 'b) state" where
  "on_hw m = State (\<lambda>s. (result_of m (hw.truncate s),
     hw.extend (exec m (hw.truncate s)) (hw.more s)))"

record lcd_cbs =
  init :: "(hw, unit) state option"
  reset :: "(hw, unit) state option"
  backlight :: "(u8 \<Rightarrow> (hw, unit) state) option"

definition uc1698fb_callbacks_register :: "lcd_cbs option \<Rightarrow> ('a lcd_state_scheme, unit result) state" where
  "uc1698fb_callbacks_register cbs = (case cbs of
     None \<Rightarrow> return (Inl EINVAL)
   | Some c \<Rightarrow> do {
       (case init c of None \<Rightarrow> return ()
        | Some f \<Rightarrow> do { modify (\<lambda>s. s\<lparr>cb_init := Some f\<rparr>); on_hw f });
       (case reset c of None \<Rightarrow> return ()
        | Some f \<Rightarrow> do { modify (\<lambda>s. s\<lparr>cb_reset := Some f\<rparr>); on_hw f });
       (case backlight c of None \<Rightarrow> return ()
        | Some f \<Rightarrow> modify (\<lambda>s. s\<lparr>cb_backlight := Some f\<rparr>));
       return (Inr ()) })"

definition uc1698fb_callbacks_unregister :: "lcd_cbs option \<Rightarrow> ('a lcd_state_scheme, unit result) state" where
  "uc1698fb_callbacks_unregister cbs = (case cbs of
     None \<Rightarrow> return (Inl EINVAL)
   | Some c \<Rightarrow> do {
       (if init c \<noteq> None then modify (\<lambda>s. s\<lparr>cb_init := None\<rparr>) else return ());
       (if reset c \<noteq> None then modify (\<lambda>s. s\<lparr>cb_reset := None\<rparr>) else return ());
       (if backlight c \<noteq> None then modify (\<lambda>s. s\<lparr>cb_backlight := None\<rparr>) else return ());
       return (Inr ()) })"

definition uc1698fb_bias_ratio_set :: "u8 \<Rightarrow> ('a lcd_state_scheme, unit) state" where
  "uc1698fb_bias_ratio_set data = do {
     port \<leftarrow> gets ioaddr_cmd;
     modify (\<lambda>s. s\<lparr>uc1698fb_bias_ratio := ucast (data AND 0x3)\<rparr>);
     r \<leftarrow> gets uc1698fb_bias_ratio;
     UC1698FB_SET_BIAS_RATIO port r }"

definition uc1698fb_bias_data_set :: "u8 \<Rightarrow> ('a lcd_state_scheme, unit) state" where
  "uc1698fb_bias_data_set data = do {
     port \<leftarrow> gets ioaddr_cmd;
     modify (\<lambda>s. s\<lparr>uc1698fb_bias_data := ucast data\<rparr>);
     d \<leftarrow> gets uc1698fb_bias_data;
     UC1698FB_SET_VBIAS_PM port d }"

definition uc1698fb_temp_comp_set :: "u8 \<Rightarrow> ('a lcd_state_scheme, unit) state" where
  "uc1698fb_temp_comp_set data = do {
     port \<leftarrow> gets ioaddr_cmd;
     modify (\<lambda>s. s\<lparr>uc1698fb_temp_comp := ucast (data AND 0x3)\<rparr>);
     t \<leftarrow> gets uc1698fb_temp_comp;
     UC1698FB_SET_TEMP_COMP port t }"

definition uc1698fb_bias_ratio_get :: "('a lcd_state_scheme, u8) state" where
  "uc1698fb_bias_ratio_get = gets (\<lambda>s. ucast (uc1698fb_bias_ratio s))"

definition uc1698fb_bias_data_get :: "('a lcd_state_scheme, u8) state" where
  "uc1698fb_bias_data_get = gets (\<lambda>s. ucast (uc1698fb_bias_data s))"

definition uc1698fb_temp_comp_get :: "('a lcd_state_scheme, u8) state" where
  "uc1698fb_temp_comp_get = gets (\<lambda>s. ucast (uc1698fb_temp_comp s))"

definition uc1698fb_reset :: "('a lcd_state_scheme, unit) state" where
  "uc1698fb_reset = do {
     port \<leftarrow> gets ioaddr_cmd;
     cb \<leftarrow> gets cb_reset;
     (case cb of None \<Rightarrow> return () | Some f \<Rightarrow> on_hw f);
     UC1698FB_SYSTEM_RESET port }"

definition uc1698fb_blt_generic :: "u8 \<Rightarrow> ('a hw_scheme, unit) state" where
  "uc1698fb_blt_generic action =
    (if action = 1 then B_HIGH else if action = 0 then B_LOW else return ())"

definition uc1698fb_back_light :: "u32 \<Rightarrow> ('a lcd_state_scheme, unit result) state" where
  "uc1698fb_back_light action = do {
     cb \<leftarrow> gets cb_backlight;
     (case cb of Some f \<Rightarrow> on_hw (f (ucast action)) | None \<Rightarrow> uc1698fb_blt_generic (ucast action));
     return (Inr ()) }"

definition uc1698fb_chip_probe :: "('a lcd_state_scheme, unit result) state" where
  "uc1698fb_chip_probe = do { uc1698fb_reset; return (Inr ()) }"

definition uc1698fb_chip_init :: "('a lcd_state_scheme, unit) state" where
  "uc1698fb_chip_init = do {
     port \<leftarrow> gets ioaddr_cmd;
     UC1698FB_SET_SCROLL_LINE port 0;
     UC1698FB_SET_PARTIAL_CNTRL port 0;
     UC1698FB_SET_FIXED_LINE port 0;
     UC1698FB_SET_PIXEL_ON port 0;
     UC1698FB_SET_INVERSE_DISP port 0;
     UC1698FB_SET_ADV_POWER port 0x08;
     UC1698FB_SET_POWER_CNTRL port 0x3;
     tc \<leftarrow> gets uc1698fb_temp_comp;
     UC1698FB_SET_TEMP_COMP port tc;
     UC1698FB_SET_LINE_RATE port 0;
     br \<leftarrow> gets uc1698fb_bias_ratio;
     UC1698FB_SET_BIAS_RATIO port br;
     UC1698FB_SET_COM_END port (of_nat (UC1698FB_ROW_SIZE - 1));
     bd \<leftarrow> gets uc1698fb_bias_data;
     UC1698FB_SET_VBIAS_PM port bd;
     UC1698FB_SET_MAPPING_CNTRL port 4;
     UC1698FB_SET_RAM_ADDR_CNTRL port 1;
     UC1698FB_SET_COLOR_PATTERN port 1;
     UC1698FB_SET_COLOR_MODE port 1;
     UC1698FB_SET_NLINE_INV port 0x18;
     UC1698FB_SET_DISPLAY_ENABLE port 0x5;
     UC1698FB_SET_WINDOW_COLUMN_START port (of_nat (UC1698FB_COLUMN_START div 3));
     UC1698FB_SET_WINDOW_COLUMN_END port (of_nat ((UC1698FB_COLUMN_START + UC1698FB_COLUMN_SIZE) div 3));
     UC1698FB_SET_WINDOW_ROW_START port 0;
     UC1698FB_SET_WINDOW_ROW_END port (of_nat (UC1698FB_ROW_SIZE - 1));
     UC1698FB_SET_WINDOW_MODE port 0;
     UC1698FB_SET_ROW_ADDRS port 0;
     UC1698FB_SET_COLUMN_ADDR port (of_nat (UC1698FB_COLUMN_START div 3)) }"

section \<open>Pictures\<close>

text \<open>The output buffer may be missing; only its first four bytes are written.\<close>

definition spread :: "u8 \<Rightarrow> u8" where
  "spread t = t OR drop_bit 1 t OR drop_bit 2 t OR drop_bit 3 t"

definition uc1698fb_BW2color :: "u8 \<Rightarrow> u8 list option \<Rightarrow> unit result \<times> u8 list option" where
  "uc1698fb_BW2color in_picture out_picture = (case out_picture of
     None \<Rightarrow> (Inl EPERM, None)
   | Some pic \<Rightarrow>
      (let temp1 = in_picture AND 0x80;
           temp2 = drop_bit 3 (in_picture AND 0x40);
           temp3 = push_bit 2 (in_picture AND 0x20);
           temp4 = drop_bit 1 (in_picture AND 0x10);
           temp5 = push_bit 4 (in_picture AND 0x08);
           temp6 = push_bit 1 (in_picture AND 0x04);
           temp7 = push_bit 6 (in_picture AND 0x02);
           temp8 = push_bit 3 (in_picture AND 0x01)
       in (Inr (), Some (pic[0 := spread temp1 OR spread temp2, 1 := spread temp3 OR spread temp4,
             2 := spread temp5 OR spread temp6, 3 := spread temp7 OR spread temp8]))))"

fun lcd_put :: "u8 list \<Rightarrow> u32 \<Rightarrow> ('a lcd_state_scheme, unit) state" where
  "lcd_put [] port = return ()"
| "lcd_put (b # bs) port = do { my_writeb b port; lcd_put bs port }"

definition uc1698fb_write_data :: "u8 list \<Rightarrow> nat \<Rightarrow> ('a lcd_state_scheme, unit) state" where
  "uc1698fb_write_data bytes sz = do { port \<leftarrow> gets ioaddr_data; lcd_put (take sz bytes) port }"

text \<open>The two loops of \<open>uc1698fb_write\<close>; the colour buffer is carried along.\<close>

fun lcd_columns :: "nat \<Rightarrow> nat \<Rightarrow> nat \<Rightarrow> u8 list \<Rightarrow> ('a lcd_state_scheme, u8 list) state" where
  "lcd_columns i j 0 color = return color"
| "lcd_columns i j (Suc n) color = do {
     d \<leftarrow> gets (\<lambda>s. fb_data s (i * (UC1698FB_COLUMN_SIZE div 8) + j));
     let color = the (snd (uc1698fb_BW2color d (Some color)));
     uc1698fb_write_data color 4;
     lcd_columns i (Suc j) n color }"

fun lcd_rows :: "nat \<Rightarrow> nat \<Rightarrow> u8 list \<Rightarrow> ('a lcd_state_scheme, unit) state" where
  "lcd_rows i 0 color = return ()"
| "lcd_rows i (Suc n) color = do {
     color \<leftarrow> lcd_columns i 0 (UC1698FB_COLUMN_SIZE div 8) color;
     port \<leftarrow> gets ioaddr_data;
     my_writeb 0x00 port;
     lcd_rows (Suc i) n color }"

text \<open>\<open>filp\<close>: the open file carries a device; \<open>ubuf\<close>: the caller's buffer, or \<open>None\<close> when it cannot
  be read.\<close>

definition uc1698fb_write :: "bool \<Rightarrow> u32 \<Rightarrow> (nat \<Rightarrow> u8) option \<Rightarrow> ('a lcd_state_scheme, u32 result) state" where
  "uc1698fb_write filp count ubuf =
    (if \<not> filp then return (Inl ENODEV)
     else if unat count \<noteq> UC1698FB_ROW_SIZE * UC1698FB_COLUMN_SIZE div 8 then return (Inl EPERM)
     else case ubuf of
       None \<Rightarrow> return (Inl EPERM)
     | Some b \<Rightarrow> do {
         modify (\<lambda>s. s\<lparr>fb_data := (\<lambda>k. if k < unat count then b k else fb_data s k)\<rparr>);
         uc1698fb_chip_init;
         lcd_rows 0 UC1698FB_ROW_SIZE [0, 0, 0, 0];
         return (Inr count) })"

section \<open>The entry lcd\_status\<close>

definition uc1698fb_proc_close :: "('a lcd_state_scheme, unit result) state" where
  "uc1698fb_proc_close = do { modify (\<lambda>s. s\<lparr>lcd_is_open := False\<rparr>); return (Inr ()) }"

definition uc1698fb_proc_open :: "('a lcd_state_scheme, unit result) state" where
  "uc1698fb_proc_open = do {
     busy \<leftarrow> gets lcd_is_open;
     if busy then return (Inl EBUSY)
     else do {
       modify (\<lambda>s. s\<lparr>lcd_is_open := True, lcd_is_first_read := True\<rparr>);
       return (Inr ()) } }"

text \<open>\<open>sprintf(page + len, ...)\<close>: the text and its final zero, and the new \<open>len\<close>.\<close>

definition page_put :: "nat \<Rightarrow> string \<Rightarrow> (nat \<Rightarrow> char) \<Rightarrow> nat \<Rightarrow> char" where
  "page_put off txt p i =
    (if off \<le> i \<and> i < off + length txt then txt ! (i - off) else if i = off + length txt then CHR 0x00 else p i)"

definition lcd_sprintf :: "string \<Rightarrow> ('a lcd_state_scheme, unit) state" where
  "lcd_sprintf txt = modify (\<lambda>s. s\<lparr>page := page_put (proc_len s) txt (page s),
     proc_len := proc_len s + length txt\<rparr>)"

definition uc1698fb_proc_read :: "nat \<Rightarrow> ('a lcd_state_scheme, nat) state" where
  "uc1698fb_proc_read count = do {
     first \<leftarrow> gets lcd_is_first_read;
     if first then do {
       modify (\<lambda>s. s\<lparr>lcd_is_first_read := False\<rparr>);
       b \<leftarrow> uc1698fb_bias_data_get;
       lcd_sprintf (''lcd_bias'' @ [CHR 0x09] @ '':'' @ [CHR 0x09] @ ''0x'' @ show_hex2 b @ ''\<newline>'');
       t \<leftarrow> uc1698fb_temp_comp_get;
       lcd_sprintf (''temp_comp'' @ [CHR 0x09] @ '':'' @ [CHR 0x09] @ ''0x'' @ show_hex2 t @ ''\<newline>'');
       r \<leftarrow> uc1698fb_bias_ratio_get;
       lcd_sprintf (''bias_ratio :'' @ [CHR 0x09] @ ''0x'' @ show_hex2 r @ ''\<newline>'');
       len \<leftarrow> gets proc_len;
       return (if len < count then len else count)
     } else return 0 }"

text \<open>The number parser of the kernel is the argument \<open>strtoull\<close>; it sees the text up to the zero
  that follows the copied bytes.\<close>

definition uc1698fb_proc_write :: "(string \<Rightarrow> nat) \<Rightarrow> nat \<Rightarrow> string option \<Rightarrow> ('a lcd_state_scheme, nat result) state" where
  "uc1698fb_proc_write strtoull count userbuf =
    (if count \<ge> 14 then return (Inl EINVAL)
     else case userbuf of
       None \<Rightarrow> return (Inl EFAULT)
     | Some u \<Rightarrow> do {
         let val = take count u;
         let value = (of_nat (strtoull val) :: u32);
         uc1698fb_bias_data_set (ucast (value AND 0xff));
         return (Inr count) })"

section \<open>The device\<close>

definition uc1698fb_open :: "('a lcd_state_scheme, unit result) state" where
  "uc1698fb_open = do {
     was \<leftarrow> gets lcd_opened;
     modify (\<lambda>s. s\<lparr>lcd_opened := True\<rparr>);
     return (if was then Inl EBUSY else Inr ()) }"

definition uc1698fb_release :: "('a lcd_state_scheme, unit result) state" where
  "uc1698fb_release = do {
     was \<leftarrow> gets lcd_opened;
     modify (\<lambda>s. s\<lparr>lcd_opened := False\<rparr>);
     return (if was then Inr () else Inl EINVAL) }"

definition on_kern :: "(kbd, 'b) state \<Rightarrow> ('a lcd_state_scheme, 'b) state" where
  "on_kern m = State (\<lambda>s. (result_of m (kern s), s\<lparr>kern := exec m (kern s)\<rparr>))"

abbreviation LCD :: string where "LCD \<equiv> ''fb0''"

record lcd_env =
  err_chrdev :: "errno option"
  ok_mem :: bool
  ok_cdev :: bool
  ok_class :: bool
  ok_node :: bool
  ok_dir :: bool
  ok_entry :: bool

definition uc1698fb_cdev_setup :: "bool \<Rightarrow> ('a lcd_state_scheme, bool) state" where
  "uc1698fb_cdev_setup ok = on_kern (request ok (Cdev LCD))"

definition uc1698fb_module_cleanup :: "('a lcd_state_scheme, unit) state" where
  "uc1698fb_module_cleanup = do {
     d \<leftarrow> gets lcd_COG_device;
     (if d then do {
        on_kern (lcd_blt_unregister True);
        on_kern (release (Cdev LCD));
        c \<leftarrow> gets lcd_class;
        (if c \<noteq> Null then do { on_kern (device_destroy c LCD); on_kern (class_destroy c LCD) } else return ());
        a \<leftarrow> gets ioaddr_cmd;
        (if a \<noteq> 0 then do {
           modify (\<lambda>s. s\<lparr>ioaddr_cmd := 0, ioaddr_data := 0\<rparr>);
           on_kern (release (Region ''uc1698fb'')) } else return ());
        on_kern (release (Memory LCD));
        modify (\<lambda>s. s\<lparr>lcd_COG_device := False\<rparr>)
      } else return ());
     on_kern (release (Proc_entry ''lcd_status''));
     on_kern hnos_proc_rmdir;
     on_kern (release (Chrdev LCD)) }"

text \<open>The labels at the end of \<open>uc1698fb_module_init\<close>, each falling through to the next.\<close>

definition lcd_alloc_failed :: "('a lcd_state_scheme, unit) state" where
  "lcd_alloc_failed = on_kern (release (Chrdev LCD))"

definition lcd_class_failed :: "('a lcd_state_scheme, unit) state" where
  "lcd_class_failed = do { modify (\<lambda>s. s\<lparr>ioaddr_cmd := 0, ioaddr_data := 0\<rparr>); lcd_alloc_failed }"

definition lcd_cdev_failed :: "kptr \<Rightarrow> ('a lcd_state_scheme, unit) state" where
  "lcd_cdev_failed cls = do {
     (if cls \<noteq> Null then do { on_kern (device_destroy cls LCD); on_kern (class_destroy cls LCD) } else return ());
     lcd_class_failed }"

definition lcd_probe_failed :: "('a lcd_state_scheme, unit) state" where
  "lcd_probe_failed = do { on_kern (release (Cdev LCD)); cls \<leftarrow> gets lcd_class; lcd_cdev_failed cls }"

definition lcd_proc_entry_failed :: "('a lcd_state_scheme, unit) state" where
  "lcd_proc_entry_failed = do { on_kern hnos_proc_rmdir; lcd_probe_failed }"

definition lcd_blt_err :: "('a lcd_state_scheme, unit) state" where
  "lcd_blt_err = do { on_kern (release (Proc_entry ''lcd_reg_status'')); lcd_proc_entry_failed }"

definition lcd_setup_proc :: "lcd_env \<Rightarrow> ('a lcd_state_scheme, unit result) state" where
  "lcd_setup_proc e = do {
     p \<leftarrow> gets lcd_proc_dir;
     (if \<not> p then do { q \<leftarrow> on_kern (hnos_proc_mkdir (ok_dir e)); modify (\<lambda>s. s\<lparr>lcd_proc_dir := q\<rparr>) }
      else return ());
     p \<leftarrow> gets lcd_proc_dir;
     if \<not> p then do { lcd_probe_failed; return (Inl ENODEV) }
     else do {
       q \<leftarrow> on_kern (request (ok_entry e) (Proc_entry ''lcd_status''));
       if \<not> q then do { lcd_proc_entry_failed; return (Inl EPERM) }
       else do {
         result \<leftarrow> on_kern (lcd_blt_register True);
         case result of Inl err \<Rightarrow> do { lcd_blt_err; return (Inl err) } | Inr _ \<Rightarrow> return (Inr ()) } } }"

definition uc1698fb_module_init :: "lcd_env \<Rightarrow> ('a lcd_state_scheme, unit result) state" where
  "uc1698fb_module_init e = do {
     on_kern (request (err_chrdev e = None) (Chrdev LCD));
     case err_chrdev e of Some err \<Rightarrow> return (Inl err)
     | None \<Rightarrow> do {
       d \<leftarrow> on_kern (request (ok_mem e) (Memory LCD));
       modify (\<lambda>s. s\<lparr>lcd_COG_device := d\<rparr>);
       if \<not> d then do { lcd_alloc_failed; return (Inl ENOMEM) }
       else do {
         modify (\<lambda>s. s\<lparr>lcd_opened := False, lcd_class := Null, ioaddr_cmd := 0, ioaddr_data := 0\<rparr>);
         c \<leftarrow> uc1698fb_cdev_setup (ok_cdev e);
         if \<not> c then do { lcd_cdev_failed Null; return (Inl EPERM) }
         else do {
           modify (\<lambda>s. s\<lparr>my_ioaddr_cmd := UC1698FB_CMD_ADDR, ioaddr_cmd := UC1698FB_CMD_ADDR,
             ioaddr_data := UC1698FB_CMD_ADDR + 1\<rparr>);
           cls \<leftarrow> on_kern (class_create (ok_class e) LCD);
           if cls = Null then do { lcd_class_failed; return (Inl ENOMEM) }
           else do {
             modify (\<lambda>s. s\<lparr>lcd_class := cls\<rparr>);
             on_kern (device_create cls (ok_node e) LCD);
             r \<leftarrow> uc1698fb_chip_probe;
             case r of Inl _ \<Rightarrow> do { lcd_probe_failed; return (Inl EPERM) }
             | Inr _ \<Rightarrow> do { uc1698fb_chip_init; lcd_setup_proc e } } } } } }"

section \<open>What the controller receives\<close>

text \<open>A sample is the level of the register select line and that of the data line.\<close>

definition lcd_port :: "(bool \<times> bool) port" where
  "lcd_port = \<lparr>preg = REG_GPIOB_DATAOUT, pclk = 13, pcs = 12, ppol = True, pobs = (\<lambda>v. (bit v 15, bit v 14))\<rparr>"

datatype lcd_item = Cmd u8 | Dat u8

fun frame_of :: "lcd_item \<Rightarrow> (bool \<times> bool) list" where
  "frame_of (Cmd b) = map (Pair False) (bits_msb b)"
| "frame_of (Dat b) = map (Pair True) (bits_msb b)"

lemma lcd_port_sel [simp]:
  "preg lcd_port = gpio_reg 1 DATAOUT" "pclk lcd_port = 13" "pcs lcd_port = 12" "ppol lcd_port"
  "pobs lcd_port v = (bit v 15, bit v 14)"
  by (simp_all add: lcd_port_def named_port_regs)

abbreviation (input) lcd_put_bit :: "bool \<Rightarrow> nat \<Rightarrow> 'a hw_scheme \<Rightarrow> 'a hw_scheme" where
  "lcd_put_bit b n s \<equiv> put_all [(gpio_reg 1 DATAOUT, put_bit b n (mmio s (gpio_reg 1 DATAOUT)))] s"

lemma lcd_line_exec:
  "exec RS_HIGH s = lcd_put_bit True 15 s" "exec RS_LOW s = lcd_put_bit False 15 s"
  "exec nCS_HIGH s = lcd_put_bit True 12 s" "exec nCS_LOW s = lcd_put_bit False 12 s"
  "exec SDA_HIGH s = lcd_put_bit True 14 s" "exec SDA_LOW s = lcd_put_bit False 14 s"
  "exec SCLK_HIGH s = lcd_put_bit True 13 s" "exec SCLK_LOW s = lcd_put_bit False 13 s"
  by (simp_all add: RS_HIGH_def RS_LOW_def nCS_HIGH_def nCS_LOW_def SDA_HIGH_def SDA_LOW_def SCLK_HIGH_def
      SCLK_LOW_def named_port_regs put_bit_def BIT_def run_simps)

text \<open>The lines within a frame.\<close>

definition lcd_lines :: "u32 \<Rightarrow> (bool \<times> bool) list list \<Rightarrow> bool \<Rightarrow> (bool \<times> bool) list \<Rightarrow> bool \<Rightarrow> bool
    \<Rightarrow> 'a hw_scheme \<Rightarrow> bool" where
  "lcd_lines v0 fs rs cur clk dat s \<longleftrightarrow> link lcd_port v0 s cur fs \<and> \<not> bit (mmio s (gpio_reg 1 DATAOUT)) 12
     \<and> bit (mmio s (gpio_reg 1 DATAOUT)) 15 = rs \<and> bit (mmio s (gpio_reg 1 DATAOUT)) 13 = clk
     \<and> bit (mmio s (gpio_reg 1 DATAOUT)) 14 = dat"

lemma lcd_lines_put:
  assumes "lcd_lines v0 fs rs cur clk dat s" "n = 13 \<or> n = 14"
  shows "lcd_lines v0 fs rs (if n = 13 \<and> \<not> clk \<and> b then cur @ [(rs, dat)] else cur)
     (if n = 13 then b else clk) (if n = 14 then b else dat) (lcd_put_bit b n s)"
proof -
  let ?o = "mmio s (gpio_reg 1 DATAOUT)"
  have l: "link lcd_port v0 s cur fs" "\<not> bit ?o 12" "bit ?o 15 = rs" "bit ?o 13 = clk" "bit ?o 14 = dat"
    using assms(1) by (simp_all add: lcd_lines_def)
  have "receive lcd_port (put_bit b n ?o) (?o, cur, fs) =
      (put_bit b n ?o, if n = 13 \<and> \<not> clk \<and> b then cur @ [(rs, dat)] else cur, fs)"
    using l(2-5) assms(2) by (auto simp: receive_def bit_simps)
  with link_put[OF l(1), of "put_bit b n ?o"] l(2-5) assms(2) show ?thesis
    by (auto simp: lcd_lines_def bit_simps)
qed

lemma lcd_bit_out:
  assumes "lcd_lines v0 fs rs cur clk dat s"
  shows "lcd_lines v0 fs rs (cur @ [(rs, b)]) True b
     (exec (do { SCLK_LOW; SDA_LOW; (if b then SDA_HIGH else return ()); SCLK_HIGH }) s)"
proof -
  have 1: "lcd_lines v0 fs rs cur False False (exec SDA_LOW (exec SCLK_LOW s))"
    using lcd_lines_put[OF lcd_lines_put[OF assms, of 13 False], of 14 False]
    by (simp add: lcd_line_exec del: put_all.simps)
  have 2: "lcd_lines v0 fs rs cur False b (exec (if b then SDA_HIGH else return ()) (exec SDA_LOW (exec SCLK_LOW s)))"
    using 1 lcd_lines_put[OF 1, of 14 True] by (simp add: lcd_line_exec del: put_all.simps)
  from lcd_lines_put[OF 2, of 13 True] show ?thesis by (simp add: lcd_line_exec del: put_all.simps)
qed

lemma top_bit_test: "(x AND 0x80 \<noteq> 0) = bit (x :: u8) 7"
  using and_BIT_eq_0[of x 7] by (simp add: BIT_def)

lemma lcd_shift_lines:
  "lcd_lines v0 fs rs cur clk dat s \<Longrightarrow> n \<le> 8 \<Longrightarrow>
     \<exists>clk' dat'. lcd_lines v0 fs rs (cur @ map (Pair rs) (high_bits n x)) clk' dat' (exec (lcd_shift n x) s)"
proof (induction n arbitrary: x s cur clk dat)
  case (Suc n)
  define y where "y = push_bit 1 x"
  have e: "exec (lcd_shift (Suc n) x) s = exec (lcd_shift n y)
      (exec (do { SCLK_LOW; SDA_LOW; (if bit x 7 then SDA_HIGH else return ()); SCLK_HIGH }) s)"
    by (simp add: top_bit_test y_def)
  have h: "high_bits (Suc n) x = bit x 7 # high_bits n y"
    unfolding y_def using Suc.prems(2) by (intro high_bits_Suc) simp
  have n: "n \<le> 8" using Suc.prems(2) by simp
  show ?case unfolding e h
    using Suc.IH[OF lcd_bit_out[OF Suc.prems(1), of "bit x 7"] n, of y]
    by (simp only: append.assoc append.simps list.map)
qed auto

text \<open>A byte routine turns an idle line into an idle line and adds one frame.\<close>

lemma lcd_frame:
  assumes "link lcd_port v0 s [] fs"
  shows "link lcd_port v0 (exec (do { (if rs then RS_HIGH else RS_LOW); nCS_LOW; lcd_shift 8 x; nCS_HIGH }) s)
     [] (fs @ [map (Pair rs) (bits_msb x)])"
proof -
  let ?s1 = "lcd_put_bit rs 15 s"
  let ?s2 = "lcd_put_bit False 12 ?s1"
  have 1: "link lcd_port v0 ?s1 [] fs"
    using link_put[OF assms, of "put_bit rs 15 (mmio s (gpio_reg 1 DATAOUT))"]
    by (simp add: receive_data del: put_all.simps)
  have "receive lcd_port (put_bit False 12 (mmio ?s1 (gpio_reg 1 DATAOUT))) (mmio ?s1 (gpio_reg 1 DATAOUT), [], fs)
      = (put_bit False 12 (mmio ?s1 (gpio_reg 1 DATAOUT)), [], fs)"
    by (auto simp: receive_def bit_simps)
  from link_put[of lcd_port, unfolded lcd_port_sel, OF 1 this]
  have "link lcd_port v0 ?s2 [] fs" .
  then have "lcd_lines v0 fs rs [] (bit (mmio ?s2 (gpio_reg 1 DATAOUT)) 13) (bit (mmio ?s2 (gpio_reg 1 DATAOUT)) 14) ?s2"
    by (simp add: lcd_lines_def bit_simps)
  note 2 = this
  define t where "t = exec (lcd_shift 8 x) ?s2"
  obtain clk dat where "lcd_lines v0 fs rs ([] @ map (Pair rs) (high_bits 8 x)) clk dat t"
    unfolding t_def using lcd_shift_lines[OF 2 order_refl, of x] by blast
  then have l: "link lcd_port v0 t (map (Pair rs) (bits_msb x)) fs" "\<not> bit (mmio t (gpio_reg 1 DATAOUT)) 12"
    by (simp_all add: lcd_lines_def high_bits_8)
  have "link lcd_port v0 (lcd_put_bit True 12 t) [] (fs @ [map (Pair rs) (bits_msb x)])"
    using link_put[OF l(1), of "put_bit True 12 (mmio t (gpio_reg 1 DATAOUT))"] l(2)
      receive_deselect[of lcd_port "mmio t (gpio_reg 1 DATAOUT)"]
    by (simp del: put_all.simps)
  moreover have "exec (do { (if rs then RS_HIGH else RS_LOW); nCS_LOW; lcd_shift 8 x; nCS_HIGH }) s
      = lcd_put_bit True 12 t"
    unfolding t_def by (cases rs) (simp_all add: lcd_line_exec del: put_all.simps)
  ultimately show ?thesis by simp
qed

section \<open>Routines that send\<close>

text \<open>\<open>sends m xs s\<close>: from the state \<open>s\<close> the routine \<open>m\<close> only writes the display port, and the
  controller receives the items \<open>xs\<close>, each in a frame of its own.\<close>

definition sends :: "('a hw_scheme, 'b) state \<Rightarrow> lcd_item list \<Rightarrow> 'a hw_scheme \<Rightarrow> bool" where
  "sends m xs s \<longleftrightarrow> (\<exists>ws. exec m s = put_all ws s \<and> fst ` set ws \<subseteq> {gpio_reg 1 DATAOUT})
     \<and> (\<forall>v0 fs. link lcd_port v0 s [] fs \<longrightarrow> link lcd_port v0 (exec m s) [] (fs @ map frame_of xs))"

lemma sends_link: "sends m xs s \<Longrightarrow> link lcd_port v0 s [] fs \<Longrightarrow> link lcd_port v0 (exec m s) [] (fs @ map frame_of xs)"
  by (simp add: sends_def)

lemma sends_Nil: "exec m s = s \<Longrightarrow> sends m [] s"
  by (auto simp: sends_def intro: exI[of _ "[]"])

lemma sends_bind:
  assumes "sends m xs s" "sends (f (result_of m s)) ys (exec m s)"
  shows "sends (State_Monad.bind m f) (xs @ ys) s"
proof -
  obtain ws us where "exec m s = put_all ws s" "fst ` set ws \<subseteq> {gpio_reg 1 DATAOUT}"
    "exec (f (result_of m s)) (exec m s) = put_all us (exec m s)" "fst ` set us \<subseteq> {gpio_reg 1 DATAOUT}"
    using assms by (auto simp: sends_def)
  then have "exec (State_Monad.bind m f) s = put_all (ws @ us) s \<and> fst ` set (ws @ us) \<subseteq> {gpio_reg 1 DATAOUT}"
    by auto
  then show ?thesis using assms unfolding sends_def by (metis append.assoc exec_bind map_append)
qed

lemma lcd_fields_put_all [simp]:
  "kern (put_all ws s) = kern s" "lcd_COG_device (put_all ws s) = lcd_COG_device s"
  "lcd_opened (put_all ws s) = lcd_opened s" "lcd_class (put_all ws s) = lcd_class s"
  "ioaddr_cmd (put_all ws s) = ioaddr_cmd s" "ioaddr_data (put_all ws s) = ioaddr_data s"
  "my_ioaddr_cmd (put_all ws s) = my_ioaddr_cmd s" "fb_data (put_all ws s) = fb_data s"
  "uc1698fb_temp_comp (put_all ws s) = uc1698fb_temp_comp s"
  "uc1698fb_bias_ratio (put_all ws s) = uc1698fb_bias_ratio s"
  "uc1698fb_bias_data (put_all ws s) = uc1698fb_bias_data s"
  "lcd_proc_dir (put_all ws s) = lcd_proc_dir s" "cb_reset (put_all ws s) = cb_reset s"
  "cb_backlight (put_all ws s) = cb_backlight s"
  by (induction ws s rule: put_all.induct) simp_all



definition lcd_only :: "('a hw_scheme, 'b) state \<Rightarrow> bool" where
  "lcd_only m \<longleftrightarrow> (\<forall>s. \<exists>ws. exec m s = put_all ws s \<and> fst ` set ws \<subseteq> {gpio_reg 1 DATAOUT})"

lemma lcd_only_bind: "lcd_only m \<Longrightarrow> (\<And>x. lcd_only (f x)) \<Longrightarrow> lcd_only (State_Monad.bind m f)"
proof -
  assume m: "lcd_only m" and f: "\<And>x. lcd_only (f x)"
  have "\<exists>ws. exec (f (result_of m s)) (exec m s) = put_all ws s \<and> fst ` set ws \<subseteq> {gpio_reg 1 DATAOUT}" for s
  proof -
    obtain ws where "exec m s = put_all ws s" "fst ` set ws \<subseteq> {gpio_reg 1 DATAOUT}"
      using m unfolding lcd_only_def by blast
    moreover obtain us where "exec (f (result_of m s)) (exec m s) = put_all us (exec m s)"
      "fst ` set us \<subseteq> {gpio_reg 1 DATAOUT}"
      using f unfolding lcd_only_def by blast
    ultimately show ?thesis by (intro exI[of _ "ws @ us"]) auto
  qed
  then show ?thesis by (simp add: lcd_only_def)
qed

lemma lcd_only_line: "(\<And>s. exec m s = lcd_put_bit b n s) \<Longrightarrow> lcd_only m"
  unfolding lcd_only_def by (intro allI exI[of _ "[(gpio_reg 1 DATAOUT, put_bit b n (mmio _ (gpio_reg 1 DATAOUT)))]"]) simp

lemma lcd_only_return: "lcd_only (return x)"
  unfolding lcd_only_def by (intro allI exI[of _ "[]"]) simp

lemmas lcd_only_rules = lcd_only_bind lcd_only_return lcd_only_line[OF lcd_line_exec(1)]
  lcd_only_line[OF lcd_line_exec(2)] lcd_only_line[OF lcd_line_exec(3)] lcd_only_line[OF lcd_line_exec(4)]
  lcd_only_line[OF lcd_line_exec(5)] lcd_only_line[OF lcd_line_exec(6)] lcd_only_line[OF lcd_line_exec(7)]
  lcd_only_line[OF lcd_line_exec(8)]

lemma lcd_only_if: "lcd_only m \<Longrightarrow> lcd_only n \<Longrightarrow> lcd_only (if b then m else n)"
  by simp

lemma lcd_only_shift: "lcd_only (lcd_shift n x)"
proof (induction n arbitrary: x)
  case (Suc n)
  then show ?case unfolding lcd_shift.simps by (intro lcd_only_rules lcd_only_if)
qed (simp add: lcd_only_return)

lemma write_sends: "sends (write_cmd b) [Cmd b] s" "sends (write_data b) [Dat b] s"
proof -
  have "lcd_only (write_cmd b)" "lcd_only (write_data b)"
    unfolding write_cmd_def write_data_def by (intro lcd_only_rules lcd_only_shift)+
  then have w: "\<exists>ws. exec (write_cmd b) s = put_all ws s \<and> fst ` set ws \<subseteq> {gpio_reg 1 DATAOUT}"
    "\<exists>ws. exec (write_data b) s = put_all ws s \<and> fst ` set ws \<subseteq> {gpio_reg 1 DATAOUT}"
    unfolding lcd_only_def by blast+
  show "sends (write_cmd b) [Cmd b] s"
    unfolding sends_def using w(1) lcd_frame[of _ s _ False b] by (auto simp: write_cmd_def)
  show "sends (write_data b) [Dat b] s"
    unfolding sends_def using w(2) lcd_frame[of _ s _ True b] by (auto simp: write_data_def)
qed

text \<open>The part of the driver's state that decides what is sent, and routines that send the same
  items from every state with that part.\<close>

definition lcd_set :: "'a lcd_state_scheme \<Rightarrow> u32 \<times> u32 \<times> u32 \<times> u32 \<times> u32 \<times> u32 \<times> (nat \<Rightarrow> u8)" where
  "lcd_set s = (ioaddr_cmd s, ioaddr_data s, my_ioaddr_cmd s, uc1698fb_temp_comp s, uc1698fb_bias_ratio s,
     uc1698fb_bias_data s, fb_data s)"

abbreviation lcd_up :: "u32 \<Rightarrow> u32 \<Rightarrow> u32 \<Rightarrow> (nat \<Rightarrow> u8) \<Rightarrow> u32 \<times> u32 \<times> u32 \<times> u32 \<times> u32 \<times> u32 \<times> (nat \<Rightarrow> u8)" where
  "lcd_up tc br bd fb \<equiv> (UC1698FB_CMD_ADDR, UC1698FB_CMD_ADDR + 1, UC1698FB_CMD_ADDR, tc, br, bd, fb)"

definition sendsk :: "u32 \<times> u32 \<times> u32 \<times> u32 \<times> u32 \<times> u32 \<times> (nat \<Rightarrow> u8) \<Rightarrow> ('a lcd_state_scheme, 'b) state
    \<Rightarrow> lcd_item list \<Rightarrow> bool" where
  "sendsk k m xs \<longleftrightarrow> (\<forall>s. lcd_set s = k \<longrightarrow> sends m xs s)"

lemma lcd_set_put_all [simp]: "lcd_set (put_all ws s) = lcd_set s"
  by (simp add: lcd_set_def)

lemma sends_set: "sends m xs s \<Longrightarrow> lcd_set (exec m s) = lcd_set s"
  by (auto simp: sends_def)

lemma sendsk_bind_result:
  assumes "sendsk k m xs" "\<And>s. lcd_set s = k \<Longrightarrow> Q (result_of m s)" "\<And>c. Q c \<Longrightarrow> sendsk k (f c) ys"
  shows "sendsk k (State_Monad.bind m f) (xs @ ys)"
  unfolding sendsk_def
proof (intro allI impI)
  fix s :: "'a lcd_state_scheme" assume s: "lcd_set s = k"
  then have "sends m xs s" using assms(1) by (simp add: sendsk_def)
  moreover have "sends (f (result_of m s)) ys (exec m s)"
    using assms(2)[OF s] assms(3) sends_set[OF calculation] s by (simp add: sendsk_def)
  ultimately show "sends (State_Monad.bind m f) (xs @ ys) s" by (rule sends_bind)
qed

lemma sendsk_bind: "sendsk k m xs \<Longrightarrow> (\<And>c. sendsk k (f c) ys) \<Longrightarrow> sendsk k (State_Monad.bind m f) (xs @ ys)"
  by (rule sendsk_bind_result[where Q = "\<lambda>_. True"]) auto

lemma sendsk_gets:
  assumes "\<And>s. lcd_set s = k \<Longrightarrow> g s = c" "sendsk k (f c) xs"
  shows "sendsk k (State_Monad.bind (gets g) f) xs"
  using assms by (auto simp: sendsk_def sends_def)

lemma sendsk_return: "sendsk k (return x) []"
  by (simp add: sendsk_def sends_Nil)

lemma sendsk_items: "sendsk k m ys \<Longrightarrow> ys = xs \<Longrightarrow> sendsk k m xs"
  by simp

lemma sends_bind_return:
  assumes "sends m xs s"
  shows "sends (do { m; return c }) xs s"
  using sends_bind[OF assms sends_Nil[of "return c"]] by simp

lemma lcd_up_sel:
  assumes "lcd_set s = lcd_up tc br bd fb"
  shows "ioaddr_cmd s = UC1698FB_CMD_ADDR" "ioaddr_data s = UC1698FB_CMD_ADDR + 1"
    "my_ioaddr_cmd s = UC1698FB_CMD_ADDR" "uc1698fb_temp_comp s = tc" "uc1698fb_bias_ratio s = br"
    "uc1698fb_bias_data s = bd" "fb_data s = fb"
  using assms by (simp_all add: lcd_set_def)

lemma lcd_up_gets:
  fixes f :: "u32 \<Rightarrow> ('a lcd_state_scheme, 'b) state" and tc br bd :: u32 and fb :: "nat \<Rightarrow> u8"
  defines "k \<equiv> lcd_up tc br bd fb"
  shows "sendsk k (f UC1698FB_CMD_ADDR) xs \<Longrightarrow> sendsk k (State_Monad.bind (gets ioaddr_cmd) f) xs"
    "sendsk k (f (UC1698FB_CMD_ADDR + 1)) xs \<Longrightarrow> sendsk k (State_Monad.bind (gets ioaddr_data) f) xs"
    "sendsk k (f UC1698FB_CMD_ADDR) xs \<Longrightarrow> sendsk k (State_Monad.bind (gets my_ioaddr_cmd) f) xs"
    "sendsk k (f tc) xs \<Longrightarrow> sendsk k (State_Monad.bind (gets uc1698fb_temp_comp) f) xs"
    "sendsk k (f br) xs \<Longrightarrow> sendsk k (State_Monad.bind (gets uc1698fb_bias_ratio) f) xs"
    "sendsk k (f bd) xs \<Longrightarrow> sendsk k (State_Monad.bind (gets uc1698fb_bias_data) f) xs"
  unfolding k_def by (erule sendsk_gets[rotated], erule lcd_up_sel)+

lemma my_writeb_sends:
  "sendsk (lcd_up tc br bd fb) (my_writeb b UC1698FB_CMD_ADDR) [Cmd b]"
  "sendsk (lcd_up tc br bd fb) (my_writeb b (UC1698FB_CMD_ADDR + 1)) [Dat b]"
proof -
  show "sendsk (lcd_up tc br bd fb) (my_writeb b UC1698FB_CMD_ADDR) [Cmd b]"
    unfolding my_writeb_def
    by (rule lcd_up_gets) (simp_all add: sendsk_def sends_bind_return[OF write_sends(1)])
  show "sendsk (lcd_up tc br bd fb) (my_writeb b (UC1698FB_CMD_ADDR + 1)) [Dat b]"
    unfolding my_writeb_def
    by (rule lcd_up_gets) (simp_all add: sendsk_def sends_bind_return[OF write_sends(2)])
qed

lemma lcd_byte_sends: "sendsk (lcd_up tc br bd fb) (lcd_byte x UC1698FB_CMD_ADDR) [Cmd (ucast x)]"
  unfolding lcd_byte_def
  by (rule sendsk_items, rule sendsk_bind[OF my_writeb_sends(1)], rule sendsk_return, simp)

definition chip_cmds :: "u32 \<Rightarrow> u32 \<Rightarrow> u32 \<Rightarrow> lcd_item list" where
  "chip_cmds tc br bd = map Cmd [0x40, 0x50, 0x84, 0x90, 0x00, 0xa4, 0xa6, 0x31, 0x08, 0x2b,
     0x24 OR ucast (tc AND 0x3), 0xa0, 0xe8 OR ucast (br AND 0x3), 0xf1, 159, 0x81, ucast bd, 0xc4, 0x89, 0xd1, 0xd5,
     0xc8, 0x18, 0xad, 0xf4, 37, 0xf6, 90, 0xf5, 0, 0xf7, 159, 0xf8, 0x60, 0x70, 0x05, 0x12]"

lemma ucast_or_u8: "(ucast (a OR b :: u32) :: u8) = ucast a OR ucast b"
  by (rule bit_word_eqI) (auto simp: Bit_Operations.bit_simps bit_unsigned_iff)

lemma chip_init_sends: "sendsk (lcd_up tc br bd fb) uc1698fb_chip_init (chip_cmds tc br bd)"
  unfolding uc1698fb_chip_init_def lcd_macro_defs
  apply (rule sendsk_items)
   apply ((rule lcd_up_gets lcd_byte_sends sendsk_bind)+)[1]
  apply (simp add: chip_cmds_def ucast_or_u8)
  done



section \<open>Pictures\<close>

text \<open>The reference: every pixel, from the most significant bit of the byte down, becomes four equal
  bits.\<close>

definition quad :: "bool list \<Rightarrow> bool list" where
  "quad bs = concat (map (replicate 4) bs)"

definition expand :: "u8 \<Rightarrow> u8 list" where
  "expand b = bytes_of_stream (quad (bits_msb b))"

lemma quad_simps [simp]: "quad [] = []" "quad (b # bs) = [b, b, b, b] @ quad bs" "quad (as @ bs) = quad as @ quad bs"
  by (simp_all add: quad_def numeral_eq_Suc)

lemma and_u8_bits:
  "(x AND 0x80 :: u8) = x AND BIT 7" "(x AND 0x40 :: u8) = x AND BIT 6" "(x AND 0x20 :: u8) = x AND BIT 5"
  "(x AND 0x10 :: u8) = x AND BIT 4" "(x AND 0x08 :: u8) = x AND BIT 3" "(x AND 0x04 :: u8) = x AND BIT 2"
  "(x AND 0x02 :: u8) = x AND BIT 1" "(x AND 0x01 :: u8) = x AND BIT 0"
  by (simp_all add: BIT_def)

lemma nibble_bits:
  "bits_msb (spread (if a then 0x80 else 0) OR spread (if b then 0x08 else 0)) = [a, a, a, a, b, b, b, b]"
  by (cases a; cases b) (simp_all add: bits_msb_def spread_def)

lemma BW2color_nibbles:
  fixes x :: u8
  shows "x AND 0x80 = (if bit x 7 then 0x80 else 0)" "drop_bit 3 (x AND 0x40) = (if bit x 6 then 0x08 else 0)"
    "push_bit 2 (x AND 0x20) = (if bit x 5 then 0x80 else 0)" "drop_bit 1 (x AND 0x10) = (if bit x 4 then 0x08 else 0)"
    "push_bit 4 (x AND 0x08) = (if bit x 3 then 0x80 else 0)" "push_bit 1 (x AND 0x04) = (if bit x 2 then 0x08 else 0)"
    "push_bit 6 (x AND 0x02) = (if bit x 1 then 0x80 else 0)" "push_bit 3 (x AND 0x01) = (if bit x 0 then 0x08 else 0)"
  unfolding and_u8_bits and_BIT by (simp_all add: BIT_def)

lemma BW2color_expand:
  assumes "length pic = 4"
  shows "uc1698fb_BW2color x (Some pic) = (Inr (), Some (expand x))"
proof -
  obtain a b c d where pic: "pic = [a, b, c, d]"
    using assms by (auto simp: numeral_eq_Suc length_Suc_conv)
  obtain cs where cs: "uc1698fb_BW2color x (Some pic) = (Inr (), Some cs)"
    "concat (map bits_msb cs) = quad (bits_msb x)"
    unfolding uc1698fb_BW2color_def Let_def BW2color_nibbles pic
    by (simp add: nibble_bits) (simp add: bits_msb_def)
  then show ?thesis unfolding expand_def by (metis bytes_of_stream_concat)
qed

lemma stream_expand: "stream (expand x) = quad (bits_msb x)" and length_expand: "length (expand x) = 4"
proof -
  have "snd (uc1698fb_BW2color x (Some [0, 0, 0, 0])) = Some (expand x)"
    using BW2color_expand[of "[0, 0, 0, 0]" x] by simp
  then have e: "expand x = [spread (if bit x 7 then 0x80 else 0) OR spread (if bit x 6 then 0x08 else 0),
      spread (if bit x 5 then 0x80 else 0) OR spread (if bit x 4 then 0x08 else 0),
      spread (if bit x 3 then 0x80 else 0) OR spread (if bit x 2 then 0x08 else 0),
      spread (if bit x 1 then 0x80 else 0) OR spread (if bit x 0 then 0x08 else 0)]"
    unfolding uc1698fb_BW2color_def Let_def BW2color_nibbles by simp
  show "stream (expand x) = quad (bits_msb x)" "length (expand x) = 4"
    by (simp_all only: e stream_simps nibble_bits) (simp_all add: bits_msb_def)
qed

text \<open>C24. Four bits a pixel.  For every byte and every buffer of four bytes \<open>uc1698fb_BW2color\<close> returns 0
  and leaves in the buffer the eight pixels of the byte, leftmost first, each as four equal bits; without
  a buffer it returns the error and writes nothing.\<close>

theorem lcd_expand_pixels:
  "uc1698fb_BW2color x None = (Inl EPERM, None) \<and>
   (\<exists>a b c d. uc1698fb_BW2color x (Some [p, q, r, t]) = (Inr (), Some [a, b, c, d])
      \<and> concat (map bits_msb [a, b, c, d]) = quad (bits_msb x))"
proof -
  obtain a b c d where e: "expand x = [a, b, c, d]"
    using length_expand[of x] by (auto simp: numeral_eq_Suc length_Suc_conv)
  show ?thesis
    using BW2color_expand[of "[p, q, r, t]" x] stream_expand[of x] unfolding e stream_def
    by (simp add: uc1698fb_BW2color_def)
qed

text \<open>The pixels of row \<open>i\<close> of a picture, and the bytes the controller is to get for it: the row
  window is 54 columns of three pixels wide, two more than the picture.\<close>

definition row_pixels :: "(nat \<Rightarrow> u8) \<Rightarrow> nat \<Rightarrow> bool list" where
  "row_pixels fb i = concat (map (\<lambda>j. bits_msb (fb (20 * i + j))) [0..<20])"

definition row_bytes :: "(nat \<Rightarrow> u8) \<Rightarrow> nat \<Rightarrow> u8 list" where
  "row_bytes fb i = bytes_of_stream (quad (row_pixels fb i @ [False, False]))"

lemma quad_concat: "quad (concat xss) = concat (map quad xss)"
  by (induction xss) simp_all

lemma row_bytes_expand: "row_bytes fb i = concat (map (\<lambda>j. expand (fb (20 * i + j))) [0..<20]) @ [0]"
proof -
  have "stream (concat (map (\<lambda>j. expand (f j)) js)) = concat (map (\<lambda>j. quad (bits_msb (f j))) js)"
    for f :: "nat \<Rightarrow> u8" and js
    by (induction js) (simp_all add: stream_expand)
  moreover have "stream [0] = quad [False, False]" by (simp add: bits_msb_def)
  ultimately have "stream (concat (map (\<lambda>j. expand (fb (20 * i + j))) [0..<20]) @ [0])
      = quad (row_pixels fb i @ [False, False])"
    by (simp add: row_pixels_def quad_concat comp_def del: upt_rec_numeral)
  then show ?thesis unfolding row_bytes_def stream_def by (metis bytes_of_stream_concat)
qed

lemma lcd_put_sends: "sendsk (lcd_up tc br bd fb) (lcd_put bs (UC1698FB_CMD_ADDR + 1)) (map Dat bs)"
proof (induction bs)
  case (Cons b bs)
  show ?case unfolding lcd_put.simps
    by (rule sendsk_items, rule sendsk_bind, rule my_writeb_sends, rule Cons.IH) simp
qed (simp add: sendsk_return)

lemma write_data_sends: "sendsk (lcd_up tc br bd fb) (uc1698fb_write_data bs n) (map Dat (take n bs))"
  unfolding uc1698fb_write_data_def by (rule lcd_up_gets, rule lcd_put_sends)

lemma columns_sends:
  "length color = 4 \<Longrightarrow> sendsk (lcd_up tc br bd fb) (lcd_columns i j n color)
     (map Dat (concat (map (\<lambda>j. expand (fb (20 * i + j))) [j..<j + n])))
   \<and> length (result_of (lcd_columns i j n color) s) = 4"
proof (induction n arbitrary: j color s)
  case (Suc n)
  let ?k = "lcd_up tc br bd fb"
  have g: "lcd_set s = ?k \<Longrightarrow> fb_data s (i * (UC1698FB_COLUMN_SIZE div 8) + j) = fb (20 * i + j)"
    for s :: "'a lcd_state_scheme"
    by (simp add: lcd_set_def mult.commute)
  have "length (result_of (lcd_columns i j (Suc n) color) s) = 4"
    using Suc.IH[OF length_expand] by (simp add: BW2color_expand[OF Suc.prems])
  moreover have "sendsk ?k (lcd_columns i j (Suc n) color :: ('a lcd_state_scheme, u8 list) state)
      (map Dat (take 4 (expand (fb (20 * i + j)))) @ map Dat (concat (map (\<lambda>j. expand (fb (20 * i + j))) [Suc j..<Suc j + n])))"
    unfolding lcd_columns.simps
    by (rule sendsk_gets, erule g, unfold BW2color_expand[OF Suc.prems] snd_conv option.sel Let_def,
      rule sendsk_bind, rule write_data_sends, rule conjunct1[OF Suc.IH[OF length_expand]])
  ultimately show ?case by (simp add: length_expand upt_conv_Cons del: upt_Suc)
qed (simp add: sendsk_return)

lemma rows_sends:
  "length color = 4 \<Longrightarrow> sendsk (lcd_up tc br bd fb) (lcd_rows i n color)
     (map Dat (concat (map (row_bytes fb) [i..<i + n])))"
proof (induction n arbitrary: i color)
  case (Suc n)
  let ?k = "lcd_up tc br bd fb"
  show ?case unfolding lcd_rows.simps
  proof (rule sendsk_items)
    show "sendsk ?k (do { color \<leftarrow> lcd_columns i 0 (UC1698FB_COLUMN_SIZE div 8) color;
        port \<leftarrow> gets ioaddr_data; my_writeb 0 port; lcd_rows (Suc i) n color } :: ('a lcd_state_scheme, unit) state)
      (map Dat (concat (map (\<lambda>j. expand (fb (20 * i + j))) [0..<0 + UC1698FB_COLUMN_SIZE div 8])) @ ([Dat 0] @
        map Dat (concat (map (row_bytes fb) [Suc i..<Suc i + n]))))"
      by (rule sendsk_bind_result[where Q = "\<lambda>c. length c = 4", OF conjunct1[OF columns_sends[OF Suc.prems]]
            conjunct2[OF columns_sends[OF Suc.prems]]])
        (rule lcd_up_gets, rule sendsk_bind, rule my_writeb_sends, erule Suc.IH)
  qed (simp add: row_bytes_expand[of fb i] upt_conv_Cons del: upt_Suc upt_rec_numeral)
qed (simp add: sendsk_return)



lemma row_bytes_cong: "(\<And>j. j < 20 \<Longrightarrow> f (20 * i + j) = g (20 * i + j)) \<Longrightarrow> row_bytes f i = row_bytes g i"
  unfolding row_bytes_def row_pixels_def by (metis (no_types, lifting) atLeastLessThan_iff map_cong set_upt)

lemma length_row_bytes: "length (row_bytes fb i) = 81"
  by (simp add: row_bytes_expand length_concat comp_def length_expand sum_list_triv del: upt_rec_numeral)

lemma sends_mmio: "sends m xs s \<Longrightarrow> r \<noteq> gpio_reg 1 DATAOUT \<Longrightarrow> mmio (exec m s) r = mmio s r"
proof -
  assume "sends m xs s" and r: "r \<noteq> gpio_reg 1 DATAOUT"
  then obtain ws where "exec m s = put_all ws s" "fst ` set ws \<subseteq> {gpio_reg 1 DATAOUT}" by (auto simp: sends_def)
  then show ?thesis using r mmio_put_all_other[of r ws s] by auto
qed

text \<open>C5. Drawing a picture.  Writing the 3200 bytes of a picture to the device returns 3200, and the
  controller receives exactly this: the commands of \<open>uc1698fb_chip_init\<close> with the current settings, then
  for each of the 160 rows, as data, the row's 160 pixels at four bits each followed by two blank pixels.
  That is 162 pixels a row, the width of the window the commands have set (columns 37 to 90 of three
  pixels).  No other register is written.\<close>

theorem lcd_write_picture:
  fixes pic :: "nat \<Rightarrow> u8" and s :: "'a lcd_state_scheme"
  assumes "lcd_set s = lcd_up tc br bd fb" "link lcd_port v0 s [] fs"
  defines "s' \<equiv> exec (uc1698fb_write True 3200 (Some pic)) s"
  shows "result_of (uc1698fb_write True 3200 (Some pic)) s = Inr 3200
    \<and> link lcd_port v0 s' [] (fs @ map frame_of
        (chip_cmds tc br bd @ map Dat (concat (map (row_bytes pic) [0..<160]))))
    \<and> (\<forall>i. 2 * length (row_bytes pic i) = 3 * (90 - 37 + 1))
    \<and> (\<forall>r. r \<noteq> gpio_reg 1 DATAOUT \<longrightarrow> mmio s' r = mmio s r)"
proof -
  let ?m = "do { uc1698fb_chip_init; lcd_rows 0 UC1698FB_ROW_SIZE [0, 0, 0, 0] } :: ('a lcd_state_scheme, unit) state"
  define fb' where "fb' = (\<lambda>k. if k < 3200 then pic k else fb k)"
  define s1 where "s1 = s\<lparr>fb_data := fb'\<rparr>"
  have fb: "fb_data s = fb" using assms(1) by (rule lcd_up_sel)
  have s1: "lcd_set s1 = lcd_up tc br bd fb'" "link lcd_port v0 s1 [] fs" "mmio s1 = mmio s"
    using assms(1,2) by (simp_all add: s1_def lcd_set_def link_def)
  have k: "sendsk (lcd_up tc br bd fb') ?m
      (chip_cmds tc br bd @ map Dat (concat (map (row_bytes fb') [0..<0 + 160])))"
    by (rule sendsk_bind, rule chip_init_sends, rule rows_sends, simp)
  then have k: "sends ?m
      (chip_cmds tc br bd @ map Dat (concat (map (row_bytes fb') [0..<0 + 160]))) s1"
    using s1(1) unfolding sendsk_def by blast
  have s': "s' = exec ?m s1"
    by (simp add: s'_def uc1698fb_write_def s1_def fb'_def fb cong: if_cong)
  have "row_bytes fb' i = row_bytes pic i" if "i < 160" for i
    using that by (intro row_bytes_cong) (simp add: fb'_def)
  then have "map (row_bytes fb') [0..<0 + 160] = map (row_bytes pic) [0..<160]"
    by (intro map_cong) (simp_all del: upt_rec_numeral)
  then have "link lcd_port v0 s' [] (fs @ map frame_of
        (chip_cmds tc br bd @ map Dat (concat (map (row_bytes pic) [0..<160]))))"
    using sends_link[OF k s1(2)] unfolding s' by metis
  moreover have "r \<noteq> gpio_reg 1 DATAOUT \<Longrightarrow> mmio s' r = mmio s r" for r
    using sends_mmio[OF k] s1(3) unfolding s' by metis
  moreover have "result_of (uc1698fb_write True 3200 (Some pic)) s = Inr 3200"
    by (simp add: uc1698fb_write_def)
  moreover have "2 * length (row_bytes pic i) = 3 * (90 - 37 + 1)" for i
    by (simp add: length_row_bytes)
  ultimately show ?thesis by blast
qed

definition lcd_demo :: lcd_state where
  "lcd_demo = \<lparr>mmio = (\<lambda>_. 0), pins = (\<lambda>_ _. 0), now = 0, wlog = [], fault = False,
     kern = kbd0, lcd_COG_device = True, lcd_opened = True, lcd_class = Ptr,
     ioaddr_cmd = 0x30000020, ioaddr_data = 0x30000021, my_ioaddr_cmd = 0x30000020, fb_data = (\<lambda>_. 0),
     uc1698fb_temp_comp = 2, uc1698fb_bias_ratio = 2, uc1698fb_bias_data = 0xa1, lcd_proc_dir = False,
     cb_init = None, cb_reset = None, cb_backlight = None, lcd_is_open = False, lcd_is_first_read = False,
     proc_len = 0, page = (\<lambda>_. CHR 0x00)\<rparr>"

lemma lcd_demo_up: "lcd_set lcd_demo = lcd_up 2 2 0xa1 (\<lambda>_. 0)"
  "link lcd_port 0 lcd_demo [] []"
  by (simp_all add: lcd_demo_def lcd_set_def UC1698FB_CMD_ADDR_def link_def)

theorem lcd_write_picture_witness:
  "link lcd_port 0 (exec (uc1698fb_write True 3200 (Some (\<lambda>_. 0xff))) lcd_demo) [] (map frame_of
     (chip_cmds 2 2 0xa1 @ map Dat (concat (map (row_bytes (\<lambda>_. 0xff)) [0..<160]))))"
  using lcd_write_picture[OF lcd_demo_up, of "\<lambda>_. 0xff"] unfolding append_Nil by blast

text \<open>Refused writes.  Without a device, with a count other than 3200, or with a buffer that cannot be
  read, \<open>uc1698fb_write\<close> returns an error and neither the bus nor the picture changes.\<close>

theorem lcd_write_rejects:
  assumes "\<not> filp \<or> count \<noteq> 3200 \<or> ubuf = None"
  shows "result_of (uc1698fb_write filp count ubuf) s = Inl (if filp then EPERM else ENODEV)
    \<and> exec (uc1698fb_write filp count ubuf) s = s"
proof -
  have c: "unat count = 3200 \<Longrightarrow> count = 3200"
    by (simp add: word_unat_eq_iff)
  show ?thesis
  proof (cases "filp \<and> unat count = 3200")
    case True
    then have "ubuf = None" using assms c by blast
    then show ?thesis by (simp add: uc1698fb_write_def)
  next
    case False
    then show ?thesis by (simp add: uc1698fb_write_def)
  qed
qed



section \<open>Settings, backlight and status\<close>

lemma lcd_set_bias:
  "lcd_set s = lcd_up tc br bd fb \<Longrightarrow> lcd_set (s\<lparr>uc1698fb_bias_data := x\<rparr>) = lcd_up tc br x fb"
  by (simp add: lcd_set_def)

lemma low_byte: "(ucast ((of_nat n :: u32) AND 0xff) :: u8) = of_nat n"
proof -
  have m: "(0xff :: u32) = mask 8" by (simp add: mask_eq_exp_minus_1)
  show ?thesis unfolding m
    by (rule bit_word_eqI) (auto simp: bit_unsigned_iff bit_and_iff bit_mask_iff bit_of_nat_iff)
qed

lemma ucast_up_down: "(ucast (ucast (b :: u8) :: u32) :: u8) = b"
  by (rule bit_word_eqI) (auto simp: bit_unsigned_iff)

lemma vbias_sends:
  "sendsk (lcd_up tc br bd fb) (UC1698FB_SET_VBIAS_PM UC1698FB_CMD_ADDR x) [Cmd 0x81, Cmd (ucast x)]"
  unfolding lcd_macro_defs
  by (rule sendsk_items, rule sendsk_bind, rule lcd_byte_sends, rule lcd_byte_sends) simp

text \<open>Setting the contrast.  Writing a number of fewer than 14 characters to \<open>lcd_status\<close> stores its
  lowest byte as the bias and sends exactly the two bytes of the bias command with that value; from
  14 characters on the write is refused and nothing happens.\<close>

theorem lcd_bias_written:
  fixes s :: "'a lcd_state_scheme"
  assumes "lcd_set s = lcd_up tc br bd fb" "link lcd_port v0 s [] fs"
  shows "let m = uc1698fb_proc_write strtoull count (Some txt);
      b = of_nat (strtoull (take count txt)) :: u8
    in if count < 14 then result_of m s = Inr count \<and> uc1698fb_bias_data (exec m s) = ucast b
         \<and> link lcd_port v0 (exec m s) [] (fs @ map frame_of [Cmd 0x81, Cmd b])
       else result_of m s = Inl EINVAL \<and> exec m s = s"
proof -
  define b where "b = (of_nat (strtoull (take count txt)) :: u8)"
  define s1 where "s1 = s\<lparr>uc1698fb_bias_data := ucast b\<rparr>"
  have b: "(ucast ((of_nat n :: u32) AND 0xff) :: u8) = of_nat n" for n
    by (rule low_byte)
  have s1: "lcd_set s1 = lcd_up tc br (ucast b) fb" "link lcd_port v0 s1 [] fs"
    using lcd_set_bias[OF assms(1)] assms(2) by (simp_all add: s1_def link_def)
  have io: "ioaddr_cmd s = UC1698FB_CMD_ADDR" using assms(1) by (rule lcd_up_sel)
  have w: "sends (UC1698FB_SET_VBIAS_PM UC1698FB_CMD_ADDR (ucast b)) [Cmd 0x81, Cmd b] s1"
    using vbias_sends[of tc br "ucast b" fb "ucast b", where 'a = 'a] s1(1) by (simp add: sendsk_def ucast_up_down)
  have e: "exec (uc1698fb_bias_data_set b) s = exec (UC1698FB_SET_VBIAS_PM UC1698FB_CMD_ADDR (ucast b)) s1"
    by (simp add: uc1698fb_bias_data_set_def s1_def io)
  have f: "uc1698fb_bias_data (exec (uc1698fb_bias_data_set b) s) = ucast b"
    using sends_set[OF w] s1(1) by (simp add: e lcd_set_def)
  show ?thesis
    using sends_link[OF w s1(2)] f by (simp add: Let_def uc1698fb_proc_write_def b b_def[symmetric] e)
qed


theorem lcd_bias_written_witness:
  "uc1698fb_bias_data (exec (uc1698fb_proc_write (\<lambda>_. 300) 3 (Some ''300'')) lcd_demo) = 44"
  using lcd_bias_written[OF lcd_demo_up, of "\<lambda>_. 300" 3 "''300''"] by (simp add: Let_def)

lemma back_light_exec:
  "cb_backlight s = None \<Longrightarrow> exec (uc1698fb_back_light a) s =
     (if (ucast a :: u8) = 1 then put_all [(gpio_reg 6 DATAOUT, put_bit True 5 (mmio s (gpio_reg 6 DATAOUT)))] s
      else if (ucast a :: u8) = 0 then put_all [(gpio_reg 6 DATAOUT, put_bit False 5 (mmio s (gpio_reg 6 DATAOUT)))] s
      else s)"
  by (simp add: uc1698fb_back_light_def uc1698fb_blt_generic_def B_HIGH_def B_LOW_def named_port_regs put_bit_def
      BIT_def run_simps del: put_all.simps)

text \<open>The backlight.  Without a routine of the board, \<open>uc1698fb_back_light\<close> looks at the lowest byte of
  its argument: 1 raises the line PG5, 0 lowers it, any other value leaves it; nothing else changes.\<close>

theorem lcd_backlight:
  assumes "cb_backlight s = None"
  shows "let s' = exec (uc1698fb_back_light a) s in
     out_level s' 197 = (if (ucast a :: u8) = 1 then True else if (ucast a :: u8) = 0 then False else out_level s 197)
   \<and> (\<forall>g. g < NUMGPIO \<longrightarrow> g \<noteq> 197 \<longrightarrow> out_level s' g = out_level s g)
   \<and> hw.more s' = hw.more s"
proof -
  have g: "g < NUMGPIO \<Longrightarrow> (g = 197) = (pin_port g = 6 \<and> pin_num g = 5)" for g
    by (auto simp: pin_eq_iff[of g 197]) (simp_all add: pin_port_def pin_num_def)
  have "(197 :: u32) < NUMGPIO" by (simp add: NUMGPIO_def)
  then show ?thesis using assms
    by (simp add: Let_def back_light_exec out_level_def bit_simps g) (simp add: pin_port_def pin_num_def bit_simps)
qed


theorem lcd_backlight_witness:
  "out_level (exec (uc1698fb_back_light 0x101) lcd_demo) 197 \<and> \<not> out_level (exec (uc1698fb_back_light 0x100) lcd_demo) 197"
  using lcd_backlight[of lcd_demo "0x101"] lcd_backlight[of lcd_demo "0x100"] by (simp add: Let_def lcd_demo_def)

text \<open>One reader of \<open>lcd_status\<close>: open, one read, close.\<close>

definition lcd_status_cycle :: "nat \<Rightarrow> ('a lcd_state_scheme, nat) state" where
  "lcd_status_cycle count = do {
     uc1698fb_proc_open;
     n \<leftarrow> uc1698fb_proc_read count;
     uc1698fb_proc_close;
     return n }"

lemma length_show_hex2 [simp]: "length (show_hex2 b) = 2"
  by (simp add: show_hex2_def Let_def)

lemma page_put_low: "i < off \<Longrightarrow> page_put off txt p i = p i"
  by (simp add: page_put_def)

text \<open>The status text drifts.  The length variable of \<open>uc1698fb_proc_read\<close> is never reset: each reader
  is told 51 more bytes than the one before (up to its count), and its buffer is only written from the
  end of the previous texts on, so from the second reader on the first part of what it is given is
  whatever its buffer held.\<close>

theorem lcd_status_drifts:
  assumes "\<not> lcd_is_open s"
  shows "let s' = exec (lcd_status_cycle count) s in
     \<not> lcd_is_open s' \<and> proc_len s' = proc_len s + 51
   \<and> result_of (lcd_status_cycle count) s = min count (proc_len s + 51)
   \<and> (\<forall>i < proc_len s. page s' i = page s i)"
  using assms
  by (simp add: Let_def lcd_status_cycle_def uc1698fb_proc_open_def uc1698fb_proc_read_def uc1698fb_proc_close_def
      lcd_sprintf_def uc1698fb_bias_data_get_def uc1698fb_temp_comp_get_def uc1698fb_bias_ratio_get_def
      page_put_low min_def)

theorem lcd_status_drifts_witness:
  "result_of (lcd_status_cycle 4096) lcd_demo = 51
   \<and> result_of (lcd_status_cycle 4096) (exec (lcd_status_cycle 4096) lcd_demo) = 102"
  using lcd_status_drifts[of lcd_demo 4096] lcd_status_drifts[of "exec (lcd_status_cycle 4096) lcd_demo" 4096]
  by (simp add: Let_def) (simp add: lcd_demo_def)

section \<open>Start-up and clean-up\<close>

interpretation lcd_dev: exclusive_open uc1698fb_open uc1698fb_release lcd_opened "\<lambda>_. True"
  by unfold_locales (simp_all add: uc1698fb_open_def uc1698fb_release_def)

lemma lcd_on_kern [simp]:
  "exec (on_kern m) s = s\<lparr>kern := exec m (kern s)\<rparr>" "result_of (on_kern m) s = result_of m (kern s)"
  by (simp_all add: on_kern_def)

lemma sends_fields:
  assumes "sends m xs s"
  shows "kern (exec m s) = kern s" "lcd_COG_device (exec m s) = lcd_COG_device s" "lcd_opened (exec m s) = lcd_opened s"
    "lcd_class (exec m s) = lcd_class s" "lcd_proc_dir (exec m s) = lcd_proc_dir s" "cb_reset (exec m s) = cb_reset s"
    "cb_backlight (exec m s) = cb_backlight s" "lcd_set (exec m s) = lcd_set s"
  using assms by (auto simp: sends_def)

lemma sendskD: "sendsk k m xs \<Longrightarrow> lcd_set s = k \<Longrightarrow> sends m xs s"
  by (simp add: sendsk_def)

lemma chip_probe_sends:
  assumes "lcd_set s = lcd_up tc br bd fb" "cb_reset s = None"
  shows "sends uc1698fb_chip_probe [Cmd 0xe2] s"
proof -
  have "sends (lcd_byte 0xe2 UC1698FB_CMD_ADDR) [Cmd 0xe2] s"
    using sendskD[OF lcd_byte_sends assms(1), of "0xe2"] by simp
  then show ?thesis
    using lcd_up_sel(1)[OF assms(1)] assms(2)
    by (simp add: uc1698fb_chip_probe_def uc1698fb_reset_def UC1698FB_SYSTEM_RESET_def sends_def)
qed

definition lcd_names :: "resource list" where
  "lcd_names = [Chrdev LCD, Memory LCD, Cdev LCD, Class LCD, Device LCD, Proc_entry ''lcd_status'',
     Proc_entry ''lcd_reg_status'', Region ''uc1698fb'']"

text \<open>A board on which the driver has not been loaded yet and no reset routine is registered.\<close>

definition lcd_fresh :: "'a lcd_state_scheme \<Rightarrow> bool" where
  "lcd_fresh s \<longleftrightarrow> proc_ok (kern s) \<and> \<not> lcd_proc_dir s \<and> cb_reset s = None \<and> \<not> lcd_COG_device s
     \<and> list_all (\<lambda>r. \<not> held (kern s) r) lcd_names"

definition lcd_mid :: "lcd_env \<Rightarrow> 'a lcd_state_scheme \<Rightarrow> 'a lcd_state_scheme" where
  "lcd_mid e s = (let cls = (if ok_class e then Ptr else Err_ptr) in exec (do {
     modify (\<lambda>s. s\<lparr>lcd_COG_device := True, lcd_opened := False, my_ioaddr_cmd := UC1698FB_CMD_ADDR,
       ioaddr_cmd := UC1698FB_CMD_ADDR, ioaddr_data := UC1698FB_CMD_ADDR + 1, lcd_class := cls\<rparr>);
     on_kern (request True (Chrdev LCD));
     on_kern (request True (Memory LCD));
     on_kern (request True (Cdev LCD));
     on_kern (request (ok_class e) (Class LCD));
     on_kern (device_create cls (ok_node e) LCD) }) s)"

lemma lcd_init_late:
  assumes "err_chrdev e = None" "ok_mem e" "ok_cdev e"
  shows "exec (uc1698fb_module_init e) s =
      exec (lcd_setup_proc e) (exec uc1698fb_chip_init (exec uc1698fb_chip_probe (lcd_mid e s)))"
    "result_of (uc1698fb_module_init e) s =
      result_of (lcd_setup_proc e) (exec uc1698fb_chip_init (exec uc1698fb_chip_probe (lcd_mid e s)))"
  using assms by (simp_all add: uc1698fb_module_init_def uc1698fb_cdev_setup_def lcd_mid_def
      uc1698fb_chip_probe_def Let_def)

lemma lcd_mid_fields:
  "lcd_set (lcd_mid e s) = lcd_up (uc1698fb_temp_comp s) (uc1698fb_bias_ratio s) (uc1698fb_bias_data s) (fb_data s)"
  "cb_reset (lcd_mid e s) = cb_reset s" "lcd_proc_dir (lcd_mid e s) = lcd_proc_dir s" "lcd_COG_device (lcd_mid e s)"
  "lcd_class (lcd_mid e s) = (if ok_class e then Ptr else Err_ptr)" "\<not> lcd_opened (lcd_mid e s)" "link P v0 (lcd_mid e s) cur fs = link P v0 s cur fs"
  "kern (lcd_mid e s) = exec (do { request True (Chrdev LCD); request True (Memory LCD); request True (Cdev LCD);
     request (ok_class e) (Class LCD); device_create (if ok_class e then Ptr else Err_ptr) (ok_node e) LCD }) (kern s)"
  by (simp_all add: lcd_mid_def lcd_set_def link_def Let_def)

text \<open>The state when the driver turns to the proc file system, the controller being reset and set up.\<close>

lemma lcd_bus:
  fixes s :: "'a lcd_state_scheme" and e :: lcd_env
  assumes "lcd_fresh s"
  defines "t \<equiv> exec uc1698fb_chip_init (exec uc1698fb_chip_probe (lcd_mid e s))"
  shows "kern t = kern (lcd_mid e s)" "lcd_COG_device t" "lcd_class t = (if ok_class e then Ptr else Err_ptr)" "\<not> lcd_proc_dir t" "lcd_set t = lcd_set (lcd_mid e s)"
    "\<not> lcd_opened t"
    "link lcd_port v0 s [] fs \<Longrightarrow> link lcd_port v0 t [] (fs @ map frame_of (Cmd 0xe2
       # chip_cmds (uc1698fb_temp_comp s) (uc1698fb_bias_ratio s) (uc1698fb_bias_data s)))"
proof -
  have r: "cb_reset (lcd_mid e s) = None" "\<not> lcd_proc_dir (lcd_mid e s)"
    using assms(1) by (simp_all add: lcd_mid_fields lcd_fresh_def)
  note p = chip_probe_sends[OF lcd_mid_fields(1) r(1)]
  note c = sendskD[OF chip_init_sends, OF trans[OF sends_fields(8)[OF p] lcd_mid_fields(1)]]
  show "kern t = kern (lcd_mid e s)" "lcd_COG_device t" "lcd_class t = (if ok_class e then Ptr else Err_ptr)" "\<not> lcd_proc_dir t" "lcd_set t = lcd_set (lcd_mid e s)"
    "\<not> lcd_opened t"
    unfolding t_def sends_fields[OF c] sends_fields[OF p] by (simp_all add: lcd_mid_fields r(2)[unfolded lcd_mid_fields])
  assume "link lcd_port v0 s [] fs"
  then have "link lcd_port v0 (lcd_mid e s) [] fs" by (simp add: lcd_mid_fields)
  from sends_link[OF c sends_link[OF p this]] show "link lcd_port v0 t [] (fs @ map frame_of (Cmd 0xe2
       # chip_cmds (uc1698fb_temp_comp s) (uc1698fb_bias_ratio s) (uc1698fb_bias_data s)))"
    unfolding t_def by simp
qed

definition lcd_all_ok :: lcd_env where
  "lcd_all_ok = \<lparr>err_chrdev = None, ok_mem = True, ok_cdev = True, ok_class = True, ok_node = True,
     ok_dir = True, ok_entry = True\<rparr>"

lemma lcd_all_ok_sel [simp]: "err_chrdev lcd_all_ok = None" "ok_mem lcd_all_ok" "ok_cdev lcd_all_ok"
  "ok_class lcd_all_ok" "ok_node lcd_all_ok" "ok_dir lcd_all_ok" "ok_entry lcd_all_ok"
  by (simp_all add: lcd_all_ok_def)

lemma blt_fields [simp]:
  "result_of (lcd_blt_register True) k = (if blt k then Inl EBUSY else Inr ())"
  "exec (lcd_blt_register True) k = k\<lparr>blt := True\<rparr>"
  "exec (lcd_blt_unregister True) k = k\<lparr>blt := False\<rparr>"
  by (simp_all add: lcd_blt_register_def lcd_blt_unregister_def)

lemma blt_fields_request [simp]:
  "blt (exec (request ok r) k) = blt k" "blt (exec (release r) k) = blt k"
  "blt (exec (hnos_proc_mkdir b) k) = blt k" "blt (exec hnos_proc_rmdir k) = blt k"
  by (simp_all add: request_def release_def hnos_proc_mkdir_def hnos_proc_rmdir_def)

lemma setup_proc_ok:
  assumes "proc_ok (kern t)" "\<not> lcd_proc_dir t" "\<not> blt (kern t)" "ok_dir e" "ok_entry e"
  shows "result_of (lcd_setup_proc e) t = Inr ()"
    "exec (lcd_setup_proc e) t = t\<lparr>lcd_proc_dir := True, kern := (exec (request True (Proc_entry ''lcd_status''))
       (exec (hnos_proc_mkdir True) (kern t)))\<lparr>blt := True\<rparr>\<rparr>"
  using assms by (simp_all add: lcd_setup_proc_def mkdir_ok(2))

lemma lcd_mid_proc: "proc_ok (kern (lcd_mid e s)) = proc_ok (kern s)" "blt (kern (lcd_mid e s)) = blt (kern s)"
  by (simp_all add: lcd_mid_fields proc_ok_def)

text \<open>Start-up.  On a board where every request succeeds and no other backlight routine is registered,
  \<open>uc1698fb_module_init\<close> returns 0; the controller has received the reset command and then the commands of
  \<open>uc1698fb_chip_init\<close>, and nothing else; the keyboard driver has the backlight routine; and what the
  driver holds is its device number, memory, device, class, node, directory and entry.\<close>

theorem lcd_init_ready:
  assumes "lcd_fresh s" "\<not> blt (kern s)" "link lcd_port v0 s [] fs"
  shows "let s' = exec (uc1698fb_module_init lcd_all_ok) s in
     result_of (uc1698fb_module_init lcd_all_ok) s = Inr ()
   \<and> link lcd_port v0 s' [] (fs @ map frame_of (Cmd 0xe2
       # chip_cmds (uc1698fb_temp_comp s) (uc1698fb_bias_ratio s) (uc1698fb_bias_data s)))
   \<and> blt (kern s') \<and> \<not> lcd_opened s' \<and> lcd_COG_device s'
   \<and> (\<forall>r. held (kern s') r = (held (kern s) r \<or> r \<in> {Chrdev LCD, Memory LCD, Cdev LCD, Class LCD, Device LCD,
        Proc_dir, Proc_entry ''lcd_status''}))"
proof -
  define t where "t = exec uc1698fb_chip_init (exec uc1698fb_chip_probe (lcd_mid lcd_all_ok s))"
  note b = lcd_bus[OF assms(1), where e = lcd_all_ok, folded t_def]
  have p: "proc_ok (kern t)" "\<not> blt (kern t)"
    using assms(1,2) by (simp_all add: b lcd_mid_proc lcd_fresh_def)
  note u = setup_proc_ok[OF p(1) b(4) p(2), of lcd_all_ok]
  have e: "exec (uc1698fb_module_init lcd_all_ok) s = exec (lcd_setup_proc lcd_all_ok) t"
    "result_of (uc1698fb_module_init lcd_all_ok) s = result_of (lcd_setup_proc lcd_all_ok) t"
    unfolding t_def by (rule lcd_init_late; simp)+
  have "link lcd_port v0 (exec (lcd_setup_proc lcd_all_ok) t) [] = link lcd_port v0 t []"
    by (simp add: u link_def fun_eq_iff)
  then show ?thesis using b(7)[OF assms(3)] p b(2,6) unfolding Let_def e
    by (auto simp: u b(1) lcd_mid_fields mkdir_fields proc_ok_def)
qed

definition lcd_boot :: lcd_state where
  "lcd_boot = lcd_demo\<lparr>lcd_COG_device := False, lcd_opened := False, lcd_class := Null, ioaddr_cmd := 0,
     ioaddr_data := 0, my_ioaddr_cmd := 0\<rparr>"

lemma lcd_boot_fresh: "lcd_fresh lcd_boot" "\<not> blt (kern lcd_boot)" "link lcd_port 0 lcd_boot [] []"
  by (simp_all add: lcd_boot_def lcd_demo_def lcd_fresh_def kbd0_def proc_ok_def lcd_names_def link_def)

theorem lcd_init_ready_witness:
  "result_of (uc1698fb_module_init lcd_all_ok) lcd_boot = Inr ()
   \<and> link lcd_port 0 (exec (uc1698fb_module_init lcd_all_ok) lcd_boot) [] (map frame_of (Cmd 0xe2 # chip_cmds 2 2 0xa1))"
  using lcd_init_ready[OF lcd_boot_fresh] by (simp add: Let_def) (simp add: lcd_boot_def lcd_demo_def)

lemma lcd_init_result:
  assumes "lcd_fresh s" "\<not> blt (kern s)"
  shows "result_of (uc1698fb_module_init lcd_all_ok) s = Inr ()"
proof -
  define t where "t = exec uc1698fb_chip_init (exec uc1698fb_chip_probe (lcd_mid lcd_all_ok s))"
  note b = lcd_bus[OF assms(1), where e = lcd_all_ok, folded t_def]
  have p: "proc_ok (kern t)" "\<not> blt (kern t)"
    using assms by (simp_all add: b lcd_mid_proc lcd_fresh_def)
  have "result_of (uc1698fb_module_init lcd_all_ok) s = result_of (lcd_setup_proc lcd_all_ok) t"
    unfolding t_def by (rule lcd_init_late; simp)
  then show ?thesis using setup_proc_ok(1)[OF p(1) b(4) p(2)] by simp
qed

lemma lcd_init_kern:
  assumes "lcd_fresh s" "\<not> blt (kern s)"
  defines "s' \<equiv> exec (uc1698fb_module_init lcd_all_ok) s"
  shows "kern s' = (exec (request True (Proc_entry ''lcd_status'')) (exec (hnos_proc_mkdir True)
      (kern (lcd_mid lcd_all_ok s))))\<lparr>blt := True\<rparr>"
    "lcd_COG_device s'" "lcd_class s' = Ptr" "ioaddr_cmd s' = UC1698FB_CMD_ADDR"
proof -
  define t where "t = exec uc1698fb_chip_init (exec uc1698fb_chip_probe (lcd_mid lcd_all_ok s))"
  note b = lcd_bus[OF assms(1), where e = lcd_all_ok, folded t_def]
  have p: "proc_ok (kern t)" "\<not> blt (kern t)"
    using assms(1,2) by (simp_all add: b lcd_mid_proc lcd_fresh_def)
  note u = setup_proc_ok(2)[OF p(1) b(4) p(2), of lcd_all_ok]
  have e: "s' = exec (lcd_setup_proc lcd_all_ok) t"
    unfolding t_def s'_def by (rule lcd_init_late; simp)
  have "ioaddr_cmd t = UC1698FB_CMD_ADDR"
    using lcd_up_sel(1)[OF trans[OF b(5) lcd_mid_fields(1)]] .
  then show "kern s' = (exec (request True (Proc_entry ''lcd_status'')) (exec (hnos_proc_mkdir True)
      (kern (lcd_mid lcd_all_ok s))))\<lparr>blt := True\<rparr>"
    "lcd_COG_device s'" "lcd_class s' = Ptr" "ioaddr_cmd s' = UC1698FB_CMD_ADDR"
    unfolding e u[OF lcd_all_ok_sel(6,7)] using b(1-3) by simp_all
qed

text \<open>Clean-up.  After a successful start-up \<open>uc1698fb_module_cleanup\<close> gives back everything the driver
  holds and takes the backlight routine back, but it also releases a memory region that
  start-up never requested.\<close>

theorem lcd_init_cleanup:
  assumes "lcd_fresh s" "\<not> blt (kern s)"
  shows "let k = kern (exec uc1698fb_module_cleanup (exec (uc1698fb_module_init lcd_all_ok) s)) in
     (\<forall>r. held k r = held (kern s) r) \<and> \<not> blt k \<and> ref_cnt k = ref_cnt (kern s)
   \<and> bogus k = bogus (kern s) @ [Region ''uc1698fb'']"
proof -
  define s' where "s' = exec (uc1698fb_module_init lcd_all_ok) s"
  note k = lcd_init_kern[OF assms, folded s'_def]
  have a: "UC1698FB_CMD_ADDR \<noteq> 0" by (simp add: UC1698FB_CMD_ADDR_def)
  show ?thesis unfolding s'_def[symmetric] Let_def
    using assms a
    by (auto simp: uc1698fb_module_cleanup_def k(2-4) k(1) lcd_mid_fields lcd_fresh_def lcd_names_def proc_ok_def
        mkdir_fields rmdir_fields)
qed

theorem lcd_init_cleanup_witness:
  "bogus (kern (exec uc1698fb_module_cleanup (exec (uc1698fb_module_init lcd_all_ok) lcd_boot))) = [Region ''uc1698fb'']"
  using lcd_init_cleanup[OF lcd_boot_fresh(1,2)]
  by (simp add: Let_def) (simp add: lcd_boot_def lcd_demo_def kbd0_def)






end
