(* ===== verification/I2c.thy ===== *)
theory I2c
  imports Nuc_Prelude
begin

text \<open>
  The I2C master, \<open>src/drivers/i2c/busses/i2c-nuc970-p0.c\<close>.  A transfer is a list of messages; the first
  address byte is put on the bus by the caller, everything after that by the interrupt routine, one
  byte an interrupt.  The routine is a state machine over the state of \<open>struct nuc970_i2c\<close>, whose
  registers are written through a log.  The values an interrupt reads are its argument: the status, the
  status when read a second time, and the received byte.

  The messages are the caller's array; \<open>msg\<close> is the index the message pointer stands for, \<open>None\<close> when it
  is null.  Following a null pointer, a pointer behind the array or an index behind a message's
  buffer is recorded in \<open>bug\<close>.
\<close>

section \<open>State and registers\<close>

datatype i2c_reg = CSR | DIVIDER | CMDR | SWR | RXR | TXR

datatype nuc970_i2c_state = STATE_IDLE | STATE_START | STATE_READ | STATE_WRITE | STATE_STOP

text \<open>The flags of a message and of a client; this driver looks at the first three.\<close>

datatype i2c_flag = I2C_M_RD | I2C_M_NOSTART | I2C_M_IGNORE_NAK | I2C_M_TEN | I2C_M_RECV_LEN | I2C_CLIENT_PEC | I2C_CLIENT_SCCB

record i2c_msg =
  addr :: u16
  flags :: "i2c_flag list"
  len :: u16
  buf :: "u8 list"

record nuc970_i2c =
  msgs :: "i2c_msg list"
  msg :: "nat option"
  msg_num :: u32
  msg_idx :: u32
  msg_ptr :: u32
  arblost :: u32
  i2c_state :: nuc970_i2c_state
  bus :: "(i2c_reg \<times> u32) list"
  bug :: bool

record i2c_in =
  status :: u32
  csr_again :: u32
  rxr :: u32

definition IRQEN :: u32 where "IRQEN = 0x003"
definition I2CBUSY :: u32 where "I2CBUSY = 0x400"
definition I2CSTART :: u32 where "I2CSTART = 0x018"
definition IRQFLAG :: u32 where "IRQFLAG = 0x004"
definition ARBIT_LOST :: u32 where "ARBIT_LOST = 0x200"
definition SLAVE_ACK :: u32 where "SLAVE_ACK = 0x800"
definition I2C_CMD_START :: u32 where "I2C_CMD_START = 0x10"
definition I2C_CMD_STOP :: u32 where "I2C_CMD_STOP = 0x08"
definition I2C_CMD_READ :: u32 where "I2C_CMD_READ = 0x04"
definition I2C_CMD_WRITE :: u32 where "I2C_CMD_WRITE = 0x02"
definition I2C_CMD_NACK :: u32 where "I2C_CMD_NACK = 0x01"

definition writel :: "u32 \<Rightarrow> i2c_reg \<Rightarrow> nuc970_i2c \<Rightarrow> nuc970_i2c" where
  "writel v r s = s\<lparr>bus := bus s @ [(r, v)]\<rparr>"

text \<open>The message the pointer leads to, if it leads to one.\<close>

definition cur_msg :: "nuc970_i2c \<Rightarrow> i2c_msg option" where
  "cur_msg s = (case msg s of None \<Rightarrow> None
     | Some i \<Rightarrow> if i < length (msgs s) then Some (msgs s ! i) else None)"

definition bug_now :: "nuc970_i2c \<Rightarrow> nuc970_i2c" where
  "bug_now s = s\<lparr>bug := True\<rparr>"

section \<open>Operations\<close>

definition nuc970_i2c0_master_complete :: "int \<Rightarrow> nuc970_i2c \<Rightarrow> nuc970_i2c" where
  "nuc970_i2c0_master_complete ret s =
    (let s = s\<lparr>msg_ptr := 0, msg := None, msg_idx := msg_idx s + 1, msg_num := 0\<rparr>
     in if ret \<noteq> 0 then s\<lparr>msg_idx := of_int ret\<rparr> else s)"

definition nuc970_i2c0_disable_irq :: "u32 \<Rightarrow> nuc970_i2c \<Rightarrow> nuc970_i2c" where
  "nuc970_i2c0_disable_irq tmp s = writel (tmp AND NOT IRQEN) CSR s"

definition nuc970_i2c0_enable_irq :: "u32 \<Rightarrow> nuc970_i2c \<Rightarrow> nuc970_i2c" where
  "nuc970_i2c0_enable_irq tmp s = writel (tmp OR IRQEN) CSR s"

definition nuc970_i2c0_message_start :: "i2c_msg \<Rightarrow> nuc970_i2c \<Rightarrow> nuc970_i2c" where
  "nuc970_i2c0_message_start m s =
    (let a = push_bit 1 (ucast (addr m) AND 0x7f) :: u32;
         a = if I2C_M_RD \<in> set (flags m) then a OR 0x1 else a
     in writel (I2C_CMD_START OR I2C_CMD_WRITE) CMDR (writel (a AND 0xff) TXR s))"

definition nuc970_i2c0_stop :: "int \<Rightarrow> nuc970_i2c \<Rightarrow> nuc970_i2c" where
  "nuc970_i2c0_stop ret s =
     nuc970_i2c0_master_complete ret (writel I2C_CMD_STOP CMDR (s\<lparr>i2c_state := STATE_STOP\<rparr>))"

definition is_lastmsg :: "nuc970_i2c \<Rightarrow> bool" where
  "is_lastmsg s \<longleftrightarrow> msg_idx s \<ge> msg_num s - 1"

definition is_msglast :: "i2c_msg \<Rightarrow> nuc970_i2c \<Rightarrow> bool" where
  "is_msglast m s \<longleftrightarrow> msg_ptr s = ucast (len m) - 1"

definition is_msgend :: "i2c_msg \<Rightarrow> nuc970_i2c \<Rightarrow> bool" where
  "is_msgend m s \<longleftrightarrow> msg_ptr s \<ge> ucast (len m)"

definition next_msg :: "nuc970_i2c \<Rightarrow> nuc970_i2c" where
  "next_msg s = s\<lparr>msg_ptr := 0, msg_idx := msg_idx s + 1, msg := map_option Suc (msg s)\<rparr>"

lemma cur_msg_next: "cur_msg (next_msg s) = Some m \<Longrightarrow> \<exists>i. msg s = Some i \<and> Suc i < length (msgs s)"
  by (auto simp: cur_msg_def next_msg_def split: option.splits if_splits)

lemma cur_msg_stop: "cur_msg (nuc970_i2c0_stop ret s) = None"
  by (simp add: cur_msg_def nuc970_i2c0_stop_def nuc970_i2c0_master_complete_def Let_def)

text \<open>The code from the label \<open>retry_write\<close> on.\<close>

function retry_write :: "nuc970_i2c \<Rightarrow> nuc970_i2c" where
  "retry_write s = (case cur_msg s of
     None \<Rightarrow> bug_now s
   | Some m \<Rightarrow>
      if \<not> is_msgend m s then
        (if unat (msg_ptr s) < length (buf m) then
           writel I2C_CMD_WRITE CMDR (writel (ucast (buf m ! unat (msg_ptr s))) TXR (s\<lparr>msg_ptr := msg_ptr s + 1\<rparr>))
         else bug_now s)
      else if \<not> is_lastmsg s then
        (let s = next_msg s in
         case cur_msg s of
           None \<Rightarrow> bug_now s
         | Some m' \<Rightarrow>
            if I2C_M_NOSTART \<in> set (flags m') then
              retry_write (if I2C_M_RD \<in> set (flags m') then nuc970_i2c0_stop (- eno EINVAL) s else s)
            else (nuc970_i2c0_message_start m' s)\<lparr>i2c_state := STATE_START\<rparr>)
      else nuc970_i2c0_stop 0 s)"
  by pat_completeness auto

termination
proof (relation "measure (\<lambda>s. case msg s of None \<Rightarrow> 0 | Some i \<Rightarrow> Suc (length (msgs s) - i))", goal_cases)
  case (2 s m s' m')
  then show ?case
    by (auto simp: next_msg_def cur_msg_def nuc970_i2c0_stop_def nuc970_i2c0_master_complete_def Let_def
        split: option.splits if_splits)
qed simp

declare retry_write.simps [simp del]

text \<open>The code from the label \<open>prepare_read\<close> on.\<close>

definition prepare_read :: "nuc970_i2c \<Rightarrow> nuc970_i2c" where
  "prepare_read s = (case cur_msg s of
     None \<Rightarrow> bug_now s
   | Some m \<Rightarrow>
      if is_msglast m s then
        (if is_lastmsg s then writel (I2C_CMD_READ OR I2C_CMD_NACK) CMDR s else s)
      else if is_msgend m s then
        (if is_lastmsg s then nuc970_i2c0_stop 0 s
         else writel I2C_CMD_READ CMDR (next_msg s))
      else writel I2C_CMD_READ CMDR s)"

definition state_write :: "u32 \<Rightarrow> nuc970_i2c \<Rightarrow> nuc970_i2c" where
  "state_write iicstat s = (case cur_msg s of
     None \<Rightarrow> bug_now s
   | Some m \<Rightarrow>
      if I2C_M_IGNORE_NAK \<notin> set (flags m) \<and> iicstat AND SLAVE_ACK \<noteq> 0
      then nuc970_i2c0_stop (- eno ECONNREFUSED) s
      else retry_write s)"

definition state_start :: "u32 \<Rightarrow> nuc970_i2c \<Rightarrow> nuc970_i2c" where
  "state_start iicstat s = (case cur_msg s of
     None \<Rightarrow> bug_now s
   | Some m \<Rightarrow>
      if iicstat AND SLAVE_ACK \<noteq> 0 \<and> I2C_M_IGNORE_NAK \<notin> set (flags m)
      then nuc970_i2c0_stop (- eno ENXIO) s
      else
       (let s = s\<lparr>i2c_state := if I2C_M_RD \<in> set (flags m) then STATE_READ else STATE_WRITE\<rparr>
        in if is_lastmsg s \<and> len m = 0 then nuc970_i2c0_stop 0 s
           else if i2c_state s = STATE_READ then prepare_read s
           else state_write iicstat s))"

definition state_read :: "u32 \<Rightarrow> nuc970_i2c \<Rightarrow> nuc970_i2c" where
  "state_read rx s = (case (msg s, cur_msg s) of
     (Some i, Some m) \<Rightarrow>
       if unat (msg_ptr s) < length (buf m) then
         prepare_read (s\<lparr>msgs := (msgs s)[i := m\<lparr>buf := (buf m)[unat (msg_ptr s) := ucast rx]\<rparr>],
           msg_ptr := msg_ptr s + 1\<rparr>)
       else bug_now s
   | _ \<Rightarrow> bug_now s)"

definition i2c_nuc970_irq_nextbyte :: "i2c_in \<Rightarrow> nuc970_i2c \<Rightarrow> nuc970_i2c" where
  "i2c_nuc970_irq_nextbyte x s = (case i2c_state s of
     STATE_IDLE \<Rightarrow> s
   | STATE_STOP \<Rightarrow> (nuc970_i2c0_disable_irq (csr_again x) s)\<lparr>i2c_state := STATE_IDLE\<rparr>
   | STATE_START \<Rightarrow> state_start (status x) s
   | STATE_WRITE \<Rightarrow> state_write (status x) s
   | STATE_READ \<Rightarrow> state_read (rxr x) s)"

definition nuc970_i2c_irq :: "i2c_in \<Rightarrow> nuc970_i2c \<Rightarrow> nuc970_i2c" where
  "nuc970_i2c_irq x s =
    (let s = writel (status x OR IRQFLAG) CSR s
     in if status x AND ARBIT_LOST \<noteq> 0 then s\<lparr>arblost := 1\<rparr>
        else if i2c_state s = STATE_IDLE then s
        else i2c_nuc970_irq_nextbyte x s)"

section \<open>A transfer\<close>

text \<open>The dummy clocks of \<open>nuc970_i2c0_hangup\<close>.\<close>

fun hangup_clocks :: "nat \<Rightarrow> nuc970_i2c \<Rightarrow> nuc970_i2c" where
  "hangup_clocks 0 s = s"
| "hangup_clocks (Suc n) s = hangup_clocks n (writel 0x7 SWR (writel 0x6 SWR s))"

definition nuc970_i2c0_hangup :: "nuc970_i2c \<Rightarrow> nuc970_i2c" where
  "nuc970_i2c0_hangup s = hangup_clocks 2 s"

text \<open>The polls of \<open>nuc970_i2c0_set_master\<close>: the values of the two registers at each of them.  The loop
  makes at most \<open>timeout\<close> polls; the outside provides as many values as are asked for.\<close>

fun set_master_polls :: "nat \<Rightarrow> (nat \<Rightarrow> u32 \<times> u32) \<Rightarrow> nat \<Rightarrow> unit result" where
  "set_master_polls 0 polls k = Inl ETIMEDOUT"
| "set_master_polls (Suc timeout) polls k =
    (if fst (polls k) AND I2CSTART = I2CSTART \<and> snd (polls k) AND I2CBUSY = 0 then Inr ()
     else set_master_polls timeout polls (Suc k))"

definition nuc970_i2c0_set_master :: "(nat \<Rightarrow> u32 \<times> u32) \<Rightarrow> unit result" where
  "nuc970_i2c0_set_master polls = set_master_polls 400 polls 0"

text \<open>What happens while the caller sleeps: interrupts are served until the transfer is complete; the
  list ends when the five seconds are over.  The interrupts left over arrive after the wake-up.\<close>

fun i2c_wait :: "i2c_in list \<Rightarrow> nuc970_i2c \<Rightarrow> nuc970_i2c \<times> i2c_in list" where
  "i2c_wait [] s = (s, [])"
| "i2c_wait (x # xs) s = (if msg_num s = 0 then (s, x # xs) else i2c_wait xs (nuc970_i2c_irq x s))"

record xfer_env =
  polls :: "nat \<Rightarrow> u32 \<times> u32"
  irqs :: "i2c_in list"
  csr_last :: u32

text \<open>The first half of \<open>nuc970_i2c0_doxfer\<close>: the variables of the transfer and the address byte of the first message.\<close>

definition doxfer_begin :: "nuc970_i2c \<Rightarrow> nuc970_i2c" where
  "doxfer_begin s =
    (let s = s\<lparr>msg := Some 0, msg_num := of_nat (length (msgs s)), msg_ptr := 0, msg_idx := 0,
           i2c_state := STATE_START\<rparr>
     in case msgs s of [] \<Rightarrow> bug_now s | m # _ \<Rightarrow> nuc970_i2c0_message_start m s)"

definition nuc970_i2c0_doxfer :: "xfer_env \<Rightarrow> nuc970_i2c \<Rightarrow> int \<times> nuc970_i2c" where
  "nuc970_i2c0_doxfer e s = (case nuc970_i2c0_set_master (polls e) of
     Inl _ \<Rightarrow> (- eno EAGAIN, s)
   | Inr _ \<Rightarrow>
      (let s = doxfer_begin s;
           (s, late) = i2c_wait (irqs e) s;
           ret = sint (msg_idx s);
           s = fold nuc970_i2c_irq late s
       in if arblost s \<noteq> 0 then
            (let s = nuc970_i2c0_stop 0 (s\<lparr>arblost := 0\<rparr>);
                 s = nuc970_i2c0_disable_irq (csr_last e) s
             in (- eno EAGAIN, nuc970_i2c0_hangup s))
          else (ret, s)))"

text \<open>The attempts of \<open>nuc970_i2c0_xfer\<close>, each with its own surroundings.\<close>

fun xfer_tries :: "nat \<Rightarrow> (nat \<Rightarrow> xfer_env) \<Rightarrow> nat \<Rightarrow> nuc970_i2c \<Rightarrow> int \<times> nuc970_i2c" where
  "xfer_tries 0 e k s = (- eno EREMOTEIO, s)"
| "xfer_tries (Suc retries) e k s =
    (let (ret, s') = nuc970_i2c0_doxfer (e k) s
     in if ret \<noteq> - eno EAGAIN then (ret, s') else xfer_tries retries e (Suc k) s')"

text \<open>The adapter is registered with two retries.\<close>

definition nuc970_i2c0_xfer :: "u32 \<Rightarrow> (nat \<Rightarrow> xfer_env) \<Rightarrow> i2c_msg list \<Rightarrow> nuc970_i2c \<Rightarrow> int \<times> nuc970_i2c" where
  "nuc970_i2c0_xfer csr e ms s = xfer_tries 2 e 0 (nuc970_i2c0_enable_irq csr (s\<lparr>msgs := ms\<rparr>))"

text \<open>Suspending waits until the state machine is idle, with the interrupts \<open>xs\<close> served meanwhile; \<open>None\<close>
  when it is still waiting after them.\<close>

definition nuc970_i2c0_suspend :: "i2c_in list \<Rightarrow> nuc970_i2c \<Rightarrow> nuc970_i2c option" where
  "nuc970_i2c0_suspend xs s =
    (let s = fold nuc970_i2c_irq xs s
     in if i2c_state s = STATE_IDLE then Some (writel 0x7 SWR (writel 0x1 SWR (writel 0x0 CSR s))) else None)"

section \<open>What the bus sees\<close>

text \<open>The controller acts on a write to its command register; the byte to send is the last one written
  to the transmit register.\<close>

datatype bus_event = Start u8 | Put u8 | Get bool | Stop | Other u32

definition cmd_event :: "u32 \<Rightarrow> u32 \<Rightarrow> bus_event" where
  "cmd_event c tx =
    (if c = I2C_CMD_START OR I2C_CMD_WRITE then Start (ucast tx)
     else if c = I2C_CMD_WRITE then Put (ucast tx)
     else if c = I2C_CMD_READ then Get True
     else if c = I2C_CMD_READ OR I2C_CMD_NACK then Get False
     else if c = I2C_CMD_STOP then Stop
     else Other c)"

fun decode :: "i2c_reg \<times> u32 \<Rightarrow> u32 \<times> bus_event list \<Rightarrow> u32 \<times> bus_event list" where
  "decode (r, v) (tx, es) =
    (if r = TXR then (v, es) else if r = CMDR then (tx, es @ [cmd_event v tx]) else (tx, es))"

definition events :: "(i2c_reg \<times> u32) list \<Rightarrow> bus_event list" where
  "events ws = snd (fold decode ws (0, []))"

lemma cmd_event_simps [simp]:
  "cmd_event (I2C_CMD_START OR I2C_CMD_WRITE) tx = Start (ucast tx)"
  "cmd_event I2C_CMD_WRITE tx = Put (ucast tx)" "cmd_event I2C_CMD_READ tx = Get True"
  "cmd_event (I2C_CMD_READ OR I2C_CMD_NACK) tx = Get False" "cmd_event I2C_CMD_STOP tx = Stop"
  by (simp_all add: cmd_event_def I2C_CMD_START_def I2C_CMD_WRITE_def I2C_CMD_READ_def I2C_CMD_NACK_def I2C_CMD_STOP_def)

lemma events_append:
  "events (ws @ [(TXR, v), (CMDR, c)]) = events ws @ [cmd_event c v]"
  "events (ws @ [(CSR, v)]) = events ws" "events (ws @ [(CSR, v), (CSR, v')]) = events ws"
  "events (ws @ [(CMDR, I2C_CMD_READ)]) = events ws @ [Get True]"
  "events (ws @ [(CMDR, I2C_CMD_READ OR I2C_CMD_NACK)]) = events ws @ [Get False]"
  "events (ws @ [(CMDR, I2C_CMD_STOP)]) = events ws @ [Stop]"
  by (cases "fold decode ws (0, [])"; simp add: events_def)+

text \<open>The address byte, the bytes of a message (its buffer may be longer), and the reference of a transfer that goes well.\<close>

definition addr_byte :: "i2c_msg \<Rightarrow> u8" where
  "addr_byte m = (push_bit 1 (ucast (addr m)) OR of_bool (I2C_M_RD \<in> set (flags m)))"

definition msg_data :: "i2c_msg \<Rightarrow> u8 list" where
  "msg_data m = take (unat (len m)) (buf m)"

definition body_ref :: "i2c_msg \<Rightarrow> bus_event list" where
  "body_ref m = (if I2C_M_RD \<in> set (flags m) then map (\<lambda>k. Get (Suc k < unat (len m))) [0..<unat (len m)]
     else map Put (msg_data m))"

fun msgs_ref :: "i2c_msg list \<Rightarrow> bus_event list" where
  "msgs_ref [] = [Stop]"
| "msgs_ref (m # ms) = Start (addr_byte m) # body_ref m @ msgs_ref ms"

lemma addr_byte_code:
  "(ucast ((if b then push_bit 1 (ucast a AND 0x7f) OR 0x1 else push_bit 1 (ucast a AND 0x7f) :: u32) AND 0xff) :: u8)
     = push_bit 1 (ucast (a :: u16)) OR of_bool b"
proof -
  have m: "(0xff :: u32) = mask 8" "(0x7f :: u32) = mask 7" by (simp_all add: mask_eq_exp_minus_1)
  have c: "(if b then push_bit 1 (ucast a AND 0x7f) OR 0x1 else push_bit 1 (ucast a AND 0x7f) :: u32)
      = push_bit 1 (ucast a AND 0x7f) OR of_bool b"
    by (cases b) (simp_all only: if_True if_False of_bool_eq or.right_neutral numeral_One)
  show ?thesis unfolding c unfolding m
    by (rule bit_word_eqI, unfold bit_unsigned_iff bit_and_iff bit_or_iff bit_push_bit_iff bit_mask_iff bit_unsigned_iff bit_and_iff)
      (auto simp: bit_1_iff bit_unsigned_iff)
qed

lemma start_event:
  "events (bus (nuc970_i2c0_message_start m s)) = events (bus s) @ [Start (addr_byte m)]"
proof -
  have "bus (nuc970_i2c0_message_start m s) = bus s @ [(TXR, (if I2C_M_RD \<in> set (flags m) then push_bit 1 (ucast (addr m) AND 0x7f) OR 0x1
      else push_bit 1 (ucast (addr m) AND 0x7f)) AND 0xff), (CMDR, I2C_CMD_START OR I2C_CMD_WRITE)]"
    unfolding nuc970_i2c0_message_start_def Let_def writel_def by simp
  then show ?thesis
    by (simp only: events_append cmd_event_simps addr_byte_code addr_byte_def)
qed

section \<open>Progress of a transfer\<close>

text \<open>\<open>here ms i p st es s\<close>: byte \<open>p\<close> of message \<open>i\<close> is next, the bus has seen \<open>es\<close>.
  \<open>complete ms r es s\<close>: the transfer is over with the value \<open>r\<close>.\<close>

definition here :: "i2c_msg list \<Rightarrow> nat \<Rightarrow> nat \<Rightarrow> nuc970_i2c_state \<Rightarrow> bus_event list \<Rightarrow> nuc970_i2c \<Rightarrow> bool" where
  "here ms i p st es s \<longleftrightarrow> msgs s = ms \<and> msg s = Some i \<and> msg_num s = of_nat (length ms) \<and> msg_idx s = of_nat i
     \<and> msg_ptr s = of_nat p \<and> i2c_state s = st \<and> arblost s = 0 \<and> \<not> bug s \<and> events (bus s) = es
     \<and> i < length ms \<and> length ms < 2 ^ 31 \<and> p \<le> 2 ^ 16"

definition complete :: "i2c_msg list \<Rightarrow> int \<Rightarrow> bus_event list \<Rightarrow> nuc970_i2c \<Rightarrow> bool" where
  "complete ms r es s \<longleftrightarrow> msgs s = ms \<and> msg_num s = 0 \<and> sint (msg_idx s) = r \<and> i2c_state s = STATE_STOP
     \<and> arblost s = 0 \<and> \<not> bug s \<and> events (bus s) = es"

text \<open>An interrupt after a byte that was acknowledged.\<close>

definition good_irq :: "i2c_in \<Rightarrow> bool" where
  "good_irq x \<longleftrightarrow> status x AND ARBIT_LOST = 0 \<and> status x AND SLAVE_ACK = 0"

definition msg_ok :: "i2c_msg \<Rightarrow> bool" where
  "msg_ok m \<longleftrightarrow> unat (len m) \<le> length (buf m) \<and> len m \<noteq> 0"

lemma length_data: "msg_ok m \<Longrightarrow> length (msg_data m) = unat (len m)"
  by (simp add: msg_ok_def msg_data_def)

lemma unat_len: "unat (ucast (l :: u16) :: u32) = unat l" "unat (l :: u16) < 2 ^ 16"
proof -
  have "unat l < 2 ^ LENGTH(16)" by (rule unsigned_less)
  then show "unat (ucast l :: u32) = unat l" "unat l < 2 ^ 16"
    by (simp_all add: unsigned_ucast_eq take_bit_nat_eq_self)
qed

lemma small_index:
  "k < 2 ^ 32 \<Longrightarrow> unat (of_nat k :: u32) = k" "k < 2 ^ 31 \<Longrightarrow> sint (of_nat k :: u32) = int k"
  by (simp_all add: unat_of_nat take_bit_nat_eq_self signed_of_nat signed_take_bit_int_eq_self)

lemma here_last:
  assumes "here ms i p st es s"
  shows "is_lastmsg s \<longleftrightarrow> Suc i = length ms"
proof -
  have l: "i < length ms" "length ms < 2 ^ 32" using assms by (auto simp: here_def)
  have "(of_nat (length ms) :: u32) \<noteq> 0" using l small_index(1)[of "length ms"] by force
  then have "unat (of_nat (length ms) - 1 :: u32) = length ms - 1"
    using l unat_minus_one[of "of_nat (length ms) :: u32"] by (simp add: small_index)
  moreover have "unat (of_nat i :: u32) = i" using l by (simp add: small_index)
  ultimately show ?thesis using assms l
    by (auto simp: is_lastmsg_def here_def word_le_nat_alt)
qed

lemma here_ptr:
  assumes "here ms i p st es s"
  shows "is_msgend m s \<longleftrightarrow> unat (len m) \<le> p" "unat (msg_ptr s) = p"
    "len m \<noteq> 0 \<Longrightarrow> is_msglast m s \<longleftrightarrow> Suc p = unat (len m)"
proof -
  have p: "p \<le> 2 ^ 16" "msg_ptr s = of_nat p" using assms by (simp_all add: here_def)
  then show u: "unat (msg_ptr s) = p" by (simp add: unat_of_nat take_bit_nat_eq_self)
  show "is_msgend m s \<longleftrightarrow> unat (len m) \<le> p" by (simp add: is_msgend_def word_le_nat_alt unat_len u)
  assume "len m \<noteq> 0"
  then have "unat (len m) \<noteq> 0" by (simp add: unat_eq_0)
  moreover have "unat (ucast (len m) - 1 :: u32) = unat (len m) - 1"
    using unat_minus_one[of "ucast (len m) :: u32"] calculation by (metis unat_len(1) unat_0)
  ultimately show "is_msglast m s \<longleftrightarrow> Suc p = unat (len m)"
    unfolding is_msglast_def word_unat_eq_iff u by auto
qed

lemma here_cur: "here ms i p st es s \<Longrightarrow> cur_msg s = Some (ms ! i)"
  by (simp add: here_def cur_msg_def)

lemma here_irq:
  assumes "here ms i p st es s" "good_irq x" "st \<noteq> STATE_IDLE"
  shows "\<exists>s1. here ms i p st es s1 \<and> nuc970_i2c_irq x s = i2c_nuc970_irq_nextbyte x s1"
  using assms by (intro exI[of _ "writel (status x OR IRQFLAG) CSR s"])
    (auto simp: nuc970_i2c_irq_def Let_def writel_def good_irq_def here_def events_append)

lemma here_put:
  assumes "here ms i p st es s" "p < 2 ^ 16"
  shows "here ms i (Suc p) st (es @ [Put b])
     (writel I2C_CMD_WRITE CMDR (writel (ucast b) TXR (s\<lparr>msg_ptr := msg_ptr s + 1\<rparr>)))"
proof -
  have "(ucast (ucast b :: u32) :: u8) = b" by (rule bit_word_eqI) (auto simp: bit_unsigned_iff)
  then show ?thesis using assms events_append(1)[of "bus s" "ucast b" I2C_CMD_WRITE]
    by (simp add: here_def writel_def)
qed

lemma here_next:
  assumes "here ms i p st es s" "Suc i < length ms"
  shows "here ms (Suc i) 0 STATE_START (es @ [Start (addr_byte m)])
     ((nuc970_i2c0_message_start m (next_msg s))\<lparr>i2c_state := STATE_START\<rparr>)"
  using assms start_event[of m "next_msg s"]
  by (simp add: here_def next_msg_def nuc970_i2c0_message_start_def Let_def writel_def add.commute)

lemma here_stop:
  assumes "here ms i p st es s" "Suc i = length ms"
  shows "complete ms (int (length ms)) (es @ [Stop]) (nuc970_i2c0_stop 0 s)"
proof -
  have "sint (of_nat (Suc i) :: u32) = int (Suc i)"
    using assms by (intro small_index) (simp add: here_def)
  moreover have "msg_idx s + 1 = of_nat (Suc i)" using assms(1) by (simp add: here_def add.commute)
  ultimately show ?thesis using assms
    by (simp add: complete_def here_def nuc970_i2c0_stop_def nuc970_i2c0_master_complete_def Let_def writel_def
        events_append del: of_nat_Suc)
qed

text \<open>One interrupt in each situation.\<close>

lemma irq_write:
  assumes "here ms i p st es s" "good_irq x" "st = STATE_START \<and> p = 0 \<or> st = STATE_WRITE"
    "m = ms ! i" "msg_ok m" "I2C_M_RD \<notin> set (flags m)" "p < unat (len m)"
  shows "here ms i (Suc p) STATE_WRITE (es @ [Put (buf m ! p)]) (nuc970_i2c_irq x s)"
proof -
  obtain s1 where s1: "here ms i p st es s1" "nuc970_i2c_irq x s = i2c_nuc970_irq_nextbyte x s1"
    using here_irq[OF assms(1,2)] assms(3) by auto
  let ?s = "s1\<lparr>i2c_state := STATE_WRITE\<rparr>"
  have w: "here ms i p STATE_WRITE es ?s" using s1(1) by (simp add: here_def)
  have a: "status x AND SLAVE_ACK = 0" using assms(2) by (simp add: good_irq_def)
  have p: "p < unat (len m)" "len m \<noteq> 0" "p < 2 ^ 16" "p < length (buf m)"
    using assms(5,7) unat_len(2)[of "len m"] by (auto simp: msg_ok_def)
  have "state_write (status x) ?s = writel I2C_CMD_WRITE CMDR (writel (ucast (buf m ! p)) TXR (?s\<lparr>msg_ptr := msg_ptr ?s + 1\<rparr>))"
    using here_ptr[OF w] here_cur[OF w] assms(4,7) a p
    by (simp add: state_write_def retry_write.simps[of ?s])
  moreover have "i2c_nuc970_irq_nextbyte x s1 = state_write (status x) ?s"
  proof (cases "st = STATE_START")
    case True
    then show ?thesis using s1(1) here_cur[OF s1(1)] a p assms(4,6)
      by (simp add: i2c_nuc970_irq_nextbyte_def here_def state_start_def)
  next
    case False
    then have st: "i2c_state s1 = STATE_WRITE" using s1(1) assms(3) by (simp add: here_def)
    then have eq: "?s = s1" by simp
    show ?thesis unfolding eq by (simp add: i2c_nuc970_irq_nextbyte_def st)
  qed
  ultimately show ?thesis using here_put[OF w p(3), of "buf m ! p"] s1(2) by simp
qed

lemma irq_write_end:
  assumes "here ms i p STATE_WRITE es s" "good_irq x" "p = unat (len (ms ! i))"
  shows "Suc i = length ms \<Longrightarrow> complete ms (int (length ms)) (es @ [Stop]) (nuc970_i2c_irq x s)"
    and "Suc i < length ms \<Longrightarrow> I2C_M_NOSTART \<notin> set (flags (ms ! Suc i)) \<Longrightarrow>
      here ms (Suc i) 0 STATE_START (es @ [Start (addr_byte (ms ! Suc i))]) (nuc970_i2c_irq x s)"
proof -
  obtain s1 where s1: "here ms i p STATE_WRITE es s1" "nuc970_i2c_irq x s = i2c_nuc970_irq_nextbyte x s1"
    using here_irq[OF assms(1,2)] by auto
  have "i2c_state s1 = STATE_WRITE" using s1(1) by (simp add: here_def)
  then have w: "nuc970_i2c_irq x s = retry_write s1"
    using s1 here_cur[OF s1(1)] assms(2) by (simp add: i2c_nuc970_irq_nextbyte_def state_write_def good_irq_def)
  note c = here_cur[OF s1(1)] here_ptr[OF s1(1)] here_last[OF s1(1)]
  {
    assume "Suc i = length ms"
    then show "complete ms (int (length ms)) (es @ [Stop]) (nuc970_i2c_irq x s)"
      using here_stop[OF s1(1)] c assms(3) by (simp add: w retry_write.simps[of s1])
  next
    assume n: "Suc i < length ms" "I2C_M_NOSTART \<notin> set (flags (ms ! Suc i))"
    then have "cur_msg (next_msg s1) = Some (ms ! Suc i)"
      using s1(1) by (simp add: cur_msg_def next_msg_def here_def)
    then show "here ms (Suc i) 0 STATE_START (es @ [Start (addr_byte (ms ! Suc i))]) (nuc970_i2c_irq x s)"
      using here_next[OF s1(1) n(1)] c n assms(3) by (simp add: w retry_write.simps[of s1] Let_def)
  }
qed

lemma prepare_read_last:
  assumes "here ms i p st es s" "Suc i = length ms" "m = ms ! i" "len m \<noteq> 0"
  shows "p < unat (len m) \<Longrightarrow> here ms i p st (es @ [Get (Suc p < unat (len m))]) (prepare_read s)"
    and "p = unat (len m) \<Longrightarrow> complete ms (int (length ms)) (es @ [Stop]) (prepare_read s)"
proof -
  note c = here_cur[OF assms(1)] here_ptr[OF assms(1)] here_last[OF assms(1)]
  have h: "here ms i p st (es @ [Get True]) (writel I2C_CMD_READ CMDR s)"
    "here ms i p st (es @ [Get False]) (writel (I2C_CMD_READ OR I2C_CMD_NACK) CMDR s)"
    using assms(1) by (simp_all add: here_def writel_def events_append)
  show "p < unat (len m) \<Longrightarrow> here ms i p st (es @ [Get (Suc p < unat (len m))]) (prepare_read s)"
    using h c assms(2-4) by (auto simp: prepare_read_def)
  show "p = unat (len m) \<Longrightarrow> complete ms (int (length ms)) (es @ [Stop]) (prepare_read s)"
    using here_stop[OF assms(1,2)] c assms(2-4) by (simp add: prepare_read_def)
qed

lemma irq_read_start:
  assumes "here ms i 0 STATE_START es s" "good_irq x" "Suc i = length ms" "m = ms ! i" "len m \<noteq> 0"
    "I2C_M_RD \<in> set (flags m)"
  shows "here ms i 0 STATE_READ (es @ [Get (1 < unat (len m))]) (nuc970_i2c_irq x s)"
proof -
  obtain s1 where s1: "here ms i 0 STATE_START es s1" "nuc970_i2c_irq x s = i2c_nuc970_irq_nextbyte x s1"
    using here_irq[OF assms(1,2)] by auto
  let ?s = "s1\<lparr>i2c_state := STATE_READ\<rparr>"
  have w: "here ms i 0 STATE_READ es ?s" using s1(1) by (simp add: here_def)
  have "i2c_nuc970_irq_nextbyte x s1 = prepare_read ?s"
    using s1(1) here_cur[OF s1(1)] assms(2,4-6)
    by (simp add: i2c_nuc970_irq_nextbyte_def here_def state_start_def good_irq_def)
  then show ?thesis using prepare_read_last(1)[OF w assms(3-5)] s1(2) assms(5) by (simp add: unat_gt_0)
qed

lemma irq_read:
  assumes "here ms i p STATE_READ es s" "good_irq x" "Suc i = length ms" "m = ms ! i" "msg_ok m" "p < unat (len m)"
  defines "ms' \<equiv> ms[i := m\<lparr>buf := (buf m)[p := ucast (rxr x)]\<rparr>]"
  shows "Suc p < unat (len m) \<Longrightarrow>
      here ms' i (Suc p) STATE_READ (es @ [Get (Suc (Suc p) < unat (len m))]) (nuc970_i2c_irq x s)"
    and "Suc p = unat (len m) \<Longrightarrow> complete ms' (int (length ms)) (es @ [Stop]) (nuc970_i2c_irq x s)"
proof -
  obtain s1 where s1: "here ms i p STATE_READ es s1" "nuc970_i2c_irq x s = i2c_nuc970_irq_nextbyte x s1"
    using here_irq[OF assms(1,2)] by auto
  let ?s = "s1\<lparr>msgs := ms', msg_ptr := msg_ptr s1 + 1\<rparr>"
  have l: "unat (len m) \<le> length (buf m)" "len m \<noteq> 0" "unat (len m) < 2 ^ 16"
    using assms(5) unat_len(2) by (simp_all add: msg_ok_def)
  have w: "here ms' i (Suc p) STATE_READ es ?s"
    using s1(1) assms(6) l by (simp add: here_def ms'_def add.commute)
  have m': "ms' ! i = m\<lparr>buf := (buf m)[p := ucast (rxr x)]\<rparr>" "Suc i = length ms'"
    using assms(3) by (simp_all add: ms'_def)
  have e: "nuc970_i2c_irq x s = prepare_read ?s"
    using s1 here_cur[OF s1(1)] here_ptr(2)[OF s1(1)] assms(4,6) l(1)
    by (simp add: i2c_nuc970_irq_nextbyte_def here_def state_read_def ms'_def)
  note q = prepare_read_last[OF w m'(2) refl]
  show "Suc p < unat (len m) \<Longrightarrow>
      here ms' i (Suc p) STATE_READ (es @ [Get (Suc (Suc p) < unat (len m))]) (nuc970_i2c_irq x s)"
    using q(1) l by (simp add: e m'(1))
  show "Suc p = unat (len m) \<Longrightarrow> complete ms' (int (length ms)) (es @ [Stop]) (nuc970_i2c_irq x s)"
    using q(2) l assms(3) m'(2) by (simp add: e m'(1))
qed

section \<open>A transfer from start to end\<close>

lemma here_busy: "here ms i p st es s \<Longrightarrow> msg_num s \<noteq> 0"
proof
  assume h: "here ms i p st es s" and "msg_num s = 0"
  then have "unat (of_nat (length ms) :: u32) = 0" "length ms < 2 ^ 32" by (simp_all add: here_def)
  then show False using h by (simp add: small_index here_def)
qed

lemma complete_idle: "complete ms r es s \<Longrightarrow> i2c_wait zs s = (s, zs)"
  by (cases zs) (simp_all add: complete_def)

lemma wait_write_part:
  assumes "here ms i p st es s" "list_all good_irq xs" "st = STATE_START \<and> p = 0 \<or> st = STATE_WRITE"
    "m = ms ! i" "msg_ok m" "I2C_M_RD \<notin> set (flags m)" "p + length xs \<le> unat (len m)" "xs \<noteq> []"
  shows "\<exists>s'. i2c_wait (xs @ zs) s = i2c_wait zs s'
    \<and> here ms i (p + length xs) STATE_WRITE (es @ map Put (take (length xs) (drop p (msg_data m)))) s'"
  using assms
proof (induction xs arbitrary: s p st es)
  case (Cons x xs)
  have p: "p < unat (len m)" using Cons.prems(7) by simp
  have h: "here ms i (Suc p) STATE_WRITE (es @ [Put (buf m ! p)]) (nuc970_i2c_irq x s)"
    using Cons.prems by (intro irq_write[OF Cons.prems(1)]) auto
  have w: "i2c_wait ((x # xs) @ zs) s = i2c_wait (xs @ zs) (nuc970_i2c_irq x s)"
    using here_busy[OF Cons.prems(1)] by simp
  have d: "drop p (msg_data m) = buf m ! p # drop (Suc p) (msg_data m)"
    using p length_data[OF Cons.prems(5)] Cons_nth_drop_Suc[of p "msg_data m"] by (simp add: msg_data_def)
  show ?case
  proof (cases "xs = []")
    case True
    then show ?thesis using h w d by (intro exI[of _ "nuc970_i2c_irq x s"]) simp
  next
    case False
    from Cons.IH[OF h] show ?thesis unfolding w d using Cons.prems False by simp
  qed
qed simp

lemma wait_write:
  assumes "here ms i p st es s" "list_all good_irq xs" "st = STATE_START \<and> p = 0 \<or> st = STATE_WRITE"
    "m = ms ! i" "msg_ok m" "I2C_M_RD \<notin> set (flags m)" "p + length xs = unat (len m)" "xs \<noteq> []"
  shows "\<exists>s'. i2c_wait (xs @ zs) s = i2c_wait zs s' \<and> here ms i (unat (len m)) STATE_WRITE (es @ map Put (drop p (msg_data m))) s'"
  using wait_write_part[OF assms(1-6) _ assms(8), of zs] assms(7)[symmetric] length_data[OF assms(5)] by simp

lemma wait_read:
  assumes "here (ms[i := m\<lparr>buf := got @ drop (length got) (buf m)\<rparr>]) i (length got) STATE_READ es s" "list_all good_irq xs"
    "Suc i = length ms" "m = ms ! i" "msg_ok m" "length got + length xs = unat (len m)" "xs \<noteq> []"
  shows "\<exists>s'. i2c_wait (xs @ zs) s = (s', zs) \<and> complete (ms[i := m\<lparr>buf := got @ map (ucast \<circ> rxr) xs @ drop (unat (len m)) (buf m)\<rparr>]) (int (length ms))
     (es @ map (\<lambda>k. Get (Suc k < unat (len m))) [Suc (length got)..<unat (len m)] @ [Stop]) s'"
  using assms
proof (induction xs arbitrary: s got es)
  case (Cons x xs)
  let ?p = "length got"
  let ?m = "m\<lparr>buf := got @ drop ?p (buf m)\<rparr>"
  let ?ms = "ms[i := ?m]"
  have p: "?p < unat (len m)" "?p < length (buf m)" using Cons.prems(5,6) by (simp_all add: msg_ok_def)
  have up: "(got @ drop ?p (buf m))[?p := ucast (rxr x)] = got @ ucast (rxr x) # drop (Suc ?p) (buf m)"
    using p(2) by (simp add: list_update_append Cons_nth_drop_Suc[symmetric])
  have l: "len ?m = len m" "msg_ok ?m" "?ms ! i = ?m" "Suc i = length ?ms"
    using p Cons.prems(3-5) by (simp_all add: msg_ok_def)
  note r = irq_read[OF Cons.prems(1) _ l(4) l(3)[symmetric] l(2), of x, unfolded l(1)]
  have w: "i2c_wait ((x # xs) @ zs) s = i2c_wait (xs @ zs) (nuc970_i2c_irq x s)"
    using here_busy[OF Cons.prems(1)] by simp
  show ?case
  proof (cases "xs = []")
    case True
    then have "complete (ms[i := m\<lparr>buf := got @ [ucast (rxr x)] @ drop (unat (len m)) (buf m)\<rparr>]) (int (length ms)) (es @ [Stop]) (nuc970_i2c_irq x s)"
      using r(2) p Cons.prems up by simp
    then show ?thesis unfolding w using True complete_idle Cons.prems(6) by fastforce
  next
    case False
    then have "here (ms[i := m\<lparr>buf := (got @ [ucast (rxr x)]) @ drop (length (got @ [ucast (rxr x)])) (buf m)\<rparr>]) i
        (length (got @ [ucast (rxr x)])) STATE_READ (es @ [Get (Suc (Suc ?p) < unat (len m))]) (nuc970_i2c_irq x s)"
      using r(1) p Cons.prems up by (cases xs) simp_all
    from Cons.IH[OF this] show ?thesis unfolding w using Cons.prems False
      by (cases xs) (simp_all add: upt_conv_Cons[of "Suc ?p"])
  qed
qed simp

text \<open>A message set the driver can handle: no empty message, no continued message, and reading only in the
  last message; and what the caller's array holds after the interrupts \<open>xs\<close>.\<close>

definition msgs_ok :: "i2c_msg list \<Rightarrow> bool" where
  "msgs_ok ms \<longleftrightarrow> ms \<noteq> [] \<and> length ms < 2 ^ 31 \<and> list_all msg_ok ms
     \<and> list_all (\<lambda>m. I2C_M_NOSTART \<notin> set (flags m)) ms
     \<and> list_all (\<lambda>m. I2C_M_RD \<notin> set (flags m)) (butlast ms)"

definition irq_count :: "i2c_msg list \<Rightarrow> nat" where
  "irq_count ms = (\<Sum>m\<leftarrow>ms. Suc (unat (len m)))"

definition received :: "i2c_msg list \<Rightarrow> i2c_in list \<Rightarrow> i2c_msg list" where
  "received ms xs =
    (let m = last ms in if I2C_M_RD \<in> set (flags m)
     then ms[length ms - 1 := m\<lparr>buf := map (ucast \<circ> rxr) (drop (length xs - unat (len m)) xs) @ drop (unat (len m)) (buf m)\<rparr>] else ms)"

lemma msg_ok_pos: "msg_ok m \<Longrightarrow> 0 < unat (len m)"
  by (simp add: msg_ok_def unat_gt_0)

lemma drop_suffix: "k \<le> length bs \<Longrightarrow> drop (length (as @ bs) - k) (as @ bs) = drop (length bs - k) bs"
  by simp

lemma last_nth: "Suc i = length ms \<Longrightarrow> last ms = ms ! i"
  by (metis diff_Suc_1 last_conv_nth length_0_conv nat.distinct(1))

lemma drop_ConsD:
  assumes "drop i ms = m # rest"
  shows "i < length ms" "ms ! i = m" "drop (Suc i) ms = rest" "length ms = Suc (i + length rest)"
proof -
  show i: "i < length ms" using assms by (metis drop_all list.distinct(1) not_le_imp_less)
  show "ms ! i = m" "drop (Suc i) ms = rest" using Cons_nth_drop_Suc[OF i] assms by simp_all
  show "length ms = Suc (i + length rest)" using arg_cong[OF assms, of length] i by simp
qed

lemma wait_last:
  assumes "here ms i 0 STATE_START es s" "Suc i = length ms" "m = ms ! i" "msg_ok m"
    "list_all good_irq xs" "length xs = Suc (unat (len m))"
  shows "\<exists>s'. i2c_wait (xs @ zs) s = (s', zs) \<and> complete (received ms xs) (int (length ms)) (es @ body_ref m @ [Stop]) s'"
proof (cases "I2C_M_RD \<in> set (flags m)")
  case True
  obtain y ys where xs: "xs = y # ys" "length ys = unat (len m)" using assms(6) by (cases xs) auto
  have l: "unat (len m) \<le> length (buf m)" "len m \<noteq> 0" using assms(4) by (simp_all add: msg_ok_def)
  have n: "0 < unat (len m)" "ys \<noteq> []" using msg_ok_pos[OF assms(4)] xs(2) by auto
  have m: "last ms = m" "length ms - Suc 0 = i" using last_nth[OF assms(2)] assms(2,3) by simp_all
  have "here (ms[i := m\<lparr>buf := [] @ drop (length ([] :: u8 list)) (buf m)\<rparr>]) i (length ([] :: u8 list)) STATE_READ
      (es @ [Get (1 < unat (len m))]) (nuc970_i2c_irq y s)"
    using irq_read_start[OF assms(1) _ assms(2,3) l(2) True, of y] assms(5) xs l by (simp add: assms(3))
  from wait_read[OF this, of ys zs] assms(2-5) xs n obtain s' where s':
    "i2c_wait (ys @ zs) (nuc970_i2c_irq y s) = (s', zs)"
    "complete (ms[i := m\<lparr>buf := map (ucast \<circ> rxr) ys @ drop (unat (len m)) (buf m)\<rparr>]) (int (length ms))
      ((es @ [Get (1 < unat (len m))]) @ map (\<lambda>k. Get (Suc k < unat (len m))) [1..<unat (len m)] @ [Stop]) s'"
    by auto
  have "body_ref m = Get (1 < unat (len m)) # map (\<lambda>k. Get (Suc k < unat (len m))) [1..<unat (len m)]"
    using True l n by (simp add: body_ref_def upt_conv_Cons)
  moreover have "received ms xs = ms[i := m\<lparr>buf := map (ucast \<circ> rxr) ys @ drop (unat (len m)) (buf m)\<rparr>]"
    using True xs by (simp add: received_def m)
  ultimately show ?thesis using s' here_busy[OF assms(1)] xs by simp
next
  case False
  obtain ys y where xs: "xs = ys @ [y]" "length ys = unat (len m)" using assms(6) by (cases xs rule: rev_cases) auto
  have l: "unat (len m) \<le> length (buf m)" "len m \<noteq> 0" using assms(4) by (simp_all add: msg_ok_def)
  have n: "ys \<noteq> []" using msg_ok_pos[OF assms(4)] xs(2) by auto
  obtain s1 where s1: "i2c_wait (ys @ [y] @ zs) s = i2c_wait ([y] @ zs) s1"
    "here ms i (unat (len m)) STATE_WRITE (es @ map Put (drop 0 (msg_data m))) s1"
    using wait_write[OF assms(1) _ _ assms(3,4) False, of ys "[y] @ zs"] assms(5) xs n by auto
  have "complete ms (int (length ms)) ((es @ map Put (msg_data m)) @ [Stop]) (nuc970_i2c_irq y s1)"
    using irq_write_end(1)[OF s1(2), of y] assms(2,3,5) xs l by simp
  moreover have "last ms = m" using last_nth[OF assms(2)] assms(3) by simp
  ultimately show ?thesis
    using s1(1) here_busy[OF s1(2)] False by (simp add: xs received_def body_ref_def complete_idle)
qed

lemma irq_count_ge: "m \<in> set ms \<Longrightarrow> unat (len m) \<le> irq_count ms"
  by (induction ms) (auto simp: irq_count_def)

lemma wait_msgs:
  assumes "here ms i 0 STATE_START es s" "drop i ms = m # rest" "list_all msg_ok (m # rest)"
    "list_all (\<lambda>m. I2C_M_NOSTART \<notin> set (flags m)) rest" "list_all (\<lambda>m. I2C_M_RD \<notin> set (flags m)) (butlast (m # rest))"
    "list_all good_irq xs" "length xs = irq_count (m # rest)"
  shows "\<exists>s'. i2c_wait (xs @ zs) s = (s', zs)
     \<and> complete (received ms xs) (int (length ms)) (es @ body_ref m @ msgs_ref rest) s'"
  using assms
proof (induction rest arbitrary: i m es s xs)
  case Nil
  have i: "Suc i = length ms" "m = ms ! i" using drop_ConsD[OF Nil.prems(2)] by simp_all
  show ?case using wait_last[OF Nil.prems(1) i] Nil.prems by (simp add: irq_count_def)
next
  case (Cons m' rest)
  note i = drop_ConsD[OF Cons.prems(2)] and j = drop_ConsD[OF drop_ConsD(3)[OF Cons.prems(2)]]
  define n where "n = unat (len m)"
  define ys y xs' where "ys = take n xs" and "y = xs ! n" and "xs' = drop (Suc n) xs"
  have "length xs = Suc n + irq_count (m' # rest)"
    using Cons.prems(7) by (simp add: irq_count_def n_def)
  then have n: "n < length xs" and xs: "length ys = n" "length xs' = irq_count (m' # rest)"
    by (simp_all add: ys_def xs'_def)
  have xs: "xs = ys @ [y] @ xs'" "length ys = n" "length xs' = irq_count (m' # rest)"
    using id_take_nth_drop[OF n] xs by (simp_all add: ys_def y_def xs'_def)
  have g: "list_all good_irq ys" "good_irq y" "list_all good_irq xs'" using Cons.prems(6) unfolding xs(1) by simp_all
  have ok: "msg_ok m" "I2C_M_RD \<notin> set (flags m)" using Cons.prems(3,5) by simp_all
  have "ys \<noteq> []" using msg_ok_pos[OF ok(1)] xs(2) by (auto simp: n_def)
  then obtain s1 where s1: "i2c_wait (ys @ [y] @ xs' @ zs) s = i2c_wait ([y] @ xs' @ zs) s1"
    "here ms i n STATE_WRITE (es @ map Put (drop 0 (msg_data m))) s1"
    using wait_write[OF Cons.prems(1) g(1) _ i(2)[symmetric] ok, of "[y] @ xs' @ zs"] xs(2) by (auto simp: n_def)
  have "here ms (Suc i) 0 STATE_START ((es @ map Put (drop 0 (msg_data m))) @ [Start (addr_byte m')]) (nuc970_i2c_irq y s1)"
    using irq_write_end(2)[OF s1(2) g(2)] i(2) j ok(1) Cons.prems(4) by (simp add: n_def msg_ok_def)
  from Cons.IH[OF this i(3) _ _ _ g(3) xs(3)] Cons.prems
  have "\<exists>s'. i2c_wait (xs' @ zs) (nuc970_i2c_irq y s1) = (s', zs) \<and> complete (received ms xs') (int (length ms))
      ((es @ map Put (msg_data m) @ [Start (addr_byte m')]) @ body_ref m' @ msgs_ref rest) s'"
    by simp
  moreover have "received ms xs' = received ms xs"
  proof -
    have "last ms = last (m' # rest)" using i(3) j(1) by (metis last_drop)
    then have "last ms \<in> set (m' # rest)" by (metis last_in_set list.distinct(1))
    then have "unat (len (last ms)) \<le> length xs'"
      unfolding xs(3) by (rule irq_count_ge)
    then show ?thesis using drop_suffix[of "unat (len (last ms))" xs' "ys @ [y]"] by (simp add: received_def Let_def xs(1))
  qed
  ultimately show ?case
    using s1(1) here_busy[OF s1(2)] ok(2) by (simp add: xs(1) body_ref_def)
qed

section \<open>Transfers\<close>

text \<open>Surroundings in which the bus is free within the 400 polls.\<close>

lemma set_master_free:
  "k \<le> j \<Longrightarrow> j < k + n \<Longrightarrow> fst (p j) AND I2CSTART = I2CSTART \<Longrightarrow> snd (p j) AND I2CBUSY = 0 \<Longrightarrow>
     set_master_polls n p k = Inr ()"
proof (induction n arbitrary: k)
  case (Suc n)
  then show ?case by (cases "j = k") auto
qed simp

lemma set_master_busy:
  "(\<And>j. k \<le> j \<Longrightarrow> j < k + n \<Longrightarrow> \<not> (fst (p j) AND I2CSTART = I2CSTART \<and> snd (p j) AND I2CBUSY = 0)) \<Longrightarrow>
     set_master_polls n p k = Inl ETIMEDOUT"
  by (induction n arbitrary: k) auto

definition bus_free :: "xfer_env \<Rightarrow> bool" where
  "bus_free e \<longleftrightarrow> nuc970_i2c0_set_master (polls e) = Inr ()"

lemma stop_irq:
  assumes "complete ms r es s" "status x AND ARBIT_LOST = 0"
  shows "i2c_state (nuc970_i2c_irq x s) = STATE_IDLE" "msgs (nuc970_i2c_irq x s) = ms" "arblost (nuc970_i2c_irq x s) = 0"
    "\<not> bug (nuc970_i2c_irq x s)" "events (bus (nuc970_i2c_irq x s)) = es"
  using assms by (simp_all add: nuc970_i2c_irq_def complete_def Let_def writel_def i2c_nuc970_irq_nextbyte_def
      nuc970_i2c0_disable_irq_def events_append)

lemma doxfer_start:
  assumes "msgs_ok (msgs s)" "arblost s = 0" "\<not> bug s"
  shows "here (msgs s) 0 0 STATE_START (events (bus s) @ [Start (addr_byte (hd (msgs s)))]) (doxfer_begin s)"
proof -
  let ?s1 = "s\<lparr>msg := Some 0, msg_num := of_nat (length (msgs s)), msg_ptr := 0, msg_idx := 0, i2c_state := STATE_START\<rparr>"
  obtain m ms where ms: "msgs s = m # ms" using assms(1) by (cases "msgs s") (auto simp: msgs_ok_def)
  show ?thesis using assms start_event[of m ?s1]
    by (simp add: doxfer_begin_def ms here_def nuc970_i2c0_message_start_def Let_def writel_def msgs_ok_def)
qed

text \<open>An attempt, given how the wait ends.\<close>

lemma doxfer_complete:
  assumes "bus_free e" "msgs_ok (msgs s)" "arblost s = 0" "\<not> bug s" "status y AND ARBIT_LOST = 0"
    and "\<And>s2. here (msgs s) 0 0 STATE_START (events (bus s) @ [Start (addr_byte (hd (msgs s)))]) s2 \<Longrightarrow>
       \<exists>s3. i2c_wait (irqs e) s2 = (s3, [y]) \<and> complete ms' r (events (bus s) @ es) s3"
  shows "\<exists>s'. nuc970_i2c0_doxfer e s = (r, s') \<and> msgs s' = ms' \<and> events (bus s') = events (bus s) @ es
     \<and> i2c_state s' = STATE_IDLE \<and> arblost s' = 0 \<and> \<not> bug s'"
proof -
  obtain s3 where s3: "i2c_wait (irqs e) (doxfer_begin s) = (s3, [y])" "complete ms' r (events (bus s) @ es) s3"
    using assms(6)[OF doxfer_start[OF assms(2-4)]] by blast
  note z = stop_irq[OF s3(2) assms(5)]
  have "sint (msg_idx s3) = r" using s3(2) by (simp add: complete_def)
  then have "nuc970_i2c0_doxfer e s = (r, nuc970_i2c_irq y s3)"
    using assms(1) s3(1) z(3) by (simp add: nuc970_i2c0_doxfer_def bus_free_def Let_def)
  then show ?thesis using z by blast
qed

lemma xfer_complete:
  assumes "bus_free (e 0)" "msgs_ok ms" "arblost s = 0" "\<not> bug s" "status y AND ARBIT_LOST = 0" "r \<noteq> - 11"
    and "\<And>s2. here ms 0 0 STATE_START (events (bus s) @ [Start (addr_byte (hd ms))]) s2 \<Longrightarrow>
       \<exists>s3. i2c_wait (irqs (e 0)) s2 = (s3, [y]) \<and> complete ms' r (events (bus s) @ es) s3"
  shows "let (r', s') = nuc970_i2c0_xfer csr e ms s in
     r' = r \<and> msgs s' = ms' \<and> events (bus s') = events (bus s) @ es \<and> i2c_state s' = STATE_IDLE
     \<and> arblost s' = 0 \<and> \<not> bug s'"
proof -
  let ?s0 = "nuc970_i2c0_enable_irq csr (s\<lparr>msgs := ms\<rparr>)"
  have s0: "msgs ?s0 = ms" "arblost ?s0 = 0" "\<not> bug ?s0" "events (bus ?s0) = events (bus s)"
    using assms(3,4) by (simp_all add: nuc970_i2c0_enable_irq_def writel_def events_append)
  obtain s' where "nuc970_i2c0_doxfer (e 0) ?s0 = (r, s')" "msgs s' = ms'" "events (bus s') = events (bus s) @ es"
    "i2c_state s' = STATE_IDLE" "arblost s' = 0" "\<not> bug s'"
    using doxfer_complete[of "e 0" ?s0 y ms' r es, unfolded s0] assms s0(2,3) by blast
  then show ?thesis using assms(6) by (simp add: nuc970_i2c0_xfer_def numeral_2_eq_2 Let_def)
qed

lemma xfer_good:
  assumes "msgs_ok ms" "bus_free (e 0)" "arblost s = 0" "\<not> bug s"
    and "irqs (e 0) = xs @ [y]" "list_all good_irq xs" "length xs = irq_count ms" "status y AND ARBIT_LOST = 0"
  shows "let (r, s') = nuc970_i2c0_xfer csr e ms s in
     r = int (length ms) \<and> events (bus s') = events (bus s) @ msgs_ref ms \<and> msgs s' = received ms xs
     \<and> i2c_state s' = STATE_IDLE \<and> arblost s' = 0 \<and> \<not> bug s'"
proof -
  obtain m rest where ms: "ms = m # rest" using assms(1) by (cases ms) (auto simp: msgs_ok_def)
  have w: "\<exists>s3. i2c_wait (irqs (e 0)) s2 = (s3, [y])
      \<and> complete (received ms xs) (int (length ms)) (events (bus s) @ msgs_ref ms) s3"
    if h: "here ms 0 0 STATE_START (events (bus s) @ [Start (addr_byte (hd ms))]) s2" for s2
    using wait_msgs[OF h, of m rest xs "[y]"] assms(1,5-7) ms by (simp add: msgs_ok_def)
  have "int (length ms) \<noteq> - 11" by simp
  from xfer_complete[where e = e and csr = csr, OF assms(2,1,3,4,8) this w] show ?thesis by (auto simp: Let_def)
qed

text \<open>C3. A transfer that goes well.  For every set of messages without an empty or a continued message and
  with reading only in the last one: when the bus is free within the 400 polls and every byte is
  acknowledged, \<open>nuc970_i2c0_xfer\<close> returns the number of messages; the bus has seen, for every message, its
  start with the address byte and its bytes, the bytes of a final read acknowledged except the last, and one
  stop; the bytes received are in the buffer of the last message in order, and the state machine is idle
  again after the interrupt of the stop.\<close>

theorem i2c_xfer_ok:
  assumes "msgs_ok ms" "bus_free (e 0)" "arblost s = 0" "\<not> bug s"
    and "irqs (e 0) = xs @ [y]" "list_all good_irq xs" "length xs = irq_count ms" "status y AND ARBIT_LOST = 0"
  shows "let (r, s') = nuc970_i2c0_xfer csr e ms s in
     r = int (length ms) \<and> events (bus s') = events (bus s) @ msgs_ref ms \<and> msgs s' = received ms xs
     \<and> i2c_state s' = STATE_IDLE \<and> arblost s' = 0 \<and> \<not> bug s'"
  using assms by (rule xfer_good)

definition i2c0 :: nuc970_i2c where
  "i2c0 = \<lparr>msgs = [], msg = None, msg_num = 0, msg_idx = 0, msg_ptr = 0, arblost = 0, i2c_state = STATE_IDLE,
     bus = [], bug = False\<rparr>"

text \<open>Reading two bytes from register 5 of a device at address 0x32: a write of one byte, then a read.\<close>

definition read_reg5 :: "i2c_msg list" where
  "read_reg5 = [\<lparr>addr = 0x32, flags = [], len = 1, buf = [5]\<rparr>,
     \<lparr>addr = 0x32, flags = [I2C_M_RD], len = 2, buf = [0, 0]\<rparr>]"

definition rx_irq :: "u32 \<Rightarrow> i2c_in" where
  "rx_irq v = \<lparr>status = 0, csr_again = 0, rxr = v\<rparr>"

definition quiet_env :: "i2c_in list \<Rightarrow> xfer_env" where
  "quiet_env xs = \<lparr>polls = (\<lambda>_. (0x18, 0)), irqs = xs, csr_last = 3\<rparr>"

lemma quiet_env_free: "bus_free (quiet_env xs)"
  by (simp add: bus_free_def quiet_env_def nuc970_i2c0_set_master_def I2CSTART_def I2CBUSY_def
      set_master_free[of 0 0])

lemma read_reg5_ok: "msgs_ok read_reg5"
  by (simp add: msgs_ok_def read_reg5_def msg_ok_def)

theorem i2c_xfer_ok_witness:
  "let (r, s') = nuc970_i2c0_xfer 0 (\<lambda>_. quiet_env (map rx_irq [0, 0, 0, 0x12, 0x34] @ [rx_irq 0])) read_reg5 i2c0 in
     r = 2 \<and> events (bus s') = [Start 0x64, Put 5, Start 0x65, Get True, Get False, Stop]
     \<and> map buf (msgs s') = [[5], [0x12, 0x34]]"
proof -
  let ?e = "\<lambda>_ :: nat. quiet_env (map rx_irq [0, 0, 0, 0x12, 0x34] @ [rx_irq 0])"
  let ?xs = "map rx_irq [0, 0, 0, 0x12, 0x34]"
  have g: "list_all good_irq ?xs" by (simp add: good_irq_def rx_irq_def)
  have f: "arblost i2c0 = 0" "\<not> bug i2c0" "irqs (?e 0) = ?xs @ [rx_irq 0]" "length ?xs = irq_count read_reg5"
    "status (rx_irq 0) AND ARBIT_LOST = 0"
    by (simp_all add: i2c0_def quiet_env_def irq_count_def read_reg5_def rx_irq_def)
  have ref: "events (bus i2c0) @ msgs_ref read_reg5 = [Start 0x64, Put 5, Start 0x65, Get True, Get False, Stop]"
    "map buf (received read_reg5 ?xs) = [[5], [0x12, 0x34]]" "int (length read_reg5) = 2"
    by (simp_all add: i2c0_def events_def read_reg5_def body_ref_def msg_data_def addr_byte_def received_def rx_irq_def upt_rec)
  show ?thesis
    using i2c_xfer_ok[where e = ?e and csr = 0, OF read_reg5_ok quiet_env_free f(1,2,3) g f(4,5)] ref
    by (auto simp: Let_def split: prod.splits)
qed

section \<open>Transfers that go wrong\<close>

lemma complete_stop:
  assumes "here ms i p st es s" "c = 6 \<or> c = 111"
  shows "complete ms (- c) (es @ [Stop]) (nuc970_i2c0_stop (- c) s)"
  using assms by (auto simp: complete_def here_def nuc970_i2c0_stop_def nuc970_i2c0_master_complete_def Let_def
      writel_def events_append)

lemma irq_nack:
  assumes "here ms i p st es s" "st = STATE_START \<or> st = STATE_WRITE" "I2C_M_IGNORE_NAK \<notin> set (flags (ms ! i))"
    "status z AND ARBIT_LOST = 0" "status z AND SLAVE_ACK \<noteq> 0"
  shows "complete ms (- eno (if st = STATE_START then ENXIO else ECONNREFUSED)) (es @ [Stop]) (nuc970_i2c_irq z s)"
proof -
  let ?s = "writel (status z OR IRQFLAG) CSR s"
  have h: "here ms i p st es ?s" using assms(1) by (simp add: here_def writel_def events_append)
  have "nuc970_i2c_irq z s = nuc970_i2c0_stop (- eno (if st = STATE_START then ENXIO else ECONNREFUSED)) ?s"
    using assms(2-5) h here_cur[OF h]
    by (auto simp: nuc970_i2c_irq_def Let_def i2c_nuc970_irq_nextbyte_def here_def state_start_def state_write_def)
  then show ?thesis using complete_stop[OF h] by simp
qed

lemma xfer_nack:
  assumes "msgs_ok ms" "bus_free (e 0)" "arblost s = 0" "\<not> bug s"
    and "I2C_M_RD \<notin> set (flags (hd ms))" "I2C_M_IGNORE_NAK \<notin> set (flags (hd ms))"
    and "irqs (e 0) = xs @ [z, y]" "list_all good_irq xs" "length xs \<le> unat (len (hd ms))"
    and "status z AND ARBIT_LOST = 0" "status z AND SLAVE_ACK \<noteq> 0" "status y AND ARBIT_LOST = 0"
  shows "let (r, s') = nuc970_i2c0_xfer csr e ms s in
     r = - eno (if xs = [] then ENXIO else ECONNREFUSED) \<and> msgs s' = ms \<and> i2c_state s' = STATE_IDLE \<and> arblost s' = 0 \<and> \<not> bug s'
     \<and> events (bus s') = events (bus s) @ Start (addr_byte (hd ms)) # map Put (take (length xs) (msg_data (hd ms))) @ [Stop]"
proof -
  let ?r = "- eno (if xs = [] then ENXIO else ECONNREFUSED)"
  let ?es = "Start (addr_byte (hd ms)) # map Put (take (length xs) (msg_data (hd ms))) @ [Stop]"
  have ms: "ms \<noteq> []" "ms ! 0 = hd ms" "msg_ok (hd ms)"
    using assms(1) by (auto simp: msgs_ok_def hd_conv_nth list_all_iff)
  have w: "\<exists>s3. i2c_wait (irqs (e 0)) s2 = (s3, [y]) \<and> complete ms ?r (events (bus s) @ ?es) s3"
    if h: "here ms 0 0 STATE_START (events (bus s) @ [Start (addr_byte (hd ms))]) s2" for s2
  proof (cases "xs = []")
    case True
    then show ?thesis using irq_nack[OF h _ _ assms(10,11)] assms(6,7) here_busy[OF h] ms complete_idle
      by (auto simp: complete_def)
  next
    case False
    obtain s3 where s3: "i2c_wait (xs @ [z, y]) s2 = i2c_wait [z, y] s3"
      "here ms 0 (0 + length xs) STATE_WRITE ((events (bus s) @ [Start (addr_byte (hd ms))]) @ map Put (take (length xs) (drop 0 (msg_data (hd ms))))) s3"
      using wait_write_part[OF h assms(8) _ ms(2)[symmetric] ms(3) assms(5) _ False, of "[z, y]"] assms(9) by auto
    show ?thesis using irq_nack[OF s3(2) _ _ assms(10,11)] assms(6,7) here_busy[OF s3(2)] ms s3(1) False complete_idle
      by (auto simp: complete_def)
  qed
  have "?r \<noteq> - 11" by simp
  from xfer_complete[where e = e and csr = csr, OF assms(2,1,3,4,12) this w] show ?thesis by (auto simp: Let_def)
qed

text \<open>C17. A device that does not acknowledge.  For messages as in the transfer that goes well, on a free bus and without a
  lost arbitration: when the first message is a write without \<open>I2C_M_IGNORE_NAK\<close> and, after \<open>k\<close> acknowledged
  bytes, a byte of it is not acknowledged, the bus has seen the start, the first \<open>k\<close> data bytes and a stop, and
  \<open>nuc970_i2c0_xfer\<close> returns \<open>-ENXIO\<close> for the address byte and \<open>-ECONNREFUSED\<close> for a data byte.\<close>

theorem i2c_nack:
  assumes "msgs_ok ms" "bus_free (e 0)" "arblost s = 0" "\<not> bug s"
    and "I2C_M_RD \<notin> set (flags (hd ms))" "I2C_M_IGNORE_NAK \<notin> set (flags (hd ms))"
    and "irqs (e 0) = xs @ [z, y]" "list_all good_irq xs" "length xs \<le> unat (len (hd ms))"
    and "status z AND ARBIT_LOST = 0" "status z AND SLAVE_ACK \<noteq> 0" "status y AND ARBIT_LOST = 0"
  shows "let (r, s') = nuc970_i2c0_xfer csr e ms s in
     r = - eno (if xs = [] then ENXIO else ECONNREFUSED) \<and> msgs s' = ms \<and> i2c_state s' = STATE_IDLE \<and> arblost s' = 0 \<and> \<not> bug s'
     \<and> events (bus s') = events (bus s) @ Start (addr_byte (hd ms)) # map Put (take (length xs) (msg_data (hd ms))) @ [Stop]"
  using assms by (rule xfer_nack)

theorem i2c_nack_witness:
  "fst (nuc970_i2c0_xfer 0 (\<lambda>_. quiet_env [rx_irq 0, (rx_irq 0)\<lparr>status := 0x800\<rparr>, rx_irq 0]) read_reg5 i2c0) = - 111"
proof -
  let ?e = "\<lambda>_ :: nat. quiet_env [rx_irq 0, (rx_irq 0)\<lparr>status := 0x800\<rparr>, rx_irq 0]"
  have "irqs (?e 0) = [rx_irq 0] @ [(rx_irq 0)\<lparr>status := 0x800\<rparr>, rx_irq 0]" by (simp add: quiet_env_def)
  from i2c_nack[OF read_reg5_ok quiet_env_free _ _ _ _ this, of i2c0 0]
  show ?thesis by (auto simp: i2c0_def read_reg5_def good_irq_def rx_irq_def ARBIT_LOST_def SLAVE_ACK_def Let_def split: prod.splits)
qed

text \<open>Losing the arbitration.  The flag is set by the interrupt and cleared only by \<open>nuc970_i2c0_doxfer\<close>.\<close>

lemma arblost_writel [simp]: "arblost (writel v r s) = arblost s" "arblost (bug_now s) = arblost s"
  "arblost (nuc970_i2c0_stop ret s) = arblost s" "arblost (nuc970_i2c0_message_start m s) = arblost s"
  "arblost (next_msg s) = arblost s" "arblost (nuc970_i2c0_disable_irq t s) = arblost s"
  by (simp_all add: writel_def bug_now_def nuc970_i2c0_stop_def nuc970_i2c0_master_complete_def
      nuc970_i2c0_message_start_def next_msg_def nuc970_i2c0_disable_irq_def Let_def)

lemma arblost_retry_write [simp]: "arblost (retry_write s) = arblost s"
proof (induction s rule: retry_write.induct)
  case (1 s)
  then show ?case by (subst retry_write.simps) (auto simp: Let_def split: option.splits)
qed

lemma arblost_prepare_read [simp]: "arblost (prepare_read s) = arblost s"
  by (simp add: prepare_read_def split: option.splits)

lemma arblost_nextbyte [simp]: "arblost (i2c_nuc970_irq_nextbyte x s) = arblost s"
  by (auto simp: i2c_nuc970_irq_nextbyte_def state_start_def state_write_def state_read_def Let_def
      split: nuc970_i2c_state.splits option.splits)

lemma arblost_irq: "arblost (nuc970_i2c_irq x s) = (if status x AND ARBIT_LOST \<noteq> 0 then 1 else arblost s)"
  by (simp add: nuc970_i2c_irq_def Let_def)

lemma arblost_fold:
  "arblost s \<noteq> 0 \<or> list_ex (\<lambda>x. status x AND ARBIT_LOST \<noteq> 0) xs \<Longrightarrow> arblost (fold nuc970_i2c_irq xs s) \<noteq> 0"
  by (induction xs arbitrary: s) (auto simp: arblost_irq)

lemma wait_fold: "i2c_wait xs s = (s', ys) \<Longrightarrow> fold nuc970_i2c_irq ys s' = fold nuc970_i2c_irq xs s"
  by (induction xs arbitrary: s) (auto split: if_splits)

text \<open>The value last written to the control register decides whether the controller interrupts at all.\<close>

definition last_csr :: "nuc970_i2c \<Rightarrow> u32 option" where
  "last_csr s = fold (\<lambda>(r, v) a. if r = CSR then Some v else a) (bus s) None"

lemma last_csr_writel [simp]: "last_csr (writel v r s) = (if r = CSR then Some v else last_csr s)"
  by (simp add: last_csr_def writel_def)

lemma last_csr_upd [simp]:
  "last_csr (s\<lparr>arblost := a\<rparr>) = last_csr s" "last_csr (s\<lparr>i2c_state := st\<rparr>) = last_csr s"
  "last_csr (s\<lparr>msg := m, msg_num := n, msg_ptr := p, msg_idx := i, i2c_state := st\<rparr>) = last_csr s"
  by (simp_all add: last_csr_def)

lemma hangup_last_csr [simp]: "last_csr (nuc970_i2c0_hangup s) = last_csr s" "msgs (nuc970_i2c0_hangup s) = msgs s"
  "arblost (nuc970_i2c0_hangup s) = arblost s"
  by (simp_all add: nuc970_i2c0_hangup_def numeral_2_eq_2) (simp_all add: writel_def)

lemma message_start_keeps:
  "last_csr (nuc970_i2c0_message_start m s) = last_csr s" "msg_idx (nuc970_i2c0_message_start m s) = msg_idx s"
  "i2c_state (nuc970_i2c0_message_start m s) = i2c_state s"
  by (simp_all add: nuc970_i2c0_message_start_def Let_def) (simp_all add: writel_def)

lemma doxfer_arblost:
  assumes "bus_free e" "list_ex (\<lambda>x. status x AND ARBIT_LOST \<noteq> 0) (irqs e)"
  shows "fst (nuc970_i2c0_doxfer e s) = - 11"
    "last_csr (snd (nuc970_i2c0_doxfer e s)) = Some (csr_last e AND NOT IRQEN)"
    "arblost (snd (nuc970_i2c0_doxfer e s)) = 0"
proof -
  have *: "arblost (fold nuc970_i2c_irq ys s') \<noteq> 0" if "i2c_wait (irqs e) s1 = (s', ys)" for s1 s' ys
    using wait_fold[OF that] arblost_fold[of s1 "irqs e"] assms(2) by simp
  show "fst (nuc970_i2c0_doxfer e s) = - 11"
    "last_csr (snd (nuc970_i2c0_doxfer e s)) = Some (csr_last e AND NOT IRQEN)"
    "arblost (snd (nuc970_i2c0_doxfer e s)) = 0"
    using assms(1) * by (auto simp: nuc970_i2c0_doxfer_def bus_free_def Let_def nuc970_i2c0_disable_irq_def split: prod.splits)
qed

lemma doxfer_no_irq:
  assumes "bus_free e" "irqs e = []" "arblost s = 0"
  shows "fst (nuc970_i2c0_doxfer e s) = 0" "i2c_state (snd (nuc970_i2c0_doxfer e s)) = STATE_START"
    "last_csr (snd (nuc970_i2c0_doxfer e s)) = last_csr s"
  using assms
  by (auto simp: nuc970_i2c0_doxfer_def doxfer_begin_def bus_free_def Let_def message_start_keeps bug_now_def split: list.splits)
   (simp_all add: last_csr_def)

text \<open>C19. Losing the arbitration once.  When any interrupt of the first attempt reports it, the attempt ends
  with the controller's interrupt switched off, and nothing switches it on again before the second attempt: that
  one sees no interrupt, and \<open>nuc970_i2c0_xfer\<close> returns 0, which is not an error, after the time-out, with
  the state machine left in the middle of the transfer and the interrupt still off.\<close>

theorem i2c_arbitration_lost:
  assumes "bus_free (e 0)" "list_ex (\<lambda>x. status x AND ARBIT_LOST \<noteq> 0) (irqs (e 0))" "bus_free (e 1)" "irqs (e 1) = []"
  shows "let (r, s') = nuc970_i2c0_xfer csr e ms s in
     r = 0 \<and> i2c_state s' = STATE_START \<and> last_csr s' = Some (csr_last (e 0) AND NOT IRQEN)"
proof -
  define s0 where "s0 = nuc970_i2c0_enable_irq csr (s\<lparr>msgs := ms\<rparr>)"
  obtain r1 s1 where d: "nuc970_i2c0_doxfer (e 0) s0 = (r1, s1)" by (cases "nuc970_i2c0_doxfer (e 0) s0")
  obtain r2 s2 where d2: "nuc970_i2c0_doxfer (e 1) s1 = (r2, s2)" by (cases "nuc970_i2c0_doxfer (e 1) s1")
  have 1: "r1 = - 11" "last_csr s1 = Some (csr_last (e 0) AND NOT IRQEN)" "arblost s1 = 0"
    using doxfer_arblost[OF assms(1,2), of s0] d by simp_all
  have "r2 = 0" "i2c_state s2 = STATE_START" "last_csr s2 = last_csr s1"
    using doxfer_no_irq[OF assms(3,4) 1(3)] d2 by simp_all
  then show ?thesis using 1 d d2 by (simp add: nuc970_i2c0_xfer_def numeral_2_eq_2 Let_def flip: s0_def)
qed

theorem i2c_arbitration_lost_witness:
  "fst (nuc970_i2c0_xfer 0 (\<lambda>k. quiet_env (if k = 0 then [(rx_irq 0)\<lparr>status := 0x200\<rparr>] else [])) read_reg5 i2c0) = 0"
  using i2c_arbitration_lost[of "\<lambda>k. quiet_env (if k = 0 then [(rx_irq 0)\<lparr>status := 0x200\<rparr>] else [])" 0 read_reg5 i2c0]
    quiet_env_free
  by (auto simp: Let_def quiet_env_def ARBIT_LOST_def split: prod.splits)

section \<open>The pointers stay inside the arrays\<close>

text \<open>Messages for which no pointer of the driver goes astray: the buffer has room for the length, no continued
  message changes the direction to reading, and no message that comes after one that reads is empty.\<close>

definition msgs_safe :: "i2c_msg list \<Rightarrow> bool" where
  "msgs_safe ms \<longleftrightarrow> ms \<noteq> [] \<and> length ms < 2 ^ 32
     \<and> list_all (\<lambda>m. unat (len m) \<le> length (buf m) \<and> \<not> (I2C_M_NOSTART \<in> set (flags m) \<and> I2C_M_RD \<in> set (flags m))) ms
     \<and> list_all (\<lambda>i. list_all (\<lambda>j. I2C_M_RD \<in> set (flags (ms ! i)) \<longrightarrow> len (ms ! j) \<noteq> 0) [Suc i..<length ms]) [0..<length ms]"

text \<open>Byte \<open>p\<close> of message \<open>i\<close> is next; \<open>rd\<close> when the controller is reading.\<close>

definition at :: "nat \<Rightarrow> nat \<Rightarrow> bool \<Rightarrow> nuc970_i2c \<Rightarrow> bool" where
  "at i p rd s \<longleftrightarrow> \<not> bug s \<and> msgs_safe (msgs s) \<and> msg s = Some i \<and> i < length (msgs s) \<and> msg_num s = of_nat (length (msgs s))
     \<and> msg_idx s = of_nat i \<and> msg_ptr s = of_nat p \<and> p \<le> unat (len (msgs s ! i))
     \<and> (rd \<longrightarrow> (\<exists>j\<le>i. I2C_M_RD \<in> set (flags (msgs s ! j))))"

definition i2c_wf :: "nuc970_i2c \<Rightarrow> bool" where
  "i2c_wf s \<longleftrightarrow> \<not> bug s \<and>
     (case i2c_state s of
        STATE_START \<Rightarrow> \<exists>i. at i 0 False s
      | STATE_WRITE \<Rightarrow> \<exists>i p. at i p False s
      | STATE_READ \<Rightarrow> \<exists>i p. at i p True s \<and> p < unat (len (msgs s ! i))
      | _ \<Rightarrow> True)"

text \<open>The states the driver goes through: the interrupt is enabled, a transfer of safe messages is started, interrupts with
  any contents arrive, and a transfer may be given up, with the interrupt disabled and dummy clocks.\<close>

inductive i2c_reach :: "nuc970_i2c \<Rightarrow> bool" where
  idle: "\<not> bug s \<Longrightarrow> i2c_state s = STATE_IDLE \<Longrightarrow> i2c_reach s"
| enable: "i2c_reach s \<Longrightarrow> i2c_reach (nuc970_i2c0_enable_irq t s)"
| start: "i2c_reach s \<Longrightarrow> msgs_safe ms \<Longrightarrow> i2c_reach (doxfer_begin (s\<lparr>msgs := ms\<rparr>))"
| irq: "i2c_reach s \<Longrightarrow> i2c_reach (nuc970_i2c_irq x s)"
| give_up: "i2c_reach s \<Longrightarrow> i2c_reach (nuc970_i2c0_stop 0 (s\<lparr>arblost := 0\<rparr>))"
| disable: "i2c_reach s \<Longrightarrow> i2c_reach (nuc970_i2c0_disable_irq t s)"
| hangup: "i2c_reach s \<Longrightarrow> i2c_reach (nuc970_i2c0_hangup s)"

lemma at_writel [simp]: "at i p rd (writel v r s) \<longleftrightarrow> at i p rd s" "at i p rd (s\<lparr>i2c_state := st\<rparr>) \<longleftrightarrow> at i p rd s"
  by (simp_all add: at_def writel_def)

lemma writel_fields: "bug (writel v r s) = bug s" "msgs (writel v r s) = msgs s" "i2c_state (writel v r s) = i2c_state s"
  by (simp_all add: writel_def)

lemma at_cur: "at i p rd s \<Longrightarrow> cur_msg s = Some (msgs s ! i)"
  by (simp add: at_def cur_msg_def)

lemma at_ptr:
  assumes "at i p rd s"
  shows "is_msgend (msgs s ! i) s \<longleftrightarrow> p = unat (len (msgs s ! i))" "unat (msg_ptr s) = p"
    "unat (len (msgs s ! i)) \<le> length (buf (msgs s ! i))"
proof -
  have p: "p \<le> unat (len (msgs s ! i))" "msg_ptr s = of_nat p" using assms by (simp_all add: at_def)
  then have "p < 2 ^ 32" using unat_len(2)[of "len (msgs s ! i)"] by simp
  then show u: "unat (msg_ptr s) = p" using p by (simp add: small_index)
  show "is_msgend (msgs s ! i) s \<longleftrightarrow> p = unat (len (msgs s ! i))"
    using p(1) by (auto simp: is_msgend_def word_le_nat_alt unat_len u)
  show "unat (len (msgs s ! i)) \<le> length (buf (msgs s ! i))"
    using assms by (auto simp: at_def msgs_safe_def list_all_iff)
qed

lemma at_last:
  assumes "at i p rd s"
  shows "is_lastmsg s \<longleftrightarrow> Suc i = length (msgs s)"
proof -
  have l: "i < length (msgs s)" "length (msgs s) < 2 ^ 32" using assms by (auto simp: at_def msgs_safe_def)
  have "(of_nat (length (msgs s)) :: u32) \<noteq> 0" using l small_index(1)[of "length (msgs s)"] by force
  then have "unat (of_nat (length (msgs s)) - 1 :: u32) = length (msgs s) - 1"
    using l unat_minus_one[of "of_nat (length (msgs s)) :: u32"] by (simp add: small_index)
  moreover have "unat (of_nat i :: u32) = i" using l by (simp add: small_index)
  ultimately show ?thesis using assms l
    by (auto simp: is_lastmsg_def at_def word_le_nat_alt)
qed

lemma at_next:
  assumes "at i p rd s" "\<not> is_lastmsg s"
  shows "at (Suc i) 0 rd (next_msg s)" "msgs (next_msg s) = msgs s" "i2c_state (next_msg s) = i2c_state s"
    "cur_msg (next_msg s) = Some (msgs s ! Suc i)"
proof -
  have "Suc i < length (msgs s)" using assms at_last[OF assms(1)] by (auto simp: at_def)
  then show "at (Suc i) 0 rd (next_msg s)" using assms(1) by (auto simp: at_def next_msg_def intro: le_SucI)
  then show "cur_msg (next_msg s) = Some (msgs s ! Suc i)" using at_cur by (fastforce simp: next_msg_def)
qed (simp_all add: next_msg_def)

lemma wf_stop: "\<not> bug s \<Longrightarrow> i2c_wf (nuc970_i2c0_stop ret s)"
  by (simp add: i2c_wf_def nuc970_i2c0_stop_def nuc970_i2c0_master_complete_def Let_def writel_def)

lemma at_stop: "at i p rd s \<Longrightarrow> i2c_wf (nuc970_i2c0_stop ret s)"
  by (rule wf_stop) (simp_all add: at_def)

lemma at_start: "at i 0 rd s \<Longrightarrow> i2c_wf ((nuc970_i2c0_message_start m s)\<lparr>i2c_state := STATE_START\<rparr>)"
  by (auto simp: i2c_wf_def nuc970_i2c0_message_start_def Let_def at_def writel_def)

lemma safe_dir:
  "msgs_safe ms \<Longrightarrow> i < length ms \<Longrightarrow> I2C_M_NOSTART \<in> set (flags (ms ! i)) \<Longrightarrow> I2C_M_RD \<notin> set (flags (ms ! i))"
  "msgs_safe ms \<Longrightarrow> j < i \<Longrightarrow> i < length ms \<Longrightarrow> I2C_M_RD \<in> set (flags (ms ! j)) \<Longrightarrow> len (ms ! i) \<noteq> 0"
  by (force simp: msgs_safe_def list_all_iff)+

lemma retry_write_wf: "at i p False s \<Longrightarrow> i2c_state s = STATE_WRITE \<Longrightarrow> i2c_wf (retry_write s)"
proof (induction s arbitrary: i p rule: retry_write.induct)
  case (1 s)
  note c = at_cur[OF 1(2)] and b = at_ptr[OF 1(2)] and l = at_last[OF 1(2)]
  show ?case
  proof (cases "is_msgend (msgs s ! i) s")
    case False
    then have "p < unat (len (msgs s ! i))" using b(1) 1(2) by (auto simp: at_def)
    then have "at i (Suc p) False (s\<lparr>msg_ptr := msg_ptr s + 1\<rparr>)" using 1(2) by (auto simp: at_def)
    moreover have "\<not> bug s" "msgs_safe (msgs s)" using 1(2) by (simp_all add: at_def)
    ultimately have "i2c_wf (writel v CMDR (writel w TXR (s\<lparr>msg_ptr := msg_ptr s + 1\<rparr>)))" for v w
      using 1(3) by (auto simp: i2c_wf_def writel_fields)
    then show ?thesis using False c b \<open>p < _\<close> by (subst retry_write.simps) simp
  next
    case fin: True
    show ?thesis
    proof (cases "is_lastmsg s")
      case True
      then show ?thesis using fin c at_stop[OF 1(2)] by (subst retry_write.simps) simp
    next
      case False
      note n = at_next[OF 1(2) False]
      have i: "Suc i < length (msgs s)" "msgs_safe (msgs s)" using n(1,2) by (simp_all add: at_def)
      show ?thesis
      proof (cases "I2C_M_NOSTART \<in> set (flags (msgs s ! Suc i))")
        case True
        then have "I2C_M_RD \<notin> set (flags (msgs s ! Suc i))" using safe_dir(1)[OF i(2,1)] by blast
        then show ?thesis using 1(1)[OF c _ False refl n(4) True, of "Suc i" 0] fin n c False True 1(3)
          by (subst retry_write.simps) simp
      next
        case F: False
        then show ?thesis using fin n c False at_start[OF n(1)] by (subst retry_write.simps) simp
      qed
    qed
  qed
qed

lemma prepare_read_wf:
  assumes "at i p True s" "i2c_state s = STATE_READ" "p < unat (len (msgs s ! i)) \<or> is_msgend (msgs s ! i) s"
    "len (msgs s ! i) = 0 \<Longrightarrow> \<not> is_msglast (msgs s ! i) s"
  shows "i2c_wf (prepare_read s)"
proof (cases "is_msgend (msgs s ! i) s")
  case False
  then have "i2c_wf (writel v CMDR s)" "i2c_wf s" for v
    using assms(1-3) by (auto simp: i2c_wf_def at_def writel_def)
  then show ?thesis using False at_cur[OF assms(1)] by (simp add: prepare_read_def)
next
  case True
  have p: "p = unat (len (msgs s ! i))" using True at_ptr[OF assms(1)] by simp
  have nl: "\<not> is_msglast (msgs s ! i) s"
  proof (cases "len (msgs s ! i) = 0")
    case F: False
    then have "unat (len (msgs s ! i)) \<noteq> 0" by (simp add: unat_eq_0)
    then have "unat (ucast (len (msgs s ! i)) - 1 :: u32) \<noteq> unat (len (msgs s ! i))"
      using unat_minus_one[of "ucast (len (msgs s ! i)) :: u32"] by (metis unat_len(1) unat_0 diff_less less_numeral_extra(1) neq0_conv nat_neq_iff)
    then show ?thesis unfolding is_msglast_def using at_ptr(2)[OF assms(1)] p by metis
  qed (rule assms(4))
  show ?thesis
  proof (cases "is_lastmsg s")
    case L: True
    then show ?thesis using True nl at_cur[OF assms(1)] at_stop[OF assms(1)] by (simp add: prepare_read_def)
  next
    case L: False
    note n = at_next[OF assms(1) L]
    obtain j where j: "j \<le> i" "I2C_M_RD \<in> set (flags (msgs s ! j))" using assms(1) by (auto simp: at_def)
    have "len (msgs s ! Suc i) \<noteq> 0" using safe_dir(2)[of "msgs s" j "Suc i"] j n(1,2) by (simp add: at_def)
    then have "0 < unat (len (msgs (next_msg s) ! Suc i))" by (simp add: n(2) unat_gt_0)
    moreover have "\<not> bug (next_msg s)" "msgs_safe (msgs (next_msg s))" using n(1) by (simp_all add: at_def)
    ultimately have "i2c_wf (writel I2C_CMD_READ CMDR (next_msg s))"
      using n(1,3) assms(2) by (auto simp: i2c_wf_def writel_fields)
    then show ?thesis using True nl L at_cur[OF assms(1)] by (simp add: prepare_read_def)
  qed
qed

lemma state_write_wf: "at i p False s \<Longrightarrow> i2c_state s = STATE_WRITE \<Longrightarrow> i2c_wf (state_write st s)"
  using retry_write_wf at_stop by (auto simp: state_write_def at_cur)

lemma state_start_wf:
  assumes "at i 0 False s"
  shows "i2c_wf (state_start st s)"
proof -
  let ?m = "msgs s ! i"
  have stop: "i2c_wf (nuc970_i2c0_stop r s)" for r using at_stop[OF assms] .
  show ?thesis
  proof (cases "I2C_M_RD \<in> set (flags ?m)")
    case False
    then show ?thesis using stop at_stop[of i 0 False "s\<lparr>i2c_state := STATE_WRITE\<rparr>"]
        state_write_wf[of i 0 "s\<lparr>i2c_state := STATE_WRITE\<rparr>"] assms at_cur[OF assms]
      by (auto simp: state_start_def Let_def)
  next
    case True
    let ?s = "s\<lparr>i2c_state := STATE_READ\<rparr>"
    have a: "at i 0 True ?s" using assms True by (auto simp: at_def)
    have "is_msgend ?m ?s" if "len ?m = 0" using that by (simp add: is_msgend_def)
    moreover have "\<not> is_msglast ?m ?s" if "len ?m = 0" using that assms by (simp add: is_msglast_def at_def)
    ultimately have "i2c_wf (prepare_read ?s)"
      by (intro prepare_read_wf[OF a]) (auto simp: unat_gt_0)
    then show ?thesis using True stop at_stop[OF a] at_cur[OF assms] by (auto simp: state_start_def Let_def)
  qed
qed

lemma msgs_safe_buf:
  assumes "msgs_safe ms" "length b = length (buf (ms ! i))" "i < length ms"
  shows "msgs_safe (ms[i := (ms ! i)\<lparr>buf := b\<rparr>])"
proof -
  let ?ms = "ms[i := (ms ! i)\<lparr>buf := b\<rparr>]"
  have f: "flags (?ms ! j) = flags (ms ! j)" "len (?ms ! j) = len (ms ! j)"
    "length (buf (?ms ! j)) = length (buf (ms ! j))" for j
    using assms(2,3) by (cases "i = j"; simp)+
  show ?thesis using assms(1) unfolding msgs_safe_def list_all_length by (auto simp: f)
qed

lemma state_read_wf:
  assumes "at i p True s" "p < unat (len (msgs s ! i))" "i2c_state s = STATE_READ"
  shows "i2c_wf (state_read rx s)"
proof -
  let ?m = "msgs s ! i"
  define s' where "s' = s\<lparr>msgs := (msgs s)[i := ?m\<lparr>buf := (buf ?m)[unat (msg_ptr s) := ucast rx]\<rparr>], msg_ptr := msg_ptr s + 1\<rparr>"
  have i: "i < length (msgs s)" "msg s = Some i" "msgs_safe (msgs s)" using assms(1) by (simp_all add: at_def)
  have fl: "flags (msgs s' ! j) = flags (msgs s ! j)" "len (msgs s' ! j) = len (msgs s ! j)" for j
    using i(1) by (cases "i = j"; simp add: s'_def)+
  have a: "at i (Suc p) True s'"
    using assms(1,2) i msgs_safe_buf[OF i(3) _ i(1)] by (auto simp: at_def fl) (simp_all add: s'_def)
  have "i2c_state s' = STATE_READ" using assms(3) by (simp add: s'_def)
  then have "i2c_wf (prepare_read s')"
    using assms(2) at_ptr(1)[OF a] by (intro prepare_read_wf[OF a]) (auto simp: fl)
  then show ?thesis
    using at_ptr[OF assms(1)] at_cur[OF assms(1)] i assms(2) by (simp add: state_read_def s'_def)
qed

lemma wf_writel: "i2c_wf s \<Longrightarrow> i2c_wf (writel v r s)"
  by (auto simp: i2c_wf_def writel_fields split: nuc970_i2c_state.splits)

lemma irq_wf: "i2c_wf s \<Longrightarrow> i2c_wf (nuc970_i2c_irq x s)"
proof -
  assume s: "i2c_wf s"
  let ?s = "writel (status x OR IRQFLAG) CSR s"
  have w: "i2c_wf ?s" using s by (rule wf_writel)
  have "i2c_wf (?s\<lparr>arblost := 1\<rparr>)" using w
    by (auto simp: i2c_wf_def at_def split: nuc970_i2c_state.splits)
  moreover have "i2c_wf (i2c_nuc970_irq_nextbyte x ?s)"
  proof (cases "i2c_state ?s")
    case STATE_START
    then show ?thesis using w state_start_wf[of _ ?s] by (auto simp: i2c_nuc970_irq_nextbyte_def i2c_wf_def[of ?s])
  next
    case STATE_WRITE
    then show ?thesis using w state_write_wf[of _ _ ?s] by (auto simp: i2c_nuc970_irq_nextbyte_def i2c_wf_def[of ?s])
  next
    case STATE_READ
    then show ?thesis using w state_read_wf[of _ _ ?s] by (auto simp: i2c_nuc970_irq_nextbyte_def i2c_wf_def[of ?s])
  qed (use w in \<open>auto simp: i2c_nuc970_irq_nextbyte_def i2c_wf_def nuc970_i2c0_disable_irq_def writel_fields\<close>)
  ultimately show ?thesis using w by (simp add: nuc970_i2c_irq_def Let_def)
qed

lemma reach_wf: "i2c_reach s \<Longrightarrow> i2c_wf s"
proof (induction rule: i2c_reach.induct)
  case (start s ms)
  let ?s = "s\<lparr>msgs := ms, msg := Some 0, msg_num := of_nat (length ms), msg_ptr := 0, msg_idx := 0, i2c_state := STATE_START\<rparr>"
  obtain m ms' where ms: "ms = m # ms'" using start.hyps by (cases ms) (auto simp: msgs_safe_def)
  have "at 0 0 False ?s" using start by (auto simp: at_def i2c_wf_def msgs_safe_def)
  then have "i2c_wf ?s" using start by (auto simp: i2c_wf_def)
  moreover have "doxfer_begin (s\<lparr>msgs := ms\<rparr>) = nuc970_i2c0_message_start m ?s" by (simp add: doxfer_begin_def ms)
  ultimately show ?case by (simp add: nuc970_i2c0_message_start_def Let_def wf_writel)
next
  case (give_up s)
  then show ?case by (intro wf_stop) (simp add: i2c_wf_def)
next
  case (irq s x)
  show ?case by (rule irq_wf[OF irq.IH])
next
  case (idle s)
  then show ?case by (simp add: i2c_wf_def)
qed (simp_all add: wf_writel nuc970_i2c0_enable_irq_def nuc970_i2c0_disable_irq_def nuc970_i2c0_hangup_def numeral_2_eq_2)

text \<open>C8. Well-formedness of the driver's state.  Whatever the controller reports and in whatever order the interrupts
  arrive, as long as the transfers have safe messages: no null pointer, no message behind the array and no byte behind
  a buffer is ever touched, and while a transfer runs, the message pointer, the message index and the byte index
  lie in the array and its buffers, strictly inside the buffer while reading.\<close>

theorem i2c_state_wf:
  assumes "i2c_reach s"
  shows "\<not> bug s \<and> (i2c_state s \<in> {STATE_START, STATE_READ, STATE_WRITE} \<longrightarrow>
     (\<exists>i < length (msgs s). msg s = Some i \<and> msg_idx s = of_nat i \<and> unat (msg_ptr s) \<le> length (buf (msgs s ! i))
       \<and> (i2c_state s = STATE_READ \<longrightarrow> unat (msg_ptr s) < length (buf (msgs s ! i)))))"
proof -
  have *: "i < length (msgs s) \<and> msg s = Some i \<and> msg_idx s = of_nat i \<and> unat (msg_ptr s) \<le> length (buf (msgs s ! i))
      \<and> unat (msg_ptr s) = p \<and> unat (len (msgs s ! i)) \<le> length (buf (msgs s ! i))"
    if "at i p rd s" for i p rd
    using at_ptr[OF that] that by (simp add: at_def)
  show ?thesis using reach_wf[OF assms] *
    by (force simp: i2c_wf_def split: nuc970_i2c_state.splits)
qed

theorem i2c_state_wf_witness:
  "\<not> bug (nuc970_i2c_irq (rx_irq 0) (doxfer_begin (i2c0\<lparr>msgs := read_reg5\<rparr>)))"
proof -
  have ok: "msgs_safe read_reg5" by (simp add: msgs_safe_def read_reg5_def upt_rec)
  have "i2c_reach i2c0" by (intro i2c_reach.idle) (simp_all add: i2c0_def)
  from i2c_state_wf[OF i2c_reach.irq[OF i2c_reach.start[OF this ok], of "rx_irq 0"]] show ?thesis by simp
qed

text \<open>The bus sees at most one new command for each interrupt.\<close>

definition one_more :: "(i2c_reg \<times> u32) list \<Rightarrow> (i2c_reg \<times> u32) list \<Rightarrow> bool" where
  "one_more ws ws' \<longleftrightarrow> (\<exists>ds. events ws' = events ws @ ds \<and> length ds \<le> 1)"

lemma events_snoc: "events (ws @ [(r, v)]) = events ws @ (if r = CMDR then [cmd_event v (fst (fold decode ws (0, [])))] else [])"
  by (cases "fold decode ws (0, [])") (simp add: events_def)

lemma one_more_log [simp]:
  "one_more ws ws" "one_more ws (ws @ [(r, v)])" "one_more ws (ws @ [(TXR, v), (CMDR, w)])"
  by (simp_all add: one_more_def events_snoc events_append)

lemma bus_parts [simp]:
  "bus (writel v r s) = bus s @ [(r, v)]" "bus (bug_now s) = bus s" "bus (next_msg s) = bus s"
  "bus (nuc970_i2c0_stop ret s) = bus s @ [(CMDR, I2C_CMD_STOP)]"
  by (simp_all add: writel_def bug_now_def next_msg_def nuc970_i2c0_stop_def nuc970_i2c0_master_complete_def Let_def)

lemma one_more_start [simp]: "one_more (bus s) (bus (nuc970_i2c0_message_start m s))"
  by (simp add: nuc970_i2c0_message_start_def Let_def)

lemma one_more_retry [simp]: "one_more (bus s) (bus (retry_write s))"
proof (induction s rule: retry_write.induct)
  case (1 s)
  have stop: "retry_write (nuc970_i2c0_stop r s) = bug_now (nuc970_i2c0_stop r s)" for r s
    by (subst retry_write.simps) (simp add: cur_msg_stop)
  have start: "one_more (bus s) (bus (nuc970_i2c0_message_start m (next_msg s)))" for m
    using one_more_start[of "next_msg s" m] by simp
  have again: "one_more (bus s) (bus (retry_write (next_msg s)))"
    if "cur_msg s = Some m" "is_msgend m s" "\<not> is_lastmsg s" "cur_msg (next_msg s) = Some m'" "I2C_M_NOSTART \<in> set (flags m')"
      "I2C_M_RD \<notin> set (flags m')" for m m'
    using 1[OF that(1) _ that(3) refl that(4,5)] that(2,6) by simp
  show ?case using start again by (subst retry_write.simps) (auto simp: Let_def stop split: option.splits)
qed

lemma one_more_read [simp]: "one_more (bus s) (bus (prepare_read s))"
  by (simp add: prepare_read_def split: option.splits)

lemma one_more_write [simp]: "one_more (bus s) (bus (state_write st s))"
  by (simp add: state_write_def split: option.splits)

lemma one_more_upd:
  "one_more (bus s) (bus (prepare_read (s\<lparr>i2c_state := st\<rparr>)))" "one_more (bus s) (bus (state_write x (s\<lparr>i2c_state := st\<rparr>)))"
  "one_more (bus s) (bus (prepare_read (s\<lparr>msgs := ms, msg_ptr := k\<rparr>)))"
  using one_more_read[of "s\<lparr>i2c_state := st\<rparr>"] one_more_write[of "s\<lparr>i2c_state := st\<rparr>" x]
    one_more_read[of "s\<lparr>msgs := ms, msg_ptr := k\<rparr>"] by simp_all

lemma one_more_nextbyte: "one_more (bus s) (bus (i2c_nuc970_irq_nextbyte x s))"
  by (auto simp: i2c_nuc970_irq_nextbyte_def state_start_def state_read_def Let_def nuc970_i2c0_disable_irq_def one_more_upd
      split: nuc970_i2c_state.splits option.splits)

lemma irq_one_more: "one_more (bus s) (bus (nuc970_i2c_irq x s))"
proof -
  let ?s = "writel (status x OR IRQFLAG) CSR s"
  have "events (bus ?s) = events (bus s)" by (simp add: events_append)
  then show ?thesis using one_more_nextbyte[of ?s x] by (simp add: nuc970_i2c_irq_def Let_def one_more_def events_append)
qed

lemma irqs_more: "\<exists>ds. events (bus (fold nuc970_i2c_irq xs s)) = events (bus s) @ ds \<and> length ds \<le> length xs"
proof (induction xs arbitrary: s)
  case (Cons x xs)
  obtain ds where ds: "events (bus (nuc970_i2c_irq x s)) = events (bus s) @ ds" "length ds \<le> 1"
    using irq_one_more[of s x] by (auto simp: one_more_def)
  obtain ds' where "events (bus (fold nuc970_i2c_irq xs (nuc970_i2c_irq x s))) = events (bus (nuc970_i2c_irq x s)) @ ds'"
    "length ds' \<le> length xs"
    using Cons.IH by blast
  then show ?case using ds by (intro exI[of _ "ds @ ds'"]) simp
qed simp

text \<open>So when the bus has seen one command more than there were interrupts, every interrupt was followed by one.\<close>

lemma irqs_in_step:
  assumes "events (bus s) = es0 @ [e]" "events (bus (fold nuc970_i2c_irq xs s)) = es0 @ es" "length es = Suc (length xs)" "k \<le> length xs"
  shows "events (bus (fold nuc970_i2c_irq (take k xs) s)) = es0 @ take (Suc k) es"
proof -
  let ?s = "fold nuc970_i2c_irq (take k xs) s"
  obtain ds where ds: "events (bus ?s) = es0 @ [e] @ ds" "length ds \<le> k" using irqs_more[of "take k xs" s] assms(1) by auto
  have "fold nuc970_i2c_irq (drop k xs) ?s = fold nuc970_i2c_irq xs s" by (metis append_take_drop_id comp_apply fold_append)
  then obtain ds' where ds': "es0 @ es = events (bus ?s) @ ds'" "length ds' \<le> length xs - k"
    using irqs_more[of "drop k xs" ?s] assms(2) by auto
  have es: "es = e # ds @ ds'" using ds(1) ds'(1) by simp
  then have "length ds = k" using assms(3,4) ds(2) ds'(2) by simp
  then show ?thesis using ds(1) es by simp
qed

lemma length_msgs_ref: "list_all msg_ok ms \<Longrightarrow> length (msgs_ref ms) = Suc (irq_count ms)"
  by (induction ms) (auto simp: irq_count_def body_ref_def length_data)

text \<open>The commands of a transfer that goes well appear one by one, each after the interrupt of the one before.\<close>

lemma xfer_steps:
  assumes "msgs_ok ms" "arblost s = 0" "\<not> bug s" "list_all good_irq xs" "length xs = irq_count ms"
    and "status y AND ARBIT_LOST = 0" "k \<le> length (xs @ [y])"
  shows "events (bus (fold nuc970_i2c_irq (take k (xs @ [y])) (doxfer_begin (nuc970_i2c0_enable_irq csr (s\<lparr>msgs := ms\<rparr>)))))
     = events (bus s) @ take (Suc k) (msgs_ref ms)"
proof -
  let ?s0 = "nuc970_i2c0_enable_irq csr (s\<lparr>msgs := ms\<rparr>)"
  have s0: "msgs ?s0 = ms" "arblost ?s0 = 0" "\<not> bug ?s0" "events (bus ?s0) = events (bus s)"
    using assms(2,3) by (simp_all add: nuc970_i2c0_enable_irq_def events_append) (simp_all add: writel_def)
  obtain m rest where ms: "ms = m # rest" using assms(1) by (cases ms) (auto simp: msgs_ok_def)
  have h: "here ms 0 0 STATE_START (events (bus s) @ [Start (addr_byte (hd ms))]) (doxfer_begin ?s0)"
    using doxfer_start[of ?s0] assms(1) s0 by simp
  obtain s' where w: "i2c_wait xs (doxfer_begin ?s0) = (s', [])" "complete (received ms xs) (int (length ms)) (events (bus s) @ msgs_ref ms) s'"
    using wait_msgs[OF h, of m rest xs "[]"] assms(1,4,5) ms by (auto simp: msgs_ok_def)
  have f: "fold nuc970_i2c_irq xs (doxfer_begin ?s0) = s'" using wait_fold[OF w(1)] by simp
  have l: "length (msgs_ref ms) = Suc (length xs)" using length_msgs_ref assms(1,5) by (simp add: msgs_ok_def)
  show ?thesis
  proof (cases "k \<le> length xs")
    case True
    moreover have "events (bus (doxfer_begin ?s0)) = events (bus s) @ [Start (addr_byte (hd ms))]" using h by (simp add: here_def)
    moreover have "events (bus s') = events (bus s) @ msgs_ref ms" using w(2) by (simp add: complete_def)
    ultimately show ?thesis using irqs_in_step[of _ _ _ xs] f l by simp
  next
    case False
    then have "take k (xs @ [y]) = xs @ [y]" "take (Suc k) (msgs_ref ms) = msgs_ref ms" using assms(7) l by simp_all
    then show ?thesis using f stop_irq(5)[OF w(2) assms(6)] by simp
  qed
qed

text \<open>A message that is read and is not the last: once its last byte is due, no command is given.\<close>

lemma irq_stall:
  assumes "at i p True s" "i2c_state s = STATE_READ" "Suc i < length (msgs s)" "Suc (Suc p) = unat (len (msgs s ! i))"
    "status x AND ARBIT_LOST = 0"
  shows "\<exists>s'. nuc970_i2c_irq x s = s' \<and> events (bus s') = events (bus s)
     \<and> msg_idx s' = of_nat i \<and> i2c_state s' = STATE_READ \<and> msg_num s' \<noteq> 0"
proof -
  let ?m = "msgs s ! i" and ?s = "writel (status x OR IRQFLAG) CSR s"
  define s' where "s' = ?s\<lparr>msgs := (msgs s)[i := ?m\<lparr>buf := (buf ?m)[unat (msg_ptr s) := ucast (rxr x)]\<rparr>],
    msg_ptr := msg_ptr s + 1\<rparr>"
  have a: "at i p True ?s" using assms(1) by simp
  have i: "i < length (msgs s)" "msg s = Some i" "msgs_safe (msgs s)" "msg_num s = of_nat (length (msgs s))"
    "msg_ptr s = of_nat p" "msg_idx s = of_nat i"
    using assms(1) by (simp_all add: at_def)
  have l: "unat (ucast (len ?m) - 1 :: u32) = Suc p"
    using unat_minus_one[of "ucast (len ?m) :: u32"] assms(4) by (metis Suc_eq_plus1 diff_Suc_1 nat.distinct(1) unat_0 unat_len(1))
  have p: "Suc p < 2 ^ 32" using assms(4) unat_len(2)[of "len ?m"] by simp
  have ml: "is_msglast m s'" if "len m = len ?m" for m
    unfolding is_msglast_def that word_unat_eq_iff l using small_index(1)[OF p] by (simp add: s'_def i(5) add.commute)
  have nl: "\<not> is_lastmsg s'" using at_last[OF assms(1)] assms(3) by (simp add: is_lastmsg_def s'_def writel_def)
  have c: "cur_msg s' = Some (?m\<lparr>buf := (buf ?m)[unat (msg_ptr s) := ucast (rxr x)]\<rparr>)"
    using i by (simp add: cur_msg_def s'_def writel_def)
  have "nuc970_i2c_irq x s = state_read (rxr x) ?s"
    using assms(2,5) by (simp add: nuc970_i2c_irq_def Let_def i2c_nuc970_irq_nextbyte_def writel_fields)
  also have "\<dots> = prepare_read s'"
    using at_ptr[OF a] at_cur[OF a] assms(4) i by (simp add: state_read_def s'_def writel_def)
  also have "\<dots> = s'" using c ml nl by (simp add: prepare_read_def)
  finally show ?thesis using i assms(2) small_index(1)[of "length (msgs s)"]
    by (auto simp: s'_def writel_def events_append msgs_safe_def)
qed

end
