(* ===== verification/I2c_Core.thy ===== *)
theory I2c_Core
  imports I2c "HOL-Library.Monad_Syntax"
begin

text \<open>
  The bus independent layer, \<open>src/drivers/i2c/i2c-core.c\<close>: repeating a transfer, and the SMBus operations
  put together from plain messages, with the optional check byte (\<open>PEC\<close>).  An adapter is a record of its two
  entry points; the state \<open>'s\<close> is whatever the adapter works on.  A transfer gets the messages and returns its
  code, the messages with their buffers, and the new state.  What the code leaves uninitialised (two buffers on
  the stack and the union of the caller), the outcome of the locking and the clock are arguments, collected in
  \<open>call_env\<close>.  A function that would touch memory behind an array returns \<open>None\<close>.
\<close>

section \<open>Adapters and transfers\<close>

datatype read_write = I2C_SMBUS_READ | I2C_SMBUS_WRITE

datatype smbus_size = I2C_SMBUS_QUICK | I2C_SMBUS_BYTE | I2C_SMBUS_BYTE_DATA | I2C_SMBUS_WORD_DATA | I2C_SMBUS_PROC_CALL
  | I2C_SMBUS_BLOCK_DATA | I2C_SMBUS_BLOCK_PROC_CALL | I2C_SMBUS_I2C_BLOCK_DATA | Unknown_size

text \<open>The union \<open>i2c_smbus_data\<close>: every operation uses one of its members only.\<close>

record smbus_data =
  byte :: u8
  word :: u16
  block :: "u8 list"

record 's i2c_adapter =
  master_xfer :: "(i2c_msg list \<Rightarrow> 's \<Rightarrow> int \<times> i2c_msg list \<times> 's) option"
  smbus_xfer :: "(u16 \<Rightarrow> i2c_flag list \<Rightarrow> read_write \<Rightarrow> u8 \<Rightarrow> smbus_size \<Rightarrow> smbus_data \<Rightarrow> 's \<Rightarrow> int \<times> smbus_data \<times> 's) option"
  retries :: int

record i2c_client =
  client_addr :: u16
  client_flags :: "i2c_flag list"

text \<open>\<open>no_sleep\<close>: the caller must not sleep; \<open>got_lock\<close>: the adapter was free then; \<open>expired k\<close>: the time is over after
  attempt \<open>k\<close>; the contents of the two message buffers and of the caller's union before they are written.\<close>

record call_env =
  no_sleep :: bool
  got_lock :: bool
  expired :: "nat \<Rightarrow> bool"
  stack0 :: "u8 list"
  stack1 :: "u8 list"
  union0 :: smbus_data

definition I2C_SMBUS_BLOCK_MAX :: nat where "I2C_SMBUS_BLOCK_MAX = 32"

text \<open>The arrays have the sizes of their declarations, and the lock is obtained.\<close>

definition env_ok :: "call_env \<Rightarrow> bool" where
  "env_ok v \<longleftrightarrow> (no_sleep v \<longrightarrow> got_lock v) \<and> length (stack0 v) = I2C_SMBUS_BLOCK_MAX + 3 \<and> length (stack1 v) = I2C_SMBUS_BLOCK_MAX + 2
     \<and> length (block (union0 v)) = I2C_SMBUS_BLOCK_MAX + 2"

fun transfer_tries :: "nat \<Rightarrow> (i2c_msg list \<Rightarrow> 's \<Rightarrow> int \<times> i2c_msg list \<times> 's) \<Rightarrow> (nat \<Rightarrow> bool) \<Rightarrow> nat \<Rightarrow> int \<Rightarrow>
    i2c_msg list \<Rightarrow> 's \<Rightarrow> int \<times> i2c_msg list \<times> 's" where
  "transfer_tries 0 xfer ex k ret ms s = (ret, ms, s)"
| "transfer_tries (Suc n) xfer ex k ret ms s =
    (let (ret, ms, s) = xfer ms s in
     if ret \<noteq> - eno EAGAIN then (ret, ms, s)
     else if ex k then (ret, ms, s)
     else transfer_tries n xfer ex (Suc k) ret ms s)"

definition i2c_transfer_unlocked :: "int \<Rightarrow> (i2c_msg list \<Rightarrow> 's \<Rightarrow> int \<times> i2c_msg list \<times> 's) \<Rightarrow> (nat \<Rightarrow> bool) \<Rightarrow>
    i2c_msg list \<Rightarrow> 's \<Rightarrow> int \<times> i2c_msg list \<times> 's" where
  "i2c_transfer_unlocked tries xfer ex ms s = transfer_tries (nat (tries + 1)) xfer ex 0 0 ms s"

definition i2c_transfer :: "'s i2c_adapter \<Rightarrow> call_env \<Rightarrow> i2c_msg list \<Rightarrow> 's \<Rightarrow> int \<times> i2c_msg list \<times> 's" where
  "i2c_transfer adap v ms s = (case master_xfer adap of
     None \<Rightarrow> (- eno EOPNOTSUPP, ms, s)
   | Some xfer \<Rightarrow>
      if no_sleep v \<and> \<not> got_lock v then (- eno EAGAIN, ms, s)
      else i2c_transfer_unlocked (retries adap) xfer (expired v) ms s)"

definition i2c_master_send :: "'s i2c_adapter \<Rightarrow> call_env \<Rightarrow> i2c_client \<Rightarrow> u8 list \<Rightarrow> int \<Rightarrow> 's \<Rightarrow> int \<times> 's" where
  "i2c_master_send adap v client bs count s =
    (let m = \<lparr>addr = client_addr client, flags = filter (\<lambda>f. f = I2C_M_TEN) (client_flags client), len = of_int count, buf = bs\<rparr>;
         (ret, ms, s) = i2c_transfer adap v [m] s
     in (if ret = 1 then count else ret, s))"

definition i2c_master_recv :: "'s i2c_adapter \<Rightarrow> call_env \<Rightarrow> i2c_client \<Rightarrow> u8 list \<Rightarrow> int \<Rightarrow> 's \<Rightarrow> int \<times> u8 list \<times> 's" where
  "i2c_master_recv adap v client bs count s =
    (let m = \<lparr>addr = client_addr client, flags = I2C_M_RD # filter (\<lambda>f. f = I2C_M_TEN) (client_flags client),
           len = of_int count, buf = bs\<rparr>;
         (ret, ms, s) = i2c_transfer adap v [m] s
     in (if ret = 1 then count else ret, buf (hd ms), s))"

section \<open>The check byte\<close>

definition POLY :: u16 where "POLY = 0x8380"

fun crc8_loop :: "nat \<Rightarrow> u16 \<Rightarrow> u16" where
  "crc8_loop 0 d = d"
| "crc8_loop (Suc n) d = crc8_loop n (push_bit 1 (if d AND 0x8000 \<noteq> 0 then d XOR POLY else d))"

definition crc8 :: "u16 \<Rightarrow> u8" where
  "crc8 d = ucast (drop_bit 8 (crc8_loop 8 d))"

fun i2c_smbus_pec :: "u8 \<Rightarrow> u8 list \<Rightarrow> u8" where
  "i2c_smbus_pec crc [] = crc"
| "i2c_smbus_pec crc (p # ps) = i2c_smbus_pec (crc8 (push_bit 8 (ucast (crc XOR p)))) ps"

definition i2c_smbus_msg_pec :: "u8 \<Rightarrow> i2c_msg \<Rightarrow> u8" where
  "i2c_smbus_msg_pec pec m =
    (let a = ucast (push_bit 1 (addr m) OR of_bool (I2C_M_RD \<in> set (flags m)));
         pec = i2c_smbus_pec pec [a]
     in i2c_smbus_pec pec (take (unat (len m)) (buf m)))"

definition i2c_smbus_add_pec :: "i2c_msg \<Rightarrow> i2c_msg option" where
  "i2c_smbus_add_pec m =
    (if unat (len m) < length (buf m)
     then Some (m\<lparr>buf := (buf m)[unat (len m) := i2c_smbus_msg_pec 0 m], len := len m + 1\<rparr>) else None)"

definition i2c_smbus_check_pec :: "u8 \<Rightarrow> i2c_msg \<Rightarrow> (int \<times> i2c_msg) option" where
  "i2c_smbus_check_pec cpec m =
    (let m = m\<lparr>len := len m - 1\<rparr> in
     if unat (len m) < length (buf m)
     then Some (if buf m ! unat (len m) \<noteq> i2c_smbus_msg_pec cpec m then - eno EBADMSG else 0, m) else None)"

section \<open>SMBus operations from messages\<close>

text \<open>Writing \<open>xs\<close> into a buffer from position \<open>i\<close> on: the copying loops.\<close>

definition blit :: "nat \<Rightarrow> u8 list \<Rightarrow> u8 list \<Rightarrow> u8 list" where
  "blit i xs b = take i b @ xs @ drop (i + length xs) b"

text \<open>The \<open>switch\<close> that sets up the messages: an error, or the two messages, how many of them are used, and the
  direction.\<close>

definition emulated_setup :: "u16 \<Rightarrow> i2c_flag list \<Rightarrow> read_write \<Rightarrow> u8 \<Rightarrow> smbus_size \<Rightarrow> smbus_data \<Rightarrow> u8 list \<Rightarrow> u8 list \<Rightarrow>
    (i2c_msg \<times> i2c_msg \<times> nat \<times> read_write) result" where
  "emulated_setup a fl rw command sz d b0 b1 =
    (let msgbuf0 = blit 0 [command] b0;
         num = (if rw = I2C_SMBUS_READ then 2 else 1);
         m0 = \<lparr>addr = a, flags = fl, len = 1, buf = msgbuf0\<rparr>;
         m1 = \<lparr>addr = a, flags = I2C_M_RD # fl, len = 0, buf = b1\<rparr>;
         n = unat (block d ! 0)
     in case sz of
       I2C_SMBUS_QUICK \<Rightarrow> Inr (m0\<lparr>len := 0, flags := (if rw = I2C_SMBUS_READ then [I2C_M_RD] else []) @ fl\<rparr>, m1, 1, rw)
     | I2C_SMBUS_BYTE \<Rightarrow> Inr (if rw = I2C_SMBUS_READ then (m0\<lparr>flags := I2C_M_RD # fl\<rparr>, m1, 1, rw) else (m0, m1, num, rw))
     | I2C_SMBUS_BYTE_DATA \<Rightarrow>
         Inr (if rw = I2C_SMBUS_READ then (m0, m1\<lparr>len := 1\<rparr>, num, rw)
              else (m0\<lparr>len := 2, buf := blit 1 [byte d] msgbuf0\<rparr>, m1, num, rw))
     | I2C_SMBUS_WORD_DATA \<Rightarrow>
         Inr (if rw = I2C_SMBUS_READ then (m0, m1\<lparr>len := 2\<rparr>, num, rw)
              else (m0\<lparr>len := 3, buf := blit 1 [ucast (word d AND 0xff), ucast (drop_bit 8 (word d))] msgbuf0\<rparr>, m1, num, rw))
     | I2C_SMBUS_PROC_CALL \<Rightarrow>
         Inr (m0\<lparr>len := 3, buf := blit 1 [ucast (word d AND 0xff), ucast (drop_bit 8 (word d))] msgbuf0\<rparr>,
              m1\<lparr>len := 2\<rparr>, 2, I2C_SMBUS_READ)
     | I2C_SMBUS_BLOCK_DATA \<Rightarrow>
         (if rw = I2C_SMBUS_READ then Inr (m0, m1\<lparr>flags := I2C_M_RECV_LEN # flags m1, len := 1\<rparr>, num, rw)
          else if n + 2 > I2C_SMBUS_BLOCK_MAX + 2 then Inl EINVAL
          else Inr (m0\<lparr>len := of_nat (n + 2), buf := blit 1 (take (n + 1) (block d)) msgbuf0\<rparr>, m1, num, rw))
     | I2C_SMBUS_BLOCK_PROC_CALL \<Rightarrow>
         (if n > I2C_SMBUS_BLOCK_MAX then Inl EINVAL
          else Inr (m0\<lparr>len := of_nat (n + 2), buf := blit 1 (take (n + 1) (block d)) msgbuf0\<rparr>,
            m1\<lparr>flags := I2C_M_RECV_LEN # flags m1, len := 1\<rparr>, 2, I2C_SMBUS_READ))
     | I2C_SMBUS_I2C_BLOCK_DATA \<Rightarrow>
         (if rw = I2C_SMBUS_READ then Inr (m0, m1\<lparr>len := of_nat n\<rparr>, num, rw)
          else if n + 1 > I2C_SMBUS_BLOCK_MAX + 1 then Inl EINVAL
          else Inr (m0\<lparr>len := of_nat (n + 1), buf := blit 1 (take n (drop 1 (block d))) msgbuf0\<rparr>, m1, num, rw))
     | Unknown_size \<Rightarrow> Inl EOPNOTSUPP)"

text \<open>The check byte before the transfer: appended to a write, asked for with a read; the partial value of a write
  that is followed by a read.\<close>

definition emulated_pec :: "i2c_msg \<Rightarrow> i2c_msg \<Rightarrow> nat \<Rightarrow> (i2c_msg \<times> i2c_msg \<times> u8) option" where
  "emulated_pec m0 m1 num =
    (let rd = \<lambda>m. I2C_M_RD \<in> set (flags m) in
     do {
       (m0', pec) \<leftarrow> (if \<not> rd m0 then (if num = 1 then map_option (\<lambda>m. (m, 0)) (i2c_smbus_add_pec m0)
           else Some (m0, i2c_smbus_msg_pec 0 m0)) else Some (m0, 0));
       Some (if num = 1 then (if rd m0' then m0'\<lparr>len := len m0' + 1\<rparr> else m0', m1, pec)
             else (m0', if rd m1 then m1\<lparr>len := len m1 + 1\<rparr> else m1, pec))
     })"

text \<open>The second \<open>switch\<close>: what a read leaves in the caller's union.\<close>

definition emulated_result :: "smbus_size \<Rightarrow> u8 list \<Rightarrow> u8 list \<Rightarrow> smbus_data \<Rightarrow> smbus_data option" where
  "emulated_result sz msgbuf0 msgbuf1 d = (case sz of
     I2C_SMBUS_BYTE \<Rightarrow> Some (d\<lparr>byte := msgbuf0 ! 0\<rparr>)
   | I2C_SMBUS_BYTE_DATA \<Rightarrow> Some (d\<lparr>byte := msgbuf1 ! 0\<rparr>)
   | I2C_SMBUS_WORD_DATA \<Rightarrow> Some (d\<lparr>word := ucast (msgbuf1 ! 0) OR push_bit 8 (ucast (msgbuf1 ! 1))\<rparr>)
   | I2C_SMBUS_PROC_CALL \<Rightarrow> Some (d\<lparr>word := ucast (msgbuf1 ! 0) OR push_bit 8 (ucast (msgbuf1 ! 1))\<rparr>)
   | I2C_SMBUS_I2C_BLOCK_DATA \<Rightarrow>
      (let n = unat (block d ! 0) in
       if n \<le> length msgbuf1 \<and> n < length (block d) then Some (d\<lparr>block := blit 1 (take n msgbuf1) (block d)\<rparr>) else None)
   | I2C_SMBUS_BLOCK_DATA \<Rightarrow>
      (let n = unat (msgbuf1 ! 0) + 1 in
       if n \<le> length msgbuf1 \<and> n \<le> length (block d) then Some (d\<lparr>block := blit 0 (take n msgbuf1) (block d)\<rparr>) else None)
   | I2C_SMBUS_BLOCK_PROC_CALL \<Rightarrow>
      (let n = unat (msgbuf1 ! 0) + 1 in
       if n \<le> length msgbuf1 \<and> n \<le> length (block d) then Some (d\<lparr>block := blit 0 (take n msgbuf1) (block d)\<rparr>) else None)
   | _ \<Rightarrow> Some d)"

definition i2c_smbus_xfer_emulated :: "'s i2c_adapter \<Rightarrow> call_env \<Rightarrow> u16 \<Rightarrow> i2c_flag list \<Rightarrow> read_write \<Rightarrow> u8 \<Rightarrow> smbus_size \<Rightarrow>
    smbus_data \<Rightarrow> 's \<Rightarrow> (int \<times> smbus_data \<times> 's) option" where
  "i2c_smbus_xfer_emulated adap v a fl rw command sz d s =
    (case emulated_setup a fl rw command sz d (stack0 v) (stack1 v) of
       Inl e \<Rightarrow> Some (- eno e, d, s)
     | Inr (m0, m1, num, rw') \<Rightarrow>
        let i = I2C_CLIENT_PEC \<in> set fl \<and> sz \<noteq> I2C_SMBUS_QUICK \<and> sz \<noteq> I2C_SMBUS_I2C_BLOCK_DATA in
        do {
          (m0, m1, partial_pec) \<leftarrow> (if i then emulated_pec m0 m1 num else Some (m0, m1, 0));
          let (status, ms, s) = i2c_transfer adap v (if num = 1 then [m0] else [m0, m1]) s;
          if status < 0 then Some (status, d, s)
          else do {
            let lst = last ms;
            (status, _) \<leftarrow> (if i \<and> I2C_M_RD \<in> set (flags lst) then i2c_smbus_check_pec partial_pec lst else Some (0, lst));
            if status < 0 then Some (status, d, s)
            else do {
              d' \<leftarrow> (if rw' = I2C_SMBUS_READ
                then emulated_result sz (buf (hd ms)) (if num = 1 then buf m1 else buf lst) d else Some d);
              Some (0, d', s)
            }
          }
        })"

fun smbus_tries :: "nat \<Rightarrow> (smbus_data \<Rightarrow> 's \<Rightarrow> int \<times> smbus_data \<times> 's) \<Rightarrow> (nat \<Rightarrow> bool) \<Rightarrow> nat \<Rightarrow> int \<Rightarrow>
    smbus_data \<Rightarrow> 's \<Rightarrow> int \<times> smbus_data \<times> 's" where
  "smbus_tries 0 f ex k res d s = (res, d, s)"
| "smbus_tries (Suc n) f ex k res d s =
    (let (res, d, s) = f d s in
     if res \<noteq> - eno EAGAIN then (res, d, s)
     else if ex k then (res, d, s)
     else smbus_tries n f ex (Suc k) res d s)"

definition i2c_smbus_xfer :: "'s i2c_adapter \<Rightarrow> call_env \<Rightarrow> u16 \<Rightarrow> i2c_flag list \<Rightarrow> read_write \<Rightarrow> u8 \<Rightarrow> smbus_size \<Rightarrow>
    smbus_data \<Rightarrow> 's \<Rightarrow> (int \<times> smbus_data \<times> 's) option" where
  "i2c_smbus_xfer adap v a fl rw command protocol d s =
    (let fl = filter (\<lambda>f. f \<in> {I2C_M_TEN, I2C_CLIENT_PEC, I2C_CLIENT_SCCB}) fl in
     case smbus_xfer adap of
       None \<Rightarrow> i2c_smbus_xfer_emulated adap v a fl rw command protocol d s
     | Some f \<Rightarrow>
        (let (res, d, s) = smbus_tries (nat (retries adap + 1)) (f a fl rw command protocol) (expired v) 0 0 d s in
         if res \<noteq> - eno EOPNOTSUPP \<or> master_xfer adap = None then Some (res, d, s)
         else i2c_smbus_xfer_emulated adap v a fl rw command protocol d s))"

definition i2c_smbus_read_byte :: "'s i2c_adapter \<Rightarrow> call_env \<Rightarrow> i2c_client \<Rightarrow> 's \<Rightarrow> (int \<times> 's) option" where
  "i2c_smbus_read_byte adap v c s = do {
     (status, d, s) \<leftarrow> i2c_smbus_xfer adap v (client_addr c) (client_flags c) I2C_SMBUS_READ 0 I2C_SMBUS_BYTE (union0 v) s;
     Some (if status < 0 then status else uint (byte d), s) }"

definition i2c_smbus_write_byte :: "'s i2c_adapter \<Rightarrow> call_env \<Rightarrow> i2c_client \<Rightarrow> u8 \<Rightarrow> 's \<Rightarrow> (int \<times> 's) option" where
  "i2c_smbus_write_byte adap v c value s = do {
     (status, d, s) \<leftarrow> i2c_smbus_xfer adap v (client_addr c) (client_flags c) I2C_SMBUS_WRITE value I2C_SMBUS_BYTE (union0 v) s;
     Some (status, s) }"

definition i2c_smbus_read_byte_data :: "'s i2c_adapter \<Rightarrow> call_env \<Rightarrow> i2c_client \<Rightarrow> u8 \<Rightarrow> 's \<Rightarrow> (int \<times> 's) option" where
  "i2c_smbus_read_byte_data adap v c command s = do {
     (status, d, s) \<leftarrow> i2c_smbus_xfer adap v (client_addr c) (client_flags c) I2C_SMBUS_READ command I2C_SMBUS_BYTE_DATA (union0 v) s;
     Some (if status < 0 then status else uint (byte d), s) }"

definition i2c_smbus_write_byte_data :: "'s i2c_adapter \<Rightarrow> call_env \<Rightarrow> i2c_client \<Rightarrow> u8 \<Rightarrow> u8 \<Rightarrow> 's \<Rightarrow> (int \<times> 's) option" where
  "i2c_smbus_write_byte_data adap v c command value s = do {
     (status, d, s) \<leftarrow> i2c_smbus_xfer adap v (client_addr c) (client_flags c) I2C_SMBUS_WRITE command I2C_SMBUS_BYTE_DATA
       ((union0 v)\<lparr>byte := value\<rparr>) s;
     Some (status, s) }"

definition i2c_smbus_read_word_data :: "'s i2c_adapter \<Rightarrow> call_env \<Rightarrow> i2c_client \<Rightarrow> u8 \<Rightarrow> 's \<Rightarrow> (int \<times> 's) option" where
  "i2c_smbus_read_word_data adap v c command s = do {
     (status, d, s) \<leftarrow> i2c_smbus_xfer adap v (client_addr c) (client_flags c) I2C_SMBUS_READ command I2C_SMBUS_WORD_DATA (union0 v) s;
     Some (if status < 0 then status else uint (word d), s) }"

definition i2c_smbus_write_word_data :: "'s i2c_adapter \<Rightarrow> call_env \<Rightarrow> i2c_client \<Rightarrow> u8 \<Rightarrow> u16 \<Rightarrow> 's \<Rightarrow> (int \<times> 's) option" where
  "i2c_smbus_write_word_data adap v c command value s = do {
     (status, d, s) \<leftarrow> i2c_smbus_xfer adap v (client_addr c) (client_flags c) I2C_SMBUS_WRITE command I2C_SMBUS_WORD_DATA
       ((union0 v)\<lparr>word := value\<rparr>) s;
     Some (status, s) }"

text \<open>The operations on blocks: the second component is what is copied to the caller's \<open>values\<close>.\<close>

definition i2c_smbus_read_block_data :: "'s i2c_adapter \<Rightarrow> call_env \<Rightarrow> i2c_client \<Rightarrow> u8 \<Rightarrow> 's \<Rightarrow> (int \<times> u8 list \<times> 's) option" where
  "i2c_smbus_read_block_data adap v c command s = do {
     (status, d, s) \<leftarrow> i2c_smbus_xfer adap v (client_addr c) (client_flags c) I2C_SMBUS_READ command I2C_SMBUS_BLOCK_DATA (union0 v) s;
     if status \<noteq> 0 then Some (status, [], s)
     else if unat (block d ! 0) < length (block d)
       then Some (uint (block d ! 0), take (unat (block d ! 0)) (drop 1 (block d)), s) else None }"

definition clip_length :: "u8 \<Rightarrow> u8" where
  "clip_length n = (if unat n > I2C_SMBUS_BLOCK_MAX then of_nat I2C_SMBUS_BLOCK_MAX else n)"

definition i2c_smbus_write_block_data :: "'s i2c_adapter \<Rightarrow> call_env \<Rightarrow> i2c_client \<Rightarrow> u8 \<Rightarrow> u8 \<Rightarrow> u8 list \<Rightarrow> 's \<Rightarrow> (int \<times> 's) option" where
  "i2c_smbus_write_block_data adap v c command n values s =
    (let n = clip_length n in
     if unat n > length values then None
     else do {
       (status, d, s) \<leftarrow> i2c_smbus_xfer adap v (client_addr c) (client_flags c) I2C_SMBUS_WRITE command I2C_SMBUS_BLOCK_DATA
         ((union0 v)\<lparr>block := blit 0 (n # take (unat n) values) (block (union0 v))\<rparr>) s;
       Some (status, s) })"

definition i2c_smbus_read_i2c_block_data :: "'s i2c_adapter \<Rightarrow> call_env \<Rightarrow> i2c_client \<Rightarrow> u8 \<Rightarrow> u8 \<Rightarrow> 's \<Rightarrow>
    (int \<times> u8 list \<times> 's) option" where
  "i2c_smbus_read_i2c_block_data adap v c command n s = do {
     (status, d, s) \<leftarrow> i2c_smbus_xfer adap v (client_addr c) (client_flags c) I2C_SMBUS_READ command I2C_SMBUS_I2C_BLOCK_DATA
       ((union0 v)\<lparr>block := blit 0 [clip_length n] (block (union0 v))\<rparr>) s;
     if status < 0 then Some (status, [], s)
     else if unat (block d ! 0) < length (block d)
       then Some (uint (block d ! 0), take (unat (block d ! 0)) (drop 1 (block d)), s) else None }"

definition i2c_smbus_write_i2c_block_data :: "'s i2c_adapter \<Rightarrow> call_env \<Rightarrow> i2c_client \<Rightarrow> u8 \<Rightarrow> u8 \<Rightarrow> u8 list \<Rightarrow> 's \<Rightarrow> (int \<times> 's) option" where
  "i2c_smbus_write_i2c_block_data adap v c command n values s =
    (let n = clip_length n in
     if unat n > length values then None
     else do {
       (status, d, s) \<leftarrow> i2c_smbus_xfer adap v (client_addr c) (client_flags c) I2C_SMBUS_WRITE command I2C_SMBUS_I2C_BLOCK_DATA
         ((union0 v)\<lparr>block := blit 0 (n # take (unat n) values) (block (union0 v))\<rparr>) s;
       Some (status, s) })"

section \<open>What the check byte detects\<close>

text \<open>The reference: division by x^8 + x^2 + x + 1, one bit at a time on eight bits.\<close>

definition crc_step :: "u8 \<Rightarrow> u8" where
  "crc_step u = push_bit 1 u XOR (if bit u 7 then mask 3 else 0)"

lemma bit_crc_step: "bit (crc_step u) n \<longleftrightarrow> n < 8 \<and> ((0 < n \<and> bit u (n - 1)) \<noteq> (n < 3 \<and> bit u 7))"
proof -
  have "bit (if bit u 7 then mask 3 else 0 :: u8) n \<longleftrightarrow> n < 3 \<and> bit u 7"
    by (simp only: bit_mask_iff possible_bit_word split: if_split) auto
  then show ?thesis unfolding crc_step_def bit_xor_iff bit_push_bit_iff by (cases n) auto
qed

lemma inj_crc_step: "inj crc_step"
proof (rule injI, rule bit_word_eqI)
  fix u w :: u8 and n assume "crc_step u = crc_step w" and n: "n < LENGTH(8)"
  then have e: "bit (crc_step u) k = bit (crc_step w) k" for k by simp
  have "bit u 7 = bit w 7" using e[of 0] by (simp add: bit_crc_step)
  then show "bit u n = bit w n" using e[of "Suc n"] n by (cases "n = 7") (auto simp: bit_crc_step)
qed

lemma bit_POLY: "bit POLY n \<longleftrightarrow> n \<in> {7, 8, 9, 15}"
proof -
  have P: "POLY = push_bit 7 (mask 3) OR BIT 15" by (simp add: POLY_def mask_eq_exp_minus_1 BIT_def)
  show ?thesis unfolding P bit_or_iff bit_push_bit_iff bit_mask_iff bit_BIT by auto
qed

lemma test_msb: "(d :: u16) AND 0x8000 \<noteq> 0 \<longleftrightarrow> bit d 15"
proof -
  have m: "(0x8000 :: u16) = BIT 15" by (simp add: BIT_def)
  show ?thesis unfolding m by (simp add: and_BIT_eq_0)
qed

lemma crc_step_16:
  fixes d :: u16 and u :: u8
  assumes d: "d = push_bit 8 (ucast u)"
  shows "push_bit 1 (if d AND 0x8000 \<noteq> 0 then d XOR POLY else d) = push_bit 8 (ucast (crc_step u))"
proof (rule bit_word_eqI)
  fix n assume "n < LENGTH(16)"
  then have n: "n < 16" by simp
  have b: "bit d k \<longleftrightarrow> 8 \<le> k \<and> k < 16 \<and> bit u (k - 8)" for k
    unfolding d bit_push_bit_iff bit_unsigned_iff by auto
  have t: "d AND 0x8000 \<noteq> 0 \<longleftrightarrow> bit u 7" by (simp add: test_msb b)
  have x: "bit (if bit u 7 then d XOR POLY else d) k \<longleftrightarrow> bit d k \<noteq> (bit u 7 \<and> k \<in> {7, 8, 9, 15})" for k
    by (cases "bit u 7") (simp_all only: bit_xor_iff bit_POLY if_True if_False simp_thms)
  have l: "bit (push_bit 1 (if d AND 0x8000 \<noteq> 0 then d XOR POLY else d)) n
      \<longleftrightarrow> 0 < n \<and> (bit d (n - 1) \<noteq> (bit u 7 \<and> n - 1 \<in> {7, 8, 9, 15}))"
    unfolding t bit_push_bit_iff x using n by auto
  have r: "bit (push_bit 8 (ucast (crc_step u)) :: u16) n \<longleftrightarrow> 8 \<le> n \<and> bit (crc_step u) (n - 8)"
    unfolding bit_push_bit_iff bit_unsigned_iff using n by auto
  consider "n < 8" | "n = 8" | "8 < n" by linarith
  then show "bit (push_bit 1 (if d AND 0x8000 \<noteq> 0 then d XOR POLY else d)) n = bit (push_bit 8 (ucast (crc_step u)) :: u16) n"
  proof cases
    case 1
    then show ?thesis unfolding l r b by auto
  next
    case 2
    then show ?thesis unfolding l r b bit_crc_step by simp
  next
    case 3
    moreover have "n - 1 - 8 = n - 8 - 1" by simp
    moreover have "(n - 1 \<in> {7, 8, 9, 15}) = (n - 8 < 3)" using 3 n by auto
    ultimately show ?thesis unfolding l r b bit_crc_step using n by auto
  qed
qed

lemma crc8_loop_ref: "crc8_loop n (push_bit 8 (ucast u)) = push_bit 8 (ucast ((crc_step ^^ n) u))"
proof (induction n arbitrary: u)
  case (Suc n)
  have "crc8_loop (Suc n) (push_bit 8 (ucast u)) = crc8_loop n (push_bit 8 (ucast (crc_step u)))"
    unfolding crc8_loop.simps crc_step_16[OF refl] ..
  then show ?case using Suc by (simp only: funpow_Suc_right comp_apply)
qed simp

lemma crc8_ref: "crc8 (push_bit 8 (ucast u)) = (crc_step ^^ 8) u"
proof (rule bit_word_eqI)
  fix n assume "n < LENGTH(8)"
  then show "bit (crc8 (push_bit 8 (ucast u))) n = bit ((crc_step ^^ 8) u) n"
    unfolding crc8_def crc8_loop_ref bit_unsigned_iff bit_drop_bit_eq comp_apply bit_push_bit_iff by (auto simp: bit_unsigned_iff)
qed

lemma inj_crc8: "inj (\<lambda>u :: u8. crc8 (push_bit 8 (ucast u)))"
  unfolding crc8_ref using inj_fn[OF inj_crc_step] by simp

lemma crc8_eq: "crc8 (push_bit 8 (ucast (u :: u8))) = crc8 (push_bit 8 (ucast w)) \<longleftrightarrow> u = w"
  using inj_crc8 by (auto dest: injD)

lemma byte_xor_cancel: "c XOR a = c XOR b \<longleftrightarrow> a = (b :: u8)"
  by (metis xor.assoc xor_self_eq xor.left_neutral)

lemma pec_append: "i2c_smbus_pec c (as @ bs) = i2c_smbus_pec (i2c_smbus_pec c as) bs"
  by (induction as arbitrary: c) simp_all

lemma pec_inj: "i2c_smbus_pec c ps = i2c_smbus_pec c' ps \<longleftrightarrow> c = c'"
proof (induction ps arbitrary: c c')
  case (Cons p ps)
  show ?case using crc8_eq[of "c XOR p" "c' XOR p"] byte_xor_cancel[of p c c']
    by (simp add: Cons.IH xor.commute del: i2c_smbus_pec.simps(1))
qed simp

lemma pec_one_byte: "i2c_smbus_pec c (as @ a # bs) = i2c_smbus_pec c (as @ b # bs) \<longleftrightarrow> a = b"
  unfolding pec_append i2c_smbus_pec.simps pec_inj crc8_eq byte_xor_cancel ..

lemma pec_zero: "i2c_smbus_pec c (ps @ [i2c_smbus_pec c ps]) = 0"
proof -
  have "crc_step 0 = 0" by (simp add: crc_step_def)
  then have "(crc_step ^^ n) 0 = 0" for n by (induction n) simp_all
  then show ?thesis unfolding pec_append i2c_smbus_pec.simps xor_self_eq crc8_ref .
qed

lemma msg_pec_eq: "i2c_smbus_msg_pec c m = i2c_smbus_pec c (addr_byte m # msg_data m)"
proof -
  have "(ucast (push_bit 1 a OR of_bool b) :: u8) = push_bit 1 (ucast a) OR of_bool b" for a :: u16 and b
    by (rule bit_word_eqI, unfold bit_unsigned_iff bit_or_iff bit_push_bit_iff bit_unsigned_iff) (auto simp: bit_1_iff)
  then show ?thesis by (simp add: i2c_smbus_msg_pec_def Let_def addr_byte_def msg_data_def)
qed

lemma pec_update:
  assumes "i < length ps" "b \<noteq> ps ! i"
  shows "i2c_smbus_pec c (ps[i := b]) \<noteq> i2c_smbus_pec c ps"
  using pec_one_byte[of c "take i ps" b "drop (Suc i) ps" "ps ! i"] assms
  by (simp add: upd_conv_take_nth_drop id_take_nth_drop[symmetric])

lemma add_pec_residue:
  assumes "i2c_smbus_add_pec m = Some m'" "unat (len m) < 0xffff"
  shows "i2c_smbus_pec 0 (addr_byte m' # msg_data m') = 0"
proof -
  define p where "p = i2c_smbus_msg_pec 0 m"
  have l: "unat (len m) < length (buf m)" and m': "m' = m\<lparr>buf := (buf m)[unat (len m) := p], len := len m + 1\<rparr>"
    using assms by (auto simp: i2c_smbus_add_pec_def p_def split: if_splits)
  have "unat (len m + 1) = Suc (unat (len m))" using assms(2) by (simp add: unat_word_ariths)
  then have "msg_data m' = msg_data m @ [p]" using l by (simp add: m' msg_data_def take_Suc_conv_app_nth)
  then show ?thesis
    using pec_zero[of 0 "addr_byte m # msg_data m"] by (simp add: p_def msg_pec_eq m' addr_byte_def)
qed

text \<open>C16. The check byte of the SMBus layer detects every change of one byte: a message that
  \<open>i2c_smbus_check_pec\<close> accepts is refused with \<open>-EBADMSG\<close> as soon as any one of its bytes, the check byte
  included, is replaced by another value.\<close>

theorem pec_detects:
  assumes "i2c_smbus_check_pec c m = Some (0, m2)" "i < unat (len m)" "b \<noteq> buf m ! i"
  shows "map_option fst (i2c_smbus_check_pec c (m\<lparr>buf := (buf m)[i := b]\<rparr>)) = Some (- eno EBADMSG)"
proof -
  define n where "n = unat (len m - 1)"
  have "len m \<noteq> 0" using assms(2) by auto
  then have n: "Suc n = unat (len m)" using assms(2) unat_minus_one[of "len m"] by (auto simp: n_def)
  let ?a = "addr_byte m" and ?b = "(buf m)[i := b]"
  have ok: "n < length (buf m)" "buf m ! n = i2c_smbus_pec c (?a # take n (buf m))"
    using assms(1) by (auto simp: i2c_smbus_check_pec_def Let_def msg_pec_eq msg_data_def addr_byte_def n_def split: if_splits)
  have "?b ! n \<noteq> i2c_smbus_pec c (?a # take n ?b)"
  proof (cases "i = n")
    case True
    then show ?thesis using ok assms(3) by (simp del: i2c_smbus_pec.simps)
  next
    case False
    then have "i < n" using assms(2) n by simp
    then have "take n ?b = (take n (buf m))[i := b]" by (simp add: take_update_swap)
    then have "?a # take n ?b = (?a # take n (buf m))[Suc i := b]" by simp
    then show ?thesis using pec_update[of "Suc i" "?a # take n (buf m)" b c] ok assms(3) \<open>i < n\<close>
      by (simp del: i2c_smbus_pec.simps)
  qed
  then show ?thesis
    using ok(1) by (simp add: i2c_smbus_check_pec_def Let_def msg_pec_eq msg_data_def addr_byte_def n_def)
qed

lemma check_pec_sample:
  "i2c_smbus_check_pec 0 \<lparr>addr = 0x32, flags = [I2C_M_RD], len = 2, buf = [0x12, i2c_smbus_pec 0 [0x65, 0x12]]\<rparr>
     = Some (0, \<lparr>addr = 0x32, flags = [I2C_M_RD], len = 1, buf = [0x12, i2c_smbus_pec 0 [0x65, 0x12]]\<rparr>)"
  using pec_append[of 0 "[0x65]" "[0x12]"]
  by (simp add: i2c_smbus_check_pec_def i2c_smbus_msg_pec_def del: i2c_smbus_pec.simps(2))

theorem pec_detects_witness:
  "map_option fst (i2c_smbus_check_pec 0 \<lparr>addr = 0x32, flags = [I2C_M_RD], len = 2, buf = [0x13, i2c_smbus_pec 0 [0x65, 0x12]]\<rparr>)
     = Some (- 74)"
  using pec_detects[OF check_pec_sample, of 0 "0x13"] by simp

section \<open>Operations without check byte on an adapter that has plain transfers only\<close>

lemma blit_0: "b \<noteq> [] \<Longrightarrow> blit 0 [x] b = x # tl b"
  by (cases b) (simp_all add: blit_def)

lemma blit_1: "length xs < length b \<Longrightarrow> blit (Suc 0) xs (y # tl b) = y # xs @ drop (Suc (length xs)) b"
  by (cases b) (simp_all add: blit_def)

lemma transfer_once:
  assumes "master_xfer adap = Some f" "0 \<le> retries adap" "env_ok v" "f ms s = (r, ms', s')" "r \<noteq> - 11"
  shows "i2c_transfer adap v ms s = (r, ms', s')"
proof -
  obtain n where "nat (retries adap + 1) = Suc n" using assms(2) by (cases "nat (retries adap + 1)") auto
  then show ?thesis using assms by (auto simp: i2c_transfer_def i2c_transfer_unlocked_def env_ok_def)
qed

text \<open>The messages of the operations: a write from the first stack buffer, a read into the first or the second.\<close>

definition wmsg :: "call_env \<Rightarrow> i2c_client \<Rightarrow> u8 list \<Rightarrow> i2c_msg" where
  "wmsg v c bs = \<lparr>addr = client_addr c, flags = [], len = of_nat (length bs), buf = bs @ drop (length bs) (stack0 v)\<rparr>"

definition rmsg :: "i2c_client \<Rightarrow> nat \<Rightarrow> u8 list \<Rightarrow> i2c_msg" where
  "rmsg c n b = \<lparr>addr = client_addr c, flags = [I2C_M_RD], len = of_nat n, buf = b\<rparr>"

lemma stacks:
  assumes "env_ok v"
  shows "stack0 v \<noteq> []" "stack1 v \<noteq> []" "length (stack0 v) = 35" "length (stack1 v) = 34" "length (block (union0 v)) = 34"
  using assms by (auto simp: env_ok_def I2C_SMBUS_BLOCK_MAX_def)

lemmas smbus_defs = i2c_smbus_xfer_def i2c_smbus_xfer_emulated_def emulated_setup_def Let_def wmsg_def rmsg_def blit_0 blit_1

locale plain_adapter =
  fixes adap :: "'s i2c_adapter" and f
  assumes xfer: "master_xfer adap = Some f" "smbus_xfer adap = None" "0 \<le> retries adap"
begin

lemma write_byte:
  assumes "env_ok v" "client_flags c = []" "f [wmsg v c [p]] s = (r, ms', s')" "r \<noteq> - 11"
  shows "i2c_smbus_write_byte adap v c p s = Some (if r < 0 then r else 0, s')"
  using transfer_once[OF xfer(1,3) assms(1,3,4)] xfer stacks[OF assms(1)] assms(2)
  by (simp add: i2c_smbus_write_byte_def smbus_defs drop_Suc)

lemma read_byte:
  assumes "env_ok v" "client_flags c = []" "f [rmsg c 1 (0 # tl (stack0 v))] s = (r, ms', s')" "r \<noteq> - 11"
  shows "i2c_smbus_read_byte adap v c s = Some (if r < 0 then r else uint (buf (hd ms') ! 0), s')"
  using transfer_once[OF xfer(1,3) assms(1,3,4)] xfer stacks[OF assms(1)] assms(2)
  by (simp add: i2c_smbus_read_byte_def smbus_defs emulated_result_def)

lemma write_byte_data:
  assumes "env_ok v" "client_flags c = []" "f [wmsg v c [p, b]] s = (r, ms', s')" "r \<noteq> - 11"
  shows "i2c_smbus_write_byte_data adap v c p b s = Some (if r < 0 then r else 0, s')"
  using transfer_once[OF xfer(1,3) assms(1,3,4)] xfer stacks[OF assms(1)] assms(2)
  by (simp add: i2c_smbus_write_byte_data_def smbus_defs)

lemma write_i2c_block_data:
  assumes "env_ok v" "client_flags c = []" "f [wmsg v c (p # bs)] s = (r, ms', s')" "r \<noteq> - 11" "length bs \<le> 32"
  shows "i2c_smbus_write_i2c_block_data adap v c p (of_nat (length bs)) bs s = Some (if r < 0 then r else 0, s')"
proof -
  have "unat (of_nat (length bs) :: u8) = length bs" using assms(5) by (simp add: unat_of_nat take_bit_nat_eq_self)
  moreover have "blit 0 (x # bs) (block (union0 v)) = x # bs @ drop (Suc (length bs)) (block (union0 v))" for x
    by (simp add: blit_def)
  ultimately show ?thesis using transfer_once[OF xfer(1,3) assms(1,3,4)] xfer stacks[OF assms(1)] assms(2,5)
    by (simp add: i2c_smbus_write_i2c_block_data_def smbus_defs clip_length_def I2C_SMBUS_BLOCK_MAX_def)
qed

lemma read_i2c_block_data:
  assumes "env_ok v" "client_flags c = []" "f [wmsg v c [p], rmsg c n (stack1 v)] s = (r, ms', s')"
    "0 \<le> r" "n \<le> 32" "length ms' = 2" "length (buf (ms' ! 1)) = 34"
  shows "i2c_smbus_read_i2c_block_data adap v c p (of_nat n) s = Some (int n, take n (buf (ms' ! 1)), s')"
proof -
  have r: "r \<noteq> - 11" using assms(4) by simp
  have "unat (of_nat n :: u8) = n" "uint (of_nat n :: u8) = int n"
    using assms(5) by (simp_all add: unat_of_nat uint_nat take_bit_nat_eq_self)
  moreover have "last ms' = ms' ! 1" using assms(6) last_conv_nth[of ms'] by force
  moreover have "block (union0 v) \<noteq> []" using stacks(5)[OF assms(1)] by auto
  ultimately show ?thesis using transfer_once[OF xfer(1,3) assms(1,3) r] xfer stacks[OF assms(1)] assms(2,4-7)
    by (simp add: i2c_smbus_read_i2c_block_data_def smbus_defs clip_length_def I2C_SMBUS_BLOCK_MAX_def emulated_result_def drop_Suc)
qed

end

end
