(* ===== verification/I2c_Dev.thy ===== *)
theory I2c_Dev
  imports I2c_Core
begin

text \<open>
  The whole path from an SMBus operation down to a device.  The device is given by its bus protocol: a file
  of byte registers with an address pointer, the protocol of the clock chip of the board and of most small
  I2C devices.  The controller of \<open>src/drivers/i2c/busses/i2c-nuc970-p0.c\<close> carries out the commands the driver
  writes into its registers and interrupts once for each of them; what the interrupt reports is what the device
  answers to that command, and the interrupt routine then decides what the next command is.
\<close>

section \<open>A device with registers\<close>

datatype sel = Off | First | Store | Fetch

record reg_dev =
  dev_addr :: u8
  sel :: sel
  pos :: u8
  regs :: "u8 \<Rightarrow> u8"

text \<open>One event on the bus: whether the device acknowledges, the byte it sends, and its new state.  The first byte
  of a write sets the pointer, every later byte is stored; a read sends the registers from the pointer on.\<close>

fun dev_step :: "bus_event \<Rightarrow> reg_dev \<Rightarrow> bool \<times> u8 \<times> reg_dev" where
  "dev_step (Start a) c =
    (if drop_bit 1 a = dev_addr c then (True, 0, c\<lparr>sel := if bit a 0 then Fetch else First\<rparr>) else (False, 0, c\<lparr>sel := Off\<rparr>))"
| "dev_step (Put b) c = (case sel c of
     First \<Rightarrow> (True, 0, c\<lparr>sel := Store, pos := b\<rparr>)
   | Store \<Rightarrow> (True, 0, c\<lparr>regs := (regs c)(pos c := b), pos := pos c + 1\<rparr>)
   | _ \<Rightarrow> (False, 0, c))"
| "dev_step (Get a) c = (if sel c = Fetch then (True, regs c (pos c), c\<lparr>pos := pos c + 1\<rparr>) else (True, 0xff, c))"
| "dev_step Stop c = (True, 0, c\<lparr>sel := Off\<rparr>)"
| "dev_step (Other x) c = (False, 0, c)"

definition dev_irq :: "bool \<Rightarrow> u8 \<Rightarrow> i2c_in" where
  "dev_irq ack b = \<lparr>status = (if ack then IRQFLAG else IRQFLAG OR SLAVE_ACK), csr_again = IRQEN, rxr = ucast b\<rparr>"

text \<open>The controller with the device behind it.  While the driver has given a command that is not yet carried out, the
  device answers to it and the interrupt routine runs; \<open>k\<close> is the number of commands carried out so far, all
  taken from the log of the driver's register writes.  At most \<open>n\<close> interrupts happen in the five seconds the driver waits.\<close>

fun serve :: "nat \<Rightarrow> nat \<Rightarrow> nuc970_i2c \<Rightarrow> reg_dev \<Rightarrow> i2c_in list \<times> reg_dev" where
  "serve 0 k s c = ([], c)"
| "serve (Suc n) k s c =
    (if k < length (events (bus s)) then
       (let (ack, b, c) = dev_step (events (bus s) ! k) c;
            x = dev_irq ack b;
            (xs, c) = serve n (Suc k) (nuc970_i2c_irq x s) c
        in (x # xs, c))
     else ([], c))"

text \<open>A bus of 100 kHz moves a byte and its acknowledge bit in nine clocks.\<close>

definition wait_irqs :: nat where
  "wait_irqs = 5 * 100000 div 9"

text \<open>What the adapter of the board does with a set of messages: the interrupts of \<open>nuc970_i2c0_xfer\<close> are the answers to
  its own commands.  The bus is free and no arbitration is lost, so there is only one attempt.\<close>

definition dev_env :: "u32 \<Rightarrow> i2c_in list \<Rightarrow> xfer_env" where
  "dev_env csr xs = \<lparr>polls = (\<lambda>_. (I2CSTART, csr AND NOT I2CBUSY)), irqs = xs, csr_last = csr\<rparr>"

definition nuc_master_xfer :: "u32 \<Rightarrow> i2c_msg list \<Rightarrow> nuc970_i2c \<times> reg_dev \<Rightarrow> int \<times> i2c_msg list \<times> nuc970_i2c \<times> reg_dev" where
  "nuc_master_xfer csr ms = (\<lambda>(s, c).
    let (xs, c') = serve wait_irqs (length (events (bus s))) (doxfer_begin (nuc970_i2c0_enable_irq csr (s\<lparr>msgs := ms\<rparr>))) c;
        (r, s') = nuc970_i2c0_xfer csr (\<lambda>_. dev_env csr xs) ms s
    in (r, msgs s', s', c'))"

definition nuc970_i2c0_adapter :: "u32 \<Rightarrow> (nuc970_i2c \<times> reg_dev) i2c_adapter" where
  "nuc970_i2c0_adapter csr = \<lparr>master_xfer = Some (nuc_master_xfer csr), smbus_xfer = None, retries = 2\<rparr>"

interpretation nuc: plain_adapter "nuc970_i2c0_adapter csr" "nuc_master_xfer csr" for csr
  by unfold_locales (simp_all add: nuc970_i2c0_adapter_def)

lemma rxr_dev_irq: "(ucast (rxr (dev_irq a b)) :: u8) = b"
  by (rule bit_word_eqI) (simp add: dev_irq_def bit_unsigned_iff)

section \<open>What the device makes of the messages\<close>

text \<open>The interrupts and the device after a given sequence of commands.\<close>

fun answers :: "bus_event list \<Rightarrow> reg_dev \<Rightarrow> i2c_in list \<times> reg_dev" where
  "answers [] c = ([], c)"
| "answers (e # es) c =
    (let (ack, b, c) = dev_step e c; (xs, c) = answers es c in (dev_irq ack b # xs, c))"

lemma length_answers [simp]: "length (fst (answers es c)) = length es"
  by (induction es arbitrary: c) (simp_all add: split_beta)

text \<open>When the commands of the driver appear one by one in a certain order, the device hears them in that order.\<close>

lemma serve_in_step:
  assumes "answers es c = (xs, c')" "length es \<le> n"
    and "\<And>k. k \<le> length xs \<Longrightarrow> events (bus (fold nuc970_i2c_irq (take k xs) s)) = es0 @ take (Suc k) es"
  shows "serve n (length es0) s c = (xs, c')"
  using assms
proof (induction es arbitrary: n s c xs es0)
  case Nil
  then show ?case using Nil(3)[of 0] by (cases n) simp_all
next
  case (Cons e es)
  obtain ack b d where d: "dev_step e c = (ack, b, d)" by (metis prod_cases3)
  obtain ys where ys: "answers es d = (ys, c')" "xs = dev_irq ack b # ys" using Cons.prems(1) d by (auto split: prod.splits)
  obtain m where n: "n = Suc m" "length es \<le> m" using Cons.prems(2) by (cases n) auto
  have "events (bus s) = es0 @ [e]" using Cons.prems(3)[of 0] by simp
  moreover have "serve m (length (es0 @ [e])) (nuc970_i2c_irq (dev_irq ack b) s) d = (ys, c')"
    using Cons.prems(3)[of "Suc _"] ys(2) by (intro Cons.IH[OF ys(1) n(2)]) simp
  ultimately show ?case using d ys(2) n(1) by (simp add: nth_append)
qed

definition dev_store :: "u8 list \<Rightarrow> reg_dev \<Rightarrow> reg_dev" where
  "dev_store bs c = fold (\<lambda>b c. c\<lparr>regs := (regs c)(pos c := b), pos := pos c + 1\<rparr>) bs c"

definition dev_fetch :: "nat \<Rightarrow> reg_dev \<Rightarrow> u8 list" where
  "dev_fetch n c = map (\<lambda>k. regs c (pos c + of_nat k)) [0..<n]"

lemma dev_store_keeps [simp]: "dev_addr (dev_store bs c) = dev_addr c" "sel (dev_store bs c) = sel c"
  "pos (dev_store bs c) = pos c + of_nat (length bs)"
  by (induction bs arbitrary: c) (simp_all add: dev_store_def)

lemma answers_put:
  "sel c = Store \<Longrightarrow> answers (map Put bs @ es) c =
     (let (xs, c') = answers es (dev_store bs c) in (replicate (length bs) (dev_irq True 0) @ xs, c'))"
  by (induction bs arbitrary: c) (simp_all add: dev_store_def Let_def split_beta)

lemma answers_get:
  "sel c = Fetch \<Longrightarrow> answers (map (\<lambda>k. Get (f k)) ks @ es) c =
     (let (xs, c') = answers es (c\<lparr>pos := pos c + of_nat (length ks)\<rparr>) in (map (dev_irq True) (dev_fetch (length ks) c) @ xs, c'))"
proof (induction ks arbitrary: c)
  case (Cons k ks)
  have "dev_fetch (length (k # ks)) c = regs c (pos c) # dev_fetch (length ks) (c\<lparr>pos := pos c + 1\<rparr>)"
    by (simp add: dev_fetch_def upt_conv_Cons map_Suc_upt[symmetric] add.assoc del: upt_Suc)
  then show ?case using Cons by (simp add: Let_def split_beta add.assoc)
qed (simp add: dev_fetch_def)

lemma addr_byte_bits:
  assumes "addr m < 0x80"
  shows "drop_bit 1 (addr_byte m) = ucast (addr m)" "bit (addr_byte m) 0 \<longleftrightarrow> I2C_M_RD \<in> set (flags m)"
proof -
  have b: "bit (addr_byte m) n \<longleftrightarrow> (if n = 0 then I2C_M_RD \<in> set (flags m) else n < 8 \<and> bit (addr m) (n - 1))" for n
    unfolding addr_byte_def bit_or_iff bit_push_bit_iff bit_unsigned_iff by (auto simp: bit_1_iff)
  show "bit (addr_byte m) 0 \<longleftrightarrow> I2C_M_RD \<in> set (flags m)" by (simp add: b)
  have "addr m = take_bit 7 (addr m)"
    using assms by (simp add: word_less_nat_alt word_unat_eq_iff unsigned_take_bit_eq take_bit_nat_eq_self)
  then have "bit (addr m) n \<Longrightarrow> n < 7" for n by (metis bit_take_bit_iff)
  then show "drop_bit 1 (addr_byte m) = ucast (addr m)"
    by (intro bit_word_eqI) (auto simp: bit_drop_bit_eq b bit_unsigned_iff)
qed

text \<open>The device after a message addressed to it, and the bytes that came back.\<close>

definition dev_msg :: "i2c_msg \<Rightarrow> reg_dev \<Rightarrow> u8 list \<times> reg_dev" where
  "dev_msg m c =
    (if I2C_M_RD \<in> set (flags m)
     then (dev_fetch (unat (len m)) c, c\<lparr>sel := Fetch, pos := pos c + of_nat (unat (len m))\<rparr>)
     else ([], dev_store (tl (msg_data m)) (c\<lparr>sel := Store, pos := hd (msg_data m)\<rparr>)))"

lemma answers_msg:
  assumes "msg_ok m" "addr m < 0x80" "dev_addr c = ucast (addr m)"
  shows "\<exists>xs. answers (Start (addr_byte m) # body_ref m @ es) c =
     (let (ys, c') = answers es (snd (dev_msg m c)) in (xs @ ys, c')) \<and> list_all good_irq xs \<and> length xs = Suc (unat (len m))
     \<and> (I2C_M_RD \<in> set (flags m) \<longrightarrow> map (ucast \<circ> rxr) (tl xs) = fst (dev_msg m c))"
proof -
  note a = addr_byte_bits[OF assms(2)]
  have g: "good_irq (dev_irq True b)" for b
    by (simp add: good_irq_def dev_irq_def IRQFLAG_def ARBIT_LOST_def SLAVE_ACK_def)
  show ?thesis
  proof (cases "I2C_M_RD \<in> set (flags m)")
    case True
    then have "answers (Start (addr_byte m) # body_ref m @ es) c =
      (let (ys, c') = answers es (snd (dev_msg m c)) in ((dev_irq True 0 # map (dev_irq True) (dev_fetch (unat (len m)) c)) @ ys, c'))"
      using assms(3) a answers_get[of "c\<lparr>sel := Fetch\<rparr>" _ "[0..<unat (len m)]" es]
      by (simp add: body_ref_def dev_msg_def Let_def split_beta dev_fetch_def)
    then show ?thesis using g True
      by (intro exI[of _ "dev_irq True 0 # map (dev_irq True) (dev_fetch (unat (len m)) c)"])
        (simp add: dev_msg_def list_all_iff dev_fetch_def rxr_dev_irq comp_def)
  next
    case False
    obtain b bs where d: "msg_data m = b # bs" using msg_ok_pos[OF assms(1)] length_data[OF assms(1)] by (cases "msg_data m") auto
    have n: "unat (len m) = Suc (length bs)" using length_data[OF assms(1)] d by simp
    have "answers (Start (addr_byte m) # body_ref m @ es) c =
      (let (ys, c') = answers es (snd (dev_msg m c)) in ((replicate (Suc (Suc (length bs))) (dev_irq True 0)) @ ys, c'))"
      using False assms(3) a answers_put[of "c\<lparr>sel := Store, pos := b\<rparr>" bs es]
      by (simp add: body_ref_def dev_msg_def Let_def split_beta d)
    then show ?thesis using g False n
      by (intro exI[of _ "replicate (Suc (Suc (length bs))) (dev_irq True 0)"]) (simp add: list_all_iff)
  qed
qed

definition dev_run :: "i2c_msg list \<Rightarrow> reg_dev \<Rightarrow> reg_dev" where
  "dev_run ms c = fold (\<lambda>m c. snd (dev_msg m c)) ms c"

definition addressed :: "i2c_msg list \<Rightarrow> reg_dev \<Rightarrow> bool" where
  "addressed ms c \<longleftrightarrow> list_all (\<lambda>m. addr m < 0x80 \<and> dev_addr c = ucast (addr m)) ms"

lemma dev_msg_addr [simp]: "dev_addr (snd (dev_msg m c)) = dev_addr c"
  by (simp add: dev_msg_def)

lemma answers_msgs:
  assumes "list_all msg_ok ms" "addressed ms c"
  shows "\<exists>xs. answers (msgs_ref ms) c = (xs @ [dev_irq True 0], (dev_run ms c)\<lparr>sel := Off\<rparr>) \<and> list_all good_irq xs
     \<and> length xs = irq_count ms
     \<and> (ms \<noteq> [] \<and> I2C_M_RD \<in> set (flags (last ms)) \<longrightarrow>
         map (ucast \<circ> rxr) (drop (length xs - unat (len (last ms))) xs) = fst (dev_msg (last ms) (dev_run (butlast ms) c)))"
  using assms
proof (induction ms arbitrary: c)
  case (Cons m ms)
  obtain ys where ys: "answers (msgs_ref (m # ms)) c = (let (zs, c') = answers (msgs_ref ms) (snd (dev_msg m c)) in (ys @ zs, c'))"
    "list_all good_irq ys" "length ys = Suc (unat (len m))"
    "I2C_M_RD \<in> set (flags m) \<longrightarrow> map (ucast \<circ> rxr) (tl ys) = fst (dev_msg m c)"
    using answers_msg[of m c "msgs_ref ms"] Cons.prems by (auto simp: addressed_def)
  obtain zs where zs: "answers (msgs_ref ms) (snd (dev_msg m c)) = (zs @ [dev_irq True 0], (dev_run ms (snd (dev_msg m c)))\<lparr>sel := Off\<rparr>)"
    "list_all good_irq zs" "length zs = irq_count ms"
    "ms \<noteq> [] \<and> I2C_M_RD \<in> set (flags (last ms)) \<longrightarrow> map (ucast \<circ> rxr) (drop (length zs - unat (len (last ms))) zs)
       = fst (dev_msg (last ms) (dev_run (butlast ms) (snd (dev_msg m c))))"
    using Cons.IH[of "snd (dev_msg m c)"] Cons.prems unfolding addressed_def list.pred_inject dev_msg_addr by blast
  show ?case
  proof (intro exI[of _ "ys @ zs"] conjI impI)
    show "map (ucast \<circ> rxr) (drop (length (ys @ zs) - unat (len (last (m # ms)))) (ys @ zs))
        = fst (dev_msg (last (m # ms)) (dev_run (butlast (m # ms)) c))"
      if "m # ms \<noteq> [] \<and> I2C_M_RD \<in> set (flags (last (m # ms)))"
    proof (cases "ms = []")
      case True
      then show ?thesis using zs(3) ys(3,4) that by (simp add: irq_count_def dev_run_def drop_Suc)
    next
      case False
      then have "unat (len (last ms)) \<le> length zs" using irq_count_ge[of "last ms" ms] zs(3) by simp
      then show ?thesis using zs(4) that False drop_suffix[of "unat (len (last ms))" zs ys] by (simp add: dev_run_def)
    qed
  qed (use ys zs in \<open>simp_all add: irq_count_def dev_run_def Let_def\<close>)
qed (simp add: dev_run_def irq_count_def)

text \<open>The controller is ready for the next transfer.\<close>

definition ctrl_ready :: "nuc970_i2c \<Rightarrow> bool" where
  "ctrl_ready s \<longleftrightarrow> arblost s = 0 \<and> \<not> bug s"

text \<open>The messages after the transfer: the bytes of the device are in the buffer of a final read.\<close>

definition filled :: "i2c_msg list \<Rightarrow> reg_dev \<Rightarrow> i2c_msg list" where
  "filled ms c = (let m = last ms in if I2C_M_RD \<in> set (flags m)
     then ms[length ms - 1 := m\<lparr>buf := fst (dev_msg m (dev_run (butlast ms) c)) @ drop (unat (len m)) (buf m)\<rparr>] else ms)"

lemma dev_env_free: "bus_free (dev_env csr xs)"
proof -
  have "(csr AND NOT I2CBUSY) AND I2CBUSY = 0" by (metis and.assoc and.commute and_zero_eq word_and_not)
  then show ?thesis
    by (simp add: bus_free_def dev_env_def nuc970_i2c0_set_master_def set_master_free[of 0 0])
qed

lemma nuc_xfer:
  assumes "msgs_ok ms" "addressed ms c" "ctrl_ready s" "irq_count ms < wait_irqs"
  shows "\<exists>s'. nuc_master_xfer csr ms (s, c) = (int (length ms), filled ms c, s', (dev_run ms c)\<lparr>sel := Off\<rparr>)
     \<and> ctrl_ready s' \<and> i2c_state s' = STATE_IDLE \<and> events (bus s') = events (bus s) @ msgs_ref ms"
proof -
  have ok: "list_all msg_ok ms" "ms \<noteq> []" using assms(1) by (simp_all add: msgs_ok_def)
  obtain xs where xs: "answers (msgs_ref ms) c = (xs @ [dev_irq True 0], (dev_run ms c)\<lparr>sel := Off\<rparr>)" "list_all good_irq xs"
    "length xs = irq_count ms" "I2C_M_RD \<in> set (flags (last ms)) \<longrightarrow>
      map (ucast \<circ> rxr) (drop (length xs - unat (len (last ms))) xs) = fst (dev_msg (last ms) (dev_run (butlast ms) c))"
    using answers_msgs[OF ok(1) assms(2)] ok(2) by blast
  let ?s = "doxfer_begin (nuc970_i2c0_enable_irq csr (s\<lparr>msgs := ms\<rparr>))"
  let ?e = "\<lambda>_ :: nat. dev_env csr (xs @ [dev_irq True 0])"
  have f: "irqs (?e 0) = xs @ [dev_irq True 0]" "status (dev_irq True 0) AND ARBIT_LOST = 0" "arblost s = 0" "\<not> bug s"
    using assms(3) by (simp_all add: dev_env_def dev_irq_def IRQFLAG_def ARBIT_LOST_def ctrl_ready_def)
  have "serve wait_irqs (length (events (bus s))) ?s c = (xs @ [dev_irq True 0], (dev_run ms c)\<lparr>sel := Off\<rparr>)"
  proof (rule serve_in_step[OF xs(1)])
    show "length (msgs_ref ms) \<le> wait_irqs" using length_msgs_ref[OF ok(1)] assms(4) by simp
    show "events (bus (fold nuc970_i2c_irq (take k (xs @ [dev_irq True 0])) ?s)) = events (bus s) @ take (Suc k) (msgs_ref ms)"
      if "k \<le> length (xs @ [dev_irq True 0])" for k
      by (rule xfer_steps[OF assms(1) f(3,4) xs(2,3) f(2) that])
  qed
  moreover have "received ms xs = filled ms c" using xs(4) by (simp add: received_def filled_def Let_def)
  ultimately show ?thesis
    using xfer_good[where e = ?e and csr = csr, OF assms(1) dev_env_free f(3,4,1) xs(2,3) f(2)]
    by (auto simp: nuc_master_xfer_def Let_def ctrl_ready_def split: prod.splits)
qed

section \<open>SMBus operations on the device\<close>

lemma unat_small: "n < 2 ^ 16 \<Longrightarrow> unat (of_nat n :: u16) = n"
  by (simp add: unat_of_nat take_bit_nat_eq_self)

lemma wmsg_ok:
  assumes "bs \<noteq> []" "length bs < 2 ^ 16"
  shows "msg_ok (wmsg v c bs)" "msg_data (wmsg v c bs) = bs" "flags (wmsg v c bs) = []" "addr (wmsg v c bs) = client_addr c"
    "unat (len (wmsg v c bs)) = length bs"
  using assms unat_small[OF assms(2)] by (auto simp: msg_ok_def wmsg_def msg_data_def simp flip: unat_eq_0)

lemma rmsg_ok:
  assumes "0 < n" "n \<le> length b" "n < 2 ^ 16"
  shows "msg_ok (rmsg c n b)" "flags (rmsg c n b) = [I2C_M_RD]" "unat (len (rmsg c n b)) = n" "addr (rmsg c n b) = client_addr c"
    "buf (rmsg c n b) = b"
  using assms unat_small[OF assms(3)] by (auto simp: msg_ok_def rmsg_def simp flip: unat_eq_0)

text \<open>A client that stands for the device.\<close>

definition stands_for :: "i2c_client \<Rightarrow> reg_dev \<Rightarrow> bool" where
  "stands_for c d \<longleftrightarrow> client_flags c = [] \<and> client_addr c < 0x80 \<and> dev_addr d = ucast (client_addr c)"

lemma stands_for_upd [simp]: "stands_for c (d\<lparr>sel := x\<rparr>) = stands_for c d" "stands_for c (d\<lparr>pos := p\<rparr>) = stands_for c d"
  "stands_for c (dev_store bs d) = stands_for c d"
  by (simp_all add: stands_for_def)

lemma nuc_write:
  assumes "stands_for c d" "ctrl_ready s" "bs \<noteq> []" "length bs < 1000"
  shows "\<exists>s'. nuc_master_xfer csr [wmsg v c bs] (s, d) = (1, [wmsg v c bs], s', (dev_store (tl bs) (d\<lparr>pos := hd bs\<rparr>))\<lparr>sel := Off\<rparr>)
     \<and> ctrl_ready s'"
proof -
  have "length bs < 2 ^ 16" using assms(4) by simp
  note w = wmsg_ok[OF assms(3) this, of v c]
  have "dev_store bs' (d\<lparr>sel := Store, pos := p\<rparr>) = (dev_store bs' (d\<lparr>pos := p\<rparr>))\<lparr>sel := Store\<rparr>" for bs' p
    by (induction bs' rule: rev_induct) (simp_all add: dev_store_def)
  then have "(dev_run [wmsg v c bs] d)\<lparr>sel := Off\<rparr> = (dev_store (tl bs) (d\<lparr>pos := hd bs\<rparr>))\<lparr>sel := Off\<rparr>"
    by (simp add: dev_run_def dev_msg_def w)
  moreover have "msgs_ok [wmsg v c bs]" "addressed [wmsg v c bs] d"
    using w assms(1) by (simp_all add: msgs_ok_def addressed_def stands_for_def)
  moreover have "filled [wmsg v c bs] d = [wmsg v c bs]" by (simp add: filled_def w)
  moreover have "irq_count [wmsg v c bs] < wait_irqs" using assms(4) by (simp add: irq_count_def wait_irqs_def w)
  ultimately show ?thesis using nuc_xfer[of "[wmsg v c bs]" d s csr] assms(2) by auto
qed

lemma nuc_read:
  assumes "stands_for c d" "ctrl_ready s" "0 < n" "n \<le> length b" "n < 1000"
  shows "\<exists>s'. nuc_master_xfer csr [rmsg c n b] (s, d) =
       (1, [(rmsg c n b)\<lparr>buf := dev_fetch n d @ drop n b\<rparr>], s', d\<lparr>sel := Off, pos := pos d + of_nat n\<rparr>) \<and> ctrl_ready s'"
proof -
  have "n < 2 ^ 16" using assms(5) by simp
  note w = rmsg_ok[OF assms(3,4) this, of c]
  have "msgs_ok [rmsg c n b]" "addressed [rmsg c n b] d"
    using w assms(1) by (simp_all add: msgs_ok_def addressed_def stands_for_def)
  moreover have "filled [rmsg c n b] d = [(rmsg c n b)\<lparr>buf := dev_fetch n d @ drop n b\<rparr>]"
    by (simp add: filled_def w dev_msg_def dev_run_def)
  moreover have "(dev_run [rmsg c n b] d)\<lparr>sel := Off\<rparr> = d\<lparr>sel := Off, pos := pos d + of_nat n\<rparr>"
    by (simp add: dev_run_def dev_msg_def w del: of_nat_unat)
  moreover have "irq_count [rmsg c n b] < wait_irqs" using assms(5) by (simp add: irq_count_def wait_irqs_def w)
  ultimately show ?thesis using nuc_xfer[of "[rmsg c n b]" d s csr] assms(2) by auto
qed

lemma nuc_write_read:
  assumes "stands_for c d" "ctrl_ready s" "0 < n" "n \<le> length b" "n < 1000"
  shows "\<exists>s'. nuc_master_xfer csr [wmsg v c [p], rmsg c n b] (s, d) =
       (2, [wmsg v c [p], (rmsg c n b)\<lparr>buf := dev_fetch n (d\<lparr>pos := p\<rparr>) @ drop n b\<rparr>], s', d\<lparr>sel := Off, pos := p + of_nat n\<rparr>)
     \<and> ctrl_ready s'"
proof -
  have "n < 2 ^ 16" using assms(5) by simp
  note w = wmsg_ok[of "[p]" v c] and r = rmsg_ok[OF assms(3,4) this, of c]
  let ?ms = "[wmsg v c [p], rmsg c n b]"
  have "msgs_ok ?ms" "addressed ?ms d"
    using w r assms(1) by (simp_all add: msgs_ok_def addressed_def stands_for_def)
  moreover have "filled ?ms d = [wmsg v c [p], (rmsg c n b)\<lparr>buf := dev_fetch n (d\<lparr>pos := p\<rparr>) @ drop n b\<rparr>]"
    using w r by (simp add: filled_def dev_msg_def dev_run_def dev_store_def dev_fetch_def)
  moreover have "(dev_run ?ms d)\<lparr>sel := Off\<rparr> = d\<lparr>sel := Off, pos := p + of_nat n\<rparr>"
    using w r by (simp add: dev_run_def dev_msg_def dev_store_def del: of_nat_unat)
  moreover have "irq_count ?ms < wait_irqs" using assms(5) w r by (simp add: irq_count_def wait_irqs_def)
  ultimately show ?thesis using nuc_xfer[of ?ms d s csr] assms(2) by auto
qed

text \<open>The registers after a block has been written from \<open>p\<close> on.\<close>

definition put_cells :: "u8 \<Rightarrow> u8 list \<Rightarrow> (u8 \<Rightarrow> u8) \<Rightarrow> u8 \<Rightarrow> u8" where
  "put_cells p bs m a = (if unat (a - p) < length bs then bs ! unat (a - p) else m a)"

lemma dev_store_cells: "length bs \<le> 256 \<Longrightarrow> regs (dev_store bs d) = put_cells (pos d) bs (regs d)"
proof (induction bs rule: rev_induct)
  case (snoc b bs)
  have n: "unat (of_nat (length bs) :: u8) = length bs" using snoc.prems by (simp add: unat_of_nat take_bit_nat_eq_self)
  have e: "a = pos d + of_nat (length bs) \<longleftrightarrow> unat (a - pos d) = length bs" for a
    using n by (metis add_diff_cancel_left' diff_add_cancel add.commute of_nat_unat ucast_id)
  have u: "regs (dev_store (bs @ [b]) d) = (regs (dev_store bs d))(pos (dev_store bs d) := b)"
    by (simp add: dev_store_def)
  have "regs (dev_store (bs @ [b]) d) a = put_cells (pos d) (bs @ [b]) (regs d) a" for a
    using snoc unfolding u by (simp add: put_cells_def nth_append e)
  then show ?case by (simp add: fun_eq_iff)
qed (simp add: dev_store_def put_cells_def fun_eq_iff)

text \<open>What a driver of such a device relies on.\<close>

locale reg_bus =
  fixes adap :: "'s i2c_adapter" and client :: i2c_client
    and good :: "'s \<Rightarrow> bool" and cells :: "'s \<Rightarrow> u8 \<Rightarrow> u8" and point :: "'s \<Rightarrow> u8"
  assumes send: "good s \<Longrightarrow> env_ok v \<Longrightarrow>
      \<exists>s'. i2c_smbus_write_byte adap v client p s = Some (0, s') \<and> good s' \<and> cells s' = cells s \<and> point s' = p"
    and receive: "good s \<Longrightarrow> env_ok v \<Longrightarrow>
      \<exists>s'. i2c_smbus_read_byte adap v client s = Some (uint (cells s (point s)), s') \<and> good s' \<and> cells s' = cells s"
    and put: "good s \<Longrightarrow> env_ok v \<Longrightarrow>
      \<exists>s'. i2c_smbus_write_byte_data adap v client p b s = Some (0, s') \<and> good s' \<and> cells s' = (cells s)(p := b)"
    and put_block: "good s \<Longrightarrow> env_ok v \<Longrightarrow> length bs \<le> 32 \<Longrightarrow>
      \<exists>s'. i2c_smbus_write_i2c_block_data adap v client p (of_nat (length bs)) bs s = Some (0, s')
        \<and> good s' \<and> cells s' = put_cells p bs (cells s)"

definition dev_good :: "i2c_client \<Rightarrow> nuc970_i2c \<times> reg_dev \<Rightarrow> bool" where
  "dev_good c = (\<lambda>(s, d). ctrl_ready s \<and> stands_for c d)"

lemma nuc_send:
  assumes "dev_good c (s, d)" "env_ok v"
  shows "\<exists>s'. i2c_smbus_write_byte (nuc970_i2c0_adapter csr) v c p (s, d) = Some (0, s', d\<lparr>sel := Off, pos := p\<rparr>) \<and> ctrl_ready s'"
proof -
  have g: "stands_for c d" "ctrl_ready s" "client_flags c = []" using assms(1) by (simp_all add: dev_good_def stands_for_def)
  obtain s' where "nuc_master_xfer csr [wmsg v c [p]] (s, d) = (1, [wmsg v c [p]], s', d\<lparr>sel := Off, pos := p\<rparr>)" "ctrl_ready s'"
    using nuc_write[OF g(1,2), of "[p]" csr v] by (auto simp: dev_store_def)
  then show ?thesis using nuc.write_byte[OF assms(2) g(3)] by fastforce
qed

lemma nuc_receive:
  assumes "dev_good c (s, d)" "env_ok v"
  shows "\<exists>s'. i2c_smbus_read_byte (nuc970_i2c0_adapter csr) v c (s, d)
      = Some (uint (regs d (pos d)), s', d\<lparr>sel := Off, pos := pos d + 1\<rparr>) \<and> ctrl_ready s'"
proof -
  have g: "stands_for c d" "ctrl_ready s" "client_flags c = []" using assms(1) by (simp_all add: dev_good_def stands_for_def)
  let ?b = "0 # tl (stack0 v)"
  obtain s' where "nuc_master_xfer csr [rmsg c 1 ?b] (s, d) =
      (1, [(rmsg c 1 ?b)\<lparr>buf := dev_fetch 1 d @ drop 1 ?b\<rparr>], s', d\<lparr>sel := Off, pos := pos d + 1\<rparr>)" "ctrl_ready s'"
    using nuc_read[OF g(1,2), of 1 ?b csr] by auto
  then show ?thesis using nuc.read_byte[OF assms(2) g(3)] by (fastforce simp: dev_fetch_def)
qed

lemma nuc_put:
  assumes "dev_good c (s, d)" "env_ok v"
  shows "\<exists>s'. i2c_smbus_write_byte_data (nuc970_i2c0_adapter csr) v c p b (s, d)
      = Some (0, s', d\<lparr>sel := Off, pos := p + 1, regs := (regs d)(p := b)\<rparr>) \<and> ctrl_ready s'"
proof -
  have g: "stands_for c d" "ctrl_ready s" "client_flags c = []" using assms(1) by (simp_all add: dev_good_def stands_for_def)
  obtain s' where "nuc_master_xfer csr [wmsg v c [p, b]] (s, d) =
      (1, [wmsg v c [p, b]], s', d\<lparr>sel := Off, pos := p + 1, regs := (regs d)(p := b)\<rparr>)" "ctrl_ready s'"
    using nuc_write[OF g(1,2), of "[p, b]" csr v] by (auto simp: dev_store_def)
  then show ?thesis using nuc.write_byte_data[OF assms(2) g(3)] by fastforce
qed

lemma nuc_put_block:
  assumes "dev_good c (s, d)" "env_ok v" "length bs \<le> 32"
  shows "\<exists>s'. i2c_smbus_write_i2c_block_data (nuc970_i2c0_adapter csr) v c p (of_nat (length bs)) bs (s, d)
      = Some (0, s', (dev_store bs (d\<lparr>pos := p\<rparr>))\<lparr>sel := Off\<rparr>) \<and> ctrl_ready s'"
proof -
  have g: "stands_for c d" "ctrl_ready s" "client_flags c = []" using assms(1) by (simp_all add: dev_good_def stands_for_def)
  obtain s' where "nuc_master_xfer csr [wmsg v c (p # bs)] (s, d) =
      (1, [wmsg v c (p # bs)], s', (dev_store bs (d\<lparr>pos := p\<rparr>))\<lparr>sel := Off\<rparr>)" "ctrl_ready s'"
    using nuc_write[OF g(1,2), of "p # bs" csr v] assms(3) by auto
  then show ?thesis using nuc.write_i2c_block_data[OF assms(2) g(3) _ _ assms(3)] by fastforce
qed

lemma nuc_get_block:
  assumes "dev_good c (s, d)" "env_ok v" "0 < n" "n \<le> 32"
  shows "\<exists>s'. i2c_smbus_read_i2c_block_data (nuc970_i2c0_adapter csr) v c p (of_nat n) (s, d)
      = Some (int n, dev_fetch n (d\<lparr>pos := p\<rparr>), s', d\<lparr>sel := Off, pos := p + of_nat n\<rparr>) \<and> ctrl_ready s'"
proof -
  have g: "stands_for c d" "ctrl_ready s" "client_flags c = []" using assms(1) by (simp_all add: dev_good_def stands_for_def)
  have l: "length (stack1 v) = 34" by (rule stacks(4)[OF assms(2)])
  obtain s' where "nuc_master_xfer csr [wmsg v c [p], rmsg c n (stack1 v)] (s, d) =
      (2, [wmsg v c [p], (rmsg c n (stack1 v))\<lparr>buf := dev_fetch n (d\<lparr>pos := p\<rparr>) @ drop n (stack1 v)\<rparr>], s',
        d\<lparr>sel := Off, pos := p + of_nat n\<rparr>)" "ctrl_ready s'"
    using nuc_write_read[OF g(1,2) assms(3), of "stack1 v" csr v p] assms(4) l by auto
  then show ?thesis using nuc.read_i2c_block_data[OF assms(2) g(3) _ _ assms(4)] l assms(4)
    by (fastforce simp: dev_fetch_def)
qed

text \<open>C6. Block transfers from top to bottom.  For a device with registers behind the I2C controller of the board:
  when \<open>i2c_smbus_write_i2c_block_data\<close> has written up to 32 bytes from a register on, through the message
  buffers, the retry loops, the interrupt routine and the bytes on the bus, it returns 0, and
  \<open>i2c_smbus_read_i2c_block_data\<close> from there returns the number of bytes and the same bytes; all other registers
  are as before.\<close>

theorem smbus_block_roundtrip:
  assumes "dev_good c (s, d)" "env_ok v" "env_ok v'" "bs \<noteq> []" "length bs \<le> 32"
  shows "\<exists>s1 d1 s2 d2.
     i2c_smbus_write_i2c_block_data (nuc970_i2c0_adapter csr) v c p (of_nat (length bs)) bs (s, d) = Some (0, s1, d1)
     \<and> i2c_smbus_read_i2c_block_data (nuc970_i2c0_adapter csr) v' c p (of_nat (length bs)) (s1, d1)
       = Some (int (length bs), bs, s2, d2)
     \<and> regs d2 = put_cells p bs (regs d)"
proof -
  obtain s1 where w: "i2c_smbus_write_i2c_block_data (nuc970_i2c0_adapter csr) v c p (of_nat (length bs)) bs (s, d)
      = Some (0, s1, (dev_store bs (d\<lparr>pos := p\<rparr>))\<lparr>sel := Off\<rparr>)" "ctrl_ready s1"
    using nuc_put_block[OF assms(1,2,5)] by blast
  define d1 where "d1 = (dev_store bs (d\<lparr>pos := p\<rparr>))\<lparr>sel := Off\<rparr>"
  have c: "regs d1 = put_cells p bs (regs d)" using dev_store_cells[of bs "d\<lparr>pos := p\<rparr>"] assms(5) by (simp add: d1_def)
  have "dev_good c (s1, d1)" using w(2) assms(1) by (simp add: dev_good_def d1_def)
  then obtain s2 where r: "i2c_smbus_read_i2c_block_data (nuc970_i2c0_adapter csr) v' c p (of_nat (length bs)) (s1, d1)
      = Some (int (length bs), dev_fetch (length bs) (d1\<lparr>pos := p\<rparr>), s2, d1\<lparr>sel := Off, pos := p + of_nat (length bs)\<rparr>)"
    using nuc_get_block[of c s1 d1 v' "length bs"] assms(3-5) by blast
  have "dev_fetch (length bs) (d1\<lparr>pos := p\<rparr>) = bs"
    using assms(5) by (auto simp: dev_fetch_def c put_cells_def unat_of_nat take_bit_nat_eq_self intro!: nth_equalityI)
  then show ?thesis using w(1) r c by (auto simp: d1_def)
qed

text \<open>Surroundings in which the lock is obtained, and a device at the address 0x32.\<close>

definition env0 :: call_env where
  "env0 = \<lparr>no_sleep = False, got_lock = False, expired = (\<lambda>_. False), stack0 = replicate 35 0xaa, stack1 = replicate 34 0xaa,
     union0 = \<lparr>byte = 0xaa, word = 0xaaaa, block = replicate 34 0xaa\<rparr>\<rparr>"

lemma env0_ok: "env_ok env0"
  by (simp add: env_ok_def env0_def I2C_SMBUS_BLOCK_MAX_def)

definition chip0 :: reg_dev where
  "chip0 = \<lparr>dev_addr = 0x32, sel = Off, pos = 0, regs = (\<lambda>_. 0)\<rparr>"

definition client0 :: i2c_client where
  "client0 = \<lparr>client_addr = 0x32, client_flags = []\<rparr>"

theorem smbus_block_roundtrip_witness:
  "\<exists>s1 d1 s2 d2.
     i2c_smbus_write_i2c_block_data (nuc970_i2c0_adapter 3) env0 client0 5 3 [0x11, 0x22, 0x33] (i2c0, chip0) = Some (0, s1, d1)
     \<and> i2c_smbus_read_i2c_block_data (nuc970_i2c0_adapter 3) env0 client0 5 3 (s1, d1) = Some (3, [0x11, 0x22, 0x33], s2, d2)"
proof -
  have "dev_good client0 (i2c0, chip0)"
    by (simp add: dev_good_def ctrl_ready_def stands_for_def client0_def chip0_def i2c0_def)
  from smbus_block_roundtrip[OF this env0_ok env0_ok, of "[0x11, 0x22, 0x33]" 3 5] show ?thesis by auto
qed

end
