(* ===== verification/Rtc_Lib.thy ===== *)
theory Rtc_Lib
  imports Nuc_Prelude
begin

text \<open>
  Dates and seconds, \<open>src/drivers/rtc/rtc-lib.c\<close>.  The fields of \<open>struct rtc_time\<close> and the local variables are
  C integers of 32 bits; every value of \<open>rtc_time_to_tm\<close> stays far inside that range, so they are written as
  \<open>int\<close>, and where the code looks at a field as unsigned, that is written out.  Two functions come from
  outside the sources: \<open>is_leap_year\<close> and \<open>mktime\<close>.  They are arguments; what is known of them are the
  predicates \<open>gregorian\<close> and \<open>mktime_spec\<close>.
\<close>

section \<open>Operations\<close>

record rtc_time =
  tm_sec :: int
  tm_min :: int
  tm_hour :: int
  tm_mday :: int
  tm_mon :: int
  tm_year :: int
  tm_wday :: int
  tm_yday :: int
  tm_isdst :: int

definition rtc_days_in_month :: "int list" where
  "rtc_days_in_month = [31, 28, 31, 30, 31, 30, 31, 31, 30, 31, 30, 31]"

definition rtc_ydays :: "int list list" where
  "rtc_ydays = [[0, 31, 59, 90, 120, 151, 181, 212, 243, 273, 304, 334, 365],
     [0, 31, 60, 91, 121, 152, 182, 213, 244, 274, 305, 335, 366]]"

definition LEAPS_THRU_END_OF :: "int \<Rightarrow> int" where
  "LEAPS_THRU_END_OF y = y div 4 - y div 100 + y div 400"

definition rtc_month_days :: "(int \<Rightarrow> bool) \<Rightarrow> int \<Rightarrow> int \<Rightarrow> int" where
  "rtc_month_days is_leap_year month year = rtc_days_in_month ! nat month + of_bool (is_leap_year year \<and> month = 1)"

definition rtc_year_days :: "(int \<Rightarrow> bool) \<Rightarrow> int \<Rightarrow> int \<Rightarrow> int \<Rightarrow> int" where
  "rtc_year_days is_leap_year day month year = rtc_ydays ! of_bool (is_leap_year year) ! nat month + day - 1"

function month_loop :: "(int \<Rightarrow> bool) \<Rightarrow> int \<Rightarrow> int \<Rightarrow> int \<Rightarrow> int \<times> int" where
  "month_loop is_leap_year year month days =
    (if month < 11 then
       (let newdays = days - rtc_month_days is_leap_year month year
        in if newdays < 0 then (month, days) else month_loop is_leap_year year (month + 1) newdays)
     else (month, days))"
  by pat_completeness auto
termination by (relation "measure (\<lambda>(_, _, month, _). nat (11 - month))") auto

declare month_loop.simps [simp del]

definition rtc_time_to_tm :: "(int \<Rightarrow> bool) \<Rightarrow> u32 \<Rightarrow> rtc_time" where
  "rtc_time_to_tm is_leap_year t =
    (let days = uint t div 86400;
         time = uint t - days * 86400;
         wday = (days + 4) mod 7;
         year = 1970 + days div 365;
         days = days - ((year - 1970) * 365 + LEAPS_THRU_END_OF (year - 1) - LEAPS_THRU_END_OF (1970 - 1));
         (year, days) = (if days < 0 then (year - 1, days + 365 + of_bool (is_leap_year (year - 1))) else (year, days));
         yday = days + 1;
         (month, days) = month_loop is_leap_year year 0 days;
         hour = time div 3600;
         time = time - hour * 3600;
         minute = time div 60
     in \<lparr>tm_sec = time - minute * 60, tm_min = minute, tm_hour = hour, tm_mday = days + 1, tm_mon = month,
         tm_year = year - 1900, tm_wday = wday, tm_yday = yday, tm_isdst = 0\<rparr>)"

text \<open>The cast of a C \<open>int\<close> to \<open>unsigned\<close>.\<close>

definition as_unsigned :: "int \<Rightarrow> int" where
  "as_unsigned x = x mod 2 ^ 32"

definition rtc_valid_tm :: "(int \<Rightarrow> bool) \<Rightarrow> rtc_time \<Rightarrow> int" where
  "rtc_valid_tm is_leap_year tm =
    (if tm_year tm < 70
      \<or> as_unsigned (tm_mon tm) \<ge> 12
      \<or> tm_mday tm < 1
      \<or> tm_mday tm > rtc_month_days is_leap_year (tm_mon tm) (tm_year tm + 1900)
      \<or> as_unsigned (tm_hour tm) \<ge> 24
      \<or> as_unsigned (tm_min tm) \<ge> 60
      \<or> as_unsigned (tm_sec tm) \<ge> 60
     then - eno EINVAL else 0)"

text \<open>\<open>mktime\<close> with the year, month, day, hour, minute and second.\<close>

type_synonym mktime = "int \<Rightarrow> int \<Rightarrow> int \<Rightarrow> int \<Rightarrow> int \<Rightarrow> int \<Rightarrow> u32"

definition rtc_tm_to_time :: "mktime \<Rightarrow> rtc_time \<Rightarrow> u32" where
  "rtc_tm_to_time mktime tm =
     mktime (tm_year tm + 1900) (tm_mon tm + 1) (tm_mday tm) (tm_hour tm) (tm_min tm) (tm_sec tm)"

section \<open>The calendar\<close>

definition gregorian :: "(int \<Rightarrow> bool) \<Rightarrow> bool" where
  "gregorian leap \<longleftrightarrow> (\<forall>y. leap y = (4 dvd y \<and> (100 dvd y \<longrightarrow> 400 dvd y)))"

text \<open>Days before a year and before a month of it, counted one year and one month after the other, and the seconds
  of a date.  \<open>mktime\<close> returns them for every date from 1970 on that exists, as long as they fit.\<close>

definition days_before_year :: "(int \<Rightarrow> bool) \<Rightarrow> int \<Rightarrow> int" where
  "days_before_year leap y = (\<Sum>k \<in> {1970..<y}. if leap k then 366 else 365)"

definition month_length :: "(int \<Rightarrow> bool) \<Rightarrow> int \<Rightarrow> int \<Rightarrow> int" where
  "month_length leap y m = (if m = 2 then if leap y then 29 else 28 else if m \<in> {4, 6, 9, 11} then 30 else 31)"

definition days_before_month :: "(int \<Rightarrow> bool) \<Rightarrow> int \<Rightarrow> int \<Rightarrow> int" where
  "days_before_month leap y m = (\<Sum>k \<in> {1..<m}. month_length leap y k)"

definition epoch_secs :: "(int \<Rightarrow> bool) \<Rightarrow> int \<Rightarrow> int \<Rightarrow> int \<Rightarrow> int \<Rightarrow> int \<Rightarrow> int \<Rightarrow> int" where
  "epoch_secs leap y mo d h mi s =
     (((days_before_year leap y + days_before_month leap y mo + d - 1) * 24 + h) * 60 + mi) * 60 + s"

definition real_date :: "(int \<Rightarrow> bool) \<Rightarrow> int \<Rightarrow> int \<Rightarrow> int \<Rightarrow> int \<Rightarrow> int \<Rightarrow> int \<Rightarrow> bool" where
  "real_date leap y mo d h mi s \<longleftrightarrow> 1970 \<le> y \<and> 1 \<le> mo \<and> mo \<le> 12 \<and> 1 \<le> d \<and> d \<le> month_length leap y mo
     \<and> 0 \<le> h \<and> h < 24 \<and> 0 \<le> mi \<and> mi < 60 \<and> 0 \<le> s \<and> s < 60"

definition mktime_spec :: "(int \<Rightarrow> bool) \<Rightarrow> mktime \<Rightarrow> bool" where
  "mktime_spec leap mk \<longleftrightarrow> (\<forall>y mo d h mi s. real_date leap y mo d h mi s \<longrightarrow> epoch_secs leap y mo d h mi s < 2 ^ 32 \<longrightarrow>
     uint (mk y mo d h mi s) = epoch_secs leap y mo d h mi s)"

subsection \<open>Years\<close>

lemma div_step: "0 < n \<Longrightarrow> (y :: int) div n - (y - 1) div n = of_bool (n dvd y)"
proof -
  assume n: "0 < n"
  have y: "y = n * (y div n) + y mod n" "0 \<le> y mod n" "y mod n < n" using n by simp_all
  show ?thesis
  proof (cases "n dvd y")
    case True
    then have "y - 1 = n * (y div n - 1) + (n - 1)" by (auto simp: algebra_simps)
    then have "(y - 1) div n = y div n - 1" using n by (intro int_div_pos_eq[where r = "n - 1"]) simp_all
    then show ?thesis using True by simp
  next
    case False
    then have "y mod n \<noteq> 0" by (simp add: dvd_eq_mod_eq_0)
    then have "(y - 1) div n = y div n"
      using y by (intro int_div_pos_eq[where r = "y mod n - 1"]) linarith+
    then show ?thesis using False by simp
  qed
qed

lemma leaps_step:
  assumes "gregorian leap"
  shows "LEAPS_THRU_END_OF y - LEAPS_THRU_END_OF (y - 1) = of_bool (leap y)"
proof -
  have "(4 :: int) dvd y" if "(100 :: int) dvd y" using that by (rule dvd_trans[rotated]) simp
  moreover have "(100 :: int) dvd y" if "(400 :: int) dvd y" using that by (rule dvd_trans[rotated]) simp
  ultimately show ?thesis using div_step[of 4 y] div_step[of 100 y] div_step[of 400 y] assms unfolding gregorian_def LEAPS_THRU_END_OF_def
    by (cases "(4 :: int) dvd y"; cases "(100 :: int) dvd y"; cases "(400 :: int) dvd y") auto
qed

lemma leaps_bounds:
  assumes "gregorian leap" "1969 \<le> y"
  shows "0 \<le> LEAPS_THRU_END_OF y - LEAPS_THRU_END_OF 1969 \<and> LEAPS_THRU_END_OF y - LEAPS_THRU_END_OF 1969 \<le> y - 1969"
  using assms(2)
proof (induction y rule: int_ge_induct)
  case (step y)
  have "LEAPS_THRU_END_OF (y + 1) - LEAPS_THRU_END_OF y = of_bool (leap (y + 1))"
    using leaps_step[OF assms(1), of "y + 1"] by simp
  then show ?case using step.IH by (cases "leap (y + 1)") auto
qed simp

text \<open>The days before a year by the formula of the code.\<close>

definition yd :: "int \<Rightarrow> int" where
  "yd y = (y - 1970) * 365 + LEAPS_THRU_END_OF (y - 1) - LEAPS_THRU_END_OF (1970 - 1)"

lemma yd_step: "gregorian leap \<Longrightarrow> yd (y + 1) = yd y + 365 + of_bool (leap y)"
  using leaps_step[of leap y] by (simp add: yd_def algebra_simps)

lemma yd_days: "1970 \<le> y \<Longrightarrow> gregorian leap \<Longrightarrow> yd y = days_before_year leap y"
proof (induction y rule: int_ge_induct)
  case (step y)
  have "{1970..<y + 1} = insert y {1970..<y}" using step.hyps by auto
  then show ?case using yd_step[OF step.prems] step by (simp add: days_before_year_def)
qed (simp add: yd_def days_before_year_def)

text \<open>The estimate by years of 365 days is right or one too much.\<close>

lemma year_found:
  assumes "gregorian leap" "0 \<le> d" "d < 49711"
  defines "y0 \<equiv> 1970 + d div 365"
  shows "if d - yd y0 < 0 then 1970 \<le> y0 - 1 \<and> 0 \<le> d - yd (y0 - 1) \<and> d - yd (y0 - 1) < 365 + of_bool (leap (y0 - 1))
      \<and> d - yd y0 + 365 + of_bool (leap (y0 - 1)) = d - yd (y0 - 1)
    else d - yd y0 < 365"
proof -
  let ?l = "LEAPS_THRU_END_OF (y0 - 1) - LEAPS_THRU_END_OF 1969"
  have y: "1970 \<le> y0" "y0 \<le> 2106" using assms(2,3) by (auto simp: y0_def)
  have e: "d - yd y0 = d mod 365 - ?l"
    using mult_div_mod_eq[of 365 d] by (simp add: yd_def y0_def algebra_simps)
  have m: "0 \<le> d mod 365" "d mod 365 < 365" by simp_all
  have l: "0 \<le> ?l" "?l \<le> 136" "y0 = 1970 \<Longrightarrow> ?l = 0" using leaps_bounds[OF assms(1), of "y0 - 1"] y by auto
  have p: "yd y0 = yd (y0 - 1) + 365 + of_bool (leap (y0 - 1))" using yd_step[OF assms(1), of "y0 - 1"] by simp
  show ?thesis
  proof (cases "d - yd y0 < 0")
    case True
    then have "y0 \<noteq> 1970" using e m l(3) by auto
    then have "1970 \<le> y0 - 1" using y by simp
    moreover have "0 \<le> (of_bool (leap (y0 - 1)) :: int)" by simp
    then have "0 \<le> d - yd (y0 - 1)" using e p m l(2) by linarith
    ultimately show ?thesis using True p by simp
  next
    case False
    then show ?thesis using e m l by auto
  qed
qed

subsection \<open>Months\<close>

lemma month_days_length:
  assumes "0 \<le> m" "m < 12"
  shows "rtc_month_days leap m y = month_length leap y (m + 1)"
proof -
  have "m \<in> {0, 1, 2, 3, 4, 5, 6, 7, 8, 9, 10, 11}" using assms by simp presburger
  then show ?thesis by (elim insertE emptyE) (simp_all add: rtc_month_days_def rtc_days_in_month_def month_length_def)
qed

lemma days_before_month_step:
  "0 \<le> m \<Longrightarrow> days_before_month leap y (m + 1 + 1) = days_before_month leap y (m + 1) + month_length leap y (m + 1)"
proof -
  assume "0 \<le> m"
  then have "{1..<m + 1 + 1} = insert (m + 1) {1..<m + 1}" by auto
  then show ?thesis by (simp add: days_before_month_def)
qed

lemma days_before_month_table:
  assumes "0 \<le> m" "m \<le> 12"
  shows "days_before_month leap y (m + 1) = rtc_ydays ! of_bool (leap y) ! nat m"
proof -
  have *: "{1..<m + 1} = set [1..m]" by auto
  have "m \<in> {0, 1, 2, 3, 4, 5, 6, 7, 8, 9, 10, 11, 12}" using assms by simp presburger
  then show ?thesis unfolding days_before_month_def *
    by (elim insertE emptyE; cases "leap y") (simp_all add: rtc_ydays_def month_length_def upto.simps)
qed

lemma year_length: "days_before_month leap y 13 = 365 + of_bool (leap y)"
  using days_before_month_table[of 12 leap y] by (simp add: rtc_ydays_def)

lemma month_found:
  assumes "0 \<le> m" "m \<le> 11" "0 \<le> d" "days_before_month leap y (m + 1) + d < 365 + of_bool (leap y)"
  shows "case month_loop leap y m d of (m', d') \<Rightarrow> 0 \<le> m' \<and> m' \<le> 11 \<and> 0 \<le> d' \<and> d' < month_length leap y (m' + 1)
     \<and> days_before_month leap y (m' + 1) + d' = days_before_month leap y (m + 1) + d"
  using assms
proof (induction leap y m d rule: month_loop.induct)
  case (1 leap y m d)
  note md = month_days_length[OF 1(2), of leap y] and st = days_before_month_step[OF 1(2), of leap y]
  show ?case
  proof (cases "m < 11")
    case False
    then have "m = 11" using 1 by simp
    moreover have "days_before_month leap y 13 = days_before_month leap y 12 + month_length leap y 12"
      using days_before_month_step[of 11 leap y] by simp
    ultimately show ?thesis using 1 year_length[of leap y] by (simp add: month_loop.simps)
  next
    case True
    show ?thesis
    proof (cases "d - rtc_month_days leap m y < 0")
      case L: True
      then show ?thesis using True 1 md by (subst month_loop.simps) simp
    next
      case L: False
      have "month_loop leap y m d = month_loop leap y (m + 1) (d - rtc_month_days leap m y)"
        using True L by (subst month_loop.simps) (simp add: Let_def)
      then show ?thesis using 1(1)[OF True refl L] 1(2-5) True L md st by (auto split: prod.splits)
    qed
  qed
qed

section \<open>Seconds to a date and back\<close>

lemma time_to_tm_date:
  fixes t :: u32
  assumes "gregorian leap"
  defines "tm \<equiv> rtc_time_to_tm leap t"
  shows "real_date leap (tm_year tm + 1900) (tm_mon tm + 1) (tm_mday tm) (tm_hour tm) (tm_min tm) (tm_sec tm)"
    and "epoch_secs leap (tm_year tm + 1900) (tm_mon tm + 1) (tm_mday tm) (tm_hour tm) (tm_min tm) (tm_sec tm) = uint t"
    and "tm_yday tm = rtc_year_days leap (tm_mday tm) (tm_mon tm) (tm_year tm + 1900) + 1"
proof -
  define d where "d = uint t div 86400"
  define r where "r = uint t mod 86400"
  have t: "uint t = d * 86400 + r" "0 \<le> r" "r < 86400" by (simp_all add: d_def r_def)
  have "uint t < 2 ^ LENGTH(32)" by (rule unsigned_less)
  then have d: "0 \<le> d" "d < 49711" by (auto simp: d_def pos_imp_zdiv_nonneg_iff)
  define y0 where "y0 = 1970 + d div 365"
  define y where "y = (if d - yd y0 < 0 then y0 - 1 else y0)"
  have yf: "1970 \<le> y" "0 \<le> d - yd y" "d - yd y < 365 + of_bool (leap y)"
    "(if d - yd y0 < 0 then (y0 - 1, d - yd y0 + 365 + of_bool (leap (y0 - 1))) else (y0, d - yd y0)) = (y, d - yd y)"
    using year_found[OF assms(1) d] d unfolding y_def y0_def by (auto split: if_splits)
  obtain m e where me: "month_loop leap y 0 (d - yd y) = (m, e)" by (cases "month_loop leap y 0 (d - yd y)")
  have mf: "0 \<le> m" "m \<le> 11" "0 \<le> e" "e < month_length leap y (m + 1)" "days_before_month leap y (m + 1) + e = d - yd y"
    using month_found[of 0 "d - yd y" leap y] yf me by (simp_all add: days_before_month_def)
  have tm: "tm = \<lparr>tm_sec = r mod 3600 mod 60, tm_min = r mod 3600 div 60, tm_hour = r div 3600, tm_mday = e + 1, tm_mon = m,
      tm_year = y - 1900, tm_wday = (d + 4) mod 7, tm_yday = d - yd y + 1, tm_isdst = 0\<rparr>"
    unfolding tm_def rtc_time_to_tm_def Let_def d_def[symmetric] y0_def[symmetric] yd_def[of y0, symmetric] yf(4)
    using me t by (simp add: minus_mult_div_eq_mod minus_div_mult_eq_mod)
  have "r div 3600 < 24" "r mod 3600 div 60 < 60" using t by auto
  then show "real_date leap (tm_year tm + 1900) (tm_mon tm + 1) (tm_mday tm) (tm_hour tm) (tm_min tm) (tm_sec tm)"
    using yf mf t by (simp add: tm real_date_def pos_imp_zdiv_nonneg_iff)
  have "r = (r div 3600 * 60 + r mod 3600 div 60) * 60 + r mod 3600 mod 60"
    using mult_div_mod_eq[of 3600 r] mult_div_mod_eq[of 60 "r mod 3600"] by (simp add: algebra_simps)
  moreover have "days_before_year leap y + days_before_month leap y (m + 1) + e = d" using yd_days[OF yf(1) assms(1)] mf(5) by simp
  ultimately show "epoch_secs leap (tm_year tm + 1900) (tm_mon tm + 1) (tm_mday tm) (tm_hour tm) (tm_min tm) (tm_sec tm) = uint t"
    by (simp add: tm epoch_secs_def t(1) algebra_simps)
  show "tm_yday tm = rtc_year_days leap (tm_mday tm) (tm_mon tm) (tm_year tm + 1900) + 1"
    using days_before_month_table[of m leap y] mf by (simp add: tm rtc_year_days_def)
qed

lemma valid_date:
  assumes "real_date leap (tm_year tm + 1900) (tm_mon tm + 1) (tm_mday tm) (tm_hour tm) (tm_min tm) (tm_sec tm)"
  shows "rtc_valid_tm leap tm = 0"
  using assms month_days_length[of "tm_mon tm" leap "tm_year tm + 1900"]
  by (auto simp: rtc_valid_tm_def real_date_def as_unsigned_def)

text \<open>Conversely, every field the check lets pass is in its range.\<close>

lemma valid_tm_date:
  assumes "rtc_valid_tm leap tm = 0" "tm_mon tm \<in> {-2147483648..2147483647}" "tm_hour tm \<in> {-2147483648..2147483647}"
    "tm_min tm \<in> {-2147483648..2147483647}" "tm_sec tm \<in> {-2147483648..2147483647}"
  shows "real_date leap (tm_year tm + 1900) (tm_mon tm + 1) (tm_mday tm) (tm_hour tm) (tm_min tm) (tm_sec tm)"
proof -
  have u: "0 \<le> x \<and> x < n" if "\<not> as_unsigned x \<ge> n" "x \<in> {-2147483648..2147483647}" "n \<le> 2147483648" for x n
  proof (cases "0 \<le> x")
    case True
    then show ?thesis using that by (simp add: as_unsigned_def)
  next
    case False
    then have "x mod 2 ^ 32 = x + 2 ^ 32" using that(2) by (intro int_mod_pos_eq[where q = "-1"]) auto
    then show ?thesis using that by (simp add: as_unsigned_def)
  qed
  have "tm_year tm \<ge> 70" "1 \<le> tm_mday tm" "tm_mday tm \<le> rtc_month_days leap (tm_mon tm) (tm_year tm + 1900)"
    "0 \<le> tm_mon tm \<and> tm_mon tm < 12" "0 \<le> tm_hour tm \<and> tm_hour tm < 24" "0 \<le> tm_min tm \<and> tm_min tm < 60"
    "0 \<le> tm_sec tm \<and> tm_sec tm < 60"
    using assms u by (auto simp: rtc_valid_tm_def split: if_splits)
  then show ?thesis using month_days_length[of "tm_mon tm" leap "tm_year tm + 1900"] by (simp add: real_date_def)
qed

lemma time_to_tm_back:
  assumes "gregorian leap" "mktime_spec leap mk"
  shows "rtc_tm_to_time mk (rtc_time_to_tm leap t) = t \<and> rtc_valid_tm leap (rtc_time_to_tm leap t) = 0"
proof -
  note d = time_to_tm_date[OF assms(1), of t]
  have "uint t < 2 ^ LENGTH(32)" by (rule unsigned_less)
  then show ?thesis using assms(2) d valid_date[OF d(1)]
    by (auto simp: mktime_spec_def rtc_tm_to_time_def word_uint_eq_iff)
qed

text \<open>C7. Seconds and dates.  For every 32 bit number of seconds since 1970 \<open>rtc_time_to_tm\<close> gives a date that exists,
  which \<open>rtc_valid_tm\<close> accepts and which \<open>rtc_tm_to_time\<close> turns back into the same number; \<open>is_leap_year\<close> is taken
  to be the rule of the Gregorian calendar and \<open>mktime\<close> to count the seconds of existing dates.\<close>

theorem rtc_time_roundtrip:
  assumes "gregorian leap" "mktime_spec leap mk"
  shows "rtc_tm_to_time mk (rtc_time_to_tm leap t) = t \<and> rtc_valid_tm leap (rtc_time_to_tm leap t) = 0"
  using assms by (rule time_to_tm_back)

text \<open>Functions with the two properties: the rule itself and the count itself.\<close>

definition leap_rule :: "int \<Rightarrow> bool" where
  "leap_rule y \<longleftrightarrow> y mod 4 = 0 \<and> (y mod 100 = 0 \<longrightarrow> y mod 400 = 0)"

definition mktime_ref :: mktime where
  "mktime_ref y mo d h mi s = word_of_int (epoch_secs leap_rule y mo d h mi s)"

lemma leap_rule_gregorian: "gregorian leap_rule"
  by (simp add: gregorian_def leap_rule_def dvd_eq_mod_eq_0)

lemma epoch_secs_year:
  assumes "real_date leap y mo d h mi s"
  shows "days_before_year leap y * 86400 \<le> epoch_secs leap y mo d h mi s"
proof -
  have "0 \<le> days_before_month leap y mo" by (auto simp: days_before_month_def month_length_def intro: sum_nonneg)
  then show ?thesis using assms by (simp add: epoch_secs_def real_date_def)
qed

lemma epoch_secs_nonneg: "real_date leap y mo d h mi s \<Longrightarrow> 0 \<le> epoch_secs leap y mo d h mi s"
proof -
  assume "real_date leap y mo d h mi s"
  moreover have "0 \<le> days_before_year leap y" by (auto simp: days_before_year_def intro: sum_nonneg)
  ultimately show ?thesis using epoch_secs_year by fastforce
qed

lemma mktime_ref_spec: "mktime_spec leap_rule mktime_ref"
  by (auto simp: mktime_spec_def mktime_ref_def uint_word_of_int epoch_secs_nonneg)

theorem rtc_time_roundtrip_witness:
  "rtc_tm_to_time mktime_ref (rtc_time_to_tm leap_rule 1700000000) = 1700000000
     \<and> rtc_valid_tm leap_rule (rtc_time_to_tm leap_rule 1700000000) = 0"
  by (rule rtc_time_roundtrip[OF leap_rule_gregorian mktime_ref_spec])

end
