(* ===== verification/Rtc.thy ===== *)
theory Rtc
  imports Rtc_Lib
begin

text \<open>
  The clock interface above a clock driver, \<open>src/drivers/rtc/interface.c\<close>, and its two users inside the kernel:
  setting the system time from the clock when the system starts, \<open>src/drivers/rtc/hctosys.c\<close>, and saving the
  system time to the clock, \<open>src/drivers/rtc/systohc.c\<close>.  The driver is a record of its operations; a driver
  that would touch memory it does not own has no result (\<open>None\<close>).  The mutex of a clock can be refused by a
  signal: that is an argument.
\<close>

type_synonym 's clock_fn = "rtc_time \<Rightarrow> 's \<Rightarrow> (int \<times> rtc_time \<times> 's) option"

record 's rtc_class_ops =
  read_time :: "'s clock_fn option"
  set_time :: "'s clock_fn option"
  set_mmss :: "(u32 \<Rightarrow> 's \<Rightarrow> (int \<times> 's) option) option"

text \<open>A clock: its operations, if it has any, the state of the driver, and whether the work that looks after expired
  alarms has been scheduled.\<close>

record 's rtc_device =
  ops :: "'s rtc_class_ops option"
  drv :: 's
  irqwork :: bool

definition tm0 :: rtc_time where
  "tm0 = \<lparr>tm_sec = 0, tm_min = 0, tm_hour = 0, tm_mday = 0, tm_mon = 0, tm_year = 0, tm_wday = 0, tm_yday = 0, tm_isdst = 0\<rparr>"

definition rtc_read_time_unlocked :: "rtc_time \<Rightarrow> 's rtc_device \<Rightarrow> (int \<times> rtc_time \<times> 's rtc_device) option" where
  "rtc_read_time_unlocked tm rtc = (case ops rtc of
     None \<Rightarrow> Some (- eno ENODEV, tm, rtc)
   | Some o' \<Rightarrow> (case read_time o' of
       None \<Rightarrow> Some (- eno EINVAL, tm, rtc)
     | Some f \<Rightarrow> map_option (\<lambda>(err, tm', s). (err, tm', rtc\<lparr>drv := s\<rparr>)) (f tm0 (drv rtc))))"

definition rtc_read_time :: "bool \<Rightarrow> rtc_time \<Rightarrow> 's rtc_device \<Rightarrow> (int \<times> rtc_time \<times> 's rtc_device) option" where
  "rtc_read_time signal tm rtc =
    (if signal then Some (- eno EINTR, tm, rtc) else rtc_read_time_unlocked tm rtc)"

definition rtc_set_time :: "(int \<Rightarrow> bool) \<Rightarrow> mktime \<Rightarrow> bool \<Rightarrow> rtc_time \<Rightarrow> 's rtc_device \<Rightarrow> (int \<times> 's rtc_device) option" where
  "rtc_set_time is_leap_year mktime signal tm rtc =
    (let err = rtc_valid_tm is_leap_year tm in
     if err \<noteq> 0 then Some (err, rtc)
     else if signal then Some (- eno EINTR, rtc)
     else map_option (\<lambda>(err, rtc). (err, rtc\<lparr>irqwork := True\<rparr>))
      (case ops rtc of
         None \<Rightarrow> Some (- eno ENODEV, rtc)
       | Some o' \<Rightarrow> (case set_time o' of
           Some f \<Rightarrow> map_option (\<lambda>(err, _, s). (err, rtc\<lparr>drv := s\<rparr>)) (f tm (drv rtc))
         | None \<Rightarrow> (case set_mmss o' of
             Some f \<Rightarrow> map_option (\<lambda>(err, s). (err, rtc\<lparr>drv := s\<rparr>)) (f (rtc_tm_to_time mktime tm) (drv rtc))
           | None \<Rightarrow> Some (- eno EINVAL, rtc)))))"

definition rtc_set_mmss :: "(int \<Rightarrow> bool) \<Rightarrow> rtc_time \<Rightarrow> bool \<Rightarrow> u32 \<Rightarrow> 's rtc_device \<Rightarrow> (int \<times> 's rtc_device) option" where
  "rtc_set_mmss is_leap_year uninit signal secs rtc =
    (if signal then Some (- eno EINTR, rtc)
     else map_option (\<lambda>(err, rtc). (err, rtc\<lparr>irqwork := True\<rparr>))
      (case ops rtc of
         None \<Rightarrow> Some (- eno ENODEV, rtc)
       | Some o' \<Rightarrow> (case set_mmss o' of
           Some f \<Rightarrow> map_option (\<lambda>(err, s). (err, rtc\<lparr>drv := s\<rparr>)) (f secs (drv rtc))
         | None \<Rightarrow> (case (read_time o', set_time o') of
             (Some rd, Some st) \<Rightarrow>
               (case rd uninit (drv rtc) of
                  None \<Rightarrow> None
                | Some (err, old, s) \<Rightarrow>
                   if err = 0 then
                     (let new = rtc_time_to_tm is_leap_year secs in
                      if \<not> (tm_hour old = 23 \<and> tm_min old = 59 \<or> tm_hour new = 23 \<and> tm_min new = 59)
                      then map_option (\<lambda>(err, _, s). (err, rtc\<lparr>drv := s\<rparr>)) (st new s)
                      else Some (err, rtc\<lparr>drv := s\<rparr>))
                   else Some (err, rtc\<lparr>drv := s\<rparr>))
           | _ \<Rightarrow> Some (- eno EINVAL, rtc)))))"

text \<open>Starting the system: the result is the error and the time handed to \<open>do_settimeofday\<close>, if it was called; \<open>None\<close>
  for a clock that is not there.  \<open>do_settimeofday\<close> is outside the sources; its code is an argument.\<close>

definition rtc_hctosys :: "(int \<Rightarrow> bool) \<Rightarrow> mktime \<Rightarrow> bool \<Rightarrow> rtc_time \<Rightarrow> (u32 \<times> int \<Rightarrow> int) \<Rightarrow> 's rtc_device option \<Rightarrow>
    (int \<times> (u32 \<times> int) option \<times> 's rtc_device option) option" where
  "rtc_hctosys is_leap_year mktime signal uninit do_settimeofday dev = (case dev of
     None \<Rightarrow> Some (- eno ENODEV, None, None)
   | Some rtc \<Rightarrow> (case rtc_read_time signal uninit rtc of
       None \<Rightarrow> None
     | Some (err, tm, rtc) \<Rightarrow>
        if err \<noteq> 0 then Some (err, None, Some rtc)
        else (let err = rtc_valid_tm is_leap_year tm in
          if err \<noteq> 0 then Some (err, None, Some rtc)
          else (let tv = (rtc_tm_to_time mktime tm, 500000000)
                in Some (do_settimeofday tv, Some tv, Some rtc)))))"

text \<open>Saving the time \<open>(tv_sec, tv_nsec)\<close>, rounded to the nearest second.\<close>

definition rtc_set_ntp_time :: "(int \<Rightarrow> bool) \<Rightarrow> mktime \<Rightarrow> bool \<Rightarrow> u32 \<times> int \<Rightarrow> 's rtc_device option \<Rightarrow>
    (int \<times> 's rtc_device option) option" where
  "rtc_set_ntp_time is_leap_year mktime signal now dev =
    (let tm = (if snd now < 500000000 then rtc_time_to_tm is_leap_year (fst now) else rtc_time_to_tm is_leap_year (fst now + 1))
     in case dev of
       None \<Rightarrow> Some (- eno ENODEV, None)
     | Some rtc \<Rightarrow> (case ops rtc of
         None \<Rightarrow> Some (- eno ENODEV, Some rtc)
       | Some o' \<Rightarrow>
          if set_time o' \<noteq> None \<or> set_mmss o' \<noteq> None
          then map_option (\<lambda>(err, rtc). (err, Some rtc)) (rtc_set_time is_leap_year mktime signal tm rtc)
          else Some (- eno ENODEV, Some rtc)))"

section \<open>Saving the time and getting it back\<close>

text \<open>What the two users rely on: the driver keeps a date from the one operation to the other.  A date is kept
  when its six fields come back; \<open>ok\<close> are the states in which the clock answers, \<open>range\<close> the dates it can hold.\<close>

definition same_date :: "rtc_time \<Rightarrow> rtc_time \<Rightarrow> bool" where
  "same_date a b \<longleftrightarrow> tm_sec a = tm_sec b \<and> tm_min a = tm_min b \<and> tm_hour a = tm_hour b \<and> tm_mday a = tm_mday b
     \<and> tm_mon a = tm_mon b \<and> tm_year a = tm_year b"

lemma same_date_valid: "same_date a b \<Longrightarrow> rtc_valid_tm leap a = rtc_valid_tm leap b"
  by (simp add: same_date_def rtc_valid_tm_def)

lemma same_date_time: "same_date a b \<Longrightarrow> rtc_tm_to_time mk a = rtc_tm_to_time mk b"
  by (simp add: same_date_def rtc_tm_to_time_def)

locale clock_driver =
  fixes is_leap_year :: "int \<Rightarrow> bool" and rd wr :: "'s clock_fn" and ok :: "'s \<Rightarrow> bool" and holds :: "rtc_time \<Rightarrow> 's \<Rightarrow> bool"
    and range :: "rtc_time \<Rightarrow> bool"
  assumes wr: "ok s \<Longrightarrow> range tm \<Longrightarrow> rtc_valid_tm is_leap_year tm = 0 \<Longrightarrow> \<exists>tm' s'. wr tm s = Some (0, tm', s') \<and> ok s' \<and> holds tm s'"
    and rd: "ok s \<Longrightarrow> holds tm s \<Longrightarrow> range tm \<Longrightarrow> rtc_valid_tm is_leap_year tm = 0 \<Longrightarrow>
      \<exists>tm' s'. rd tm'' s = Some (0, tm', s') \<and> same_date tm' tm"
begin

lemma save_restore:
  assumes g: "gregorian is_leap_year" and mk: "mktime_spec is_leap_year mk"
    and dev: "ops rtc = Some o'" "read_time o' = Some rd" "set_time o' = Some wr" "ok (drv rtc)"
    and t: "t = (if ns < 500000000 then t0 else t0 + 1)" "range (rtc_time_to_tm is_leap_year t)"
  shows "\<exists>rtc1 rtc2. rtc_set_ntp_time is_leap_year mk False (t0, ns) (Some rtc) = Some (0, Some rtc1)
     \<and> rtc_hctosys is_leap_year mk False uninit stod (Some rtc1) = Some (stod (t, 500000000), Some (t, 500000000), Some rtc2)"
proof -
  let ?tm = "rtc_time_to_tm is_leap_year t"
  have v: "rtc_valid_tm is_leap_year ?tm = 0" and b: "rtc_tm_to_time mk ?tm = t" using time_to_tm_back[OF g mk] by simp_all
  obtain tm' s1 where s1: "wr ?tm (drv rtc) = Some (0, tm', s1)" "ok s1" "holds ?tm s1" using wr[OF dev(4) t(2) v] by blast
  let ?rtc1 = "rtc\<lparr>drv := s1, irqwork := True\<rparr>"
  obtain tm2 s2 where s2: "rd tm0 s1 = Some (0, tm2, s2)" "same_date tm2 ?tm" using rd[OF s1(2,3) t(2) v] by blast
  have "rtc_set_ntp_time is_leap_year mk False (t0, ns) (Some rtc) = Some (0, Some ?rtc1)"
    using dev s1(1) v t(1) by (simp add: rtc_set_ntp_time_def rtc_set_time_def Let_def split: if_splits)
  moreover have "rtc_hctosys is_leap_year mk False uninit stod (Some ?rtc1)
      = Some (stod (t, 500000000), Some (t, 500000000), Some (?rtc1\<lparr>drv := s2\<rparr>))"
    using dev s2 same_date_valid[OF s2(2)] same_date_time[OF s2(2)] v b
    by (simp add: rtc_hctosys_def rtc_read_time_def rtc_read_time_unlocked_def Let_def)
  ultimately show ?thesis by blast
qed

end

end
