(* ===== verification/Rx8025.thy ===== *)
theory Rx8025
  imports I2c_Dev Rtc Kres "HOL-Library.Signed_Division"
begin

text \<open>
  The driver of the clock chip, \<open>src/drivers/rtc/rtc-rx8025.c\<close>, as changed for the board: registers are addressed
  directly, every register is read with a transfer of its own, and the alarm code is switched off.  The static
  variable \<open>first_run\<close> is part of the state.  \<open>bcd2bin\<close> and \<open>bin2bcd\<close> come from outside the sources; they are
  arguments, and \<open>bcd_spec\<close> says that they convert packed decimals.  \<open>v k\<close> are the surroundings of the \<open>k\<close>-th
  transfer of a call.
\<close>

section \<open>Registers\<close>

definition RX8025_REG_SEC :: nat where "RX8025_REG_SEC = 0x00"
definition RX8025_REG_MIN :: nat where "RX8025_REG_MIN = 0x01"
definition RX8025_REG_HOUR :: nat where "RX8025_REG_HOUR = 0x02"
definition RX8025_REG_WDAY :: nat where "RX8025_REG_WDAY = 0x03"
definition RX8025_REG_MDAY :: nat where "RX8025_REG_MDAY = 0x04"
definition RX8025_REG_MONTH :: nat where "RX8025_REG_MONTH = 0x05"
definition RX8025_REG_YEAR :: nat where "RX8025_REG_YEAR = 0x06"
definition RX8025_REG_DIGOFF :: nat where "RX8025_REG_DIGOFF = 0x07"

lemmas rx_regs = RX8025_REG_SEC_def RX8025_REG_MIN_def RX8025_REG_HOUR_def RX8025_REG_WDAY_def RX8025_REG_MDAY_def
  RX8025_REG_MONTH_def RX8025_REG_YEAR_def RX8025_REG_DIGOFF_def

definition RX8025_ADJ_RESOLUTION :: int where "RX8025_ADJ_RESOLUTION = 3050"
definition RX8025_ADJ_DATA_MAX :: int where "RX8025_ADJ_DATA_MAX = 62"
definition RX8025_ADJ_DATA_MIN :: int where "RX8025_ADJ_DATA_MIN = - 62"

text \<open>The result of \<open>i2c_smbus_read_byte\<close> is stored in a byte whatever it is; the result of \<open>i2c_smbus_write_byte\<close> is
  not looked at.\<close>

definition rx8025_read_reg :: "'s i2c_adapter \<Rightarrow> (nat \<Rightarrow> call_env) \<Rightarrow> i2c_client \<Rightarrow> nat \<Rightarrow> 's \<Rightarrow> (int \<times> u8 \<times> 's) option" where
  "rx8025_read_reg adap v client number s = do {
     (_, s) \<leftarrow> i2c_smbus_write_byte adap (v 0) client (of_nat number) s;
     (x, s) \<leftarrow> i2c_smbus_read_byte adap (v 1) client s;
     Some (0, word_of_int x, s) }"

fun rx8025_read_loop :: "'s i2c_adapter \<Rightarrow> (nat \<Rightarrow> call_env) \<Rightarrow> i2c_client \<Rightarrow> nat \<Rightarrow> nat \<Rightarrow> nat \<Rightarrow> 's \<Rightarrow> (u8 list \<times> 's) option" where
  "rx8025_read_loop adap v client number 0 i s = Some ([], s)"
| "rx8025_read_loop adap v client number (Suc n) i s = do {
     (_, s) \<leftarrow> i2c_smbus_write_byte adap (v (2 * i)) client (of_nat (number + i)) s;
     (x, s) \<leftarrow> i2c_smbus_read_byte adap (v (2 * i + 1)) client s;
     (xs, s) \<leftarrow> rx8025_read_loop adap v client number n (Suc i) s;
     Some (word_of_int x # xs, s) }"

definition rx8025_read_regs :: "'s i2c_adapter \<Rightarrow> (nat \<Rightarrow> call_env) \<Rightarrow> i2c_client \<Rightarrow> nat \<Rightarrow> u8 \<Rightarrow> 's \<Rightarrow> (int \<times> u8 list \<times> 's) option" where
  "rx8025_read_regs adap v client number n s =
     map_option (\<lambda>(xs, s). (0, xs, s)) (rx8025_read_loop adap v client number (unat n) 0 s)"

definition rx8025_write_reg :: "'s i2c_adapter \<Rightarrow> call_env \<Rightarrow> i2c_client \<Rightarrow> nat \<Rightarrow> u8 \<Rightarrow> 's \<Rightarrow> (int \<times> 's) option" where
  "rx8025_write_reg adap v client number value s = i2c_smbus_write_byte_data adap v client (of_nat number) value s"

definition rx8025_write_regs :: "'s i2c_adapter \<Rightarrow> call_env \<Rightarrow> i2c_client \<Rightarrow> nat \<Rightarrow> u8 \<Rightarrow> u8 list \<Rightarrow> 's \<Rightarrow> (int \<times> 's) option" where
  "rx8025_write_regs adap v client number n values s = i2c_smbus_write_i2c_block_data adap v client (of_nat number) n values s"

section \<open>Time\<close>

text \<open>The block that runs once, from transfer \<open>k\<close> on.\<close>

definition rx8025_first :: "'s i2c_adapter \<Rightarrow> (nat \<Rightarrow> call_env) \<Rightarrow> nat \<Rightarrow> i2c_client \<Rightarrow> bool \<times> 's \<Rightarrow> (bool \<times> 's) option" where
  "rx8025_first adap v k client = (\<lambda>(first_run, s).
     if first_run then do {
       (_, s) \<leftarrow> rx8025_write_reg adap (v k) client 0x0d 0x00 s;
       (_, s) \<leftarrow> rx8025_write_reg adap (v (k + 1)) client 0x0e 0x00 s;
       (_, s) \<leftarrow> rx8025_write_reg adap (v (k + 2)) client 0x0f 0x60 s;
       Some (False, s) }
     else Some (first_run, s))"

definition rx8025_get_time :: "(int \<Rightarrow> bool) \<Rightarrow> (u8 \<Rightarrow> int) \<Rightarrow> 's i2c_adapter \<Rightarrow> (nat \<Rightarrow> call_env) \<Rightarrow> i2c_client \<Rightarrow> (bool \<times> 's) clock_fn" where
  "rx8025_get_time is_leap_year bcd2bin adap v client dt = (\<lambda>(first_run, s). do {
     (err, date, s) \<leftarrow> rx8025_read_regs adap v client RX8025_REG_SEC 7 s;
     if err \<noteq> 0 then Some (err, dt, first_run, s)
     else do {
       let dt = dt\<lparr>tm_sec := bcd2bin (date ! RX8025_REG_SEC AND 0x7f),
         tm_min := bcd2bin (date ! RX8025_REG_MIN AND 0x7f),
         tm_hour := bcd2bin (date ! RX8025_REG_HOUR AND 0x3f),
         tm_mday := bcd2bin (date ! RX8025_REG_MDAY AND 0x3f),
         tm_mon := bcd2bin (date ! RX8025_REG_MONTH AND 0x1f) - 1,
         tm_year := bcd2bin (date ! RX8025_REG_YEAR)\<rparr>;
       let dt = (if tm_year dt < 70 then dt\<lparr>tm_year := tm_year dt + 100\<rparr> else dt);
       (first_run, s) \<leftarrow> rx8025_first adap v 14 client (first_run, s);
       Some (rtc_valid_tm is_leap_year dt, dt, first_run, s) } })"

definition rx8025_set_time :: "(int \<Rightarrow> u8) \<Rightarrow> 's i2c_adapter \<Rightarrow> (nat \<Rightarrow> call_env) \<Rightarrow> i2c_client \<Rightarrow> (bool \<times> 's) clock_fn" where
  "rx8025_set_time bin2bcd adap v client dt = (\<lambda>(first_run, s). do {
     let date = [bin2bcd (tm_sec dt), bin2bcd (tm_min dt), bin2bcd (tm_hour dt), bin2bcd (tm_wday dt), bin2bcd (tm_mday dt),
       bin2bcd (tm_mon dt + 1), bin2bcd (tm_year dt smod 100)];
     (first_run, s) \<leftarrow> rx8025_first adap v 0 client (first_run, s);
     (err, s) \<leftarrow> rx8025_write_regs adap (v 3) client RX8025_REG_SEC 7 date s;
     Some (err, dt, first_run, s) })"

text \<open>The operations the clock interface gets: no other one is filled in.\<close>

definition rx8025_rtc_ops :: "(int \<Rightarrow> bool) \<Rightarrow> (u8 \<Rightarrow> int) \<Rightarrow> (int \<Rightarrow> u8) \<Rightarrow> 's i2c_adapter \<Rightarrow> (nat \<Rightarrow> call_env) \<Rightarrow> i2c_client \<Rightarrow>
    (bool \<times> 's) rtc_class_ops" where
  "rx8025_rtc_ops is_leap_year bcd2bin bin2bcd adap v client =
     \<lparr>read_time = Some (rx8025_get_time is_leap_year bcd2bin adap v client),
      set_time = Some (rx8025_set_time bin2bcd adap v client), set_mmss = None\<rparr>"

text \<open>The client of the board, from its list of devices on the first bus.\<close>

definition rx8025_client :: i2c_client where
  "rx8025_client = \<lparr>client_addr = 0x32, client_flags = []\<rparr>"

section \<open>Clock adjustment\<close>

definition rx8025_get_clock_adjust :: "'s i2c_adapter \<Rightarrow> (nat \<Rightarrow> call_env) \<Rightarrow> i2c_client \<Rightarrow> 's \<Rightarrow> (int \<times> int \<times> 's) option" where
  "rx8025_get_clock_adjust adap v client s = do {
     (err, digoff, s) \<leftarrow> rx8025_read_reg adap v client RX8025_REG_DIGOFF s;
     if err \<noteq> 0 then Some (err, 0, s)
     else (let adj = (if uint digoff \<ge> 64 then uint digoff - 128 else uint digoff);
               adj = (if adj > 0 then adj - 1 else adj)
           in Some (0, adj * - RX8025_ADJ_RESOLUTION, s)) }"

definition rx8025_set_clock_adjust :: "'s i2c_adapter \<Rightarrow> call_env \<Rightarrow> i2c_client \<Rightarrow> int \<Rightarrow> 's \<Rightarrow> (int \<times> 's) option" where
  "rx8025_set_clock_adjust adap v client adj s =
    (let adj = adj sdiv - RX8025_ADJ_RESOLUTION;
         adj = (if adj > RX8025_ADJ_DATA_MAX then RX8025_ADJ_DATA_MAX
                else if adj < RX8025_ADJ_DATA_MIN then RX8025_ADJ_DATA_MIN
                else if adj > 0 then adj + 1
                else if adj < 0 then adj + 128
                else adj)
     in do {
       (err, s) \<leftarrow> rx8025_write_reg adap v client RX8025_REG_DIGOFF (word_of_int adj) s;
       if err \<noteq> 0 then Some (err, s) else Some (0, s) })"

text \<open>The attribute \<open>clock_adjust_ppb\<close>; \<open>sscanf\<close> with \<open>%i\<close> is an argument.\<close>

definition rx8025_sysfs_show_clock_adjust :: "'s i2c_adapter \<Rightarrow> (nat \<Rightarrow> call_env) \<Rightarrow> i2c_client \<Rightarrow> 's \<Rightarrow> (int \<times> string \<times> 's) option" where
  "rx8025_sysfs_show_clock_adjust adap v client s = do {
     (err, adj, s) \<leftarrow> rx8025_get_clock_adjust adap v client s;
     if err \<noteq> 0 then Some (err, [], s)
     else (let text = (if adj < 0 then ''-'' @ show_dec (nat (- adj)) else show_dec (nat adj)) @ [CHR 0x0a]
           in Some (int (length text), text, s)) }"

definition rx8025_sysfs_store_clock_adjust :: "(string \<Rightarrow> int option) \<Rightarrow> 's i2c_adapter \<Rightarrow> call_env \<Rightarrow> i2c_client \<Rightarrow> string \<Rightarrow> 's \<Rightarrow>
    (int \<times> 's) option" where
  "rx8025_sysfs_store_clock_adjust sscanf_i adap v client text s = (case sscanf_i text of
     None \<Rightarrow> Some (- eno EINVAL, s)
   | Some adj \<Rightarrow> do {
       (err, s) \<leftarrow> rx8025_set_clock_adjust adap v client adj s;
       Some (if err \<noteq> 0 then err else int (length text), s) })"

section \<open>Packed decimals\<close>

definition bcd_spec :: "(u8 \<Rightarrow> int) \<Rightarrow> (int \<Rightarrow> u8) \<Rightarrow> bool" where
  "bcd_spec bcd2bin bin2bcd \<longleftrightarrow> (\<forall>t u. 0 \<le> t \<and> t < 10 \<and> 0 \<le> u \<and> u < 10 \<longrightarrow>
     bin2bcd (10 * t + u) = word_of_int (16 * t + u) \<and> bcd2bin (word_of_int (16 * t + u)) = 10 * t + u)"

lemma bcd_digits:
  "bcd_spec b2 b1 \<Longrightarrow> 0 \<le> t \<Longrightarrow> t < 10 \<Longrightarrow> 0 \<le> u \<Longrightarrow> u < 10 \<Longrightarrow> b2 (word_of_int (16 * t + u)) = 10 * t + u"
  by (simp add: bcd_spec_def)




section \<open>The driver on a device with registers\<close>










section \<open>The clock of the board\<close>

text \<open>The driver on the controller of the board with the chip behind it.\<close>

interpretation rb: reg_bus "nuc970_i2c0_adapter csr" rx8025_client "dev_good rx8025_client" "\<lambda>(s, d). regs d" "\<lambda>(s, d). pos d" for csr
proof
  fix s :: "nuc970_i2c \<times> reg_dev" and v p assume a: "dev_good rx8025_client s" "env_ok v"
  obtain c d where s: "s = (c, d)" by (cases s)
  show "\<exists>s'. i2c_smbus_write_byte (nuc970_i2c0_adapter csr) v rx8025_client p s = Some (0, s') \<and> dev_good rx8025_client s'
      \<and> (case s' of (s, d) \<Rightarrow> regs d) = (case s of (s, d) \<Rightarrow> regs d) \<and> (case s' of (s, d) \<Rightarrow> pos d) = p"
    using nuc_send[of rx8025_client c d v csr p] a by (auto simp: s dev_good_def)
  show "\<exists>s'. i2c_smbus_read_byte (nuc970_i2c0_adapter csr) v rx8025_client s
        = Some (uint ((case s of (s, d) \<Rightarrow> regs d) (case s of (s, d) \<Rightarrow> pos d)), s') \<and> dev_good rx8025_client s'
      \<and> (case s' of (s, d) \<Rightarrow> regs d) = (case s of (s, d) \<Rightarrow> regs d)"
    using nuc_receive[of rx8025_client c d v csr] a by (auto simp: s dev_good_def)
  fix b
  show "\<exists>s'. i2c_smbus_write_byte_data (nuc970_i2c0_adapter csr) v rx8025_client p b s = Some (0, s') \<and> dev_good rx8025_client s'
      \<and> (case s' of (s, d) \<Rightarrow> regs d) = (case s of (s, d) \<Rightarrow> regs d)(p := b)"
    using nuc_put[of rx8025_client c d v csr p b] a by (auto simp: s dev_good_def stands_for_def)
next
  fix s :: "nuc970_i2c \<times> reg_dev" and v p and bs :: "u8 list"
  assume a: "dev_good rx8025_client s" "env_ok v" "length bs \<le> 32"
  obtain c d where s: "s = (c, d)" by (cases s)
  show "\<exists>s'. i2c_smbus_write_i2c_block_data (nuc970_i2c0_adapter csr) v rx8025_client p (of_nat (length bs)) bs s = Some (0, s')
      \<and> dev_good rx8025_client s' \<and> (case s' of (s, d) \<Rightarrow> regs d) = put_cells p bs (case s of (s, d) \<Rightarrow> regs d)"
    using nuc_put_block[of rx8025_client c d v bs csr p] a dev_store_cells[of bs "d\<lparr>pos := p\<rparr>"] by (auto simp: s dev_good_def)
qed





text \<open>Conversions with the property asked for.\<close>

definition bcd2bin_ref :: "u8 \<Rightarrow> int" where "bcd2bin_ref x = uint x mod 16 + 10 * (uint x div 16)"
definition bin2bcd_ref :: "int \<Rightarrow> u8" where "bin2bcd_ref n = word_of_int (16 * (n div 10) + n mod 10)"

lemma bcd_ref_spec: "bcd_spec bcd2bin_ref bin2bcd_ref"
proof -
  have "uint (word_of_int (16 * t + u) :: u8) = 16 * t + u" if "0 \<le> t" "t < 10" "0 \<le> u" "u < 10" for t u :: int
    using that by (simp only: uint_word_of_int) simp
  then show ?thesis unfolding bcd_spec_def bcd2bin_ref_def bin2bcd_ref_def by auto
qed

lemma chip0_good: "dev_good rx8025_client (i2c0, chip0)"
  by (simp add: dev_good_def ctrl_ready_def stands_for_def rx8025_client_def chip0_def i2c0_def)


section \<open>Clock adjustment there and back\<close>

lemma read_reg_ok:
  assumes "dev_good rx8025_client s" "env_ok (v 0)" "env_ok (v 1)"
  shows "\<exists>s'. rx8025_read_reg (nuc970_i2c0_adapter csr) v rx8025_client n s = Some (0, regs (snd s) (of_nat n), s')"
proof -
  obtain s1 where s1: "i2c_smbus_write_byte (nuc970_i2c0_adapter csr) (v 0) rx8025_client (of_nat n) s = Some (0, s1)"
    "dev_good rx8025_client s1" "regs (snd s1) = regs (snd s)" "pos (snd s1) = of_nat n"
    using rb.send[OF assms(1,2), where csr = csr and p = "of_nat n"] by (auto simp: case_prod_beta)
  obtain s2 where "i2c_smbus_read_byte (nuc970_i2c0_adapter csr) (v 1) rx8025_client s1 = Some (uint (regs (snd s) (of_nat n)), s2)"
    using rb.receive[OF s1(2) assms(3), where csr = csr] s1(3,4) by (auto simp: case_prod_beta)
  then show ?thesis using s1(1) by (simp add: rx8025_read_reg_def)
qed

lemma adjust_units:
  fixes adj :: int
  shows "62 < adj sdiv - 3050 \<longleftrightarrow> adj \<le> - 192150" "adj sdiv - 3050 < - 62 \<longleftrightarrow> 192150 \<le> adj"
    "adj sdiv - 3050 * - 3050 = adj sdiv 3050 * 3050"
proof -
  have b: "y div 3050 < 63 \<longleftrightarrow> y < 192150" "0 \<le> y div 3050 \<longleftrightarrow> 0 \<le> y" for y :: int by linarith+
  define x where "x = \<bar>adj\<bar> div 3050"
  have x: "x < 63 \<longleftrightarrow> \<bar>adj\<bar> < 192150" "0 \<le> x" using b[of "\<bar>adj\<bar>"] by (simp_all add: x_def)
  have d: "adj sdiv - 3050 = - sgn adj * x" "adj sdiv 3050 = sgn adj * x" by (simp_all add: signed_divide_int_def x_def)
  show "62 < adj sdiv - 3050 \<longleftrightarrow> adj \<le> - 192150" unfolding d using x by (cases adj "0 :: int" rule: linorder_cases) auto
  show "adj sdiv - 3050 < - 62 \<longleftrightarrow> 192150 \<le> adj" unfolding d using x by (cases adj "0 :: int" rule: linorder_cases) auto
  show "adj sdiv - 3050 * - 3050 = adj sdiv 3050 * 3050" unfolding d by simp
qed

text \<open>C33. The clock adjustment, in parts per billion and units of 3050.  An adjustment between \<open>-192150\<close> and \<open>192150\<close>
  (both excluded) that is written with \<open>rx8025_set_clock_adjust\<close> is read back by \<open>rx8025_get_clock_adjust\<close>
  rounded towards zero to a whole number of units.  An adjustment at or below that range is limited: it is read back as
  \<open>-186050\<close>.  An adjustment at or above it gets the wrong sign: it is read back as \<open>-198250\<close>.\<close>

theorem clock_adjust:
  assumes "dev_good rx8025_client s" "env_ok w" "env_ok (v 0)" "env_ok (v 1)"
  shows "\<exists>s1 s2. rx8025_set_clock_adjust (nuc970_i2c0_adapter csr) w rx8025_client adj s = Some (0, s1)
     \<and> rx8025_get_clock_adjust (nuc970_i2c0_adapter csr) v rx8025_client s1
       = Some (0, if adj \<le> - 192150 then - 186050 else if 192150 \<le> adj then - 198250 else adj sdiv 3050 * 3050, s2)"
proof -
  define q where "q = adj sdiv - 3050"
  define c where "c = (if q > 62 then 62 else if q < - 62 then - 62 else if q > 0 then q + 1 else if q < 0 then q + 128 else q)"
  obtain s1 where s1: "i2c_smbus_write_byte_data (nuc970_i2c0_adapter csr) w rx8025_client 7 (word_of_int c) s = Some (0, s1)"
    "dev_good rx8025_client s1" "regs (snd s1) = (regs (snd s))(7 := word_of_int c)"
    using rb.put[OF assms(1,2), where csr = csr and p = 7 and b = "word_of_int c"] by (auto simp: case_prod_beta)
  obtain s2 where s2: "rx8025_read_reg (nuc970_i2c0_adapter csr) v rx8025_client 7 s1 = Some (0, word_of_int c, s2)"
    using read_reg_ok[OF s1(2) assms(3,4), of csr 7] s1(3) by auto
  have set: "rx8025_set_clock_adjust (nuc970_i2c0_adapter csr) w rx8025_client adj s = Some (0, s1)"
    using s1(1) unfolding rx8025_set_clock_adjust_def rx8025_write_reg_def RX8025_ADJ_RESOLUTION_def RX8025_ADJ_DATA_MAX_def
      RX8025_ADJ_DATA_MIN_def Let_def q_def[symmetric] c_def[symmetric] by (simp add: rx_regs)
  have u: "uint (word_of_int c :: u8) = (if q < - 62 then 194 else c)"
    by (simp only: uint_word_of_int) (auto simp: c_def)
  have "rx8025_get_clock_adjust (nuc970_i2c0_adapter csr) v rx8025_client s1
      = Some (0, if q > 62 then - 186050 else if q < - 62 then - 198250 else q * - 3050, s2)"
    using s2 u by (auto simp: rx8025_get_clock_adjust_def rx_regs RX8025_ADJ_RESOLUTION_def Let_def c_def)
  then show ?thesis using set adjust_units[of adj] unfolding q_def by auto
qed

theorem clock_adjust_witness:
  "\<exists>s1 s2. rx8025_set_clock_adjust (nuc970_i2c0_adapter 3) env0 rx8025_client 200000 (i2c0, chip0) = Some (0, s1)
     \<and> rx8025_get_clock_adjust (nuc970_i2c0_adapter 3) (\<lambda>_. env0) rx8025_client s1 = Some (0, - 198250, s2)"
  using clock_adjust[OF chip0_good env0_ok, of "\<lambda>_. env0" 3 200000] env0_ok by simp

section \<open>A bus that is never free\<close>

text \<open>The controller alone, in given surroundings.\<close>

definition nuc_bare_xfer :: "u32 \<Rightarrow> (nat \<Rightarrow> xfer_env) \<Rightarrow> i2c_msg list \<Rightarrow> nuc970_i2c \<Rightarrow> int \<times> i2c_msg list \<times> nuc970_i2c" where
  "nuc_bare_xfer csr e ms s = (let (r, s') = nuc970_i2c0_xfer csr e ms s in (r, msgs s', s'))"

definition nuc_bare_adapter :: "u32 \<Rightarrow> (nat \<Rightarrow> xfer_env) \<Rightarrow> nuc970_i2c i2c_adapter" where
  "nuc_bare_adapter csr e = \<lparr>master_xfer = Some (nuc_bare_xfer csr e), smbus_xfer = None, retries = 2\<rparr>"

interpretation bare: plain_adapter "nuc_bare_adapter csr e" "nuc_bare_xfer csr e" for csr e
  by unfold_locales (simp_all add: nuc_bare_adapter_def)

text \<open>In none of the 400 polls is the bus free.\<close>

definition bus_stuck :: "(nat \<Rightarrow> xfer_env) \<Rightarrow> bool" where
  "bus_stuck e \<longleftrightarrow> (\<forall>k. nuc970_i2c0_set_master (polls (e k)) = Inl ETIMEDOUT)"

lemma stuck_xfer: "bus_stuck e \<Longrightarrow> \<exists>ms' s'. nuc_bare_xfer csr e ms s = (- 121, ms', s')"
  by (simp add: bus_stuck_def nuc_bare_xfer_def nuc970_i2c0_xfer_def numeral_2_eq_2 nuc970_i2c0_doxfer_def Let_def)

lemma stuck_send:
  assumes "bus_stuck e" "env_ok v"
  shows "\<exists>s'. i2c_smbus_write_byte (nuc_bare_adapter csr e) v rx8025_client p s = Some (- 121, s')"
    "\<exists>s'. i2c_smbus_read_byte (nuc_bare_adapter csr e) v rx8025_client s = Some (- 121, s')"
    "\<exists>s'. i2c_smbus_write_byte_data (nuc_bare_adapter csr e) v rx8025_client p b s = Some (- 121, s')"
proof -
  have c: "client_flags rx8025_client = []" by (simp add: rx8025_client_def)
  note x = stuck_xfer[OF assms(1), of csr]
  show "\<exists>s'. i2c_smbus_write_byte (nuc_bare_adapter csr e) v rx8025_client p s = Some (- 121, s')"
    using x[of "[wmsg v rx8025_client [p]]" s] bare.write_byte[OF assms(2) c] by fastforce
  show "\<exists>s'. i2c_smbus_read_byte (nuc_bare_adapter csr e) v rx8025_client s = Some (- 121, s')"
    using x[of "[rmsg rx8025_client 1 (0 # tl (stack0 v))]" s] bare.read_byte[OF assms(2) c] by fastforce
  show "\<exists>s'. i2c_smbus_write_byte_data (nuc_bare_adapter csr e) v rx8025_client p b s = Some (- 121, s')"
    using x[of "[wmsg v rx8025_client [p, b]]" s] bare.write_byte_data[OF assms(2) c] by fastforce
qed

lemma stuck_read_loop:
  assumes "bus_stuck e" "\<forall>k. env_ok (v k)"
  shows "\<exists>s'. rx8025_read_loop (nuc_bare_adapter csr e) v rx8025_client number n i s = Some (replicate n 0x87, s')"
proof (induction n arbitrary: i s)
  case (Suc n)
  obtain s1 where s1: "i2c_smbus_write_byte (nuc_bare_adapter csr e) (v (2 * i)) rx8025_client (of_nat (number + i)) s = Some (- 121, s1)"
    using stuck_send(1)[OF assms(1)] assms(2) by blast
  obtain s2 where s2: "i2c_smbus_read_byte (nuc_bare_adapter csr e) (v (2 * i + 1)) rx8025_client s1 = Some (- 121, s2)"
    using stuck_send(2)[OF assms(1)] assms(2) by blast
  obtain s3 where "rx8025_read_loop (nuc_bare_adapter csr e) v rx8025_client number n (Suc i) s2 = Some (replicate n 0x87, s3)"
    using Suc.IH by blast
  then show ?case using s1 s2 by (simp del: of_nat_add)
qed simp

lemma stuck_first:
  assumes "bus_stuck e" "\<forall>k. env_ok (v k)"
  shows "\<exists>s'. rx8025_first (nuc_bare_adapter csr e) v k rx8025_client (fr, s) = Some (False, s')"
proof (cases fr)
  case True
  note w = stuck_send(3)[OF assms(1)]
  obtain s1 where s1: "i2c_smbus_write_byte_data (nuc_bare_adapter csr e) (v k) rx8025_client 0x0d 0 s = Some (- 121, s1)"
    using w assms(2) by blast
  obtain s2 where s2: "i2c_smbus_write_byte_data (nuc_bare_adapter csr e) (v (k + 1)) rx8025_client 0x0e 0 s1 = Some (- 121, s2)"
    using w assms(2) by blast
  obtain s3 where s3: "i2c_smbus_write_byte_data (nuc_bare_adapter csr e) (v (k + 2)) rx8025_client 0x0f 0x60 s2 = Some (- 121, s3)"
    using w assms(2) by blast
  show ?thesis using True s1 s2 s3 by (simp add: rx8025_first_def rx8025_write_reg_def)
qed (simp add: rx8025_first_def)

definition stuck_date :: rtc_time where
  "stuck_date = \<lparr>tm_sec = 7, tm_min = 7, tm_hour = 7, tm_mday = 7, tm_mon = 6, tm_year = 87, tm_wday = 0, tm_yday = 0, tm_isdst = 0\<rparr>"

lemma stuck_get:
  assumes "bus_stuck e" "\<forall>k. env_ok (v k)" "bcd_spec bcd2bin bin2bcd"
  shows "\<exists>s'. rx8025_get_time leap bcd2bin (nuc_bare_adapter csr e) v rx8025_client tm0 (fr, s) = Some (0, stuck_date, False, s')"
proof -
  obtain s1 where s1: "rx8025_read_loop (nuc_bare_adapter csr e) v rx8025_client 0 7 0 s = Some (replicate 7 0x87, s1)"
    using stuck_read_loop[OF assms(1,2)] by blast
  obtain s2 where s2: "rx8025_first (nuc_bare_adapter csr e) v 14 rx8025_client (fr, s1) = Some (False, s2)"
    using stuck_first[OF assms(1,2)] by blast
  have b: "bcd2bin 0x07 = 7" "bcd2bin 0x87 = 87"
    using bcd_digits[OF assms(3), of 0 7] bcd_digits[OF assms(3), of 8 7] by simp_all
  have v: "rtc_valid_tm leap stuck_date = 0"
    by (rule valid_date) (simp add: stuck_date_def real_date_def month_length_def)
  have "(replicate 7 0x87 :: u8 list) = [0x87, 0x87, 0x87, 0x87, 0x87, 0x87, 0x87]" by (simp add: numeral_eq_Suc)
  then show ?thesis using s1 s2 b v
    by (simp add: rx8025_get_time_def rx8025_read_regs_def rx_regs Let_def stuck_date_def tm0_def)
qed

text \<open>C20. A bus that is never free.  The controller then refuses every transfer with \<open>-EREMOTEIO\<close>; the clock driver
  takes the low byte of that number, 0x87, for the contents of each register, and since these digits make a date that
  exists, it reports success.  Starting the system with the bus stuck sets the system time to 7 July 1987, 07:07:07.\<close>

theorem clock_stuck_bus:
  assumes "bus_stuck e" "\<forall>k. env_ok (v k)" "bcd_spec bcd2bin bin2bcd"
  shows "\<exists>rtc2. rtc_hctosys leap mktime False uninit do_settimeofday
       (Some \<lparr>ops = Some (rx8025_rtc_ops leap bcd2bin bin2bcd (nuc_bare_adapter csr e) v rx8025_client), drv = (fr, s), irqwork = w\<rparr>)
     = Some (do_settimeofday (mktime 1987 7 7 7 7 7, 500000000), Some (mktime 1987 7 7 7 7 7, 500000000), Some rtc2)"
proof -
  obtain s' where "rx8025_get_time leap bcd2bin (nuc_bare_adapter csr e) v rx8025_client tm0 (fr, s) = Some (0, stuck_date, False, s')"
    using stuck_get[OF assms] by blast
  moreover have "rtc_valid_tm leap stuck_date = 0"
    by (rule valid_date) (simp add: stuck_date_def real_date_def month_length_def)
  ultimately show ?thesis
    by (simp add: rtc_hctosys_def rtc_read_time_def rtc_read_time_unlocked_def rx8025_rtc_ops_def rtc_tm_to_time_def Let_def)
      (simp add: stuck_date_def)
qed

definition stuck_env :: xfer_env where
  "stuck_env = \<lparr>polls = (\<lambda>_. (0, 0x400)), irqs = [], csr_last = 0x400\<rparr>"

theorem clock_stuck_bus_witness:
  "\<exists>rtc2. rtc_hctosys leap_rule mktime_ref False tm0 (\<lambda>_. 0)
       (Some \<lparr>ops = Some (rx8025_rtc_ops leap_rule bcd2bin_ref bin2bcd_ref (nuc_bare_adapter 3 (\<lambda>_. stuck_env)) (\<lambda>_. env0) rx8025_client),
          drv = (True, i2c0), irqwork = False\<rparr>)
     = Some (0, Some (mktime_ref 1987 7 7 7 7 7, 500000000), Some rtc2)"
proof -
  have "bus_stuck (\<lambda>_. stuck_env)"
    by (simp add: bus_stuck_def stuck_env_def nuc970_i2c0_set_master_def set_master_busy I2CSTART_def)
  then show ?thesis using clock_stuck_bus[of "\<lambda>_. stuck_env" "\<lambda>_. env0", OF _ _ bcd_ref_spec] env0_ok by blast
qed

end
