(* ===== verification/Clock_Load.thy ===== *)
theory Clock_Load
  imports Rx8025
begin

text \<open>
  Starting and removing the I2C controller (\<open>nuc970_i2c0_probe\<close>, \<open>nuc970_i2c0_remove\<close> of
  \<open>src/drivers/i2c/busses/i2c-nuc970-p0.c\<close>, in the configuration of the board without device tree) and the clock
  driver (\<open>rx8025_probe\<close>, \<open>rx8025_remove\<close> of \<open>src/drivers/rtc/rtc-rx8025.c\<close>), over the ledger of \<open>Kres\<close>.  What each
  request of the kernel returns is part of an environment; \<open>None\<close> stands for success where a call returns an
  error number.
\<close>

section \<open>The controller\<close>

record i2c_load = kres +
  ctrl :: nuc970_i2c

abbreviation I2C0 :: string where "I2C0 \<equiv> ''nuc970-i2c0''"

record i2c_probe_env =
  p_bus_freq :: "u32 option"
  p_mem :: bool
  p_clk :: bool
  p_res :: bool
  p_region :: bool
  p_map :: bool
  p_rate :: u32
  p_irq :: int
  p_request :: "errno option"
  p_adapter :: "errno option"

definition nuc970_i2c0_err_noclk :: "('a i2c_load_scheme, unit) state" where
  "nuc970_i2c0_err_noclk = release (Memory I2C0)"

definition nuc970_i2c0_err_clk :: "('a i2c_load_scheme, unit) state" where
  "nuc970_i2c0_err_clk = do { release (Clk_enabled I2C0); release (Clk I2C0); nuc970_i2c0_err_noclk }"

definition nuc970_i2c0_err_ioarea :: "('a i2c_load_scheme, unit) state" where
  "nuc970_i2c0_err_ioarea = do { release (Region I2C0); nuc970_i2c0_err_clk }"

definition nuc970_i2c0_err_iomap :: "('a i2c_load_scheme, unit) state" where
  "nuc970_i2c0_err_iomap = do { release (Mapped I2C0); nuc970_i2c0_err_ioarea }"

definition nuc970_i2c0_err_irq :: "int \<Rightarrow> ('a i2c_load_scheme, unit) state" where
  "nuc970_i2c0_err_irq irq = do { release (Irq_line (nat irq)); nuc970_i2c0_err_iomap }"

text \<open>The divider of the bus clock.\<close>

definition i2c_divider :: "u32 \<Rightarrow> u32 \<Rightarrow> u32" where
  "i2c_divider rate busfreq = (rate div (busfreq * 5) - 1) AND 0xffff"

definition nuc970_i2c0_probe :: "i2c_probe_env \<Rightarrow> ('a i2c_load_scheme, int) state" where
  "nuc970_i2c0_probe e = (case p_bus_freq e of
     None \<Rightarrow> return (- eno EINVAL)
   | Some busfreq \<Rightarrow> do {
      m \<leftarrow> request (p_mem e) (Memory I2C0);
      if \<not> m then return (- eno ENOMEM)
      else do {
        modify (\<lambda>s. s\<lparr>ctrl := i2c0\<lparr>bus := bus (ctrl s)\<rparr>\<rparr>);
        c \<leftarrow> request (p_clk e) (Clk I2C0);
        if \<not> c then do { nuc970_i2c0_err_noclk; return (- eno ENOENT) }
        else do {
          acquire (Clk_prepared I2C0);
          acquire (Clk_enabled I2C0);
          if \<not> p_res e then do { nuc970_i2c0_err_clk; return (- eno ENOENT) }
          else do {
            r \<leftarrow> request (p_region e) (Region I2C0);
            if \<not> r then do { nuc970_i2c0_err_clk; return (- eno ENXIO) }
            else do {
              i \<leftarrow> request (p_map e) (Mapped I2C0);
              if \<not> i then do { nuc970_i2c0_err_ioarea; return (- eno ENXIO) }
              else do {
                modify (\<lambda>s. s\<lparr>ctrl := writel (i2c_divider (p_rate e) busfreq) DIVIDER (ctrl s)\<rparr>);
                if p_irq e \<le> 0 then do { nuc970_i2c0_err_iomap; return (p_irq e) }
                else do {
                  request (p_request e = None) (Irq_line (nat (p_irq e)));
                  case p_request e of Some err \<Rightarrow> do { nuc970_i2c0_err_iomap; return (- eno err) }
                  | None \<Rightarrow> do {
                    request (p_adapter e = None) (Adapter I2C0);
                    case p_adapter e of Some err \<Rightarrow> do { nuc970_i2c0_err_irq (p_irq e); return (- eno err) }
                    | None \<Rightarrow> return 0 } } } } } } } })"

definition nuc970_i2c0_remove :: "int \<Rightarrow> ('a i2c_load_scheme, unit) state" where
  "nuc970_i2c0_remove irq = do {
     release (Adapter I2C0);
     release (Irq_line (nat irq));
     release (Clk_enabled I2C0);
     release (Clk I2C0);
     release (Mapped I2C0);
     release (Region I2C0);
     release (Memory I2C0) }"

section \<open>The clock driver\<close>

abbreviation RX :: string where "RX \<equiv> ''rx8025''"

text \<open>\<open>q_irq\<close> is the interrupt of the client, 0 when it has none.\<close>

record rx_probe_env =
  q_func :: bool
  q_mem :: bool
  q_rtc :: "errno option"
  q_irq :: int
  q_request :: "errno option"
  q_sysfs :: "errno option"

text \<open>The code is 0 and no reset is needed, with all the checks switched off.\<close>

definition rx8025_init_client :: "int \<times> bool" where
  "rx8025_init_client = (0, False)"

definition rx8025_errout_free :: "('a i2c_load_scheme, unit) state" where
  "rx8025_errout_free = release (Memory RX)"

definition rx8025_errout_reg :: "('a i2c_load_scheme, unit) state" where
  "rx8025_errout_reg = do { release (Rtc_dev RX); rx8025_errout_free }"

definition rx8025_errout_irq :: "int \<Rightarrow> ('a i2c_load_scheme, unit) state" where
  "rx8025_errout_irq irq = do { (if irq > 0 then release (Irq_line (nat irq)) else return ()); rx8025_errout_reg }"

definition rx8025_probe :: "rx_probe_env \<Rightarrow> ('a i2c_load_scheme, int) state" where
  "rx8025_probe e = (
     if \<not> q_func e then return (- eno EIO)
     else do {
       m \<leftarrow> request (q_mem e) (Memory RX);
       if \<not> m then return (- eno ENOMEM)
       else if fst rx8025_init_client \<noteq> 0 then do { rx8025_errout_free; return (fst rx8025_init_client) }
       else do {
         request (q_rtc e = None) (Rtc_dev RX);
         case q_rtc e of Some err \<Rightarrow> do { rx8025_errout_free; return (- eno err) }
         | None \<Rightarrow> do {
           (if q_irq e > 0 then do { request (q_request e = None) (Irq_line (nat (q_irq e))); return () } else return ());
           if q_irq e > 0 \<and> q_request e \<noteq> None then do { rx8025_errout_reg; return (- eno (the (q_request e))) }
           else do {
             request (q_sysfs e = None) (Attribute RX);
             case q_sysfs e of Some err \<Rightarrow> do { rx8025_errout_irq (q_irq e); return (- eno err) }
             | None \<Rightarrow>
                if fst rx8025_init_client \<noteq> 0 then do { rx8025_errout_free; return (fst rx8025_init_client) }
                else return 0 } } } })"

definition rx8025_remove :: "int \<Rightarrow> ('a i2c_load_scheme, int) state" where
  "rx8025_remove irq = do {
     (if irq > 0 then release (Irq_line (nat irq)) else return ());
     release (Attribute RX);
     release (Rtc_dev RX);
     release (Memory RX);
     return 0 }"

section \<open>Starting and removing\<close>

definition i2c_resources :: "int \<Rightarrow> resource set" where
  "i2c_resources irq = {Memory I2C0, Clk I2C0, Clk_prepared I2C0, Clk_enabled I2C0, Region I2C0, Mapped I2C0, Irq_line (nat irq),
     Adapter I2C0}"

definition rx_resources :: "int \<Rightarrow> resource set" where
  "rx_resources irq = {Memory RX, Rtc_dev RX, Attribute RX} \<union> (if irq > 0 then {Irq_line (nat irq)} else {})"

lemma ctrl_upd [simp]: "held (s\<lparr>ctrl := c\<rparr>) = held s" "bogus (s\<lparr>ctrl := c\<rparr>) = bogus s"
  by simp_all

lemmas probe_defs = nuc970_i2c0_probe_def nuc970_i2c0_err_noclk_def nuc970_i2c0_err_clk_def nuc970_i2c0_err_ioarea_def
  nuc970_i2c0_err_iomap_def nuc970_i2c0_err_irq_def

text \<open>Where the probe ends: the step that fails, or none.\<close>

lemma i2c_probe_paths:
  obtains (pdata) "p_bus_freq e = None"
    | (mem) f where "p_bus_freq e = Some f" "\<not> p_mem e"
    | (clk) f where "p_bus_freq e = Some f" "p_mem e" "\<not> p_clk e"
    | (res) f where "p_bus_freq e = Some f" "p_mem e" "p_clk e" "\<not> p_res e"
    | (region) f where "p_bus_freq e = Some f" "p_mem e" "p_clk e" "p_res e" "\<not> p_region e"
    | (mapped) f where "p_bus_freq e = Some f" "p_mem e" "p_clk e" "p_res e" "p_region e" "\<not> p_map e"
    | (irq) f where "p_bus_freq e = Some f" "p_mem e" "p_clk e" "p_res e" "p_region e" "p_map e" "p_irq e \<le> 0"
    | (request) f x where "p_bus_freq e = Some f" "p_mem e" "p_clk e" "p_res e" "p_region e" "p_map e" "p_irq e > 0" "p_request e = Some x"
    | (adapter) f x where "p_bus_freq e = Some f" "p_mem e" "p_clk e" "p_res e" "p_region e" "p_map e" "p_irq e > 0" "p_request e = None"
        "p_adapter e = Some x"
    | (loaded) f where "p_bus_freq e = Some f" "p_mem e" "p_clk e" "p_res e" "p_region e" "p_map e" "p_irq e > 0" "p_request e = None"
        "p_adapter e = None"
  by (metis not_le option.exhaust)

lemma i2c_probe_ledger:
  fixes s :: "'a i2c_load_scheme"
  assumes "none_of (i2c_resources (p_irq e)) s"
  shows "bogus (exec (nuc970_i2c0_probe e) s) = bogus s \<and>
     (if result_of (nuc970_i2c0_probe e) s = 0 \<and> p_irq e > 0
      then held (exec (nuc970_i2c0_probe e) s) q \<longleftrightarrow> held s q \<or> q \<in> i2c_resources (p_irq e)
      else held (exec (nuc970_i2c0_probe e) s) q
        \<longleftrightarrow> held s q \<or> q = Clk_prepared I2C0 \<and> p_bus_freq e \<noteq> None \<and> p_mem e \<and> p_clk e)"
proof -
  have n: "\<not> held s (Memory I2C0)" "\<not> held s (Clk I2C0)" "\<not> held s (Clk_enabled I2C0)"
    "\<not> held s (Region I2C0)" "\<not> held s (Mapped I2C0)" "\<not> held s (Irq_line (nat (p_irq e)))" "\<not> held s (Adapter I2C0)"
    using assms by (simp_all add: none_of_def i2c_resources_def)
  have e: "eno x \<noteq> 0" for x using eno_pos[of x] by simp
  show ?thesis
    by (cases e rule: i2c_probe_paths) (use n e in \<open>auto simp: probe_defs request_def i2c_resources_def\<close>)
qed

lemma rx_probe_ledger:
  fixes s :: "'a i2c_load_scheme"
  assumes "none_of (rx_resources (q_irq e)) s"
  shows "held (exec (rx8025_probe e) s) q
      \<longleftrightarrow> held s q \<or> result_of (rx8025_probe e) s = 0 \<and> q \<in> rx_resources (q_irq e)"
    and "bogus (exec (rx8025_probe e) s) = bogus s"
proof -
  have n: "\<not> held s (Memory RX)" "\<not> held s (Rtc_dev RX)" "\<not> held s (Attribute RX)"
    "q_irq e > 0 \<Longrightarrow> \<not> held s (Irq_line (nat (q_irq e)))"
    using assms by (auto simp: none_of_def rx_resources_def split: if_splits)
  have e: "eno x \<noteq> 0" for x using eno_pos[of x] by simp
  show "held (exec (rx8025_probe e) s) q
      \<longleftrightarrow> held s q \<or> result_of (rx8025_probe e) s = 0 \<and> q \<in> rx_resources (q_irq e)"
    using n e by (auto simp: rx8025_probe_def rx8025_errout_free_def rx8025_errout_reg_def rx8025_errout_irq_def
        rx8025_init_client_def rx_resources_def request_def split: option.splits if_splits)
  show "bogus (exec (rx8025_probe e) s) = bogus s"
    using n(4) by (auto simp: rx8025_probe_def rx8025_errout_free_def rx8025_errout_reg_def rx8025_errout_irq_def
        rx8025_init_client_def request_def split: option.splits)
qed

lemma i2c_remove_ledger:
  assumes "\<And>q. q \<in> i2c_resources irq \<Longrightarrow> held s q"
  shows "held (exec (nuc970_i2c0_remove irq) s) q \<longleftrightarrow> held s q \<and> q \<notin> i2c_resources irq - {Clk_prepared I2C0}"
    "bogus (exec (nuc970_i2c0_remove irq) s) = bogus s"
  using assms by (auto simp: nuc970_i2c0_remove_def i2c_resources_def)

lemma rx_remove_ledger:
  assumes "\<And>q. q \<in> rx_resources irq \<Longrightarrow> held s q"
  shows "held (exec (rx8025_remove irq) s) q \<longleftrightarrow> held s q \<and> q \<notin> rx_resources irq"
    "bogus (exec (rx8025_remove irq) s) = bogus s"
  using assms by (auto simp: rx8025_remove_def rx_resources_def split: if_splits)

text \<open>C34. Starting the controller, every outcome.  With a positive interrupt number and code 0, all resources of the
  controller are held.  In every other case all of them are given back and none twice, except that the clock stays
  prepared once it has been found.  An interrupt number of 0 is such a case although the code is then 0: the probe
  reports success for a controller whose memory has been freed.\<close>

theorem i2c_probe_outcome:
  assumes "none_of (i2c_resources (p_irq e)) s"
  shows "let r = result_of (nuc970_i2c0_probe e) s; s' = exec (nuc970_i2c0_probe e) s;
       started = (p_bus_freq e \<noteq> None \<and> p_mem e \<and> p_clk e)
     in bogus s' = bogus s
      \<and> (if r = 0 \<and> p_irq e > 0 then (\<forall>q. held s' q \<longleftrightarrow> held s q \<or> q \<in> i2c_resources (p_irq e))
         else (\<forall>q. held s' q \<longleftrightarrow> held s q \<or> q = Clk_prepared I2C0 \<and> started))
      \<and> (started \<and> p_res e \<and> p_region e \<and> p_map e \<and> p_irq e = 0 \<longrightarrow> r = 0)"
  using i2c_probe_ledger[OF assms] by (auto simp: Let_def) (auto simp: nuc970_i2c0_probe_def)

definition i2c_all_ok :: i2c_probe_env where
  "i2c_all_ok = \<lparr>p_bus_freq = Some 100000, p_mem = True, p_clk = True, p_res = True, p_region = True, p_map = True,
     p_rate = 75000000, p_irq = 53, p_request = None, p_adapter = None\<rparr>"

definition rx_all_ok :: rx_probe_env where
  "rx_all_ok = \<lparr>q_func = True, q_mem = True, q_rtc = None, q_irq = 0, q_request = None, q_sysfs = None\<rparr>"

definition load0 :: i2c_load where
  "load0 = \<lparr>held = (\<lambda>_. False), bogus = [], ctrl = i2c0\<rparr>"

lemma load0_none: "none_of rs load0"
  by (simp add: none_of_def load0_def)

theorem i2c_probe_outcome_witness:
  "result_of (nuc970_i2c0_probe (i2c_all_ok\<lparr>p_irq := 0\<rparr>)) load0 = 0
     \<and> \<not> held (exec (nuc970_i2c0_probe (i2c_all_ok\<lparr>p_irq := 0\<rparr>)) load0) (Memory I2C0)"
  using i2c_probe_outcome[OF load0_none, of "i2c_all_ok\<lparr>p_irq := 0\<rparr>"]
  by (simp add: Let_def i2c_all_ok_def load0_def)

text \<open>C35. Starting the controller and the clock driver and removing them in the opposite order: every resource is
  given back and none twice; only the clock of the controller stays prepared.\<close>

theorem clock_load_unload:
  fixes s :: "'a i2c_load_scheme"
  assumes "none_of (i2c_resources (p_irq e) \<union> rx_resources (q_irq f)) s" "p_irq e > 0" "p_irq e \<noteq> q_irq f"
    and "result_of (nuc970_i2c0_probe e) s = 0"
  defines "s1 \<equiv> exec (nuc970_i2c0_probe e) s"
  assumes "result_of (rx8025_probe f) s1 = 0"
  defines "s4 \<equiv> exec (nuc970_i2c0_remove (p_irq e)) (exec (rx8025_remove (q_irq f)) (exec (rx8025_probe f) s1))"
  shows "bogus s4 = bogus s \<and> (\<forall>q. held s4 q \<longleftrightarrow> held s q \<or> q = Clk_prepared I2C0)"
proof -
  let ?I = "i2c_resources (p_irq e)" and ?R = "rx_resources (q_irq f)"
  define s2 s3 where "s2 = exec (rx8025_probe f) s1" and "s3 = exec (rx8025_remove (q_irq f)) s2"
  have disj: "?I \<inter> ?R = {}" using assms(2,3) by (auto simp: i2c_resources_def rx_resources_def nat_eq_iff split: if_splits)
  have none: "none_of ?I s" "none_of ?R s" using assms(1) by (auto simp: none_of_def)
  have 1: "held s1 q \<longleftrightarrow> held s q \<or> q \<in> ?I" "bogus s1 = bogus s" for q
    using i2c_probe_ledger[OF none(1)] assms(2,4) by (auto simp: s1_def)
  have "none_of ?R s1" using none(2) disj by (auto simp: none_of_def 1)
  then have 2: "held s2 q \<longleftrightarrow> held s1 q \<or> q \<in> ?R" "bogus s2 = bogus s1" for q
    using rx_probe_ledger[of f s1] assms(6) by (auto simp: s2_def)
  have 3: "held s3 q \<longleftrightarrow> held s2 q \<and> q \<notin> ?R" "bogus s3 = bogus s2" for q
    using rx_remove_ledger[of "q_irq f" s2] 2(1) by (auto simp: s3_def)
  have h: "q \<in> ?I \<Longrightarrow> held s3 q" for q using 1(1) 2(1) 3(1) disj by auto
  have "s4 = exec (nuc970_i2c0_remove (p_irq e)) s3" by (simp add: s4_def s3_def s2_def)
  then have 4: "held s4 q \<longleftrightarrow> held s3 q \<and> q \<notin> ?I - {Clk_prepared I2C0}" "bogus s4 = bogus s3" for q
    using i2c_remove_ledger[OF h] by auto
  have "Clk_prepared I2C0 \<in> ?I" by (simp add: i2c_resources_def)
  then show ?thesis using none disj by (auto simp: 1 2 3 4 none_of_def)
qed

theorem clock_load_unload_witness:
  "held (exec (nuc970_i2c0_remove 53) (exec (rx8025_remove 0) (exec (rx8025_probe rx_all_ok) (exec (nuc970_i2c0_probe i2c_all_ok) load0))))
     = (\<lambda>q. q = Clk_prepared I2C0)"
proof -
  have r: "p_irq i2c_all_ok = 53" "q_irq rx_all_ok = 0" "result_of (nuc970_i2c0_probe i2c_all_ok) load0 = 0"
    "result_of (rx8025_probe rx_all_ok) s = 0" for s :: i2c_load
    by (simp_all add: i2c_all_ok_def rx_all_ok_def nuc970_i2c0_probe_def rx8025_probe_def rx8025_init_client_def)
  show ?thesis using clock_load_unload[OF load0_none, of i2c_all_ok rx_all_ok] r by (simp add: fun_eq_iff load0_def)
qed

text \<open>The speed of the bus.  For a frequency the divider can express, the divider the probe writes is the rate
  divided down without remainder: the period it stands for is never longer than the one asked for, and one step more
  would make it longer.  The bus is therefore at least as fast as asked for, and faster when the division
  is not exact.\<close>

theorem i2c_divider_bounds:
  assumes "0 < f" "5 * uint f < 2 ^ 32" "5 * uint f \<le> uint rate" "uint rate < 5 * uint f * 65537"
  shows "5 * uint f * (uint (i2c_divider rate f) + 1) \<le> uint rate \<and> uint rate < 5 * uint f * (uint (i2c_divider rate f) + 2)"
proof -
  define n where "n = 5 * uint f"
  define k where "k = uint rate div n"
  have f: "uint (f * 5) = n" using assms(2) by (simp add: uint_word_ariths n_def)
  have n: "0 < n" using assms(1) by (simp add: word_less_def n_def)
  have e: "uint rate = n * k + uint rate mod n" "0 \<le> uint rate mod n" "uint rate mod n < n"
    using n by (simp_all add: k_def)
  have k: "1 \<le> k" using assms(3) n by (simp add: k_def n_def[symmetric] pos_imp_zdiv_pos_iff int_one_le_iff_zero_less)
  have "uint rate < 65537 * n" using assms(4) by (simp add: n_def)
  moreover have "65537 * n \<le> n * k" if "65537 \<le> k" using mult_left_mono[OF that, of n] n by (simp add: mult.commute)
  ultimately have k': "k < 65537" using e by linarith
  have w: "rate div (f * 5) = word_of_int k" by (simp add: word_div_def f k_def)
  have m: "(0xffff :: u32) = mask 16" by (simp add: mask_eq_exp_minus_1)
  have "uint (word_of_int k - 1 :: u32) = k - 1"
    using k k' by (simp add: word_uint_eq_iff uint_word_of_int uint_sub_lem[THEN iffD1])
  then have "uint (i2c_divider rate f) = k - 1"
    unfolding i2c_divider_def w m using k k' by (simp add: take_bit_eq_mask[symmetric] unsigned_take_bit_eq take_bit_int_eq_self)
  then show ?thesis using e by (simp add: n_def[symmetric] distrib_left)
qed

theorem i2c_divider_bounds_witness:
  "5 * 100000 * (uint (i2c_divider 75000000 100000) + 1) \<le> 75000000"
  using i2c_divider_bounds[of 100000 75000000] by simp

end
