(* ===== verification/Spi.thy ===== *)
theory Spi
  imports Nuc_Prelude
begin

text \<open>
  The first SPI controller: \<open>src/drivers/spi/spi-nuc970-p0.c\<close>.  The driver hands the controller up to four words at a
  time; the interrupt routine stores what came back and loads the next words.

  The state is the register block, the memory the buffers lie in, the structure of the driver and the devices on the
  bus.  A pointer is an address, 0 for \<open>NULL\<close>; memory is a function from addresses to bytes, so a buffer has no end of its
  own.  The devices are a parameter: \<open>shift\<close> exchanges one word with them under given settings of the lines,
  \<open>ssr_changed\<close> tells them the new value of the chip select register.  The constants of the kernel's SPI interface
  are not in the sources and are written out here.
\<close>

section \<open>Interface types\<close>

abbreviation (input) SPI_CPHA :: u16 where "SPI_CPHA \<equiv> 0x01"
abbreviation (input) SPI_CPOL :: u16 where "SPI_CPOL \<equiv> 0x02"
abbreviation (input) SPI_MODE_0 :: u16 where "SPI_MODE_0 \<equiv> 0x00"
abbreviation (input) SPI_MODE_2 :: u16 where "SPI_MODE_2 \<equiv> 0x02"
abbreviation (input) SPI_CS_HIGH :: u16 where "SPI_CS_HIGH \<equiv> 0x04"
abbreviation (input) SPI_LSB_FIRST :: u16 where "SPI_LSB_FIRST \<equiv> 0x08"
abbreviation (input) SPI_3WIRE :: u16 where "SPI_3WIRE \<equiv> 0x10"
abbreviation (input) SPI_TX_DUAL :: u16 where "SPI_TX_DUAL \<equiv> 0x100"
abbreviation (input) SPI_TX_QUAD :: u16 where "SPI_TX_QUAD \<equiv> 0x200"
abbreviation (input) SPI_RX_DUAL :: u16 where "SPI_RX_DUAL \<equiv> 0x400"
abbreviation (input) SPI_RX_QUAD :: u16 where "SPI_RX_QUAD \<equiv> 0x800"
abbreviation (input) SPI_NBITS_SINGLE :: u8 where "SPI_NBITS_SINGLE \<equiv> 0x01"
abbreviation (input) SPI_NBITS_DUAL :: u8 where "SPI_NBITS_DUAL \<equiv> 0x02"
abbreviation (input) SPI_NBITS_QUAD :: u8 where "SPI_NBITS_QUAD \<equiv> 0x04"

record spi_device =
  max_speed_hz :: u32
  chip_select :: u8
  dev_bits :: u8
  mode :: u16

record spi_transfer =
  tx_buf :: u32
  rx_buf :: u32
  t_len :: u32
  cs_change :: bool
  tx_nbits :: u8
  rx_nbits :: u8
  bits_per_word :: u8
  speed_hz :: u32

text \<open>\<open>struct nuc970_spi_info\<close>, the settings of the controller; its fields are unsigned integers.\<close>

record nuc970_spi_info =
  num_cs :: u32
  lsb :: u32
  txneg :: u32
  rxneg :: u32
  divider :: u32
  sleep :: u32
  txnum :: u32
  txbitlen :: u32
  bus_num :: u32
  hz :: u32
  clkpol :: u32

section \<open>The register block\<close>

definition REG_CNTRL :: u32 where "REG_CNTRL = 0x00"
definition REG_DIVIDER :: u32 where "REG_DIVIDER = 0x04"
definition REG_SSR :: u32 where "REG_SSR = 0x08"
definition REG_RX0 :: u32 where "REG_RX0 = 0x10"
definition REG_TX0 :: u32 where "REG_TX0 = 0x10"

definition ENINT :: u32 where "ENINT = push_bit 17 0x01"
definition ENFLG :: u32 where "ENFLG = push_bit 16 0x01"
definition TXNUM :: u32 where "TXNUM = push_bit 8 0x03"
definition TXNEG :: u32 where "TXNEG = push_bit 2 0x01"
definition RXNEG :: u32 where "RXNEG = push_bit 1 0x01"
definition LSB :: u32 where "LSB = push_bit 10 0x01"
definition SELECTLEV :: u32 where "SELECTLEV = push_bit 2 0x01"
definition SELECTPOL :: u32 where "SELECTPOL = push_bit 31 0x01"
definition SELECTSLAVE0 :: u32 where "SELECTSLAVE0 = 0x01"
definition SELECTSLAVE1 :: u32 where "SELECTSLAVE1 = 0x02"
definition GOBUSY :: u32 where "GOBUSY = 0x01"

lemmas spi_regs = REG_CNTRL_def REG_DIVIDER_def REG_SSR_def REG_RX0_def REG_TX0_def

text \<open>What determines the signals on the lines: the mode bits of the control register, the divider and the chip select
  register.\<close>

record spi_line =
  l_mode :: u32
  l_divider :: u32
  l_ssr :: u32

definition MODE_BITS :: u32 where
  "MODE_BITS = 0xf8 OR TXNEG OR RXNEG OR LSB OR SELECTPOL OR push_bit 20 0x7"

text \<open>The environment.  \<open>quick k\<close>: the controller finishes the burst number \<open>k\<close> before the interrupt routine that started it
  has read the control register back; \<open>late k\<close>: it finishes that burst after this read and before the value is
  written back.  \<open>clk_rate\<close> is what \<open>clk_get_rate\<close> returns.\<close>

record 'd spi_env =
  shift :: "spi_line \<Rightarrow> u32 \<Rightarrow> 'd \<Rightarrow> u32 \<times> 'd"
  ssr_changed :: "u32 \<Rightarrow> 'd \<Rightarrow> 'd"
  quick :: "nat \<Rightarrow> bool"
  late :: "nat \<Rightarrow> bool"
  clk_rate :: u32

text \<open>\<open>struct nuc970_spi\<close> with the hardware behind it; \<open>bursts\<close> counts the bursts the driver has asked for and that are over.\<close>

record 'd nuc970_spi =
  regs :: "u32 \<Rightarrow> u32"
  mem :: "u32 \<Rightarrow> u8"
  slave :: 'd
  bursts :: nat
  completions :: nat
  hw_len :: u32
  hw_count :: u32
  hw_txbuf :: u32
  hw_rxbuf :: u32
  pdata :: nuc970_spi_info

definition spi_lines :: "'d nuc970_spi \<Rightarrow> spi_line" where
  "spi_lines s = \<lparr>l_mode = regs s REG_CNTRL AND MODE_BITS, l_divider = regs s REG_DIVIDER, l_ssr = regs s REG_SSR\<rparr>"

text \<open>A write to a register.  The interrupt flag of the control register is cleared by writing a one to it and kept by
  writing a zero.\<close>

definition spi_writel :: "'d spi_env \<Rightarrow> u32 \<Rightarrow> u32 \<Rightarrow> 'd nuc970_spi \<Rightarrow> 'd nuc970_spi" where
  "spi_writel env v off s =
    (if off = REG_CNTRL then
       s\<lparr>regs := (regs s)(off := (v AND NOT ENFLG) OR (regs s off AND ENFLG AND NOT v))\<rparr>
     else if off = REG_SSR then s\<lparr>regs := (regs s)(off := v), slave := ssr_changed env v (slave s)\<rparr>
     else s\<lparr>regs := (regs s)(off := v)\<rparr>)"

text \<open>One burst: the words in the transmit registers go out, one more than the number in the \<open>TXNUM\<close> field, and the received
  ones take their place.  At the end the busy bit is cleared and the flag set.\<close>

fun shift_words :: "'d spi_env \<Rightarrow> spi_line \<Rightarrow> u32 list \<Rightarrow> 'd \<Rightarrow> u32 list \<times> 'd" where
  "shift_words env L [] d = ([], d)"
| "shift_words env L (w # ws) d =
    (let (r, d) = shift env L w d; (rs, d) = shift_words env L ws d in (r # rs, d))"

fun load_rx :: "u32 \<Rightarrow> u32 list \<Rightarrow> (u32 \<Rightarrow> u32) \<Rightarrow> u32 \<Rightarrow> u32" where
  "load_rx off [] f = f"
| "load_rx off (r # rs) f = load_rx (off + 4) rs (f(off := r))"

definition burst :: "'d spi_env \<Rightarrow> 'd nuc970_spi \<Rightarrow> 'd nuc970_spi" where
  "burst env s =
    (let c = regs s REG_CNTRL;
         n = unat (take_bit 2 (drop_bit 8 c)) + 1;
         (rs, d) = shift_words env (spi_lines s) (map (\<lambda>i. regs s (REG_TX0 + 4 * of_nat i)) [0..<n]) (slave s)
     in s\<lparr>slave := d, bursts := Suc (bursts s),
          regs := (load_rx REG_RX0 rs (regs s))(REG_CNTRL := (c AND NOT GOBUSY) OR ENFLG)\<rparr>)"

section \<open>Register access of the driver\<close>

definition nuc970_slave_select :: "'d spi_env \<Rightarrow> spi_device \<Rightarrow> u32 \<Rightarrow> 'd nuc970_spi \<Rightarrow> 'd nuc970_spi" where
  "nuc970_slave_select env spi ssr s =
    (let cs = mode spi AND SPI_CS_HIGH \<noteq> 0;
         val = regs s REG_SSR;
         val = (if \<not> cs then val AND NOT SELECTLEV else val OR SELECTLEV);
         val = (if chip_select spi = 0
                then (if ssr = 0 then val AND NOT SELECTSLAVE0 else val OR SELECTSLAVE0)
                else (if ssr = 0 then val AND NOT SELECTSLAVE1 else val OR SELECTSLAVE1))
     in spi_writel env val REG_SSR s)"

datatype bitbang_cs = BITBANG_CS_INACTIVE | BITBANG_CS_ACTIVE

fun nuc970_spi0_chipsel :: "'d spi_env \<Rightarrow> spi_device \<Rightarrow> bitbang_cs \<Rightarrow> 'd nuc970_spi \<Rightarrow> 'd nuc970_spi" where
  "nuc970_spi0_chipsel env spi BITBANG_CS_INACTIVE s = nuc970_slave_select env spi 0 s"
| "nuc970_spi0_chipsel env spi BITBANG_CS_ACTIVE s = nuc970_slave_select env spi 1 s"

definition nuc970_spi0_setup_txnum :: "'d spi_env \<Rightarrow> u32 \<Rightarrow> 'd nuc970_spi \<Rightarrow> 'd nuc970_spi" where
  "nuc970_spi0_setup_txnum env n s =
    (let val = regs s REG_CNTRL AND NOT TXNUM;
         val = (if n \<noteq> 0 then val OR push_bit 8 n else val)
     in spi_writel env val REG_CNTRL s)"

definition nuc970_spi0_setup_txbitlen :: "'d spi_env \<Rightarrow> u32 \<Rightarrow> 'd nuc970_spi \<Rightarrow> 'd nuc970_spi" where
  "nuc970_spi0_setup_txbitlen env n s =
    (let val = regs s REG_CNTRL AND NOT 0xf8;
         val = (if n \<noteq> 32 then val OR push_bit 3 n else val)
     in spi_writel env val REG_CNTRL s)"

definition nuc970_spi0_gobusy :: "'d spi_env \<Rightarrow> 'd nuc970_spi \<Rightarrow> 'd nuc970_spi" where
  "nuc970_spi0_gobusy env s = spi_writel env (regs s REG_CNTRL OR GOBUSY) REG_CNTRL s"

text \<open>The four functions that switch one bit of the control register.\<close>

definition nuc970_set_clock_polarity :: "'d spi_env \<Rightarrow> u32 \<Rightarrow> 'd nuc970_spi \<Rightarrow> 'd nuc970_spi" where
  "nuc970_set_clock_polarity env polarity s =
    (let val = regs s REG_CNTRL
     in spi_writel env (if polarity \<noteq> 0 then val OR SELECTPOL else val AND NOT SELECTPOL) REG_CNTRL s)"

definition nuc970_tx_edge :: "'d spi_env \<Rightarrow> u32 \<Rightarrow> 'd nuc970_spi \<Rightarrow> 'd nuc970_spi" where
  "nuc970_tx_edge env edge s =
    (let val = regs s REG_CNTRL in spi_writel env (if edge \<noteq> 0 then val OR TXNEG else val AND NOT TXNEG) REG_CNTRL s)"

definition nuc970_rx_edge :: "'d spi_env \<Rightarrow> u32 \<Rightarrow> 'd nuc970_spi \<Rightarrow> 'd nuc970_spi" where
  "nuc970_rx_edge env edge s =
    (let val = regs s REG_CNTRL in spi_writel env (if edge \<noteq> 0 then val OR RXNEG else val AND NOT RXNEG) REG_CNTRL s)"

definition nuc970_send_first :: "'d spi_env \<Rightarrow> u32 \<Rightarrow> 'd nuc970_spi \<Rightarrow> 'd nuc970_spi" where
  "nuc970_send_first env lsb_first s =
    (let val = regs s REG_CNTRL in spi_writel env (if lsb_first \<noteq> 0 then val OR LSB else val AND NOT LSB) REG_CNTRL s)"

definition nuc970_set_sleep :: "'d spi_env \<Rightarrow> u32 \<Rightarrow> 'd nuc970_spi \<Rightarrow> 'd nuc970_spi" where
  "nuc970_set_sleep env n s =
    (let val = regs s REG_CNTRL
     in spi_writel env (if n \<noteq> 0 then val OR push_bit 12 n else val AND NOT (push_bit 12 0x0f)) REG_CNTRL s)"

definition nuc970_enable_int :: "'d spi_env \<Rightarrow> 'd nuc970_spi \<Rightarrow> 'd nuc970_spi" where
  "nuc970_enable_int env s = spi_writel env (regs s REG_CNTRL OR ENINT) REG_CNTRL s"

definition nuc970_set_divider :: "'d spi_env \<Rightarrow> 'd nuc970_spi \<Rightarrow> 'd nuc970_spi" where
  "nuc970_set_divider env s = spi_writel env (divider (pdata s)) REG_DIVIDER s"

section \<open>The transfer\<close>

text \<open>Little endian access to the memory by 16 and 32 bit pointers.\<close>

definition mem16 :: "(u32 \<Rightarrow> u8) \<Rightarrow> u32 \<Rightarrow> u32" where
  "mem16 m a = ucast (m a) OR push_bit 8 (ucast (m (a + 1)))"

definition mem32 :: "(u32 \<Rightarrow> u8) \<Rightarrow> u32 \<Rightarrow> u32" where
  "mem32 m a = mem16 m a OR push_bit 16 (mem16 m (a + 2))"

definition store16 :: "u32 \<Rightarrow> u32 \<Rightarrow> (u32 \<Rightarrow> u8) \<Rightarrow> u32 \<Rightarrow> u8" where
  "store16 a v m = m(a := ucast v, a + 1 := ucast (drop_bit 8 v))"

definition store32 :: "u32 \<Rightarrow> u32 \<Rightarrow> (u32 \<Rightarrow> u8) \<Rightarrow> u32 \<Rightarrow> u8" where
  "store32 a v m = store16 (a + 2) (drop_bit 16 v) (store16 a v m)"

definition hw_tx :: "'d nuc970_spi \<Rightarrow> u32 \<Rightarrow> u32" where
  "hw_tx s count =
    (let bwp = sint (txbitlen (pdata s)); p = hw_txbuf s
     in if bwp \<le> 8 then (if p \<noteq> 0 then ucast (mem s (p + count)) else 0xffffffff)
        else if bwp \<le> 16 then (if p \<noteq> 0 then mem16 (mem s) (p + 2 * count) else 0xffffffff)
        else (if p \<noteq> 0 then mem32 (mem s) (p + 4 * count) else 0xffffffff))"

definition hw_rx :: "u32 \<Rightarrow> u32 \<Rightarrow> 'd nuc970_spi \<Rightarrow> 'd nuc970_spi" where
  "hw_rx v count s =
    (let bwp = sint (txbitlen (pdata s)); p = hw_rxbuf s
     in if bwp \<le> 8 then s\<lparr>mem := (mem s)(p + count := ucast v)\<rparr>
        else if bwp \<le> 16 then s\<lparr>mem := store16 (p + 2 * count) v (mem s)\<rparr>
        else s\<lparr>mem := store32 (p + 4 * count) v (mem s)\<rparr>)"

text \<open>The loops over the transmit and receive registers, with the number of rounds left.\<close>

fun fill_tx :: "'d spi_env \<Rightarrow> nat \<Rightarrow> u32 \<Rightarrow> u32 \<Rightarrow> 'd nuc970_spi \<Rightarrow> 'd nuc970_spi" where
  "fill_tx env 0 off count s = s"
| "fill_tx env (Suc n) off count s =
    fill_tx env n (off + 4) (count + 1) (spi_writel env (hw_tx s count) (REG_TX0 + off) s)"

fun drain_rx :: "nat \<Rightarrow> u32 \<Rightarrow> u32 \<Rightarrow> 'd nuc970_spi \<Rightarrow> 'd nuc970_spi" where
  "drain_rx 0 off count s = s"
| "drain_rx (Suc n) off count s = drain_rx n (off + 4) (count + 1) (hw_rx (regs s (REG_RX0 + off)) count s)"

definition set_txnum :: "u32 \<Rightarrow> 'd nuc970_spi \<Rightarrow> 'd nuc970_spi" where
  "set_txnum n s = s\<lparr>pdata := (pdata s)\<lparr>txnum := n\<rparr>\<rparr>"

text \<open>The interrupt routine.  A burst that it starts may be over before it reads the control register back.  A burst that
  is over between this read and the write of the value is started once more by that write, with the words just
  received, since the value still has the busy bit; this repetition does not count as a burst of the driver.\<close>

definition busy_bit :: "'d nuc970_spi \<Rightarrow> bool" where
  "busy_bit s \<longleftrightarrow> regs s REG_CNTRL AND GOBUSY \<noteq> 0"

text \<open>Storing what came back, and the next words or the end of the transfer.\<close>

definition irq_store :: "'d nuc970_spi \<Rightarrow> 'd nuc970_spi" where
  "irq_store s =
    (let count = hw_count s;
         s = s\<lparr>hw_count := hw_count s + (txnum (pdata s) + 1)\<rparr>
     in if hw_rxbuf s \<noteq> 0 then drain_rx (unat (txnum (pdata s) + 1)) 0 count s else s)"

definition irq_next :: "'d spi_env \<Rightarrow> 'd nuc970_spi \<Rightarrow> 'd nuc970_spi" where
  "irq_next env s =
    (let count = hw_count s;
         last = hw_len s - count
     in if last > 0 then
          (let s = (if last > 0 \<and> last \<le> 4 then set_txnum (last - 1) (nuc970_spi0_setup_txnum env (last - 1) s) else s);
               s = fill_tx env (unat (txnum (pdata s) + 1)) 0 count s
           in nuc970_spi0_gobusy env s)
        else s\<lparr>completions := Suc (completions s)\<rparr>)"

definition nuc970_spi0_irq :: "'d spi_env \<Rightarrow> 'd nuc970_spi \<Rightarrow> 'd nuc970_spi" where
  "nuc970_spi0_irq env s =
    (let s = irq_next env (irq_store s);
         s = (if busy_bit s \<and> quick env (bursts s) then burst env s else s);
         status = regs s REG_CNTRL;
         s = (if busy_bit s \<and> late env (bursts s) then (burst env s)\<lparr>bursts := bursts s\<rparr> else s)
     in spi_writel env status REG_CNTRL s)"

text \<open>Waiting for the end of the transfer.  A burst under way ends; the routine runs when the flag is set and the interrupt
  enabled.  With nothing under way and no flag the wait never ends, which is \<open>None\<close>.\<close>

partial_function (option) wait_for_completion :: "'d spi_env \<Rightarrow> 'd nuc970_spi \<Rightarrow> 'd nuc970_spi option" where
  "wait_for_completion env s =
    (if completions s > 0 then Some (s\<lparr>completions := completions s - 1\<rparr>)
     else let s = (if busy_bit s then burst env s else s)
          in if regs s REG_CNTRL AND ENFLG \<noteq> 0 \<and> regs s REG_CNTRL AND ENINT \<noteq> 0
             then wait_for_completion env (nuc970_spi0_irq env s) else None)"

definition or_cntrl :: "'d spi_env \<Rightarrow> u32 \<Rightarrow> 'd nuc970_spi \<Rightarrow> 'd nuc970_spi" where
  "or_cntrl env v s = spi_writel env (regs s REG_CNTRL OR v) REG_CNTRL s"

definition and_cntrl :: "'d spi_env \<Rightarrow> u32 \<Rightarrow> 'd nuc970_spi \<Rightarrow> 'd nuc970_spi" where
  "and_cntrl env v s = spi_writel env (regs s REG_CNTRL AND v) REG_CNTRL s"

definition nuc970_spi0_txrx :: "'d spi_env \<Rightarrow> spi_device \<Rightarrow> spi_transfer \<Rightarrow> 'd nuc970_spi \<Rightarrow> (int \<times> 'd nuc970_spi) option" where
  "nuc970_spi0_txrx env spi t s =
    (let s = s\<lparr>hw_txbuf := tx_buf t, hw_rxbuf := rx_buf t, hw_len := t_len t, hw_count := 0\<rparr>;
         s = (if tx_nbits t AND SPI_NBITS_DUAL \<noteq> 0 then or_cntrl env (push_bit 20 0x5) s
              else if tx_nbits t AND SPI_NBITS_QUAD \<noteq> 0 then or_cntrl env (push_bit 20 0x3) s else s);
         s = (if rx_nbits t AND SPI_NBITS_DUAL \<noteq> 0 then or_cntrl env (push_bit 20 0x4) s
              else if rx_nbits t AND SPI_NBITS_QUAD \<noteq> 0 then or_cntrl env (push_bit 20 0x2) s else s);
         s = (if hw_len s \<ge> 4 then set_txnum 3 (nuc970_spi0_setup_txnum env 3 s)
              else set_txnum (hw_len s - 1) (nuc970_spi0_setup_txnum env (hw_len s - 1) s));
         s = fill_tx env (unat (txnum (pdata s) + 1)) 0 0 s;
         s = nuc970_spi0_gobusy env s
     in do {
       s \<leftarrow> wait_for_completion env s;
       let s = (if mode spi AND (SPI_TX_DUAL OR SPI_TX_QUAD OR SPI_RX_DUAL OR SPI_RX_QUAD) \<noteq> 0
                then and_cntrl env (NOT (push_bit 20 0x7)) s else s);
       Some (sint (hw_count s), s) })"

section \<open>Settings of a device\<close>

definition DIV_ROUND_UP :: "u32 \<Rightarrow> u32 \<Rightarrow> u32" where
  "DIV_ROUND_UP n d = (n + d - 1) div d"

definition nuc970_spi0_update_state :: "'d spi_env \<Rightarrow> spi_device \<Rightarrow> spi_transfer option \<Rightarrow> 'd nuc970_spi \<Rightarrow> int \<times> 'd nuc970_spi" where
  "nuc970_spi0_update_state env spi t s =
    (let bpw = (case t of Some t \<Rightarrow> ucast (bits_per_word t) | None \<Rightarrow> ucast (dev_bits spi));
         f = (case t of Some t \<Rightarrow> speed_hz t | None \<Rightarrow> max_speed_hz spi);
         p = pdata s;
         p = (if txbitlen p \<noteq> bpw then p\<lparr>txbitlen := bpw\<rparr> else p);
         p = (if hz p \<noteq> f then p\<lparr>hz := f, divider := DIV_ROUND_UP (clk_rate env) (f * 2) - 1\<rparr> else p);
         p = p\<lparr>clkpol := if mode spi AND SPI_CPOL \<noteq> 0 then 1 else 0\<rparr>;
         spimode = mode spi AND 0xff;
         p = (if spimode = SPI_MODE_0 \<or> spimode = SPI_MODE_2 then p\<lparr>txneg := 1, rxneg := 0\<rparr>
              else p\<lparr>txneg := 0, rxneg := 1\<rparr>);
         p = p\<lparr>lsb := if mode spi AND SPI_LSB_FIRST \<noteq> 0 then 1 else 0\<rparr>
     in (0, s\<lparr>pdata := p\<rparr>))"

definition nuc970_spi0_setupxfer :: "'d spi_env \<Rightarrow> spi_device \<Rightarrow> spi_transfer option \<Rightarrow> 'd nuc970_spi \<Rightarrow> int \<times> 'd nuc970_spi" where
  "nuc970_spi0_setupxfer env spi t s =
    (let (ret, s) = nuc970_spi0_update_state env spi t s
     in if ret \<noteq> 0 then (ret, s)
        else (let s = nuc970_spi0_setup_txbitlen env (txbitlen (pdata s)) s;
                  s = nuc970_tx_edge env (txneg (pdata s)) s;
                  s = nuc970_rx_edge env (rxneg (pdata s)) s;
                  s = nuc970_set_clock_polarity env (clkpol (pdata s)) s;
                  s = nuc970_send_first env (lsb (pdata s)) s
              in (0, s)))"

text \<open>\<open>busy\<close> is the flag of the queue runner of \<open>spi-bitbang.c\<close>.\<close>

definition nuc970_spi0_setup :: "'d spi_env \<Rightarrow> bool \<Rightarrow> spi_device \<Rightarrow> 'd nuc970_spi \<Rightarrow> int \<times> 'd nuc970_spi" where
  "nuc970_spi0_setup env busy spi s =
    (let (ret, s) = nuc970_spi0_update_state env spi None s
     in if ret \<noteq> 0 then (ret, s)
        else (0, if \<not> busy then nuc970_slave_select env spi 0 (nuc970_set_divider env s) else s))"

text \<open>The register part of \<open>nuc970_init_spi\<close>.\<close>

definition init_spi_regs :: "'d spi_env \<Rightarrow> 'd nuc970_spi \<Rightarrow> 'd nuc970_spi" where
  "init_spi_regs env s =
    (let p = pdata s;
         s = nuc970_tx_edge env (txneg p) s;
         s = nuc970_rx_edge env (rxneg p) s;
         s = nuc970_send_first env (lsb p) s;
         s = nuc970_set_sleep env (sleep p) s;
         s = nuc970_spi0_setup_txbitlen env (txbitlen p) s;
         s = nuc970_spi0_setup_txnum env (txnum p) s;
         s = nuc970_set_clock_polarity env (clkpol p) s;
         s = nuc970_set_divider env s
     in nuc970_enable_int env s)"

section \<open>Power management\<close>

text \<open>While suspend sleeps, bursts end and the interrupt routine runs.\<close>

partial_function (option) suspend_wait :: "'d spi_env \<Rightarrow> 'd nuc970_spi \<Rightarrow> 'd nuc970_spi option" where
  "suspend_wait env s =
    (if regs s REG_CNTRL AND 0x1 = 0 then Some s
     else let s = burst env s
          in suspend_wait env (if regs s REG_CNTRL AND ENINT \<noteq> 0 then nuc970_spi0_irq env s else s))"

definition nuc970_spi0_suspend :: "'d spi_env \<Rightarrow> 'd nuc970_spi \<Rightarrow> 'd nuc970_spi option" where
  "nuc970_spi0_suspend env s = map_option (and_cntrl env (NOT 0x20000)) (suspend_wait env s)"

definition nuc970_spi0_resume :: "'d spi_env \<Rightarrow> 'd nuc970_spi \<Rightarrow> 'd nuc970_spi" where
  "nuc970_spi0_resume env s = or_cntrl env 0x20000 s"

section \<open>The control register\<close>

lemma bit_spi_fields:
  "bit GOBUSY k \<longleftrightarrow> k = 0" "bit ENFLG k \<longleftrightarrow> k = 16" "bit ENINT k \<longleftrightarrow> k = 17"
  "bit TXNUM k \<longleftrightarrow> k = 8 \<or> k = 9"
  "bit MODE_BITS k \<longleftrightarrow> k \<in> {1, 2, 3, 4, 5, 6, 7, 10, 20, 21, 22, 31}"
proof -
  have *: "GOBUSY = BIT 0" "ENFLG = BIT 16" "ENINT = BIT 17" "TXNUM = BIT 8 OR BIT 9"
    "MODE_BITS = BIT 1 OR BIT 2 OR BIT 3 OR BIT 4 OR BIT 5 OR BIT 6 OR BIT 7 OR BIT 10 OR BIT 20 OR BIT 21 OR BIT 22 OR BIT 31"
    by (simp_all add: GOBUSY_def ENFLG_def ENINT_def TXNUM_def MODE_BITS_def TXNEG_def RXNEG_def LSB_def SELECTPOL_def BIT_def)
  show "bit GOBUSY k \<longleftrightarrow> k = 0" "bit ENFLG k \<longleftrightarrow> k = 16" "bit ENINT k \<longleftrightarrow> k = 17"
    "bit TXNUM k \<longleftrightarrow> k = 8 \<or> k = 9" "bit MODE_BITS k \<longleftrightarrow> k \<in> {1, 2, 3, 4, 5, 6, 7, 10, 20, 21, 22, 31}"
    unfolding * bit_or_iff bit_BIT by simp_all
qed

lemma and_GOBUSY: "v AND GOBUSY \<noteq> 0 \<longleftrightarrow> bit v 0"
  and and_ENFLG: "v AND ENFLG \<noteq> 0 \<longleftrightarrow> bit v 16"
  and and_ENINT: "v AND ENINT \<noteq> 0 \<longleftrightarrow> bit v 17"
  using and_BIT_eq_0[of v 0] and_BIT_eq_0[of v 16] and_BIT_eq_0[of v 17]
  by (simp_all add: GOBUSY_def ENFLG_def ENINT_def BIT_def)

lemma bit_less4: "(n :: u32) < 4 \<Longrightarrow> bit n j \<Longrightarrow> j < 2"
proof (rule ccontr)
  assume *: "n < 4" "bit n j" "\<not> j < 2"
  have "n AND mask 2 = n" using *(1) by (intro less_mask_eq) simp
  then have "bit (n AND mask 2) j" using *(2) by simp
  then show False using *(3) by (simp add: bit_and_iff bit_mask_iff)
qed

text \<open>What a write leaves in the control register.\<close>

definition cntrl_after :: "u32 \<Rightarrow> u32 \<Rightarrow> u32" where
  "cntrl_after v old = (v AND NOT ENFLG) OR (old AND ENFLG AND NOT v)"

lemma bit_cntrl_after: "k < 32 \<Longrightarrow> bit (cntrl_after v old) k \<longleftrightarrow> (if k = 16 then bit old 16 \<and> \<not> bit v 16 else bit v k)"
  by (auto simp: cntrl_after_def bit_or_iff bit_and_iff bit_not_iff bit_spi_fields)

lemma writel_cntrl: "spi_writel env v REG_CNTRL s = s\<lparr>regs := (regs s)(REG_CNTRL := cntrl_after v (regs s REG_CNTRL))\<rparr>"
  by (simp add: spi_writel_def cntrl_after_def)

text \<open>The view of the control register the proofs use: the lines, the busy bit, the flag and the number field, with the
  interrupt enabled.\<close>

definition txnum_field :: "u32 \<Rightarrow> u32" where
  "txnum_field c = take_bit 2 (drop_bit 8 c)"

definition ctl :: "spi_line \<Rightarrow> bool \<Rightarrow> bool \<Rightarrow> u32 \<Rightarrow> 'd nuc970_spi \<Rightarrow> bool" where
  "ctl L b f n s \<longleftrightarrow> spi_lines s = L \<and> bit (regs s REG_CNTRL) 17 \<and> bit (regs s REG_CNTRL) 0 = b
     \<and> bit (regs s REG_CNTRL) 16 = f \<and> txnum_field (regs s REG_CNTRL) = n"

lemma mode_eq: "(\<And>k. bit MODE_BITS k \<Longrightarrow> bit v k = bit c k) \<Longrightarrow> v AND MODE_BITS = c AND MODE_BITS"
  by (rule bit_word_eqI) (auto simp: bit_and_iff)

lemma txnum_field_eq: "bit v 8 = bit c 8 \<Longrightarrow> bit v 9 = bit c 9 \<Longrightarrow> txnum_field v = txnum_field c"
  by (rule bit_word_eqI) (auto simp: txnum_field_def bit_take_bit_iff bit_drop_bit_eq less_2_cases_iff)

lemma txnum_field_set:
  assumes "n < 4" "bit v 8 = bit n 0" "bit v 9 = bit n 1"
  shows "txnum_field v = n"
proof (rule bit_word_eqI)
  fix k show "bit (txnum_field v) k = bit n k"
    using assms(2,3) bit_less4[OF assms(1), of k]
    by (cases "k < 2") (auto simp: txnum_field_def bit_take_bit_iff bit_drop_bit_eq less_2_cases_iff)
qed

text \<open>A new value of the register that keeps the mode bits and the interrupt enabled.\<close>

lemma ctl_upd:
  assumes "ctl L b f n s" "\<And>k. bit MODE_BITS k \<or> k = 17 \<Longrightarrow> bit v k = bit (regs s REG_CNTRL) k"
  shows "ctl L (bit v 0) (bit v 16) (txnum_field v) (s\<lparr>regs := (regs s)(REG_CNTRL := v)\<rparr>)"
proof -
  have "v AND MODE_BITS = regs s REG_CNTRL AND MODE_BITS" using assms(2) by (intro mode_eq) simp
  then show ?thesis using assms(1) assms(2)[of 17] by (simp add: ctl_def spi_lines_def spi_regs)
qed

lemma MODE_less: "bit MODE_BITS k \<or> k = 17 \<Longrightarrow> k < 32 \<and> k \<noteq> 16 \<and> k \<noteq> 0 \<and> k \<noteq> 8 \<and> k \<noteq> 9"
  by (auto simp: bit_spi_fields)

lemma setup_txnum_ctl:
  assumes "ctl L b f m s" "n < 4"
  shows "ctl L b False n (nuc970_spi0_setup_txnum env n s)"
proof -
  let ?c = "regs s REG_CNTRL"
  let ?v = "cntrl_after (?c AND NOT TXNUM OR push_bit 8 n) ?c"
  have bits: "bit ?v k = (if k = 16 then False else if k = 8 \<or> k = 9 then bit n (k - 8) else bit ?c k)" if "k < 32" for k
    using that bit_less4[OF assms(2), of "k - 8"]
    by (auto simp: bit_cntrl_after bit_or_iff bit_and_iff bit_not_iff bit_spi_fields bit_push_bit_iff)
  have "nuc970_spi0_setup_txnum env n s = s\<lparr>regs := (regs s)(REG_CNTRL := ?v)\<rparr>"
    by (auto simp: nuc970_spi0_setup_txnum_def writel_cntrl Let_def)
  moreover have "txnum_field ?v = n" by (rule txnum_field_set[OF assms(2)]) (simp_all add: bits)
  ultimately show ?thesis
    using ctl_upd[OF assms(1), of ?v] MODE_less assms(1) by (simp add: bits) (simp add: ctl_def)
qed

lemma gobusy_ctl:
  assumes "ctl L b f n s"
  shows "ctl L True False n (nuc970_spi0_gobusy env s)"
proof -
  let ?c = "regs s REG_CNTRL"
  let ?v = "cntrl_after (?c OR GOBUSY) ?c"
  have bits: "bit ?v k = (if k = 16 then False else k = 0 \<or> bit ?c k)" if "k < 32" for k
    using that by (auto simp: bit_cntrl_after bit_or_iff bit_spi_fields)
  have "txnum_field ?v = txnum_field ?c" by (rule txnum_field_eq) (simp_all add: bits)
  then show ?thesis
    using ctl_upd[OF assms, of ?v] MODE_less assms by (simp add: bits nuc970_spi0_gobusy_def writel_cntrl) (simp add: ctl_def)
qed

lemma ack_ctl:
  assumes "ctl L b f n s"
  shows "ctl L b False n (spi_writel env (regs s REG_CNTRL) REG_CNTRL s)"
proof -
  let ?c = "regs s REG_CNTRL"
  let ?v = "cntrl_after ?c ?c"
  have bits: "bit ?v k = (if k = 16 then False else bit ?c k)" if "k < 32" for k
    using that by (auto simp: bit_cntrl_after)
  have "txnum_field ?v = txnum_field ?c" by (rule txnum_field_eq) (simp_all add: bits)
  then show ?thesis
    using ctl_upd[OF assms, of ?v] MODE_less assms by (simp add: bits writel_cntrl) (simp add: ctl_def)
qed

section \<open>Words in memory\<close>

text \<open>The number of bytes the driver takes for a word, and access to words of that size.\<close>

definition width :: "nuc970_spi_info \<Rightarrow> nat" where
  "width p = (if sint (txbitlen p) \<le> 8 then 1 else if sint (txbitlen p) \<le> 16 then 2 else 4)"

definition load_word :: "nat \<Rightarrow> (u32 \<Rightarrow> u8) \<Rightarrow> u32 \<Rightarrow> u32" where
  "load_word w m a = (if w = 1 then ucast (m a) else if w = 2 then mem16 m a else mem32 m a)"

definition store_word :: "nat \<Rightarrow> u32 \<Rightarrow> u32 \<Rightarrow> (u32 \<Rightarrow> u8) \<Rightarrow> u32 \<Rightarrow> u8" where
  "store_word w a v m = (if w = 1 then m(a := ucast v) else if w = 2 then store16 a v m else store32 a v m)"

fun put_words :: "nat \<Rightarrow> u32 \<Rightarrow> u32 list \<Rightarrow> (u32 \<Rightarrow> u8) \<Rightarrow> u32 \<Rightarrow> u8" where
  "put_words w a [] m = m"
| "put_words w a (r # rs) m = put_words w (a + of_nat w) rs (store_word w a r m)"

lemma hw_tx_word: "hw_tx s c = (if hw_txbuf s = 0 then 0xffffffff else load_word (width (pdata s)) (mem s) (hw_txbuf s + of_nat (width (pdata s)) * c))"
  by (simp add: hw_tx_def width_def load_word_def Let_def)

lemma hw_rx_word: "hw_rx v c s = s\<lparr>mem := store_word (width (pdata s)) (hw_rxbuf s + of_nat (width (pdata s)) * c) v (mem s)\<rparr>"
  by (simp add: hw_rx_def width_def store_word_def Let_def)

lemma put_words_append: "put_words w a (xs @ ys) m = put_words w (a + of_nat w * of_nat (length xs)) ys (put_words w a xs m)"
  by (induction xs arbitrary: a m) (simp_all add: algebra_simps)

text \<open>A word keeps its value when a word stored does not touch its bytes.\<close>

definition apart :: "nat \<Rightarrow> u32 \<Rightarrow> u32 \<Rightarrow> bool" where
  "apart w a b \<longleftrightarrow> (\<forall>x<w. \<forall>y<w. a + of_nat x \<noteq> b + of_nat y)"

lemma apartD: "apart w a b \<Longrightarrow> x < w \<Longrightarrow> y < w \<Longrightarrow> a + of_nat x \<noteq> b + of_nat y"
  by (simp add: apart_def)

lemma width_cases: "width p \<in> {1, 2, 4}"
  by (simp add: width_def)

lemma load_store:
  assumes "w \<in> {1, 2, 4}" "apart w a b"
  shows "load_word w (store_word w b v m) a = load_word w m a"
proof -
  consider "w = 1" | "w = 2" | "w = 4" using assms(1) by blast
  then show ?thesis
  proof cases
    case 1 then show ?thesis using apartD[OF assms(2), of 0 0] by (simp add: load_word_def store_word_def)
  next
    case 2
    have "a + of_nat x \<noteq> b + of_nat y" if "x \<in> {0, 1}" "y \<in> {0, 1}" for x y
      by (rule apartD[OF assms(2)]) (use 2 that in auto)
    from this[of 0 0] this[of 0 1] this[of 1 0] this[of 1 1] show ?thesis
      using 2 by (simp add: load_word_def store_word_def mem16_def store16_def)
  next
    case 3
    have "a + of_nat x \<noteq> b + of_nat y" if "x \<in> {0, 1, 2, 3}" "y \<in> {0, 1, 2, 3}" for x y
      by (rule apartD[OF assms(2)]) (use 3 that in auto)
    from this[of 0 0] this[of 0 1] this[of 0 2] this[of 0 3] this[of 1 0] this[of 1 1] this[of 1 2] this[of 1 3]
      this[of 2 0] this[of 2 1] this[of 2 2] this[of 2 3] this[of 3 0] this[of 3 1] this[of 3 2] this[of 3 3]
    show ?thesis using 3 by (simp add: load_word_def store_word_def mem16_def store16_def mem32_def store32_def add.assoc)
  qed
qed

lemma load_put_words:
  assumes "w \<in> {1, 2, 4}" "\<forall>j < length rs. apart w a (b + of_nat w * of_nat j)"
  shows "load_word w (put_words w b rs m) a = load_word w m a"
  using assms(2)
proof (induction rs arbitrary: b m)
  case (Cons r rs)
  have "apart w a (b + of_nat w + of_nat w * of_nat j)" if "j < length rs" for j
    using Cons.prems[rule_format, of "Suc j"] that by (simp add: algebra_simps)
  moreover have "apart w a b" using Cons.prems[rule_format, of 0] by simp
  ultimately show ?case using Cons.IH load_store[OF assms(1)] by simp
qed simp

section \<open>The loops over the data registers\<close>

lemma tx_offsets: "REG_TX0 \<noteq> REG_CNTRL" "REG_TX0 \<noteq> REG_SSR" "REG_TX0 + 4 \<noteq> REG_CNTRL" "REG_TX0 + 4 \<noteq> REG_SSR"
  "REG_TX0 + 8 \<noteq> REG_CNTRL" "REG_TX0 + 8 \<noteq> REG_SSR" "REG_TX0 + 12 \<noteq> REG_CNTRL" "REG_TX0 + 12 \<noteq> REG_SSR"
  by (simp_all add: spi_regs)

text \<open>The registers after \<open>n\<close> rounds.\<close>

definition data_regs :: "u32 list \<Rightarrow> (u32 \<Rightarrow> u32) \<Rightarrow> u32 \<Rightarrow> u32" where
  "data_regs ws f = load_rx REG_TX0 ws f"

lemma le4_cases: "n \<le> 4 \<longleftrightarrow> n \<in> {0, 1, 2, 3, 4::nat}"
  by auto

lemma length_le4: "length ws \<le> 4 \<Longrightarrow> ws = [] \<or> (\<exists>a. ws = [a]) \<or> (\<exists>a b. ws = [a, b]) \<or> (\<exists>a b c. ws = [a, b, c]) \<or> (\<exists>a b c d. ws = [a, b, c, d])"
  by (cases ws; cases "tl ws"; cases "tl (tl ws)"; cases "tl (tl (tl ws))"; cases "tl (tl (tl (tl ws)))") auto

lemma data_regs_other: "length ws \<le> 4 \<Longrightarrow> a \<in> {REG_CNTRL, REG_DIVIDER, REG_SSR} \<Longrightarrow> data_regs ws f a = f a"
  by (drule length_le4) (auto simp: data_regs_def spi_regs)

lemma data_regs_nth: "length ws \<le> 4 \<Longrightarrow> i < length ws \<Longrightarrow> data_regs ws f (REG_TX0 + 4 * of_nat i) = ws ! i"
  by (drule length_le4) (auto simp: data_regs_def spi_regs less_Suc_eq)

lemma fill_tx_regs:
  assumes "n \<le> 4"
  shows "fill_tx env n 0 c s = s\<lparr>regs := data_regs (map (\<lambda>i. hw_tx s (c + of_nat i)) [0..<n]) (regs s)\<rparr>"
proof -
  have *: "hw_tx (s\<lparr>regs := r\<rparr>) k = hw_tx s k" for r k by (simp add: hw_tx_word)
  have w: "spi_writel env v (REG_TX0 + off) s = s\<lparr>regs := (regs s)(REG_TX0 + off := v)\<rparr>"
    if "off \<in> {0, 4, 8, 12}" for off v and s :: "'a nuc970_spi"
    using that tx_offsets by (auto simp: spi_writel_def)
  note w0 = w[of 0, simplified]
  show ?thesis using assms unfolding le4_cases
    by (elim insertE emptyE; simp add: numeral_eq_Suc upt_rec[of 0] upt_rec[of "Suc _"] w w0 * data_regs_def add.assoc)
qed

lemma drain_rx_mem:
  assumes "n \<le> 4"
  shows "drain_rx n 0 c s = s\<lparr>mem := put_words (width (pdata s)) (hw_rxbuf s + of_nat (width (pdata s)) * c)
     (map (\<lambda>i. regs s (REG_RX0 + 4 * of_nat i)) [0..<n]) (mem s)\<rparr>"
  using assms unfolding le4_cases
  by (elim insertE emptyE; simp add: numeral_eq_Suc upt_rec[of 0] upt_rec[of "Suc _"] hw_rx_word algebra_simps)

section \<open>One burst and its interrupt\<close>

lemma length_shift_words [simp]: "length (fst (shift_words env L ws d)) = length ws"
  by (induction ws arbitrary: d) (auto simp: split_beta Let_def)

lemma shift_words_append:
  "shift_words env L (xs @ ys) d =
    (let (r1, d1) = shift_words env L xs d; (r2, d2) = shift_words env L ys d1 in (r1 @ r2, d2))"
  by (induction xs arbitrary: d) (auto simp: split_beta Let_def)

lemma burst_regs:
  assumes "ctl L b f n s" "ws = map (\<lambda>i. regs s (REG_TX0 + 4 * of_nat i)) [0..<Suc (unat n)]"
  shows "ctl L False True n (burst env s)"
    and "burst env s = s\<lparr>slave := snd (shift_words env L ws (slave s)), bursts := Suc (bursts s),
      regs := (data_regs (fst (shift_words env L ws (slave s))) (regs s))(REG_CNTRL := (regs s REG_CNTRL AND NOT GOBUSY) OR ENFLG)\<rparr>"
proof -
  let ?v = "(regs s REG_CNTRL AND NOT GOBUSY) OR ENFLG"
  let ?rs = "fst (shift_words env L ws (slave s))"
  show eq: "burst env s = s\<lparr>slave := snd (shift_words env L ws (slave s)), bursts := Suc (bursts s),
      regs := (data_regs ?rs (regs s))(REG_CNTRL := ?v)\<rparr>"
    using assms by (simp add: burst_def ctl_def txnum_field_def data_regs_def split_beta Let_def REG_RX0_def REG_TX0_def)
  have n: "length ?rs \<le> 4"
  proof -
    have "unat (take_bit 2 (drop_bit 8 (regs s REG_CNTRL))) < 4"
      using take_bit_nat_less_exp[of 2 "unat (drop_bit 8 (regs s REG_CNTRL))"] by (simp add: unsigned_take_bit_eq)
    then show ?thesis using assms by (simp add: ctl_def txnum_field_def)
  qed
  have bits: "bit ?v k = (k = 16 \<or> k \<noteq> 0 \<and> bit (regs s REG_CNTRL) k)" if "k < 32" for k
    using that by (auto simp: bit_or_iff bit_and_iff bit_not_iff bit_spi_fields)
  have t: "txnum_field ?v = txnum_field (regs s REG_CNTRL)" by (rule txnum_field_eq) (simp_all add: bits)
  have m: "?v AND MODE_BITS = regs s REG_CNTRL AND MODE_BITS" by (rule mode_eq) (use MODE_less in \<open>auto simp: bits\<close>)
  show "ctl L False True n (burst env s)"
    using assms(1) t m data_regs_other[OF n] by (simp add: eq ctl_def spi_lines_def bits) (simp add: spi_regs)
qed

text \<open>The write of a control value that has become stale: it starts the burst once more and leaves the flag.\<close>

lemma repeat_ctl:
  assumes "ctl L True False n s"
  shows "ctl L True True n (spi_writel env (regs s REG_CNTRL) REG_CNTRL ((burst env s)\<lparr>bursts := b\<rparr>))"
proof -
  let ?c = "regs s REG_CNTRL" and ?t = "burst env s"
  note B = burst_regs(1)[OF assms refl, of env]
  let ?v = "cntrl_after ?c (regs ?t REG_CNTRL)"
  have r: "regs ?t REG_CNTRL = (?c AND NOT GOBUSY) OR ENFLG" using burst_regs(2)[OF assms refl, of env] by simp
  have bits: "bit ?v k = (k = 16 \<or> bit ?c k)" if "k < 32" for k
    using that assms by (auto simp: bit_cntrl_after r bit_or_iff bit_and_iff bit_not_iff bit_spi_fields ctl_def)
  have "txnum_field ?v = txnum_field ?c" by (rule txnum_field_eq) (simp_all add: bits)
  moreover have "bit ?v k = bit (regs ?t REG_CNTRL) k" if "bit MODE_BITS k \<or> k = 17" for k
    using MODE_less[OF that] bits[of k] unfolding r by (auto simp: bit_or_iff bit_and_iff bit_not_iff bit_spi_fields)
  ultimately show ?thesis
    using ctl_upd[OF B, of ?v] assms by (simp add: bits writel_cntrl) (simp add: ctl_def spi_lines_def)
qed

text \<open>The words of a transfer and what has happened after \<open>k\<close> of them, from the state \<open>s\<^sub>0\<close> in which the transfer began.\<close>

definition spi_words :: "'d nuc970_spi \<Rightarrow> u32 list" where
  "spi_words s = map (\<lambda>i. hw_tx s (of_nat i)) [0..<unat (hw_len s)]"

definition exchanged :: "'d spi_env \<Rightarrow> 'd nuc970_spi \<Rightarrow> nat \<Rightarrow> u32 list \<times> 'd" where
  "exchanged env s k = shift_words env (spi_lines s) (take k (spi_words s)) (slave s)"

definition received :: "'d nuc970_spi \<Rightarrow> u32 list \<Rightarrow> u32 \<Rightarrow> u8" where
  "received s rs = (if hw_rxbuf s = 0 then mem s else put_words (width (pdata s)) (hw_rxbuf s) rs (mem s))"

definition progress :: "'d spi_env \<Rightarrow> 'd nuc970_spi \<Rightarrow> nat \<Rightarrow> 'd nuc970_spi \<Rightarrow> bool" where
  "progress env s\<^sub>0 k s \<longleftrightarrow> slave s = snd (exchanged env s\<^sub>0 k) \<and> mem s = received s\<^sub>0 (fst (exchanged env s\<^sub>0 k))
     \<and> hw_count s = of_nat k \<and> hw_len s = hw_len s\<^sub>0 \<and> hw_txbuf s = hw_txbuf s\<^sub>0 \<and> hw_rxbuf s = hw_rxbuf s\<^sub>0
     \<and> pdata s = (pdata s\<^sub>0)\<lparr>txnum := txnum (pdata s)\<rparr>"

definition loaded :: "'d nuc970_spi \<Rightarrow> nat \<Rightarrow> nat \<Rightarrow> 'd nuc970_spi \<Rightarrow> bool" where
  "loaded s\<^sub>0 k n s \<longleftrightarrow> txnum (pdata s) = of_nat n - 1
     \<and> (\<forall>i<n. regs s (REG_TX0 + 4 * of_nat i) = spi_words s\<^sub>0 ! (k + i))"

text \<open>No word received overwrites one still to be sent.  Separate buffers have the property, and a buffer that serves for
  both directions.\<close>

definition ahead :: "'d nuc970_spi \<Rightarrow> bool" where
  "ahead s \<longleftrightarrow> hw_txbuf s = 0 \<or> hw_rxbuf s = 0 \<or> (\<forall>i < unat (hw_len s). \<forall>j<i.
     apart (width (pdata s)) (hw_txbuf s + of_nat (width (pdata s)) * of_nat i) (hw_rxbuf s + of_nat (width (pdata s)) * of_nat j))"

lemma unat_add_small: "unat (a :: u32) + n < 2 ^ 32 \<Longrightarrow> unat (a + of_nat n) = unat a + n"
proof -
  assume *: "unat a + n < 2 ^ 32"
  then have "unat (of_nat n :: u32) = n" by (simp add: unsigned_of_nat take_bit_nat_eq_self)
  then show ?thesis using * by (subst unat_add_lem[THEN iffD1]) simp_all
qed

lemma apart_below: "unat a + w \<le> unat b \<Longrightarrow> unat b + w \<le> 2 ^ 32 \<Longrightarrow> apart w a b"
  unfolding apart_def
proof (intro allI impI)
  fix x y assume *: "unat a + w \<le> unat b" "unat b + w \<le> 2 ^ 32" "x < w" "y < w"
  then have "unat (a + of_nat x) = unat a + x" "unat (b + of_nat y) = unat b + y" by (intro unat_add_small; simp)+
  then have "unat (a + of_nat x) < unat (b + of_nat y)" using * by simp
  then show "a + of_nat x \<noteq> b + of_nat y" by auto
qed

lemma ahead_below:
  assumes "unat (hw_txbuf s) + width (pdata s) * unat (hw_len s) \<le> unat (hw_rxbuf s)"
    "unat (hw_rxbuf s) + width (pdata s) * unat (hw_len s) \<le> 2 ^ 32"
  shows "ahead s"
proof -
  let ?w = "width (pdata s)" and ?l = "unat (hw_len s)"
  have "apart ?w (hw_txbuf s + of_nat ?w * of_nat i) (hw_rxbuf s + of_nat ?w * of_nat j)" if "i < ?l" "j < i" for i j
  proof (rule apart_below)
    have m: "?w * i + ?w \<le> ?w * ?l" "?w * j + ?w \<le> ?w * ?l"
      using that mult_le_mono2[of "Suc i" ?l ?w] mult_le_mono2[of "Suc j" ?l ?w] by simp_all
    have w: "0 < ?w" using width_cases[of "pdata s"] by auto
    have a: "unat (hw_txbuf s + of_nat ?w * of_nat i) = unat (hw_txbuf s) + ?w * i"
      "unat (hw_rxbuf s + of_nat ?w * of_nat j) = unat (hw_rxbuf s) + ?w * j"
      using assms m w unat_add_small[of "hw_txbuf s" "?w * i"] unat_add_small[of "hw_rxbuf s" "?w * j"] by simp_all
    show "unat (hw_txbuf s + of_nat ?w * of_nat i) + ?w \<le> unat (hw_rxbuf s + of_nat ?w * of_nat j)"
      "unat (hw_rxbuf s + of_nat ?w * of_nat j) + ?w \<le> 2 ^ 32"
      unfolding a using assms m by linarith+
  qed
  then show ?thesis by (simp add: ahead_def)
qed

lemma length_spi_words [simp]: "length (spi_words s) = unat (hw_len s)"
  by (simp add: spi_words_def)

lemma length_exchanged [simp]: "k \<le> unat (hw_len s) \<Longrightarrow> length (fst (exchanged env s k)) = k"
  by (simp add: exchanged_def)

lemma exchanged_add:
  "exchanged env s (k + n) = (let (r1, d1) = exchanged env s k;
     (r2, d2) = shift_words env (spi_lines s) (take n (drop k (spi_words s))) d1 in (r1 @ r2, d2))"
  by (simp add: exchanged_def take_add shift_words_append)

lemma width_txnum [simp]: "width (p\<lparr>txnum := n\<rparr>) = width p"
  by (simp add: width_def)

lemma hw_tx_progress:
  assumes "progress env s\<^sub>0 k s" "ahead s\<^sub>0" "k \<le> i" "i < unat (hw_len s\<^sub>0)"
  shows "hw_tx s (of_nat i) = spi_words s\<^sub>0 ! i"
proof -
  let ?w = "width (pdata s\<^sub>0)"
  have w: "width (pdata s) = ?w" using assms(1) by (metis progress_def width_txnum)
  have "load_word ?w (mem s) (hw_txbuf s\<^sub>0 + of_nat ?w * of_nat i) = load_word ?w (mem s\<^sub>0) (hw_txbuf s\<^sub>0 + of_nat ?w * of_nat i)"
    if "hw_txbuf s\<^sub>0 \<noteq> 0"
  proof (cases "hw_rxbuf s\<^sub>0 = 0")
    case False
    have "\<forall>j < length (fst (exchanged env s\<^sub>0 k)). apart ?w (hw_txbuf s\<^sub>0 + of_nat ?w * of_nat i) (hw_rxbuf s\<^sub>0 + of_nat ?w * of_nat j)"
      using assms(2-4) that False by (auto simp: ahead_def)
    then show ?thesis using assms(1) False load_put_words[OF width_cases] by (simp add: progress_def received_def)
  qed (use assms(1) in \<open>simp add: progress_def received_def\<close>)
  then show ?thesis using assms(1,4) w by (simp add: spi_words_def hw_tx_word progress_def)
qed

lemma data_offset: "i < 4 \<Longrightarrow> REG_TX0 + 4 * of_nat i \<noteq> REG_CNTRL" "i < 4 \<Longrightarrow> REG_RX0 + 4 * of_nat i \<noteq> REG_CNTRL"
proof -
  assume "i < 4"
  then have "i \<in> {0, 1, 2, 3}" by auto
  then show "REG_TX0 + 4 * of_nat i \<noteq> REG_CNTRL" "REG_RX0 + 4 * of_nat i \<noteq> REG_CNTRL" by (auto simp: spi_regs)
qed

lemma unat_pred: "0 < n \<Longrightarrow> n \<le> 4 \<Longrightarrow> unat (of_nat n - 1 :: u32) = n - 1"
  unfolding le4_cases by auto

lemma store_progress:
  assumes p: "progress env s\<^sub>0 k s" and l: "loaded s\<^sub>0 k n s" and c: "ctl (spi_lines s\<^sub>0) True f (of_nat n - 1) s"
    and n: "0 < n" "n \<le> 4" "k + n \<le> unat (hw_len s\<^sub>0)"
  shows "progress env s\<^sub>0 (k + n) (irq_store (burst env s))"
    and "ctl (spi_lines s\<^sub>0) False True (of_nat n - 1) (irq_store (burst env s))"
    and "completions (irq_store (burst env s)) = completions s"
    and "txnum (pdata (irq_store (burst env s))) = of_nat n - 1"
    and "bursts (irq_store (burst env s)) = Suc (bursts s)"
proof -
  let ?L = "spi_lines s\<^sub>0" and ?ws = "take n (drop k (spi_words s\<^sub>0))"
  let ?sw = "shift_words env ?L ?ws (slave s)"
  have un: "Suc (unat (of_nat n - 1 :: u32)) = n" using unat_pred[OF n(1,2)] n(1) by simp
  have "map (\<lambda>i. regs s (REG_TX0 + 4 * of_nat i)) [0..<n] = ?ws"
    using l n(3) by (intro nth_equalityI) (auto simp: loaded_def)
  then have B: "burst env s = s\<lparr>slave := snd ?sw, bursts := Suc (bursts s),
      regs := (data_regs (fst ?sw) (regs s))(REG_CNTRL := (regs s REG_CNTRL AND NOT GOBUSY) OR ENFLG)\<rparr>"
    using burst_regs(2)[OF c refl, of env] un by simp
  have rs: "length (fst ?sw) = n" using n(3) by simp
  have rx: "map (\<lambda>i. regs (burst env s) (REG_RX0 + 4 * of_nat i)) [0..<n] = fst ?sw"
  proof (intro nth_equalityI)
    fix i assume "i < length (map (\<lambda>i. regs (burst env s) (REG_RX0 + 4 * of_nat i)) [0..<n])"
    then have i: "i < n" by simp
    then have "REG_RX0 + 4 * of_nat i \<noteq> REG_CNTRL" using n(2) by (intro data_offset) simp_all
    moreover have "data_regs (fst ?sw) (regs s) (REG_RX0 + 4 * of_nat i) = fst ?sw ! i"
      using data_regs_nth[of "fst ?sw" i "regs s"] rs i n(2) by (simp add: spi_regs)
    ultimately show "map (\<lambda>i. regs (burst env s) (REG_RX0 + 4 * of_nat i)) [0..<n] ! i = fst ?sw ! i" using B i by simp
  qed (use n(3) in simp)
  have t1: "txnum (pdata s) = of_nat n - 1" using l by (simp add: loaded_def)
  then have t: "txnum (pdata s) + 1 = of_nat n" "unat (of_nat n :: u32) = n"
    using n(2) by (simp_all add: unsigned_of_nat take_bit_nat_eq_self)
  have w: "width (pdata s) = width (pdata s\<^sub>0)" using p by (metis progress_def width_txnum)
  have S: "irq_store (burst env s) = (burst env s)\<lparr>hw_count := of_nat (k + n),
      mem := received s\<^sub>0 (fst (exchanged env s\<^sub>0 k) @ fst ?sw)\<rparr>"
    using p t B n rx w
    by (simp add: irq_store_def drain_rx_mem progress_def received_def put_words_append Let_def)
  have E: "exchanged env s\<^sub>0 (k + n) = (fst (exchanged env s\<^sub>0 k) @ fst ?sw, snd ?sw)"
    using p by (simp add: exchanged_add split_beta progress_def)
  show "progress env s\<^sub>0 (k + n) (irq_store (burst env s))"
    unfolding S using p E by (simp add: B progress_def)
  show "ctl ?L False True (of_nat n - 1) (irq_store (burst env s))"
    unfolding S using burst_regs(1)[OF c refl, of env] by (simp add: ctl_def spi_lines_def)
  show "completions (irq_store (burst env s)) = completions s" "txnum (pdata (irq_store (burst env s))) = of_nat n - 1"
    "bursts (irq_store (burst env s)) = Suc (bursts s)"
    unfolding S using t1 by (simp_all add: B)
qed

text \<open>The end of the transfer, or the next burst.\<close>

lemma next_end:
  assumes "progress env s\<^sub>0 (unat (hw_len s\<^sub>0)) s"
  shows "irq_next env s = s\<lparr>completions := Suc (completions s)\<rparr>"
  using assms by (simp add: irq_next_def progress_def)

definition burst_size :: "nat \<Rightarrow> nat" where
  "burst_size r = min 4 r"

lemma txnum_again: "p = q\<lparr>txnum := m\<rparr> \<Longrightarrow> p\<lparr>txnum := n\<rparr> = q\<lparr>txnum := n\<rparr>"
  by simp

text \<open>Setting the number of words, and loading them: first the control register and the counters alone.\<close>

lemma set_number_ctl:
  fixes s :: "'d nuc970_spi" and env :: "'d spi_env"
  assumes c: "ctl L b f m s" and n: "0 < n" "n \<le> 4"
  defines "s' \<equiv> set_txnum (of_nat n - 1) (nuc970_spi0_setup_txnum env (of_nat n - 1) s)"
  shows "ctl L b False (of_nat n - 1) s'" "txnum (pdata s') = of_nat n - 1"
    "completions s' = completions s" "bursts s' = bursts s" "hw_count s' = hw_count s" "hw_len s' = hw_len s"
proof -
  have "of_nat n - 1 < (4 :: u32)" using unat_pred[OF n] n by (simp add: word_less_nat_alt)
  from setup_txnum_ctl[OF c this, of env] show "ctl L b False (of_nat n - 1) s'"
    by (simp add: s'_def set_txnum_def ctl_def spi_lines_def)
  show "txnum (pdata s') = of_nat n - 1" "completions s' = completions s" "bursts s' = bursts s"
    "hw_count s' = hw_count s" "hw_len s' = hw_len s"
    by (simp_all add: s'_def set_txnum_def nuc970_spi0_setup_txnum_def writel_cntrl Let_def)
qed

lemma fill_go_ctl:
  fixes s :: "'d nuc970_spi" and env :: "'d spi_env" and k :: u32
  assumes c: "ctl L b f (of_nat n - 1) s" and t: "txnum (pdata s) = of_nat n - 1" and n: "n \<le> 4"
  defines "s' \<equiv> nuc970_spi0_gobusy env (fill_tx env (unat (txnum (pdata s) + 1)) 0 k s)"
  shows "ctl L True False (of_nat n - 1) s'" "txnum (pdata s') = of_nat n - 1"
    "completions s' = completions s" "bursts s' = bursts s" "hw_count s' = hw_count s" "hw_len s' = hw_len s"
proof -
  define s2 where "s2 = s\<lparr>regs := data_regs (map (\<lambda>i. hw_tx s (k + of_nat i)) [0..<n]) (regs s)\<rparr>"
  have "unat (txnum (pdata s) + 1) = n" using t n by (simp add: unsigned_of_nat take_bit_nat_eq_self)
  then have N: "s' = nuc970_spi0_gobusy env s2"
    using fill_tx_regs[OF n, of env k s] by (simp add: s'_def s2_def)
  have c2: "ctl L b f (of_nat n - 1) s2"
    using c n by (simp add: s2_def ctl_def spi_lines_def data_regs_other)
  show "ctl L True False (of_nat n - 1) s'" unfolding N by (rule gobusy_ctl[OF c2])
  show "txnum (pdata s') = of_nat n - 1" "completions s' = completions s" "bursts s' = bursts s"
    "hw_count s' = hw_count s" "hw_len s' = hw_len s"
    unfolding N using t by (simp_all add: nuc970_spi0_gobusy_def writel_cntrl s2_def)
qed

lemma next_ctl:
  assumes c: "ctl L b f 3 s" and t: "txnum (pdata s) = 3" and h: "hw_count s = of_nat k" and k: "k < unat (hw_len s)"
  defines "n \<equiv> burst_size (unat (hw_len s) - k)"
  shows "ctl L True False (of_nat n - 1) (irq_next env s)" "txnum (pdata (irq_next env s)) = of_nat n - 1"
    "completions (irq_next env s) = completions s" "bursts (irq_next env s) = bursts s"
    "hw_count (irq_next env s) = hw_count s" "hw_len (irq_next env s) = hw_len s"
proof -
  let ?r = "unat (hw_len s) - k"
  have last: "hw_len s - hw_count s = of_nat ?r" using h k by (simp add: of_nat_diff)
  have ur: "unat (of_nat ?r :: u32) = ?r" by (rule le_unat_uoi[of _ "hw_len s"]) simp
  have n: "0 < n" "n \<le> 4" using k by (simp_all add: n_def burst_size_def)
  define s1 where "s1 = (if ?r \<le> 4 then set_txnum (of_nat ?r - 1) (nuc970_spi0_setup_txnum env (of_nat ?r - 1) s) else s)"
  have le: "(of_nat ?r :: u32) \<le> 4 \<longleftrightarrow> ?r \<le> 4" "(0 :: u32) < of_nat ?r" using ur k by (simp_all add: word_le_nat_alt word_less_nat_alt)
  have "\<exists>f. ctl L b f (of_nat n - 1) s1 \<and> txnum (pdata s1) = of_nat n - 1 \<and> completions s1 = completions s \<and> bursts s1 = bursts s
    \<and> hw_count s1 = hw_count s \<and> hw_len s1 = hw_len s"
  proof (cases "?r \<le> 4")
    case True then show ?thesis using set_number_ctl[OF c, of ?r] k by (auto simp: s1_def n_def burst_size_def)
  next
    case False then show ?thesis using c t by (auto simp: s1_def n_def burst_size_def)
  qed
  then obtain f' where 1: "ctl L b f' (of_nat n - 1) s1" "txnum (pdata s1) = of_nat n - 1"
    "completions s1 = completions s" "bursts s1 = bursts s" "hw_count s1 = hw_count s" "hw_len s1 = hw_len s" by blast
  have N: "irq_next env s = nuc970_spi0_gobusy env (fill_tx env (unat (txnum (pdata s1) + 1)) 0 (of_nat k) s1)"
    using last le h by (simp add: irq_next_def s1_def Let_def)
  show "ctl L True False (of_nat n - 1) (irq_next env s)" "txnum (pdata (irq_next env s)) = of_nat n - 1"
    "completions (irq_next env s) = completions s" "bursts (irq_next env s) = bursts s"
    "hw_count (irq_next env s) = hw_count s" "hw_len (irq_next env s) = hw_len s"
    unfolding N using fill_go_ctl[OF 1(1,2) n(2)] 1(3-6) by simp_all
qed

lemma set_number:
  assumes p: "progress env s\<^sub>0 k s" and c: "ctl L b f m s" and n: "0 < n" "n \<le> 4"
  defines "s' \<equiv> set_txnum (of_nat n - 1) (nuc970_spi0_setup_txnum env (of_nat n - 1) s)"
  shows "progress env s\<^sub>0 k s'" "ctl L b False (of_nat n - 1) s'" "txnum (pdata s') = of_nat n - 1"
    "completions s' = completions s" "bursts s' = bursts s"
proof -
  have "(pdata s)\<lparr>txnum := m\<rparr> = (pdata s\<^sub>0)\<lparr>txnum := m\<rparr>" for m
    by (rule txnum_again) (use p in \<open>unfold progress_def, blast\<close>)
  then show "progress env s\<^sub>0 k s'"
    using p by (simp add: progress_def s'_def set_txnum_def nuc970_spi0_setup_txnum_def writel_cntrl Let_def)
  show "ctl L b False (of_nat n - 1) s'" "txnum (pdata s') = of_nat n - 1" "completions s' = completions s" "bursts s' = bursts s"
    unfolding s'_def by (rule set_number_ctl[OF c n])+
qed

lemma fill_go:
  assumes p: "progress env s\<^sub>0 k s" and a: "ahead s\<^sub>0" and c: "ctl L b f (of_nat n - 1) s" and t: "txnum (pdata s) = of_nat n - 1"
    and n: "0 < n" "n \<le> 4" "k + n \<le> unat (hw_len s\<^sub>0)"
  defines "s' \<equiv> nuc970_spi0_gobusy env (fill_tx env (unat (txnum (pdata s) + 1)) 0 (of_nat k) s)"
  shows "progress env s\<^sub>0 k s'" "loaded s\<^sub>0 k n s'" "ctl L True False (of_nat n - 1) s'"
    "completions s' = completions s" "bursts s' = bursts s"
proof -
  let ?ws = "map (\<lambda>i. hw_tx s (of_nat k + of_nat i)) [0..<n]"
  define s2 where "s2 = s\<lparr>regs := data_regs ?ws (regs s)\<rparr>"
  have "unat (txnum (pdata s) + 1) = n" using t n(2) by (simp add: unsigned_of_nat take_bit_nat_eq_self)
  then have N: "s' = nuc970_spi0_gobusy env s2"
    using fill_tx_regs[OF n(2), of env "of_nat k" s] by (simp add: s'_def s2_def)
  have g: "nuc970_spi0_gobusy env s2 = s2\<lparr>regs := (regs s2)(REG_CNTRL := cntrl_after (regs s2 REG_CNTRL OR GOBUSY) (regs s2 REG_CNTRL))\<rparr>"
    by (simp add: nuc970_spi0_gobusy_def writel_cntrl)
  have ws: "?ws ! i = spi_words s\<^sub>0 ! (k + i)" if "i < n" for i
    using hw_tx_progress[OF p a, of "k + i"] that n(3) by simp
  have c2: "ctl L b f (of_nat n - 1) s2"
    using c n(2) by (simp add: s2_def ctl_def spi_lines_def data_regs_other)
  show "ctl L True False (of_nat n - 1) s'" unfolding N by (rule gobusy_ctl[OF c2])
  show "progress env s\<^sub>0 k s'" unfolding N g using p by (simp add: s2_def progress_def)
  show "completions s' = completions s" "bursts s' = bursts s" unfolding N g by (simp_all add: s2_def)
  have "REG_TX0 + 4 * of_nat i \<noteq> REG_CNTRL" if "i < n" for i using that n(2) by (intro data_offset) simp
  then show "loaded s\<^sub>0 k n s'"
    unfolding N g using t ws data_regs_nth[of ?ws] n(2) by (simp add: loaded_def s2_def)
qed

lemma next_more:
  assumes p: "progress env s\<^sub>0 k s" and a: "ahead s\<^sub>0" and k: "k < unat (hw_len s\<^sub>0)" and t: "txnum (pdata s) = 3"
    and c: "ctl L b f 3 s"
  defines "n \<equiv> burst_size (unat (hw_len s\<^sub>0) - k)"
  shows "progress env s\<^sub>0 k (irq_next env s)" "loaded s\<^sub>0 k n (irq_next env s)"
    "ctl L True False (of_nat n - 1) (irq_next env s)"
    "completions (irq_next env s) = completions s" "bursts (irq_next env s) = bursts s"
proof -
  let ?r = "unat (hw_len s\<^sub>0) - k"
  have last: "hw_len s - hw_count s = of_nat ?r" "hw_count s = of_nat k" using p k by (simp_all add: progress_def of_nat_diff)
  have ur: "unat (of_nat ?r :: u32) = ?r" by (rule le_unat_uoi[of _ "hw_len s\<^sub>0"]) simp
  have n: "0 < n" "n \<le> 4" "k + n \<le> unat (hw_len s\<^sub>0)" using k by (simp_all add: n_def burst_size_def)
  define s1 where "s1 = (if ?r \<le> 4 then set_txnum (of_nat ?r - 1) (nuc970_spi0_setup_txnum env (of_nat ?r - 1) s) else s)"
  have le: "(of_nat ?r :: u32) \<le> 4 \<longleftrightarrow> ?r \<le> 4" "(0 :: u32) < of_nat ?r" using ur k by (simp_all add: word_le_nat_alt word_less_nat_alt)
  have "\<exists>f. progress env s\<^sub>0 k s1 \<and> ctl L b f (of_nat n - 1) s1 \<and> txnum (pdata s1) = of_nat n - 1 \<and> completions s1 = completions s \<and> bursts s1 = bursts s"
  proof (cases "?r \<le> 4")
    case True then show ?thesis using set_number[OF p c, of ?r] k by (auto simp: s1_def n_def burst_size_def)
  next
    case False then show ?thesis using p c t by (auto simp: s1_def n_def burst_size_def)
  qed
  then obtain f' where 1: "progress env s\<^sub>0 k s1" "ctl L b f' (of_nat n - 1) s1" "txnum (pdata s1) = of_nat n - 1"
    "completions s1 = completions s" "bursts s1 = bursts s" by blast
  have N: "irq_next env s = nuc970_spi0_gobusy env (fill_tx env (unat (txnum (pdata s1) + 1)) 0 (of_nat k) s1)"
    using last le by (simp add: irq_next_def s1_def Let_def)
  show "progress env s\<^sub>0 k (irq_next env s)" "loaded s\<^sub>0 k n (irq_next env s)" "ctl L True False (of_nat n - 1) (irq_next env s)"
    "completions (irq_next env s) = completions s" "bursts (irq_next env s) = bursts s"
    unfolding N using fill_go[OF 1(1) a 1(2,3) n] 1(4,5) by simp_all
qed

section \<open>A transfer\<close>

text \<open>One round: a burst and the interrupt routine, when the burst it starts outlasts it.\<close>

lemma irq_round:
  assumes p: "progress env s\<^sub>0 k s" and l: "loaded s\<^sub>0 k n s" and c: "ctl (spi_lines s\<^sub>0) True f (of_nat n - 1) s"
    and a: "ahead s\<^sub>0" and n: "n = burst_size (unat (hw_len s\<^sub>0) - k)" and k: "k < unat (hw_len s\<^sub>0)"
    and q: "\<not> quick env (Suc (bursts s))" "\<not> late env (Suc (bursts s))"
  defines "s' \<equiv> nuc970_spi0_irq env (burst env s)" and "k' \<equiv> k + n"
  shows "progress env s\<^sub>0 k' s' \<and> bursts s' = Suc (bursts s) \<and>
    (if k' = unat (hw_len s\<^sub>0) then ctl (spi_lines s\<^sub>0) False False (of_nat n - 1) s' \<and> completions s' = Suc (completions s)
     else k' < unat (hw_len s\<^sub>0) \<and> (let n' = burst_size (unat (hw_len s\<^sub>0) - k') in
       loaded s\<^sub>0 k' n' s' \<and> ctl (spi_lines s\<^sub>0) True False (of_nat n' - 1) s' \<and> completions s' = completions s))"
proof -
  let ?L = "spi_lines s\<^sub>0" and ?t = "irq_store (burst env s)"
  have n': "0 < n" "n \<le> 4" "k + n \<le> unat (hw_len s\<^sub>0)" using n k by (simp_all add: burst_size_def)
  note S = store_progress[OF p l c n']
  have upd: "progress env s\<^sub>0 j (spi_writel env v REG_CNTRL u) = progress env s\<^sub>0 j u"
    "completions (spi_writel env v REG_CNTRL u) = completions u" "bursts (spi_writel env v REG_CNTRL u) = bursts u" for j v u
    by (simp_all add: writel_cntrl progress_def)
  have ld: "loaded s\<^sub>0 j m (spi_writel env v REG_CNTRL u) = loaded s\<^sub>0 j m u" if "m \<le> 4" for j v u m
    using that data_offset by (auto simp: writel_cntrl loaded_def)
  show ?thesis
  proof (cases "k' = unat (hw_len s\<^sub>0)")
    case True
    have N: "irq_next env ?t = ?t\<lparr>completions := Suc (completions s)\<rparr>"
      using next_end[of env s\<^sub>0 ?t] S(1,3) True by (simp add: k'_def)
    have "ctl ?L False True (of_nat n - 1) (irq_next env ?t)" using S(2) by (simp add: N ctl_def spi_lines_def)
    moreover have "progress env s\<^sub>0 k' (irq_next env ?t)" using S(1) by (simp add: N k'_def progress_def)
    moreover have "\<not> busy_bit (irq_next env ?t)" using S(2) by (simp add: N busy_bit_def and_GOBUSY ctl_def)
    ultimately show ?thesis
      using True S(5) ack_ctl[of ?L False True "of_nat n - 1" "irq_next env ?t" env]
      by (simp add: s'_def nuc970_spi0_irq_def Let_def upd) (simp add: N)
  next
    case False
    then have lt: "k + n < unat (hw_len s\<^sub>0)" using n' by (simp add: k'_def)
    then have 4: "n = 4" using n by (simp add: burst_size_def)
    note M = next_more[OF S(1) a lt _ S(2)[unfolded 4, simplified]]
    let ?m = "burst_size (unat (hw_len s\<^sub>0) - (k + n))"
    have "?m \<le> 4" by (simp add: burst_size_def)
    moreover have "txnum (pdata ?t) = 3" using S(4) by (simp add: 4)
    ultimately show ?thesis
      using M False lt S(3,5) q ack_ctl[OF M(3), of env]
      by (simp add: s'_def nuc970_spi0_irq_def Let_def upd ld k'_def)
  qed
qed

lemma wait_step:
  "completions s = 0 \<Longrightarrow> ctl L True f n s \<Longrightarrow> wait_for_completion env s = wait_for_completion env (nuc970_spi0_irq env (burst env s))"
  using burst_regs(1)[OF _ refl, of L True f n s env]
  by (subst wait_for_completion.simps) (simp add: Let_def busy_bit_def and_GOBUSY and_ENFLG and_ENINT ctl_def)

text \<open>The whole wait, when no burst is over too early: every word is exchanged.\<close>

lemma wait_all:
  assumes "progress env s\<^sub>0 k s" "loaded s\<^sub>0 k (burst_size (unat (hw_len s\<^sub>0) - k)) s"
    "ctl (spi_lines s\<^sub>0) True f (of_nat (burst_size (unat (hw_len s\<^sub>0) - k)) - 1) s"
    "ahead s\<^sub>0" "k < unat (hw_len s\<^sub>0)" "\<forall>i. \<not> quick env i \<and> \<not> late env i" "completions s = 0"
  shows "\<exists>s' n. wait_for_completion env s = Some s' \<and> progress env s\<^sub>0 (unat (hw_len s\<^sub>0)) s'
     \<and> ctl (spi_lines s\<^sub>0) False False n s' \<and> completions s' = 0 \<and> bursts s' = bursts s + (unat (hw_len s\<^sub>0) - k + 3) div 4"
  using assms
proof (induction "unat (hw_len s\<^sub>0) - k" arbitrary: k s f rule: less_induct)
  case less
  let ?l = "unat (hw_len s\<^sub>0)"
  let ?n = "burst_size (?l - k)" and ?s = "nuc970_spi0_irq env (burst env s)"
  have R: "progress env s\<^sub>0 (k + ?n) ?s \<and> bursts ?s = Suc (bursts s) \<and>
    (if k + ?n = ?l then ctl (spi_lines s\<^sub>0) False False (of_nat ?n - 1) ?s \<and> completions ?s = Suc (completions s)
     else k + ?n < ?l \<and> (let n' = burst_size (?l - (k + ?n)) in
       loaded s\<^sub>0 (k + ?n) n' ?s \<and> ctl (spi_lines s\<^sub>0) True False (of_nat n' - 1) ?s \<and> completions ?s = completions s))"
    using irq_round[OF less.prems(1,2,3,4) refl less.prems(5)] less.prems(6) by simp
  have W: "wait_for_completion env s = wait_for_completion env ?s" using wait_step[OF less.prems(7,3)] .
  show ?case
  proof (cases "k + ?n = ?l")
    case True
    then have "wait_for_completion env ?s = Some (?s\<lparr>completions := 0\<rparr>)"
      using R less.prems(7) by (subst wait_for_completion.simps) simp
    moreover have "progress env s\<^sub>0 ?l (?s\<lparr>completions := 0\<rparr>)" "ctl (spi_lines s\<^sub>0) False False (of_nat ?n - 1) (?s\<lparr>completions := 0\<rparr>)"
      using R True by (simp_all add: progress_def ctl_def spi_lines_def)
    moreover have "(?l - k + 3) div 4 = 1" using True less.prems(5) by (simp add: burst_size_def)
    ultimately show ?thesis using W R by auto
  next
    case False
    have "?n = 4" "4 < ?l - k" using False less.prems(5) by (simp_all add: burst_size_def)
    then have "?l - (k + ?n) < ?l - k" "(?l - k + 3) div 4 = Suc ((?l - (k + ?n) + 3) div 4)" using less.prems(5) by simp_all
    then show ?thesis
      using less.hyps[of "k + ?n" ?s False] R False less.prems(4-7) W by (simp add: Let_def)
  qed
qed

text \<open>Control alone: the next burst begins, or is over too early.\<close>

lemma irq_ctl:
  fixes s :: "'d nuc970_spi" and env :: "'d spi_env"
  assumes c: "ctl L True f (of_nat n - 1) s" and t: "txnum (pdata s) = of_nat n - 1" and h: "hw_count s = of_nat k"
    and n: "n = burst_size (unat (hw_len s) - k)" and k: "k + n < unat (hw_len s)"
  defines "s' \<equiv> nuc970_spi0_irq env (burst env s)" and "n' \<equiv> burst_size (unat (hw_len s) - (k + n))"
  shows "completions s' = completions s" "hw_count s' = of_nat (k + n)" "hw_len s' = hw_len s" "txnum (pdata s') = of_nat n' - 1"
    "if quick env (Suc (bursts s)) then \<exists>m. ctl L False False m s'
     else bursts s' = Suc (bursts s) \<and> (\<exists>f. ctl L True f (of_nat n' - 1) s')"
proof -
  have 4: "n = 4" using n k by (simp add: burst_size_def min_def split: if_splits)
  note B = burst_regs[OF c refl, of env]
  have T: "unat (txnum (pdata (burst env s)) + 1) = 4" "txnum (pdata s) + 1 = 4" using t by (simp_all add: 4 B(2))
  define u where "u = irq_store (burst env s)"
  obtain m where S: "u = (burst env s)\<lparr>hw_count := of_nat (k + n), mem := m\<rparr>"
  proof (cases "hw_rxbuf s = 0")
    case True
    then show ?thesis using that[of "mem s"] h T by (simp add: u_def irq_store_def Let_def B(2) 4)
  next
    case False
    then show ?thesis using that h T by (simp add: u_def irq_store_def drain_rx_mem Let_def B(2) 4)
  qed
  have U: "ctl L False True 3 u" "txnum (pdata u) = 3" "hw_count u = of_nat (k + n)" "hw_len u = hw_len s" "completions u = completions s"
    "bursts u = Suc (bursts s)"
    using B(1) t unfolding S by (simp_all add: 4 B(2)) (simp add: ctl_def spi_lines_def)
  have "k + n < unat (hw_len u)" using k U(4) by simp
  note M = next_ctl[OF U(1-3) this, of env, folded n'_def, unfolded U(3-6), folded n'_def]
  have b: "busy_bit (irq_next env u)" using M(1) by (simp add: busy_bit_def and_GOBUSY ctl_def)
  note B' = burst_regs[OF M(1) refl, of env]
  have nb: "\<not> busy_bit (burst env (irq_next env u))" using B'(1) by (simp add: busy_bit_def and_GOBUSY ctl_def)
  let ?v = "irq_next env u" and ?w = "burst env (irq_next env u)"
  have I: "s' = (if quick env (Suc (bursts s)) then spi_writel env (regs ?w REG_CNTRL) REG_CNTRL ?w
     else if late env (Suc (bursts s)) then spi_writel env (regs ?v REG_CNTRL) REG_CNTRL (?w\<lparr>bursts := bursts ?v\<rparr>)
     else spi_writel env (regs ?v REG_CNTRL) REG_CNTRL ?v)"
    using b nb M(4) by (simp add: s'_def nuc970_spi0_irq_def Let_def u_def[symmetric])
  show "completions s' = completions s" "hw_count s' = of_nat (k + n)" "hw_len s' = hw_len s" "txnum (pdata s') = of_nat n' - 1"
    unfolding I using M by (simp_all add: writel_cntrl B'(2))
  show "if quick env (Suc (bursts s)) then \<exists>m. ctl L False False m s'
     else bursts s' = Suc (bursts s) \<and> (\<exists>f. ctl L True f (of_nat n' - 1) s')"
  proof (cases "quick env (Suc (bursts s)) \<or> \<not> late env (Suc (bursts s))")
    case True
    then show ?thesis unfolding I using ack_ctl[OF B'(1), of env] ack_ctl[OF M(1), of env] M(4) by (auto simp: writel_cntrl)
  next
    case False
    then show ?thesis unfolding I using repeat_ctl[OF M(1), of env] M(4) by (auto simp: writel_cntrl)
  qed
qed

lemma wait_stuck:
  assumes "completions s = 0" "ctl L False False n s"
  shows "wait_for_completion env s = None"
  using assms by (subst wait_for_completion.simps) (simp add: Let_def busy_bit_def and_GOBUSY and_ENFLG ctl_def)

lemma wait_lost:
  assumes "hw_count s = of_nat k" "txnum (pdata s) = of_nat (burst_size (unat (hw_len s) - k)) - 1"
    "ctl L True f (of_nat (burst_size (unat (hw_len s) - k)) - 1) s"
    "completions s = 0" "0 < i" "k + 4 * i < unat (hw_len s)" "quick env (bursts s + i)"
  shows "wait_for_completion env s = None"
  using assms
proof (induction i arbitrary: k s f)
  case (Suc i)
  let ?l = "unat (hw_len s)"
  let ?n = "burst_size (?l - k)" and ?s = "nuc970_spi0_irq env (burst env s)"
  have n: "?n = 4" "k + ?n < ?l" using Suc.prems(6) by (simp_all add: burst_size_def)
  note R = irq_ctl[OF Suc.prems(3,2,1) refl n(2), of env]
  have W: "wait_for_completion env s = wait_for_completion env ?s" using wait_step[OF Suc.prems(4,3)] .
  show ?case
  proof (cases "quick env (Suc (bursts s))")
    case True
    then show ?thesis using R(1,5) wait_stuck[of ?s L] Suc.prems(4) W by auto
  next
    case False
    then have "i \<noteq> 0" using Suc.prems(7) by (cases i) auto
    then show ?thesis
      using Suc.IH[of ?s "k + 4"] R False Suc.prems(4,6,7) n W by auto
  qed
qed simp

text \<open>The lanes a transfer switches on, and a quiet controller.\<close>

definition lane_bits :: "spi_transfer \<Rightarrow> u32" where
  "lane_bits t =
    (if tx_nbits t AND SPI_NBITS_DUAL \<noteq> 0 then push_bit 20 0x5 else if tx_nbits t AND SPI_NBITS_QUAD \<noteq> 0 then push_bit 20 0x3 else 0)
    OR (if rx_nbits t AND SPI_NBITS_DUAL \<noteq> 0 then push_bit 20 0x4 else if rx_nbits t AND SPI_NBITS_QUAD \<noteq> 0 then push_bit 20 0x2 else 0)"

definition quiet :: "'d nuc970_spi \<Rightarrow> bool" where
  "quiet s \<longleftrightarrow> (\<exists>n. ctl (spi_lines s) False False n s) \<and> completions s = 0"

text \<open>The state a transfer begins with, once the buffers and lanes are set.\<close>

definition begun :: "spi_transfer \<Rightarrow> 'd nuc970_spi \<Rightarrow> 'd nuc970_spi" where
  "begun t s = s\<lparr>hw_txbuf := tx_buf t, hw_rxbuf := rx_buf t, hw_len := t_len t, hw_count := 0,
     regs := (regs s)(REG_CNTRL := regs s REG_CNTRL OR lane_bits t)\<rparr>"

lemma or_cntrl_regs: "\<not> bit (regs s REG_CNTRL OR v) 16 \<Longrightarrow> or_cntrl env v s = s\<lparr>regs := (regs s)(REG_CNTRL := regs s REG_CNTRL OR v)\<rparr>"
proof -
  assume *: "\<not> bit (regs s REG_CNTRL OR v) 16"
  then have "cntrl_after (regs s REG_CNTRL OR v) (regs s REG_CNTRL) = regs s REG_CNTRL OR v"
    by (intro bit_word_eqI) (auto simp: bit_cntrl_after bit_or_iff)
  then show ?thesis by (simp add: or_cntrl_def writel_cntrl)
qed

lemma bit_lanes: "bit (lane_bits t) k \<Longrightarrow> k \<in> {20, 21, 22}"
proof -
  have *: "bit (push_bit 20 (n :: u32)) k \<Longrightarrow> n < 8 \<Longrightarrow> k \<in> {20, 21, 22}" for n
  proof -
    assume a: "bit (push_bit 20 n) k" "n < 8"
    then have "bit n (k - 20)" "20 \<le> k" by (simp_all add: bit_push_bit_iff)
    moreover have "n AND mask 3 = n" using a(2) by (intro less_mask_eq) simp
    ultimately have "bit (n AND mask 3) (k - 20)" by simp
    then show ?thesis using \<open>20 \<le> k\<close> by (auto simp: bit_and_iff bit_mask_iff)
  qed
  show "bit (lane_bits t) k \<Longrightarrow> k \<in> {20, 21, 22}"
    using *[of 5] *[of 3] *[of 4] *[of 2] unfolding lane_bits_def bit_or_iff by (auto split: if_splits simp del: push_bit_numeral)
qed

lemma begun_ctl:
  assumes "quiet s"
  shows "\<exists>n. ctl (spi_lines (begun t s)) False False n (begun t s)" "completions (begun t s) = 0"
proof -
  obtain n where "ctl (spi_lines s) False False n s" using assms by (auto simp: quiet_def)
  then have "ctl (spi_lines (begun t s)) False False (txnum_field (regs s REG_CNTRL OR lane_bits t)) (begun t s)"
    using bit_lanes[of t 0] bit_lanes[of t 16] bit_lanes[of t 17] by (auto simp: ctl_def begun_def bit_or_iff)
  then show "\<exists>n. ctl (spi_lines (begun t s)) False False n (begun t s)" by blast
  show "completions (begun t s) = 0" using assms by (simp add: quiet_def begun_def)
qed

lemma begun_eq:
  fixes s :: "'d nuc970_spi" and t :: spi_transfer and env :: "'d spi_env"
  assumes "quiet s"
  defines "s1 \<equiv> s\<lparr>hw_txbuf := tx_buf t, hw_rxbuf := rx_buf t, hw_len := t_len t, hw_count := 0\<rparr>"
  defines "s2 \<equiv> (if tx_nbits t AND SPI_NBITS_DUAL \<noteq> 0 then or_cntrl env (push_bit 20 0x5) s1
              else if tx_nbits t AND SPI_NBITS_QUAD \<noteq> 0 then or_cntrl env (push_bit 20 0x3) s1 else s1)"
  shows "(if rx_nbits t AND SPI_NBITS_DUAL \<noteq> 0 then or_cntrl env (push_bit 20 0x4) s2
              else if rx_nbits t AND SPI_NBITS_QUAD \<noteq> 0 then or_cntrl env (push_bit 20 0x2) s2 else s2) = begun t s"
proof -
  have "\<not> bit (regs s REG_CNTRL) 16" using assms(1) by (auto simp: quiet_def ctl_def)
  moreover have "\<not> bit (push_bit 20 v :: u32) 16" for v by (simp add: bit_push_bit_iff)
  ultimately have o: "or_cntrl env (push_bit 20 v) u = u\<lparr>regs := (regs u)(REG_CNTRL := regs u REG_CNTRL OR push_bit 20 v)\<rparr>"
    if "u = s1 \<or> (\<exists>w. u = s1\<lparr>regs := (regs s1)(REG_CNTRL := regs s1 REG_CNTRL OR push_bit 20 w)\<rparr>)" for u v
    using that by (intro or_cntrl_regs) (auto simp: bit_or_iff s1_def)
  have s2: "s2 = (if tx_nbits t AND SPI_NBITS_DUAL \<noteq> 0 then s1\<lparr>regs := (regs s1)(REG_CNTRL := regs s1 REG_CNTRL OR push_bit 20 0x5)\<rparr>
              else if tx_nbits t AND SPI_NBITS_QUAD \<noteq> 0 then s1\<lparr>regs := (regs s1)(REG_CNTRL := regs s1 REG_CNTRL OR push_bit 20 0x3)\<rparr> else s1)"
    unfolding s2_def using o[of s1] by (simp del: push_bit_numeral)
  have "s2 = s1 \<or> (\<exists>w. s2 = s1\<lparr>regs := (regs s1)(REG_CNTRL := regs s1 REG_CNTRL OR push_bit 20 w)\<rparr>)"
    unfolding s2 by (simp del: push_bit_numeral) blast
  note o2 = o[OF this]
  show ?thesis
    unfolding o2 unfolding s2 by (simp add: begun_def s1_def lane_bits_def or.assoc del: push_bit_numeral)
qed

lemma begun_lines: "spi_lines (begun t s) = (spi_lines s)\<lparr>l_mode := l_mode (spi_lines s) OR lane_bits t\<rparr>"
proof -
  have "(regs s REG_CNTRL OR lane_bits t) AND MODE_BITS = (regs s REG_CNTRL AND MODE_BITS) OR lane_bits t"
  proof (rule bit_word_eqI)
    fix k show "bit ((regs s REG_CNTRL OR lane_bits t) AND MODE_BITS) k = bit ((regs s REG_CNTRL AND MODE_BITS) OR lane_bits t) k"
      using bit_lanes[of t k] bit_spi_fields(5)[of k] unfolding bit_or_iff bit_and_iff by blast
  qed
  then show ?thesis by (simp add: begun_def spi_lines_def spi_regs)
qed

lemma lanes_away: "(m OR lane_bits t) AND NOT (push_bit 20 0x7) = m AND NOT (push_bit 20 0x7)"
proof (rule bit_word_eqI)
  fix k
  have *: "push_bit 20 0x7 = (BIT 20 OR BIT 21 OR BIT 22 :: u32)" by (simp add: BIT_def)
  show "bit ((m OR lane_bits t) AND NOT (push_bit 20 0x7)) k = bit (m AND NOT (push_bit 20 0x7)) k"
    unfolding * bit_or_iff bit_and_iff bit_not_iff bit_BIT using bit_lanes[of t k] by auto
qed

lemma lanes_off:
  assumes "ctl L False False n s"
  shows "ctl (L\<lparr>l_mode := l_mode L AND NOT (push_bit 20 0x7)\<rparr>) False False n (and_cntrl env (NOT (push_bit 20 0x7)) s)"
    and "and_cntrl env (NOT (push_bit 20 0x7)) s = s\<lparr>regs := (regs s)(REG_CNTRL := regs s REG_CNTRL AND NOT (push_bit 20 0x7))\<rparr>"
proof -
  let ?c = "regs s REG_CNTRL" and ?k = "push_bit 20 0x7 :: u32"
  have k: "bit ?k j \<Longrightarrow> 20 \<le> j \<and> j < 23" for j
  proof -
    have *: "?k = BIT 20 OR BIT 21 OR BIT 22" by (simp add: BIT_def)
    show "bit ?k j \<Longrightarrow> 20 \<le> j \<and> j < 23" unfolding * bit_or_iff bit_BIT by auto
  qed
  have "\<not> bit ?c 16" using assms by (simp add: ctl_def)
  then have "cntrl_after (?c AND NOT ?k) ?c = ?c AND NOT ?k"
    by (intro bit_word_eqI) (auto simp: bit_cntrl_after bit_and_iff)
  then show e: "and_cntrl env (NOT ?k) s = s\<lparr>regs := (regs s)(REG_CNTRL := ?c AND NOT ?k)\<rparr>"
    by (simp add: and_cntrl_def writel_cntrl)
  have b: "bit (?c AND NOT ?k) j = bit ?c j" if "j \<in> {0, 8, 9, 16, 17}" for j
    using that k[of j] by (auto simp: bit_and_iff bit_not_iff)
  have "txnum_field (?c AND NOT ?k) = txnum_field ?c" by (rule txnum_field_eq; rule b; simp)
  moreover have m: "(?c AND NOT ?k) AND MODE_BITS = (?c AND MODE_BITS) AND NOT ?k" by (simp only: and.assoc and.commute)
  ultimately show "ctl (L\<lparr>l_mode := l_mode L AND NOT ?k\<rparr>) False False n (and_cntrl env (NOT ?k) s)"
    unfolding e using assms b[of 0] b[of 16] b[of 17] m
    by (simp add: ctl_def spi_lines_def del: push_bit_numeral) (auto simp: spi_regs)
qed

text \<open>The wait a transfer comes to.\<close>

definition waiting :: "'d spi_env \<Rightarrow> spi_transfer \<Rightarrow> 'd nuc970_spi \<Rightarrow> 'd nuc970_spi" where
  "waiting env t s = (let n = burst_size (unat (t_len t)); s = set_txnum (of_nat n - 1) (nuc970_spi0_setup_txnum env (of_nat n - 1) (begun t s))
     in nuc970_spi0_gobusy env (fill_tx env (unat (txnum (pdata s) + 1)) 0 0 s))"

lemma txrx_waits:
  assumes "quiet s"
  shows "nuc970_spi0_txrx env spi t s = do {
      s \<leftarrow> wait_for_completion env (waiting env t s);
      let s = (if mode spi AND (SPI_TX_DUAL OR SPI_TX_QUAD OR SPI_RX_DUAL OR SPI_RX_QUAD) \<noteq> 0
                then and_cntrl env (NOT (push_bit 20 0x7)) s else s);
      Some (sint (hw_count s), s) }"
proof -
  have hl: "hw_len (begun t s) = t_len t" by (simp add: begun_def)
  have "(if 4 \<le> t_len t then set_txnum 3 (nuc970_spi0_setup_txnum env 3 (begun t s))
     else set_txnum (t_len t - 1) (nuc970_spi0_setup_txnum env (t_len t - 1) (begun t s)))
    = set_txnum (of_nat (burst_size (unat (t_len t))) - 1) (nuc970_spi0_setup_txnum env (of_nat (burst_size (unat (t_len t))) - 1) (begun t s))"
    by (simp add: burst_size_def min_def word_le_nat_alt)
  then show ?thesis
    unfolding nuc970_spi0_txrx_def Let_def begun_eq[OF assms] hl waiting_def by simp
qed

lemma waiting_state:
  assumes "quiet s" "t_len t \<noteq> 0" "ahead (begun t s)"
  defines "n \<equiv> burst_size (unat (t_len t))"
  shows "progress env (begun t s) 0 (waiting env t s)" "loaded (begun t s) 0 n (waiting env t s)"
    "ctl (spi_lines (begun t s)) True False (of_nat n - 1) (waiting env t s)"
    "completions (waiting env t s) = 0" "bursts (waiting env t s) = bursts s"
proof -
  let ?b = "begun t s"
  have "0 < unat (t_len t)" using assms(2) by (simp add: unat_gt_0)
  then have n: "0 < n" "n \<le> 4" "0 + n \<le> unat (hw_len ?b)" by (simp_all add: n_def burst_size_def begun_def)
  obtain m where c: "ctl (spi_lines ?b) False False m ?b" and z: "completions ?b = 0" using begun_ctl[OF assms(1), of t] by blast
  have p: "progress env ?b 0 ?b" by (simp add: progress_def exchanged_def received_def begun_def)
  note 1 = set_number[OF p c n(1,2)]
  have W: "waiting env t s = nuc970_spi0_gobusy env (fill_tx env (unat (txnum (pdata (set_txnum (of_nat n - 1) (nuc970_spi0_setup_txnum env (of_nat n - 1) ?b))) + 1)) 0 (of_nat 0)
      (set_txnum (of_nat n - 1) (nuc970_spi0_setup_txnum env (of_nat n - 1) ?b)))"
    by (simp add: waiting_def n_def Let_def)
  show "progress env ?b 0 (waiting env t s)" "loaded ?b 0 n (waiting env t s)"
    "ctl (spi_lines ?b) True False (of_nat n - 1) (waiting env t s)"
    "completions (waiting env t s) = 0" "bursts (waiting env t s) = bursts s"
    unfolding W using fill_go[OF 1(1) assms(3) 1(2,3) n] 1(4,5) z by (simp_all add: begun_def)
qed

lemma transfer_run:
  assumes "quiet s" "t_len t \<noteq> 0" "ahead (begun t s)" "\<forall>i. \<not> quick env i \<and> \<not> late env i"
  shows "case shift_words env (spi_lines (begun t s)) (spi_words (begun t s)) (slave s) of (rs, d) \<Rightarrow>
    \<exists>s'. nuc970_spi0_txrx env spi t s = Some (sint (t_len t), s')
      \<and> slave s' = d
      \<and> mem s' = (if rx_buf t = 0 then mem s else put_words (width (pdata s)) (rx_buf t) rs (mem s))
      \<and> length rs = unat (t_len t) \<and> bursts s' = bursts s + (unat (t_len t) + 3) div 4
      \<and> pdata s' = (pdata s)\<lparr>txnum := txnum (pdata s')\<rparr>
      \<and> quiet s'
      \<and> spi_lines s' = (if mode spi AND (SPI_TX_DUAL OR SPI_TX_QUAD OR SPI_RX_DUAL OR SPI_RX_QUAD) \<noteq> 0
          then (spi_lines s)\<lparr>l_mode := l_mode (spi_lines s) AND NOT (push_bit 20 0x7)\<rparr>
          else (spi_lines s)\<lparr>l_mode := l_mode (spi_lines s) OR lane_bits t\<rparr>)"
proof -
  let ?b = "begun t s" and ?l = "unat (t_len t)"
  let ?L = "spi_lines ?b"
  have l: "0 < ?l" using assms(2) by (simp add: unat_gt_0)
  have hl: "hw_len ?b = t_len t" by (simp add: begun_def)
  obtain s3 m' where w: "wait_for_completion env (waiting env t s) = Some s3" "progress env ?b ?l s3" "ctl ?L False False m' s3" "completions s3 = 0"
      "bursts s3 = bursts s + (?l + 3) div 4"
    using wait_all[of env ?b 0 "waiting env t s" False] waiting_state[OF assms(1-3), of env] assms(3,4) l by (auto simp: hl)
  let ?q = "mode spi AND (SPI_TX_DUAL OR SPI_TX_QUAD OR SPI_RX_DUAL OR SPI_RX_QUAD) \<noteq> 0"
  let ?s4 = "if ?q then and_cntrl env (NOT (push_bit 20 0x7)) s3 else s3"
  have T: "nuc970_spi0_txrx env spi t s = Some (sint (hw_count ?s4), ?s4)"
    unfolding txrx_waits[OF assms(1)] w(1) by (simp add: Let_def)
  have E: "exchanged env ?b ?l = shift_words env ?L (spi_words ?b) (slave s)"
    by (simp add: exchanged_def hl) (simp add: begun_def)
  have F: "slave ?s4 = slave s3" "mem ?s4 = mem s3" "pdata ?s4 = pdata s3" "hw_count ?s4 = t_len t" "completions ?s4 = 0"
    "bursts ?s4 = bursts s + (?l + 3) div 4"
    using lanes_off(2)[OF w(3), of env] w(2,4,5) by (simp_all add: progress_def del: push_bit_numeral)
  have C: "ctl (if ?q then (spi_lines s)\<lparr>l_mode := l_mode (spi_lines s) AND NOT (push_bit 20 0x7)\<rparr>
      else (spi_lines s)\<lparr>l_mode := l_mode (spi_lines s) OR lane_bits t\<rparr>) False False m' ?s4"
    using lanes_off(1)[OF w(3), of env] w(3) by (simp add: begun_lines lanes_away del: push_bit_numeral)
  moreover have "quiet ?s4" using C F(5) by (auto simp: quiet_def ctl_def)
  moreover have "length (fst (exchanged env ?b ?l)) = ?l" using length_exchanged[of ?l ?b env] by (simp add: hl)
  ultimately show ?thesis
    using w(2) F T E by (simp add: progress_def received_def split_beta ctl_def) (simp add: begun_def)
qed

text \<open>C4. A transfer.  From a quiet controller, for a transfer of non-zero length whose received words do not overwrite words
  still to be sent, and when no burst ends while the interrupt routine that started it is still running,
  \<open>nuc970_spi0_txrx\<close> exchanges with the devices exactly the words of the transfer, as many as its length says, in order,
  whatever the length, in bursts of four words and a last one with the rest.  The words that come back lie in the
  receive buffer in order, nothing else in memory changes, the number returned is the length, and the controller is
  quiet again; the lanes are switched back to one when the device has dual or quad lanes.\<close>

theorem spi_transfer_ok:
  assumes "quiet s" "t_len t \<noteq> 0" "ahead (begun t s)" "\<forall>i. \<not> quick env i \<and> \<not> late env i"
  shows "case shift_words env (spi_lines (begun t s)) (spi_words (begun t s)) (slave s) of (rs, d) \<Rightarrow>
    \<exists>s'. nuc970_spi0_txrx env spi t s = Some (sint (t_len t), s')
      \<and> slave s' = d
      \<and> mem s' = (if rx_buf t = 0 then mem s else put_words (width (pdata s)) (rx_buf t) rs (mem s))
      \<and> length rs = unat (t_len t) \<and> bursts s' = bursts s + (unat (t_len t) + 3) div 4
      \<and> pdata s' = (pdata s)\<lparr>txnum := txnum (pdata s')\<rparr>
      \<and> quiet s'
      \<and> spi_lines s' = (if mode spi AND (SPI_TX_DUAL OR SPI_TX_QUAD OR SPI_RX_DUAL OR SPI_RX_QUAD) \<noteq> 0
          then (spi_lines s)\<lparr>l_mode := l_mode (spi_lines s) AND NOT (push_bit 20 0x7)\<rparr>
          else (spi_lines s)\<lparr>l_mode := l_mode (spi_lines s) OR lane_bits t\<rparr>)"
  by (rule transfer_run[OF assms])

text \<open>C18. An interrupt lost.  The routine ends by reading the control register and writing the value back, which clears an interrupt flag that was
  set when it was read.  When a burst the routine has started is over before that read, its interrupt is gone: the
  transfer never ends.\<close>

theorem spi_interrupt_lost:
  assumes "quiet s" "t_len t \<noteq> 0" "ahead (begun t s)" "0 < i" "4 * i < unat (t_len t)" "quick env (bursts s + i)"
  shows "nuc970_spi0_txrx env spi t s = None"
proof -
  have "hw_len (begun t s) = t_len t" by (simp add: begun_def)
  then have "wait_for_completion env (waiting env t s) = None"
    using wait_lost[of "waiting env t s" 0 "spi_lines (begun t s)" False i env] waiting_state[OF assms(1-3), of env] assms(4-6)
    by (simp add: progress_def loaded_def)
  then show ?thesis by (simp add: txrx_waits[OF assms(1)])
qed

section \<open>Settings\<close>

lemma writel_plain:
  assumes "\<not> bit (regs s REG_CNTRL) 16" "\<not> bit v 16"
  shows "spi_writel env v REG_CNTRL s = s\<lparr>regs := (regs s)(REG_CNTRL := v)\<rparr>"
proof -
  have "cntrl_after v (regs s REG_CNTRL) = v" using assms by (intro bit_word_eqI) (auto simp: bit_cntrl_after)
  then show ?thesis by (simp add: writel_cntrl)
qed

definition put_bit32 :: "bool \<Rightarrow> u32 \<Rightarrow> u32 \<Rightarrow> u32" where
  "put_bit32 b m v = (if b then v OR m else v AND NOT m)"

definition length_field :: "u32 \<Rightarrow> u32 \<Rightarrow> u32" where
  "length_field n v = (if n \<noteq> 32 then v AND NOT 0xf8 OR push_bit 3 n else v AND NOT 0xf8)"

text \<open>The control register after the settings of a device are written.\<close>

definition settings :: "nuc970_spi_info \<Rightarrow> u32 \<Rightarrow> u32" where
  "settings p c = put_bit32 (lsb p \<noteq> 0) LSB (put_bit32 (clkpol p \<noteq> 0) SELECTPOL (put_bit32 (rxneg p \<noteq> 0) RXNEG
     (put_bit32 (txneg p \<noteq> 0) TXNEG (length_field (txbitlen p) c))))"

lemma bit_line_masks: "bit LSB k \<longleftrightarrow> k = 10" "bit SELECTPOL k \<longleftrightarrow> k = 31" "bit RXNEG k \<longleftrightarrow> k = 1" "bit TXNEG k \<longleftrightarrow> k = 2"
  "bit (0xf8 :: u32) k \<longleftrightarrow> k \<in> {3, 4, 5, 6, 7}"
proof -
  have *: "LSB = BIT 10" "SELECTPOL = BIT 31" "RXNEG = BIT 1" "TXNEG = BIT 2" "(0xf8 :: u32) = BIT 3 OR BIT 4 OR BIT 5 OR BIT 6 OR BIT 7"
    by (simp_all add: LSB_def SELECTPOL_def RXNEG_def TXNEG_def BIT_def)
  show "bit LSB k \<longleftrightarrow> k = 10" "bit SELECTPOL k \<longleftrightarrow> k = 31" "bit RXNEG k \<longleftrightarrow> k = 1" "bit TXNEG k \<longleftrightarrow> k = 2"
    "bit (0xf8 :: u32) k \<longleftrightarrow> k \<in> {3, 4, 5, 6, 7}"
    unfolding * bit_or_iff bit_BIT by auto
qed

lemma bit_put_bit32: "k < 32 \<Longrightarrow> bit (put_bit32 b m v) k \<longleftrightarrow> (if bit m k then b else bit v k)"
  by (simp add: put_bit32_def bit_or_iff bit_and_iff bit_not_iff)

lemma bit_less32: "(n :: u32) < 32 \<Longrightarrow> bit n j \<Longrightarrow> j < 5"
proof (rule ccontr)
  assume *: "n < 32" "bit n j" "\<not> j < 5"
  have "n AND mask 5 = n" using *(1) by (intro less_mask_eq) simp
  then have "bit (n AND mask 5) j" using *(2) by simp
  then show False using *(3) by (simp add: bit_and_iff bit_mask_iff)
qed

lemma bit_length_field:
  assumes "n \<le> 32" "k < 32"
  shows "bit (length_field n v) k \<longleftrightarrow> (if k \<in> {3, 4, 5, 6, 7} then n \<noteq> 32 \<and> bit n (k - 3) else bit v k)"
proof (cases "n = 32")
  case False
  then have "n < 32" using assms(1) by simp
  then have "bit n (k - 3) \<Longrightarrow> 3 \<le> k \<Longrightarrow> k \<in> {3, 4, 5, 6, 7}" using bit_less32[of n "k - 3"] by auto
  moreover have e: "length_field n v = v AND NOT 0xf8 OR push_bit 3 n" using False by (simp only: length_field_def if_True simp_thms)
  ultimately show ?thesis
    using False assms(2) unfolding e bit_or_iff bit_and_iff bit_not_iff bit_push_bit_iff bit_line_masks(5) by auto
next
  case True
  then have e: "length_field n v = v AND NOT 0xf8" by (simp only: length_field_def if_False simp_thms)
  show ?thesis using True assms(2) unfolding e bit_and_iff bit_not_iff bit_line_masks(5) by auto
qed

lemma bit_settings:
  assumes "txbitlen p \<le> 32" "k < 32"
  shows "bit (settings p c) k \<longleftrightarrow> (if k = 10 then lsb p \<noteq> 0 else if k = 31 then clkpol p \<noteq> 0 else if k = 1 then rxneg p \<noteq> 0
     else if k = 2 then txneg p \<noteq> 0 else if k \<in> {3, 4, 5, 6, 7} then txbitlen p \<noteq> 32 \<and> bit (txbitlen p) (k - 3) else bit c k)"
  using assms by (simp add: settings_def bit_put_bit32 bit_line_masks(1-4) bit_length_field)

lemma setting_writes:
  "nuc970_spi0_setup_txbitlen env n s = spi_writel env (length_field n (regs s REG_CNTRL)) REG_CNTRL s"
  "nuc970_tx_edge env n s = spi_writel env (put_bit32 (n \<noteq> 0) TXNEG (regs s REG_CNTRL)) REG_CNTRL s"
  "nuc970_rx_edge env n s = spi_writel env (put_bit32 (n \<noteq> 0) RXNEG (regs s REG_CNTRL)) REG_CNTRL s"
  "nuc970_set_clock_polarity env n s = spi_writel env (put_bit32 (n \<noteq> 0) SELECTPOL (regs s REG_CNTRL)) REG_CNTRL s"
  "nuc970_send_first env n s = spi_writel env (put_bit32 (n \<noteq> 0) LSB (regs s REG_CNTRL)) REG_CNTRL s"
  by (simp_all add: nuc970_spi0_setup_txbitlen_def nuc970_tx_edge_def nuc970_rx_edge_def nuc970_set_clock_polarity_def
      nuc970_send_first_def length_field_def put_bit32_def Let_def)

text \<open>A setting that leaves the flag alone only changes the control register.\<close>

lemma put_bit32_16: "\<not> bit m 16 \<Longrightarrow> bit (put_bit32 b m v) 16 = bit v 16"
  by (simp add: bit_put_bit32)

lemma setupxfer_regs:
  fixes s :: "'d nuc970_spi" and env :: "'d spi_env" and spi :: spi_device
  assumes "\<not> bit (regs s REG_CNTRL) 16" "bits_per_word t \<le> 32"
  defines "p \<equiv> pdata (snd (nuc970_spi0_update_state env spi (Some t) s))"
  shows "nuc970_spi0_setupxfer env spi (Some t) s = (0, s\<lparr>pdata := p, regs := (regs s)(REG_CNTRL := settings p (regs s REG_CNTRL))\<rparr>)"
proof -
  have tb: "txbitlen p = ucast (bits_per_word t)" by (simp add: p_def nuc970_spi0_update_state_def Let_def)
  have le: "txbitlen p \<le> 32"
    using assms(2) unfolding tb word_le_nat_alt by (simp add: unsigned_ucast_eq take_bit_nat_eq_self)
  have u: "nuc970_spi0_update_state env spi (Some t) s = (0, s\<lparr>pdata := p\<rparr>)"
    by (simp add: p_def nuc970_spi0_update_state_def Let_def)
  have l: "bit (length_field (txbitlen p) v) 16 = bit v 16" for v using le by (simp add: bit_length_field)
  show ?thesis
    using assms(1)
    by (simp add: nuc970_spi0_setupxfer_def u Let_def setting_writes writel_plain l put_bit32_16 bit_line_masks(1-4) settings_def)
qed

lemma unat_ucast8 [simp]: "unat (ucast (x :: u8) :: u32) = unat x"
  by (simp add: uint_up_ucast is_up flip: nat_uint_eq)

lemma setup_lines:
  assumes "quiet s" "bits_per_word t \<le> 32"
  shows "case nuc970_spi0_setupxfer env spi (Some t) s of (ret, s') \<Rightarrow>
    ret = 0 \<and> quiet s' \<and> mem s' = mem s \<and> slave s' = slave s
    \<and> (\<forall>k<32. bit (regs s' REG_CNTRL) k =
        (if k = 31 then mode spi AND SPI_CPOL \<noteq> 0
         else if k = 10 then mode spi AND SPI_LSB_FIRST \<noteq> 0
         else if k = 2 then mode spi AND 0xff \<in> {0, 2}
         else if k = 1 then mode spi AND 0xff \<notin> {0, 2}
         else if k \<in> {3, 4, 5, 6, 7} then bits_per_word t \<noteq> 32 \<and> bit (bits_per_word t) (k - 3)
         else bit (regs s REG_CNTRL) k))
    \<and> (\<forall>a. a \<noteq> REG_CNTRL \<longrightarrow> regs s' a = regs s a)
    \<and> txbitlen (pdata s') = ucast (bits_per_word t)"
proof -
  let ?p = "pdata (snd (nuc970_spi0_update_state env spi (Some t) s))" and ?c = "regs s REG_CNTRL"
  obtain n where c: "ctl (spi_lines s) False False n s" and z: "completions s = 0" using assms(1) by (auto simp: quiet_def)
  have p: "txbitlen ?p = ucast (bits_per_word t)" "(lsb ?p \<noteq> 0) = (mode spi AND SPI_LSB_FIRST \<noteq> 0)"
    "(clkpol ?p \<noteq> 0) = (mode spi AND SPI_CPOL \<noteq> 0)" "(txneg ?p \<noteq> 0) = (mode spi AND 0xff \<in> {0, 2})"
    "(rxneg ?p \<noteq> 0) = (mode spi AND 0xff \<notin> {0, 2})"
    by (auto simp: nuc970_spi0_update_state_def Let_def)
  have le: "txbitlen ?p \<le> 32"
    using assms(2) unfolding p(1) word_le_nat_alt by simp
  have n32: "txbitlen ?p = 32 \<longleftrightarrow> bits_per_word t = 32"
    unfolding p(1) word_unat_eq_iff by simp
  have l: "bit (txbitlen ?p) j = bit (bits_per_word t) j" for j
    unfolding p(1) by (auto simp: bit_ucast_iff dest: bit_imp_le_length)
  note b = bit_settings[OF le, unfolded p(2-5) n32 l]
  have S: "nuc970_spi0_setupxfer env spi (Some t) s = (0, s\<lparr>pdata := ?p, regs := (regs s)(REG_CNTRL := settings ?p ?c)\<rparr>)"
    using c by (intro setupxfer_regs assms(2)) (simp add: ctl_def)
  have "quiet (s\<lparr>pdata := ?p, regs := (regs s)(REG_CNTRL := settings ?p ?c)\<rparr>)"
    using c z by (simp add: quiet_def ctl_def b)
  then show ?thesis unfolding S using b p(1) by simp
qed

text \<open>C27. The lines a device gets.  \<open>nuc970_spi0_setupxfer\<close> puts the word length, the clock polarity and the bit order of the device and the
  transfer on the lines; the data edges are those of mode 0 and 2 exactly when the low byte of the mode is 0 or 2, so an active high chip
  select or the bit order in the same byte already give the other edges.  The chip select, the divider and all other bits stay: the
  speed of the transfer does not reach the controller.\<close>

theorem spi_device_lines:
  assumes "quiet s" "bits_per_word t \<le> 32"
  shows "case nuc970_spi0_setupxfer env spi (Some t) s of (ret, s') \<Rightarrow>
    ret = 0 \<and> quiet s' \<and> mem s' = mem s \<and> slave s' = slave s
    \<and> (\<forall>k<32. bit (regs s' REG_CNTRL) k =
        (if k = 31 then mode spi AND SPI_CPOL \<noteq> 0
         else if k = 10 then mode spi AND SPI_LSB_FIRST \<noteq> 0
         else if k = 2 then mode spi AND 0xff \<in> {0, 2}
         else if k = 1 then mode spi AND 0xff \<notin> {0, 2}
         else if k \<in> {3, 4, 5, 6, 7} then bits_per_word t \<noteq> 32 \<and> bit (bits_per_word t) (k - 3)
         else bit (regs s REG_CNTRL) k))
    \<and> (\<forall>a. a \<noteq> REG_CNTRL \<longrightarrow> regs s' a = regs s a)
    \<and> txbitlen (pdata s') = ucast (bits_per_word t)"
  by (rule setup_lines[OF assms])

text \<open>Words of more than eight bits.  The length of a transfer counts bytes, but the driver exchanges that many words whatever
  their size: with words of two bytes, every word is stored two bytes behind the one before, so that the words of the
  second half of the transfer lie behind the receive buffer of \<open>t_len\<close> bytes.\<close>

lemma put_words_at:
  "w = 2 \<Longrightarrow> i < length rs \<Longrightarrow> unat a + 2 * length rs \<le> 2 ^ 32 \<Longrightarrow>
     put_words w a rs m (a + 2 * of_nat i) = ucast (rs ! i) \<and> put_words w a rs m (a + 2 * of_nat i + 1) = ucast (drop_bit 8 (rs ! i))"
proof (induction rs arbitrary: i rule: rev_induct)
  case (snoc r rs)
  let ?b = "a + 2 * of_nat (length rs)"
  have P: "put_words w a (rs @ [r]) m = store16 ?b r (put_words w a rs m)"
    using snoc.prems(1) by (simp add: put_words_append store_word_def)
  show ?case
  proof (cases "i < length rs")
    case False
    then have "i = length rs" using snoc.prems(2) by simp
    then show ?thesis unfolding P by (simp add: store16_def nth_append)
  next
    case True
    have u: "a + of_nat j \<noteq> a + of_nat j'" if "j < j'" "j' < 2 * length rs + 2" for j j'
    proof -
      have "unat (a + of_nat j) = unat a + j" "unat (a + of_nat j') = unat a + j'"
        using that snoc.prems(3) by (intro unat_add_small; simp)+
      then show ?thesis using that(1) by (metis add_left_cancel less_irrefl)
    qed
    have "a + 2 * of_nat i \<notin> {?b, ?b + 1}" "a + 2 * of_nat i + 1 \<notin> {?b, ?b + 1}"
      using u[of "2 * i" "2 * length rs"] u[of "2 * i" "Suc (2 * length rs)"]
        u[of "Suc (2 * i)" "2 * length rs"] u[of "Suc (2 * i)" "Suc (2 * length rs)"] True by (simp_all add: algebra_simps)
    then show ?thesis using snoc.IH[of i] snoc.prems True unfolding P by (simp add: store16_def nth_append)
  qed
qed simp

theorem spi_wide_overrun:
  assumes "quiet s" "t_len t \<noteq> 0" "ahead (begun t s)" "\<forall>i. \<not> quick env i \<and> \<not> late env i" "rx_buf t \<noteq> 0"
    "8 < sint (txbitlen (pdata s))" "sint (txbitlen (pdata s)) \<le> 16" "unat (rx_buf t) + 2 * unat (t_len t) \<le> 2 ^ 32"
  defines "rs \<equiv> fst (shift_words env (spi_lines (begun t s)) (spi_words (begun t s)) (slave s))"
  shows "\<exists>s'. nuc970_spi0_txrx env spi t s = Some (sint (t_len t), s') \<and> length rs = unat (t_len t)
    \<and> (\<forall>i < unat (t_len t). mem s' (rx_buf t + 2 * of_nat i) = ucast (rs ! i)
        \<and> mem s' (rx_buf t + 2 * of_nat i + 1) = ucast (drop_bit 8 (rs ! i)))"
proof -
  obtain s' where s': "nuc970_spi0_txrx env spi t s = Some (sint (t_len t), s')" "mem s' = put_words 2 (rx_buf t) rs (mem s)"
    "length rs = unat (t_len t)"
    using transfer_run[OF assms(1-4), of spi] assms(5-7) by (auto simp: width_def rs_def split_beta)
  then show ?thesis using put_words_at[of 2 _ rs "rx_buf t" "mem s"] assms(8) by auto
qed

lemma round_up_bounds:
  assumes "0 < f" "0 < c" "d + 1 = (c + 2 * f - 1) div (2 * f)"
  shows "c \<le> 2 * (d + 1) * f" "2 * d * f < (c :: nat)"
proof -
  have "(d + 1) * (2 * f) \<le> c + 2 * f - 1" unfolding assms(3) by (rule div_times_less_eq_dividend)
  then have "2 * d * f + 2 * f \<le> c + 2 * f - 1" by (simp add: algebra_simps)
  then show "2 * d * f < c" using assms(2) by linarith
  have "c + 2 * f - 1 < 2 * f + (d + 1) * (2 * f)"
    unfolding assms(3) using assms(1) dividend_less_div_times[of "2 * f" "c + 2 * f - 1"] by simp
  then show "c \<le> 2 * (d + 1) * f" using assms(1) by (simp add: algebra_simps)
qed

text \<open>The clock.  After \<open>nuc970_spi0_setup\<close> on an idle bus the divider is the smallest one whose clock is not faster than
  the device allows.\<close>

theorem spi_clock_bound:
  assumes "max_speed_hz spi \<noteq> 0" "unat (clk_rate env) + 2 * unat (max_speed_hz spi) < 2 ^ 32" "clk_rate env \<noteq> 0"
    "hz (pdata s) = max_speed_hz spi \<longrightarrow> divider (pdata s) = DIV_ROUND_UP (clk_rate env) (max_speed_hz spi * 2) - 1"
  shows "case nuc970_spi0_setup env False spi s of (ret, s') \<Rightarrow> ret = 0
    \<and> unat (clk_rate env) \<le> 2 * (unat (regs s' REG_DIVIDER) + 1) * unat (max_speed_hz spi)
    \<and> 2 * unat (regs s' REG_DIVIDER) * unat (max_speed_hz spi) < unat (clk_rate env)"
proof -
  let ?c = "unat (clk_rate env)" and ?f = "unat (max_speed_hz spi)" and ?D = "DIV_ROUND_UP (clk_rate env) (max_speed_hz spi * 2)"
  have pos: "0 < ?f" "0 < ?c" using assms(1,3) by (simp_all add: unat_gt_0)
  have f2: "unat (max_speed_hz spi * 2) = 2 * ?f" using assms(2) by (subst unat_mult_lem[THEN iffD1]) simp_all
  have s1: "unat (clk_rate env + max_speed_hz spi * 2) = ?c + 2 * ?f"
    using assms(2) f2 by (subst unat_add_lem[THEN iffD1]) simp_all
  have "unat (clk_rate env + max_speed_hz spi * 2 - 1) = ?c + 2 * ?f - 1"
    using s1 pos by (subst unat_minus_one) auto
  then have D: "unat ?D = (?c + 2 * ?f - 1) div (2 * ?f)" by (simp add: DIV_ROUND_UP_def unat_div f2)
  moreover have "1 \<le> (?c + 2 * ?f - 1) div (2 * ?f)" using pos by (simp add: div_greater_zero_iff Suc_le_eq)
  ultimately have D1: "unat (?D - 1) + 1 = (?c + 2 * ?f - 1) div (2 * ?f)" by (subst unat_minus_one) auto
  note round_up_bounds[OF pos D1]
  moreover have "divider (pdata (snd (nuc970_spi0_update_state env spi None s))) = ?D - 1"
    using assms(4) by (simp add: nuc970_spi0_update_state_def Let_def)
  moreover have "fst (nuc970_spi0_update_state env spi None s) = 0" by (simp add: nuc970_spi0_update_state_def Let_def)
  ultimately show ?thesis
    by (simp add: nuc970_spi0_setup_def split_beta nuc970_slave_select_def nuc970_set_divider_def spi_writel_def spi_regs Let_def)
qed

section \<open>A concrete bus\<close>

text \<open>A device that answers every word with its successor and keeps a record, a memory in which every byte is its address, and the
  settings of the board.\<close>

definition echo_bus :: "(nat \<Rightarrow> bool) \<Rightarrow> u32 list spi_env" where
  "echo_bus q = \<lparr>shift = (\<lambda>L w d. (w + 1, d @ [w])), ssr_changed = (\<lambda>v d. d), quick = q, late = (\<lambda>_. False), clk_rate = 75000000\<rparr>"

definition nuc970_spi0_platform_data :: nuc970_spi_info where
  "nuc970_spi0_platform_data = \<lparr>num_cs = 2, lsb = 0, txneg = 1, rxneg = 0, divider = 4, sleep = 0, txnum = 0, txbitlen = 8,
     bus_num = 0, hz = 0, clkpol = 0\<rparr>"

definition spi0 :: "u32 list nuc970_spi" where
  "spi0 = \<lparr>regs = (\<lambda>a. if a = REG_CNTRL then ENINT else 0), mem = (\<lambda>a. ucast a), slave = [], bursts = 0, completions = 0,
     hw_len = 0, hw_count = 0, hw_txbuf = 0, hw_rxbuf = 0, pdata = nuc970_spi0_platform_data\<rparr>"

definition xfer6 :: spi_transfer where
  "xfer6 = \<lparr>tx_buf = 0x20, rx_buf = 0x80, t_len = 6, cs_change = False, tx_nbits = 1, rx_nbits = 1, bits_per_word = 8, speed_hz = 15000000\<rparr>"

definition m25p80_board :: spi_device where
  "m25p80_board = \<lparr>max_speed_hz = 15000000, chip_select = 0, dev_bits = 8, mode = SPI_MODE_0 OR SPI_RX_DUAL OR SPI_TX_DUAL\<rparr>"

lemma spi0_quiet: "quiet (spi0\<lparr>pdata := p\<rparr>)"
  by (simp add: quiet_def ctl_def spi0_def ENINT_def)

lemma spi0_ahead: "ahead (begun xfer6 (spi0\<lparr>pdata := p\<rparr>))"
  using width_cases[of p] by (intro ahead_below) (auto simp: begun_def spi0_def xfer6_def)

lemma xfer6_words: "spi_words (begun xfer6 spi0) = [0x20, 0x21, 0x22, 0x23, 0x24, 0x25]"
  by (simp add: spi_words_def begun_def spi0_def xfer6_def hw_tx_def nuc970_spi0_platform_data_def Let_def upt_rec)

lemma spi0_self [simp]: "spi0\<lparr>pdata := pdata spi0\<rparr> = spi0"
  by simp

lemma echo_words: "shift_words (echo_bus q) L ws d = (map (\<lambda>w. w + 1) ws, d @ ws)"
  by (induction ws arbitrary: d) (simp_all add: echo_bus_def Let_def)

lemma spi0_fields: "slave spi0 = []" "mem spi0 a = ucast a" "width (pdata spi0) = 1"
  by (simp_all add: spi0_def nuc970_spi0_platform_data_def width_def)

lemma xfer6_fields: "t_len xfer6 = 6" "rx_buf xfer6 = 0x80" "bits_per_word xfer6 = 8"
  by (simp_all add: xfer6_def)

theorem spi_transfer_ok_witness:
  "\<exists>s'. nuc970_spi0_txrx (echo_bus (\<lambda>_. False)) m25p80_board xfer6 spi0 = Some (6, s')
     \<and> slave s' = [0x20, 0x21, 0x22, 0x23, 0x24, 0x25] \<and> map (mem s') [0x80, 0x81, 0x85, 0x86] = [0x21, 0x22, 0x26, 0x86]"
proof -
  have "\<forall>i. \<not> quick (echo_bus (\<lambda>_. False)) i \<and> \<not> late (echo_bus (\<lambda>_. False)) i" by (simp add: echo_bus_def)
  from spi_transfer_ok[OF spi0_quiet[of "pdata spi0", simplified] _ spi0_ahead[of "pdata spi0", simplified] this, of m25p80_board]
  show ?thesis by (auto simp: xfer6_words xfer6_fields spi0_fields echo_words store_word_def simp del: shift_words.simps)
qed

theorem spi_interrupt_lost_witness:
  "nuc970_spi0_txrx (echo_bus (\<lambda>k. k = 1)) m25p80_board xfer6 spi0 = None"
  using spi_interrupt_lost[of spi0 xfer6 1 "echo_bus (\<lambda>k. k = 1)" m25p80_board] spi0_quiet[of "pdata spi0"] spi0_ahead[of "pdata spi0"]
  by (simp add: xfer6_def echo_bus_def) (simp add: spi0_def)

theorem spi_device_lines_witness:
  "quiet spi0 \<and> bits_per_word xfer6 \<le> 32 \<and>
   (case nuc970_spi0_setupxfer (echo_bus (\<lambda>_. False)) (m25p80_board\<lparr>mode := SPI_MODE_0 OR SPI_CS_HIGH\<rparr>) (Some xfer6) spi0 of (ret, s') \<Rightarrow>
      \<not> bit (regs s' REG_CNTRL) 2 \<and> bit (regs s' REG_CNTRL) 1 \<and> regs s' REG_DIVIDER = 0)"
  using spi_device_lines[of spi0 xfer6 "m25p80_board\<lparr>mode := SPI_MODE_0 OR SPI_CS_HIGH\<rparr>" "echo_bus (\<lambda>_. False)"] spi0_quiet[of "pdata spi0"]
  by (simp add: xfer6_def split_beta m25p80_board_def) (simp add: spi0_def spi_regs)

theorem spi_wide_overrun_witness:
  "\<exists>s'. nuc970_spi0_txrx (echo_bus (\<lambda>_. False)) m25p80_board xfer6 (spi0\<lparr>pdata := nuc970_spi0_platform_data\<lparr>txbitlen := 16\<rparr>\<rparr>) = Some (6, s')
     \<and> mem s' (0x80 + 10) = 0x2b \<and> mem s' (0x80 + 11) = 0x2b"
proof -
  let ?s = "spi0\<lparr>pdata := nuc970_spi0_platform_data\<lparr>txbitlen := 16\<rparr>\<rparr>"
  have "spi_words (begun xfer6 ?s) = [0x2120, 0x2322, 0x2524, 0x2726, 0x2928, 0x2b2a]"
    by (simp add: spi_words_def begun_def spi0_def xfer6_def hw_tx_def mem16_def nuc970_spi0_platform_data_def Let_def upt_rec)
  then have w: "fst (shift_words (echo_bus (\<lambda>_. False)) L (spi_words (begun xfer6 ?s)) d) = [0x2121, 0x2323, 0x2525, 0x2727, 0x2929, 0x2b2b]" for L d
    by (simp add: echo_words del: shift_words.simps)
  have "\<forall>i. \<not> quick (echo_bus (\<lambda>_. False)) i \<and> \<not> late (echo_bus (\<lambda>_. False)) i" by (simp add: echo_bus_def)
  from spi_wide_overrun[OF spi0_quiet _ spi0_ahead this, of "nuc970_spi0_platform_data\<lparr>txbitlen := 16\<rparr>" m25p80_board]
  obtain s' where s': "nuc970_spi0_txrx (echo_bus (\<lambda>_. False)) m25p80_board xfer6 ?s = Some (6, s')"
    "\<forall>i < 6. mem s' (0x80 + 2 * of_nat i) = ucast ([0x2121, 0x2323, 0x2525, 0x2727, 0x2929, 0x2b2b] ! i :: u32)
       \<and> mem s' (0x80 + 2 * of_nat i + 1) = ucast (drop_bit 8 ([0x2121, 0x2323, 0x2525, 0x2727, 0x2929, 0x2b2b] ! i :: u32))"
    unfolding w by (auto simp: xfer6_def)
  from s'(2)[rule_format, of 5] s'(1) show ?thesis by simp
qed

theorem spi_clock_bound_witness:
  "case nuc970_spi0_setup (echo_bus (\<lambda>_. False)) False m25p80_board spi0 of (ret, s') \<Rightarrow> ret = 0 \<and>
     75000000 \<le> 2 * (unat (regs s' REG_DIVIDER) + 1) * 15000000 \<and> 2 * unat (regs s' REG_DIVIDER) * 15000000 < 75000000"
  using spi_clock_bound[of m25p80_board "echo_bus (\<lambda>_. False)" spi0]
  by (simp add: m25p80_board_def echo_bus_def spi0_def nuc970_spi0_platform_data_def split_beta)

end
