(* ===== verification/Spi_Core.thy ===== *)
theory Spi_Core
  imports Spi
begin

text \<open>
  The way of a message from a driver to the controller: the core of \<open>src/drivers/spi/spi.c\<close> (checks, synchronous and asynchronous
  transfers, \<open>spi_write_then_read\<close>) and the queue runner of \<open>src/drivers/spi/spi-bitbang.c\<close>, for a controller that
  brings its own transfer routine.  The queue runner works on any controller given by its four functions; the locale
  \<open>bitbang_driver\<close> states what it needs of them, and the functions of the SPI controller of the board are an instance.

  The worker thread runs when a caller waits for its message.  Delays are left out.
\<close>

section \<open>The queue runner\<close>

record spi_message =
  m_spi :: spi_device
  transfers :: "spi_transfer list"
  m_status :: int
  actual_length :: u32

record 's bitbang =
  setup_transfer :: "spi_device \<Rightarrow> spi_transfer option \<Rightarrow> 's \<Rightarrow> int \<times> 's"
  chipselect :: "spi_device \<Rightarrow> bitbang_cs \<Rightarrow> 's \<Rightarrow> 's"
  txrx_bufs :: "spi_device \<Rightarrow> spi_transfer \<Rightarrow> 's \<Rightarrow> (int \<times> 's) option"
  master_setup :: "bool \<Rightarrow> spi_device \<Rightarrow> 's \<Rightarrow> int \<times> 's"

record 's spi_master =
  drv :: 's
  bb_busy :: bool
  queue :: "spi_message list"
  bus_lock_flag :: bool
  mode_bits :: u16
  master_flags :: u32
  bits_per_word_mask :: u32

text \<open>The transfers of one message: the status, whether the chip select is to change, and the number of bytes so far.\<close>

fun bitbang_transfers :: "'s bitbang \<Rightarrow> spi_device \<Rightarrow> spi_transfer list \<Rightarrow> int \<Rightarrow> bool \<Rightarrow> int \<Rightarrow> u32 \<Rightarrow> 's
    \<Rightarrow> (int \<times> bool \<times> u32 \<times> 's) option" where
  "bitbang_transfers ops spi [] do_setup cs_chg stat actual s = Some (stat, cs_chg, actual, s)"
| "bitbang_transfers ops spi (t # ts) do_setup cs_chg stat actual s =
    (let do_setup = (if speed_hz t \<noteq> 0 \<or> bits_per_word t \<noteq> 0 then 1 else do_setup);
         (stat, s) = (if do_setup \<noteq> 0 then setup_transfer ops spi (Some t) s else (stat, s))
     in if do_setup \<noteq> 0 \<and> stat < 0 then Some (stat, cs_chg, actual, s)
        else
         (let do_setup = (if do_setup = - 1 then 0 else do_setup);
              s = (if cs_chg then chipselect ops spi BITBANG_CS_ACTIVE s else s);
              cs_chg = cs_change t
          in if tx_buf t = 0 \<and> rx_buf t = 0 \<and> t_len t \<noteq> 0 then Some (- eno EINVAL, cs_chg, actual, s)
             else do {
               (stat, s) \<leftarrow> (if t_len t \<noteq> 0 then txrx_bufs ops spi t s else Some (stat, s));
               let actual = (if stat > 0 then actual + word_of_int stat else actual);
               if word_of_int stat \<noteq> t_len t then Some (if stat \<ge> 0 then - eno EREMOTEIO else stat, cs_chg, actual, s)
               else bitbang_transfers ops spi ts do_setup cs_chg 0 actual
                      (if cs_chg \<and> ts \<noteq> [] then chipselect ops spi BITBANG_CS_INACTIVE s else s) }))"

definition bitbang_message :: "'s bitbang \<Rightarrow> spi_message \<Rightarrow> 's \<Rightarrow> (spi_message \<times> 's) option" where
  "bitbang_message ops m s = do {
     (stat, cs_chg, actual, s) \<leftarrow> bitbang_transfers ops (m_spi m) (transfers m) (- 1) True 0 (actual_length m) s;
     let s = (if \<not> (stat = 0 \<and> cs_chg) then chipselect ops (m_spi m) BITBANG_CS_INACTIVE s else s);
     Some (m\<lparr>m_status := stat, actual_length := actual\<rparr>, s) }"

fun bitbang_queue :: "'s bitbang \<Rightarrow> spi_message list \<Rightarrow> 's \<Rightarrow> (spi_message list \<times> 's) option" where
  "bitbang_queue ops [] s = Some ([], s)"
| "bitbang_queue ops (m # ms) s = do {
     (m, s) \<leftarrow> bitbang_message ops m s;
     (ms, s) \<leftarrow> bitbang_queue ops ms s;
     Some (m # ms, s) }"

text \<open>The worker empties the queue; the messages are returned in the order of their completion.\<close>

definition bitbang_work :: "'s bitbang \<Rightarrow> 's spi_master \<Rightarrow> (spi_message list \<times> 's spi_master) option" where
  "bitbang_work ops M = do {
     let M = M\<lparr>bb_busy := True\<rparr>;
     (ms, s) \<leftarrow> bitbang_queue ops (queue M) (drv M);
     Some (ms, M\<lparr>drv := s, queue := [], bb_busy := False\<rparr>) }"

definition spi_bitbang_transfer :: "spi_device \<Rightarrow> spi_message \<Rightarrow> 's spi_master \<Rightarrow> int \<times> spi_message \<times> 's spi_master" where
  "spi_bitbang_transfer spi m M =
    (let m = m\<lparr>actual_length := 0, m_status := - eno EINPROGRESS\<rparr>
     in if max_speed_hz spi = 0 then (- eno ENETDOWN, m, M)
        else (0, m, M\<lparr>queue := queue M @ [m]\<rparr>))"

section \<open>The core\<close>

definition spi_setup :: "'s bitbang \<Rightarrow> spi_device \<Rightarrow> 's spi_master \<Rightarrow> int \<times> spi_device \<times> 's spi_master" where
  "spi_setup ops spi M =
    (if mode spi AND SPI_TX_DUAL \<noteq> 0 \<and> mode spi AND SPI_TX_QUAD \<noteq> 0
        \<or> mode spi AND SPI_RX_DUAL \<noteq> 0 \<and> mode spi AND SPI_RX_QUAD \<noteq> 0 then (- eno EINVAL, spi, M)
     else if mode spi AND SPI_3WIRE \<noteq> 0
        \<and> mode spi AND (SPI_TX_DUAL OR SPI_TX_QUAD OR SPI_RX_DUAL OR SPI_RX_QUAD) \<noteq> 0 then (- eno EINVAL, spi, M)
     else if mode spi AND NOT (mode_bits M) \<noteq> 0 then (- eno EINVAL, spi, M)
     else (let spi = (if dev_bits spi = 0 then spi\<lparr>dev_bits := 8\<rparr> else spi);
               (stat, s) = master_setup ops (bb_busy M) spi (drv M)
           in (stat, spi, M\<lparr>drv := s\<rparr>)))"

abbreviation SPI_MASTER_HALF_DUPLEX :: u32 where "SPI_MASTER_HALF_DUPLEX \<equiv> 1"
abbreviation SPI_MASTER_NO_RX :: u32 where "SPI_MASTER_NO_RX \<equiv> 2"
abbreviation SPI_MASTER_NO_TX :: u32 where "SPI_MASTER_NO_TX \<equiv> 4"

text \<open>The checks of one transfer: the defaults of the device, the word length, the number of lanes.\<close>

definition xfer_defaults :: "spi_device \<Rightarrow> spi_transfer \<Rightarrow> spi_transfer" where
  "xfer_defaults spi x =
    (let x = (if bits_per_word x = 0 then x\<lparr>bits_per_word := dev_bits spi\<rparr> else x)
     in if speed_hz x = 0 then x\<lparr>speed_hz := max_speed_hz spi\<rparr> else x)"

definition bits_refused :: "u32 \<Rightarrow> spi_transfer \<Rightarrow> bool" where
  "bits_refused msk x \<longleftrightarrow> msk \<noteq> 0 \<and> (bits_per_word x > 32 \<or> msk AND BIT (unat (bits_per_word x) - 1) = 0)"

definition xfer_lanes :: "spi_transfer \<Rightarrow> spi_transfer" where
  "xfer_lanes x =
    (let x = (if tx_buf x \<noteq> 0 \<and> tx_nbits x = 0 then x\<lparr>tx_nbits := SPI_NBITS_SINGLE\<rparr> else x)
     in if rx_buf x \<noteq> 0 \<and> rx_nbits x = 0 then x\<lparr>rx_nbits := SPI_NBITS_SINGLE\<rparr> else x)"

definition lanes_refused :: "u16 \<Rightarrow> u8 \<Rightarrow> u16 \<Rightarrow> u16 \<Rightarrow> bool" where
  "lanes_refused md n dual quad \<longleftrightarrow>
     n \<noteq> SPI_NBITS_SINGLE \<and> n \<noteq> SPI_NBITS_DUAL \<and> n \<noteq> SPI_NBITS_QUAD
     \<or> n = SPI_NBITS_DUAL \<and> md AND (dual OR quad) = 0
     \<or> n = SPI_NBITS_QUAD \<and> md AND quad = 0
     \<or> md AND SPI_3WIRE \<noteq> 0 \<and> n \<noteq> SPI_NBITS_SINGLE"

definition xfer_refused :: "spi_device \<Rightarrow> spi_transfer \<Rightarrow> bool" where
  "xfer_refused spi x \<longleftrightarrow>
     tx_buf x \<noteq> 0 \<and> lanes_refused (mode spi) (tx_nbits x) SPI_TX_DUAL SPI_TX_QUAD
     \<or> rx_buf x \<noteq> 0 \<and> lanes_refused (mode spi) (rx_nbits x) SPI_RX_DUAL SPI_RX_QUAD"

fun async_transfers :: "u32 \<Rightarrow> spi_device \<Rightarrow> spi_transfer list \<Rightarrow> int \<times> spi_transfer list" where
  "async_transfers msk spi [] = (0, [])"
| "async_transfers msk spi (x # xs) =
    (let x = xfer_defaults spi x
     in if bits_refused msk x then (- eno EINVAL, x # xs)
        else (let x = xfer_lanes x
              in if xfer_refused spi x then (- eno EINVAL, x # xs)
                 else (let (r, ys) = async_transfers msk spi xs in (r, x # ys))))"

definition half_duplex_refused :: "u32 \<Rightarrow> spi_transfer \<Rightarrow> bool" where
  "half_duplex_refused fl x \<longleftrightarrow> rx_buf x \<noteq> 0 \<and> tx_buf x \<noteq> 0
     \<or> fl AND SPI_MASTER_NO_TX \<noteq> 0 \<and> tx_buf x \<noteq> 0 \<or> fl AND SPI_MASTER_NO_RX \<noteq> 0 \<and> rx_buf x \<noteq> 0"

text \<open>\<open>__spi_async\<close>.\<close>

definition spi_async_unlocked :: "spi_device \<Rightarrow> spi_message \<Rightarrow> 's spi_master \<Rightarrow> int \<times> spi_message \<times> 's spi_master" where
  "spi_async_unlocked spi m M =
    (if (master_flags M AND SPI_MASTER_HALF_DUPLEX \<noteq> 0 \<or> mode spi AND SPI_3WIRE \<noteq> 0)
        \<and> list_ex (half_duplex_refused (master_flags M)) (transfers m) then (- eno EINVAL, m, M)
     else (let (r, xs) = async_transfers (bits_per_word_mask M) spi (transfers m);
               m = m\<lparr>transfers := xs\<rparr>
           in if r \<noteq> 0 then (r, m, M)
              else spi_bitbang_transfer spi (m\<lparr>m_spi := spi, m_status := - eno EINPROGRESS\<rparr>) M))"

definition spi_async :: "spi_device \<Rightarrow> spi_message \<Rightarrow> 's spi_master \<Rightarrow> int \<times> spi_message \<times> 's spi_master" where
  "spi_async spi m M = (if bus_lock_flag M then (- eno EBUSY, m, M) else spi_async_unlocked spi m M)"

definition spi_async_locked :: "spi_device \<Rightarrow> spi_message \<Rightarrow> 's spi_master \<Rightarrow> int \<times> spi_message \<times> 's spi_master" where
  "spi_async_locked spi m M = spi_async_unlocked spi m M"

text \<open>\<open>__spi_sync\<close>: the caller sleeps until the worker has completed its message, the last one of the queue.\<close>

definition spi_sync :: "'s bitbang \<Rightarrow> spi_device \<Rightarrow> spi_message \<Rightarrow> 's spi_master \<Rightarrow> (int \<times> spi_message \<times> 's spi_master) option" where
  "spi_sync ops spi m M =
    (let (stat, m, M) = spi_async_locked spi m M
     in if stat = 0 then do {
          (ms, M) \<leftarrow> bitbang_work ops M;
          Some (m_status (last ms), last ms, M) }
        else Some (stat, m, M))"

definition spi_bus_lock :: "'s spi_master \<Rightarrow> int \<times> 's spi_master" where
  "spi_bus_lock M = (0, M\<lparr>bus_lock_flag := True\<rparr>)"

definition spi_bus_unlock :: "'s spi_master \<Rightarrow> int \<times> 's spi_master" where
  "spi_bus_unlock M = (0, M\<lparr>bus_lock_flag := False\<rparr>)"

section \<open>The controller of the board\<close>

definition nuc970_bitbang :: "'d spi_env \<Rightarrow> 'd nuc970_spi bitbang" where
  "nuc970_bitbang env = \<lparr>setup_transfer = nuc970_spi0_setupxfer env, chipselect = nuc970_spi0_chipsel env,
     txrx_bufs = nuc970_spi0_txrx env, master_setup = nuc970_spi0_setup env\<rparr>"

text \<open>Copying between a buffer and the memory.\<close>

fun put_bytes :: "u32 \<Rightarrow> u8 list \<Rightarrow> (u32 \<Rightarrow> u8) \<Rightarrow> u32 \<Rightarrow> u8" where
  "put_bytes a [] m = m"
| "put_bytes a (b # bs) m = put_bytes (a + 1) bs (m(a := b))"

definition get_bytes :: "u32 \<Rightarrow> nat \<Rightarrow> (u32 \<Rightarrow> u8) \<Rightarrow> u8 list" where
  "get_bytes a n m = map (\<lambda>i. m (a + of_nat i)) [0..<n]"

definition on_mem :: "((u32 \<Rightarrow> u8) \<Rightarrow> u32 \<Rightarrow> u8) \<Rightarrow> 'd nuc970_spi spi_master \<Rightarrow> 'd nuc970_spi spi_master" where
  "on_mem f M = M\<lparr>drv := (drv M)\<lparr>mem := f (mem (drv M))\<rparr>\<rparr>"

definition SPI_BUFSIZ :: nat where "SPI_BUFSIZ = 32"

text \<open>What \<open>spi_write_then_read\<close> finds: the address of its buffer, whether the lock of that buffer is free, and what \<open>kmalloc\<close> returns.\<close>

record wtr_env =
  wtr_buf :: u32
  wtr_lock :: bool
  wtr_kmalloc :: u32

definition no_xfer :: spi_transfer where
  "no_xfer = \<lparr>tx_buf = 0, rx_buf = 0, t_len = 0, cs_change = False, tx_nbits = 0, rx_nbits = 0, bits_per_word = 0, speed_hz = 0\<rparr>"

definition spi_write_then_read :: "wtr_env \<Rightarrow> 'd spi_env \<Rightarrow> spi_device \<Rightarrow> u8 list \<Rightarrow> nat \<Rightarrow> 'd nuc970_spi spi_master
    \<Rightarrow> (int \<times> u8 list \<times> 'd nuc970_spi spi_master) option" where
  "spi_write_then_read ce env spi txbuf n_rx M =
    (let n_tx = length txbuf;
         alloc = (n_tx + n_rx > SPI_BUFSIZ \<or> \<not> wtr_lock ce);
         local_buf = (if alloc then wtr_kmalloc ce else wtr_buf ce)
     in if alloc \<and> local_buf = 0 then Some (- eno ENOMEM, [], M)
        else (let x0 = no_xfer\<lparr>t_len := of_nat n_tx, tx_buf := local_buf\<rparr>;
                  x1 = no_xfer\<lparr>t_len := of_nat n_rx, rx_buf := local_buf + of_nat n_tx\<rparr>;
                  ts = (if n_tx \<noteq> 0 then [x0] else []) @ (if n_rx \<noteq> 0 then [x1] else []);
                  M = on_mem (put_bytes local_buf txbuf) M
              in do {
                (stat, m, M) \<leftarrow> spi_sync (nuc970_bitbang env) spi \<lparr>m_spi = spi, transfers = ts, m_status = 0, actual_length = 0\<rparr> M;
                Some (stat, if stat = 0 then get_bytes (local_buf + of_nat n_tx) n_rx (mem (drv M)) else [], M) }))"

section \<open>What the queue runner needs of a controller\<close>

text \<open>\<open>ok b\<close>: the controller can take a transfer, with the device selected (\<open>b\<close>) or not; \<open>view\<close> is the part of its state that the
  transfers are about.  On it a transfer is \<open>move\<close>, selecting the device \<open>on\<close>, deselecting \<open>off\<close>.  The queue is idle when nothing waits in it.\<close>

definition idle :: "(bool \<Rightarrow> 's \<Rightarrow> bool) \<Rightarrow> 's spi_master \<Rightarrow> bool" where
  "idle ok M \<longleftrightarrow> queue M = [] \<and> \<not> bb_busy M \<and> master_flags M = 0 \<and> bits_per_word_mask M = 0 \<and> ok False (drv M)"

locale bitbang_driver =
  fixes ops :: "'s bitbang" and spi :: spi_device and ok :: "bool \<Rightarrow> 's \<Rightarrow> bool" and view :: "'s \<Rightarrow> 'v"
    and move :: "spi_transfer \<Rightarrow> 'v \<Rightarrow> 'v" and on :: "'v \<Rightarrow> 'v" and off :: "'v \<Rightarrow> 'v" and plain :: "spi_transfer \<Rightarrow> bool"
  assumes first: "ok False s \<Longrightarrow> plain t \<Longrightarrow>
      \<exists>s1 s2. setup_transfer ops spi (Some t) s = (0, s1)
        \<and> txrx_bufs ops spi t (chipselect ops spi BITBANG_CS_ACTIVE s1) = Some (sint (t_len t), s2)
        \<and> ok True s2 \<and> view s2 = move t (on (view s))"
    and nxt: "ok True s \<Longrightarrow> plain t \<Longrightarrow>
      \<exists>s1 s2. setup_transfer ops spi (Some t) s = (0, s1) \<and> txrx_bufs ops spi t s1 = Some (sint (t_len t), s2)
        \<and> ok True s2 \<and> view s2 = move t (view s)"
    and last: "ok True s \<Longrightarrow> ok False (chipselect ops spi BITBANG_CS_INACTIVE s)
        \<and> view (chipselect ops spi BITBANG_CS_INACTIVE s) = off (view s)"
    and plain: "plain t \<Longrightarrow> t_len t \<noteq> 0 \<and> 0 < sint (t_len t) \<and> (tx_buf t \<noteq> 0 \<or> rx_buf t \<noteq> 0) \<and> \<not> cs_change t
        \<and> (speed_hz t \<noteq> 0 \<or> bits_per_word t \<noteq> 0)"
begin

lemma next_transfers:
  assumes "ok True s" "\<forall>t \<in> set ts. plain t"
  shows "\<exists>s'. bitbang_transfers ops spi ts ds False 0 a s = Some (0, False, a + sum_list (map t_len ts), s')
    \<and> ok True s' \<and> view s' = fold move ts (view s)"
  using assms
proof (induction ts arbitrary: ds a s)
  case (Cons t ts)
  have p: "plain t" using Cons.prems(2) by simp
  obtain s1 s2 where "setup_transfer ops spi (Some t) s = (0, s1)" "txrx_bufs ops spi t s1 = Some (sint (t_len t), s2)"
    "ok True s2" "view s2 = move t (view s)" using nxt[OF Cons.prems(1) p] by blast
  moreover obtain s' where "bitbang_transfers ops spi ts 1 False 0 (a + t_len t) s2 = Some (0, False, a + t_len t + sum_list (map t_len ts), s')"
    "ok True s'" "view s' = fold move ts (view s2)" using Cons.IH[OF calculation(3)] Cons.prems(2) by force
  ultimately show ?case using plain[OF p] by (simp add: Let_def add.assoc)
qed simp

lemma message:
  assumes "ok False s" "\<forall>t \<in> set (transfers m). plain t" "transfers m \<noteq> []" "m_spi m = spi"
  shows "\<exists>s'. bitbang_message ops m s = Some (m\<lparr>m_status := 0, actual_length := actual_length m + sum_list (map t_len (transfers m))\<rparr>, s')
    \<and> ok False s' \<and> view s' = off (fold move (transfers m) (on (view s)))"
proof -
  obtain t ts where ts: "transfers m = t # ts" using assms(3) by (cases "transfers m") auto
  have p: "plain t" using assms(2) ts by simp
  obtain s1 s2 where 1: "setup_transfer ops spi (Some t) s = (0, s1)"
    "txrx_bufs ops spi t (chipselect ops spi BITBANG_CS_ACTIVE s1) = Some (sint (t_len t), s2)"
    "ok True s2" "view s2 = move t (on (view s))" using first[OF assms(1) p] by blast
  obtain s3 where 2: "bitbang_transfers ops spi ts 1 False 0 (actual_length m + t_len t) s2
      = Some (0, False, actual_length m + t_len t + sum_list (map t_len ts), s3)"
    "ok True s3" "view s3 = fold move ts (view s2)" using next_transfers[OF 1(3)] assms(2) ts by force
  have "bitbang_transfers ops spi (transfers m) (- 1) True 0 (actual_length m) s
      = Some (0, False, actual_length m + sum_list (map t_len (transfers m)), s3)"
    using plain[OF p] 1 2 by (simp add: ts Let_def add.assoc)
  then show ?thesis using last[OF 2(2)] 1(4) 2(3) assms(4) ts by (simp add: bitbang_message_def)
qed

text \<open>A message from an idle queue: it goes through when the checks of the core let its transfers pass.\<close>

lemma sync:
  assumes "idle ok M" "mode spi AND SPI_3WIRE = 0" "max_speed_hz spi \<noteq> 0" "async_transfers 0 spi (transfers m) = (0, ts)"
    "\<forall>t \<in> set ts. plain t" "ts \<noteq> []"
  shows "\<exists>M' m'. spi_sync ops spi m M = Some (0, m', M') \<and> idle ok M' \<and> M' = M\<lparr>drv := drv M'\<rparr>
    \<and> m' = m\<lparr>m_spi := spi, transfers := ts, m_status := 0, actual_length := sum_list (map t_len ts)\<rparr>
    \<and> view (drv M') = off (fold move ts (on (view (drv M))))"
proof -
  let ?m = "m\<lparr>transfers := ts, m_spi := spi, m_status := - eno EINPROGRESS, actual_length := 0\<rparr>"
  have a: "spi_async_locked spi m M = (0, ?m, M\<lparr>queue := [?m]\<rparr>)"
    using assms(1-4) by (simp add: spi_async_locked_def spi_async_unlocked_def spi_bitbang_transfer_def idle_def Let_def)
  obtain s' where "bitbang_message ops ?m (drv M) = Some (?m\<lparr>m_status := 0, actual_length := sum_list (map t_len ts)\<rparr>, s')"
    "ok False s'" "view s' = off (fold move ts (on (view (drv M))))"
    using message[of "drv M" ?m] assms(1,5,6) by (auto simp: idle_def)
  then show ?thesis using assms(1) a by (simp add: spi_sync_def bitbang_work_def idle_def)
qed

end

section \<open>The controller of the board as an instance\<close>

text \<open>The control bits of a device with words of \<open>b\<close> bits on one lane, and the chip select register with the device selected and
  not.\<close>

definition mode_word :: "spi_device \<Rightarrow> u8 \<Rightarrow> u32" where
  "mode_word spi b = put_bit32 (mode spi AND SPI_LSB_FIRST \<noteq> 0) LSB (put_bit32 (mode spi AND SPI_CPOL \<noteq> 0) SELECTPOL
     (put_bit32 (mode spi AND 0xff \<notin> {0, 2}) RXNEG (put_bit32 (mode spi AND 0xff \<in> {0, 2}) TXNEG (length_field (ucast b) 0))))"

definition ssr_off :: "spi_device \<Rightarrow> u32" where
  "ssr_off spi = (if mode spi AND SPI_CS_HIGH \<noteq> 0 then SELECTLEV else 0)"

definition ssr_on :: "spi_device \<Rightarrow> u32" where
  "ssr_on spi = ssr_off spi OR (if chip_select spi = 0 then SELECTSLAVE0 else SELECTSLAVE1)"

definition dev_line :: "spi_device \<Rightarrow> u32 \<Rightarrow> u8 \<Rightarrow> spi_line" where
  "dev_line spi dv b = \<lparr>l_mode = mode_word spi b, l_divider = dv, l_ssr = ssr_on spi\<rparr>"

text \<open>A transfer in one direction of words of up to eight bits on one lane.\<close>

definition simplex :: "spi_transfer \<Rightarrow> bool" where
  "simplex t \<longleftrightarrow> bits_per_word t \<in> {1..8} \<and> t_len t \<noteq> 0 \<and> 0 < sint (t_len t) \<and> (tx_buf t = 0) \<noteq> (rx_buf t = 0)
     \<and> \<not> cs_change t \<and> tx_nbits t \<in> {0, 1} \<and> rx_nbits t \<in> {0, 1}"

definition spi_ok :: "'d spi_env \<Rightarrow> spi_device \<Rightarrow> u32 \<Rightarrow> bool \<Rightarrow> 'd nuc970_spi \<Rightarrow> bool" where
  "spi_ok env spi dv b s \<longleftrightarrow> quiet s \<and> (\<forall>i. \<not> quick env i \<and> \<not> late env i) \<and> (\<forall>k \<in> {20, 21, 22}. \<not> bit (regs s REG_CNTRL) k)
     \<and> regs s REG_DIVIDER = dv \<and> regs s REG_SSR = (if b then ssr_on spi else ssr_off spi)"

definition spi_view :: "'d nuc970_spi \<Rightarrow> (u32 \<Rightarrow> u8) \<times> 'd" where
  "spi_view s = (mem s, slave s)"

definition xfer_words :: "spi_transfer \<Rightarrow> (u32 \<Rightarrow> u8) \<Rightarrow> u32 list" where
  "xfer_words t m = (if tx_buf t = 0 then replicate (unat (t_len t)) 0xffffffff else map ucast (get_bytes (tx_buf t) (unat (t_len t)) m))"

definition spi_move :: "'d spi_env \<Rightarrow> spi_device \<Rightarrow> u32 \<Rightarrow> spi_transfer \<Rightarrow> (u32 \<Rightarrow> u8) \<times> 'd \<Rightarrow> (u32 \<Rightarrow> u8) \<times> 'd" where
  "spi_move env spi dv t = (\<lambda>(m, d).
     let (rs, d) = shift_words env (dev_line spi dv (bits_per_word t)) (xfer_words t m) d
     in (if rx_buf t = 0 then m else put_bytes (rx_buf t) (map ucast rs) m, d))"

definition spi_select :: "'d spi_env \<Rightarrow> u32 \<Rightarrow> (u32 \<Rightarrow> u8) \<times> 'd \<Rightarrow> (u32 \<Rightarrow> u8) \<times> 'd" where
  "spi_select env v = (\<lambda>(m, d). (m, ssr_changed env v d))"

lemma put_words_bytes: "put_words 1 a rs m = put_bytes a (map ucast rs) m"
  by (induction rs arbitrary: a m) (simp_all add: store_word_def)

lemma bits8_width: "b \<in> {1..8} \<Longrightarrow> txbitlen p = ucast (b :: u8) \<Longrightarrow> width p = 1"
proof -
  assume *: "b \<in> {1..8}" "txbitlen p = ucast b"
  then have u: "uint (txbitlen p) \<le> 8" by (simp add: uint_up_ucast is_up word_le_def)
  have "sint (txbitlen p) = uint (txbitlen p)"
    unfolding sint_uint by (rule signed_take_bit_int_eq_self) (use u in \<open>simp_all add: order_trans[OF _ unsigned_greater_eq]\<close>)
  then have "sint (txbitlen p) \<le> 8" using u by simp
  then show ?thesis by (simp add: width_def)
qed

lemma bit_mode_word:
  assumes "b \<le> 32"
  shows "bit (mode_word spi b) k \<longleftrightarrow> (if k = 10 then mode spi AND SPI_LSB_FIRST \<noteq> 0 else if k = 31 then mode spi AND SPI_CPOL \<noteq> 0
     else if k = 1 then mode spi AND 0xff \<notin> {0, 2} else if k = 2 then mode spi AND 0xff \<in> {0, 2}
     else k \<in> {3, 4, 5, 6, 7} \<and> b \<noteq> 32 \<and> bit b (k - 3))"
proof (cases "k < 32")
  case True
  have "(ucast b :: u32) \<le> 32" "(ucast b :: u32) = 32 \<longleftrightarrow> b = 32" using assms by (simp_all add: word_le_nat_alt word_unat_eq_iff)
  moreover have "bit (ucast b :: u32) j = bit b j" for j by (auto simp: bit_ucast_iff dest: bit_imp_le_length)
  ultimately show ?thesis using True by (simp add: mode_word_def bit_put_bit32 bit_line_masks(1-4) bit_length_field)
next
  case False then show ?thesis using bit_imp_le_length[of "mode_word spi b" k] by auto
qed

lemma setupxfer_ok:
  assumes "spi_ok env spi dv b s" "simplex t"
  shows "\<exists>s1. nuc970_spi0_setupxfer env spi (Some t) s = (0, s1) \<and> spi_ok env spi dv b s1 \<and> spi_view s1 = spi_view s
    \<and> regs s1 REG_CNTRL AND MODE_BITS = mode_word spi (bits_per_word t) \<and> width (pdata s1) = 1"
proof -
  have q: "quiet s" and b: "bits_per_word t \<le> 32" "bits_per_word t \<in> {1..8}"
    using assms by (auto simp: spi_ok_def simplex_def word_le_nat_alt)
  obtain s1 where s1: "nuc970_spi0_setupxfer env spi (Some t) s = (0, s1)"
    by (cases "nuc970_spi0_setupxfer env spi (Some t) s") (use setup_lines[OF q b(1), of spi env] in auto)
  note L = setup_lines[OF q b(1), of spi env, unfolded s1, simplified]
  have "regs s1 REG_CNTRL AND MODE_BITS = mode_word spi (bits_per_word t)"
  proof (rule bit_word_eqI)
    fix k assume "k < LENGTH(32)"
    then show "bit (regs s1 REG_CNTRL AND MODE_BITS) k = bit (mode_word spi (bits_per_word t)) k"
      using L assms(1) b(2) unfolding bit_and_iff bit_spi_fields bit_mode_word[OF b(1)] by (auto simp: spi_ok_def)
  qed
  moreover have "spi_ok env spi dv b s1" using L assms(1) by (auto simp: spi_ok_def spi_regs)
  ultimately show ?thesis using L s1 bits8_width[OF b(2)] by (auto simp: spi_view_def)
qed

lemma slave_select_ok:
  assumes "spi_ok env spi dv b s"
  shows "spi_ok env spi dv c (nuc970_slave_select env spi (of_bool c) s)"
    "spi_view (nuc970_slave_select env spi (of_bool c) s) = spi_select env (if c then ssr_on spi else ssr_off spi) (spi_view s)"
    "regs (nuc970_slave_select env spi (of_bool c) s) REG_CNTRL = regs s REG_CNTRL"
    "pdata (nuc970_slave_select env spi (of_bool c) s) = pdata s"
proof -
  let ?v = "if c then ssr_on spi else ssr_off spi"
  have "regs s REG_SSR = (if b then ssr_on spi else ssr_off spi)" using assms by (simp add: spi_ok_def)
  then have S: "nuc970_slave_select env spi (of_bool c) s = s\<lparr>regs := (regs s)(REG_SSR := ?v), slave := ssr_changed env ?v (slave s)\<rparr>"
    by (cases b; cases c; cases "chip_select spi = 0"; cases "mode spi AND SPI_CS_HIGH = 0";
        simp add: nuc970_slave_select_def ssr_on_def ssr_off_def SELECTLEV_def SELECTSLAVE0_def SELECTSLAVE1_def spi_writel_def Let_def; simp add: spi_regs)
  show "spi_ok env spi dv c (nuc970_slave_select env spi (of_bool c) s)"
    unfolding S using assms by (simp add: spi_ok_def quiet_def ctl_def) (simp add: spi_regs)
  show "spi_view (nuc970_slave_select env spi (of_bool c) s) = spi_select env ?v (spi_view s)"
    "regs (nuc970_slave_select env spi (of_bool c) s) REG_CNTRL = regs s REG_CNTRL"
    "pdata (nuc970_slave_select env spi (of_bool c) s) = pdata s"
    unfolding S by (simp_all add: spi_view_def spi_select_def) (simp_all add: spi_regs)
qed

lemma txrx_ok:
  assumes "spi_ok env spi dv True s" "simplex t" "regs s REG_CNTRL AND MODE_BITS = mode_word spi (bits_per_word t)" "width (pdata s) = 1"
  shows "\<exists>s'. nuc970_spi0_txrx env spi t s = Some (sint (t_len t), s') \<and> spi_ok env spi dv True s' \<and> spi_view s' = spi_move env spi dv t (spi_view s)"
proof -
  have q: "quiet s" "t_len t \<noteq> 0" "\<forall>i. \<not> quick env i \<and> \<not> late env i" and one: "(tx_buf t = 0) \<noteq> (rx_buf t = 0)"
    using assms(1,2) by (simp_all add: spi_ok_def simplex_def)
  have a: "ahead (begun t s)" using one by (auto simp: ahead_def begun_def)
  have lane: "lane_bits t = 0" using assms(2) by (auto simp: simplex_def lane_bits_def)
  have l20: "l_mode (spi_lines s) AND NOT (push_bit 20 0x7) = l_mode (spi_lines s)"
  proof (rule bit_word_eqI)
    fix k
    have *: "push_bit 20 0x7 = (BIT 20 OR BIT 21 OR BIT 22 :: u32)" by (simp add: BIT_def)
    show "bit (l_mode (spi_lines s) AND NOT (push_bit 20 0x7)) k = bit (l_mode (spi_lines s)) k"
      unfolding * bit_or_iff bit_and_iff bit_not_iff bit_BIT using assms(1)
      by (auto simp: spi_ok_def spi_lines_def bit_and_iff dest: bit_imp_le_length)
  qed
  have L: "spi_lines s = dev_line spi dv (bits_per_word t)" using assms(1,3) by (simp add: spi_lines_def dev_line_def spi_ok_def)
  have W: "spi_words (begun t s) = xfer_words t (mem s)"
    using assms(4) by (auto simp: spi_words_def xfer_words_def hw_tx_word begun_def load_word_def get_bytes_def map_replicate_const)
  obtain rs d where sw: "shift_words env (dev_line spi dv (bits_per_word t)) (xfer_words t (mem s)) (slave s) = (rs, d)" by fastforce
  obtain s' where s': "nuc970_spi0_txrx env spi t s = Some (sint (t_len t), s')" "slave s' = d" "quiet s'" "spi_lines s' = spi_lines s"
    "mem s' = (if rx_buf t = 0 then mem s else put_bytes (rx_buf t) (map ucast rs) (mem s))"
    using transfer_run[OF q(1,2) a q(3), of spi] sw assms(4)
    by (auto simp: begun_lines lane W L[symmetric] l20 put_words_bytes[simplified] split: if_splits simp del: push_bit_numeral)
  have "regs s' REG_CNTRL AND MODE_BITS = regs s REG_CNTRL AND MODE_BITS" "regs s' REG_DIVIDER = regs s REG_DIVIDER" "regs s' REG_SSR = regs s REG_SSR"
    using s'(4) by (simp_all add: spi_lines_def)
  moreover have "bit (regs s' REG_CNTRL) k = bit (regs s REG_CNTRL) k" if "k \<in> {20, 21, 22}" for k
    using calculation(1) that bit_and_iff[of "regs s' REG_CNTRL" MODE_BITS k] bit_and_iff[of "regs s REG_CNTRL" MODE_BITS k] bit_spi_fields(5)[of k] by auto
  ultimately have "spi_ok env spi dv True s'" using assms(1) s'(3) by (simp add: spi_ok_def)
  then show ?thesis using s' sw by (simp add: spi_view_def spi_move_def)
qed

interpretation nb: bitbang_driver "nuc970_bitbang env" spi "spi_ok env spi dv" spi_view "spi_move env spi dv"
    "spi_select env (ssr_on spi)" "spi_select env (ssr_off spi)" simplex for env spi dv
proof
  fix s :: "'a nuc970_spi" and t :: spi_transfer
  show "\<exists>s1 s2. setup_transfer (nuc970_bitbang env) spi (Some t) s = (0, s1)
      \<and> txrx_bufs (nuc970_bitbang env) spi t (chipselect (nuc970_bitbang env) spi BITBANG_CS_ACTIVE s1) = Some (sint (t_len t), s2)
      \<and> spi_ok env spi dv True s2 \<and> spi_view s2 = spi_move env spi dv t (spi_select env (ssr_on spi) (spi_view s))"
    if a: "spi_ok env spi dv False s" "simplex t"
  proof -
    obtain s1 where s1: "nuc970_spi0_setupxfer env spi (Some t) s = (0, s1)" "spi_ok env spi dv False s1" "spi_view s1 = spi_view s"
      "regs s1 REG_CNTRL AND MODE_BITS = mode_word spi (bits_per_word t)" "width (pdata s1) = 1" using setupxfer_ok[OF a] by blast
    note sel = slave_select_ok[OF s1(2), of True]
    show ?thesis using txrx_ok[OF sel(1) a(2)] sel(2-4) s1 by (simp add: nuc970_bitbang_def)
  qed
  show "\<exists>s1 s2. setup_transfer (nuc970_bitbang env) spi (Some t) s = (0, s1)
      \<and> txrx_bufs (nuc970_bitbang env) spi t s1 = Some (sint (t_len t), s2)
      \<and> spi_ok env spi dv True s2 \<and> spi_view s2 = spi_move env spi dv t (spi_view s)"
    if "spi_ok env spi dv True s" "simplex t"
    using setupxfer_ok[OF that] txrx_ok[OF _ that(2)] by (fastforce simp: nuc970_bitbang_def)
  show "spi_ok env spi dv False (chipselect (nuc970_bitbang env) spi BITBANG_CS_INACTIVE s)
      \<and> spi_view (chipselect (nuc970_bitbang env) spi BITBANG_CS_INACTIVE s) = spi_select env (ssr_off spi) (spi_view s)"
    if "spi_ok env spi dv True s"
    using slave_select_ok[OF that, of False] by (simp add: nuc970_bitbang_def)
  show "t_len t \<noteq> 0 \<and> 0 < sint (t_len t) \<and> (tx_buf t \<noteq> 0 \<or> rx_buf t \<noteq> 0) \<and> \<not> cs_change t \<and> (speed_hz t \<noteq> 0 \<or> bits_per_word t \<noteq> 0)"
    if "simplex t"
    using that by (auto simp: simplex_def)
qed

section \<open>Messages through the queue\<close>

text \<open>C26. A message.  From an idle queue on a controller that is quiet and none of whose bursts ends while the interrupt routine that
  started it is running, \<open>spi_sync\<close> of a message with at least one transfer, whose transfers, as the core completes them, are not empty and
  go one way on one lane in words of up to eight bits without letting the device go, selects the device, exchanges the words of all transfers in order without letting it go in between, and deselects it; the
  message has status 0 and the sum of the lengths, and the queue is idle again.\<close>

theorem spi_message_ok:
  assumes "idle (spi_ok env spi dv) M" "mode spi AND SPI_3WIRE = 0" "max_speed_hz spi \<noteq> 0"
    and "async_transfers 0 spi (transfers m) = (0, ts)" "\<forall>t \<in> set ts. simplex t" "ts \<noteq> []"
  shows "\<exists>M' m'. spi_sync (nuc970_bitbang env) spi m M = Some (0, m', M') \<and> idle (spi_ok env spi dv) M'
    \<and> transfers m' = ts \<and> m_status m' = 0 \<and> actual_length m' = sum_list (map t_len ts)
    \<and> spi_view (drv M') = spi_select env (ssr_off spi) (fold (spi_move env spi dv) ts (spi_select env (ssr_on spi) (spi_view (drv M))))"
  using nb.sync[OF assms] by auto

text \<open>Lanes the mode of the device allows.\<close>

definition lanes_ok :: "u16 \<Rightarrow> u8 \<Rightarrow> u16 \<Rightarrow> u16 \<Rightarrow> bool" where
  "lanes_ok md n dual quad \<longleftrightarrow> n = 1 \<or> md AND SPI_3WIRE = 0 \<and> (n = 2 \<and> md AND (dual OR quad) \<noteq> 0 \<or> n = 4 \<and> md AND quad \<noteq> 0)"

lemma lanes_ok_iff: "\<not> lanes_refused md n dual quad \<longleftrightarrow> lanes_ok md n dual quad"
  by (auto simp: lanes_refused_def lanes_ok_def)

lemma xfer_fields:
  "tx_buf (xfer_lanes x) = tx_buf x" "rx_buf (xfer_lanes x) = rx_buf x" "t_len (xfer_lanes x) = t_len x" "bits_per_word (xfer_lanes x) = bits_per_word x"
  "speed_hz (xfer_lanes x) = speed_hz x" "tx_buf (xfer_defaults spi x) = tx_buf x" "rx_buf (xfer_defaults spi x) = rx_buf x"
  "t_len (xfer_defaults spi x) = t_len x"
  "bits_per_word (xfer_defaults spi x) = (if bits_per_word x = 0 then dev_bits spi else bits_per_word x)"
  "speed_hz (xfer_defaults spi x) = (if speed_hz x = 0 then max_speed_hz spi else speed_hz x)"
  by (simp_all add: xfer_lanes_def xfer_defaults_def Let_def)

text \<open>A transfer as it was given and as it goes into the queue.\<close>

definition completed :: "spi_device \<Rightarrow> spi_transfer \<Rightarrow> spi_transfer \<Rightarrow> bool" where
  "completed spi x y \<longleftrightarrow> tx_buf y = tx_buf x \<and> rx_buf y = rx_buf x \<and> t_len y = t_len x
     \<and> bits_per_word y = (if bits_per_word x = 0 then dev_bits spi else bits_per_word x)
     \<and> speed_hz y = (if speed_hz x = 0 then max_speed_hz spi else speed_hz x)
     \<and> (tx_buf y \<noteq> 0 \<longrightarrow> lanes_ok (mode spi) (tx_nbits y) SPI_TX_DUAL SPI_TX_QUAD)
     \<and> (rx_buf y \<noteq> 0 \<longrightarrow> lanes_ok (mode spi) (rx_nbits y) SPI_RX_DUAL SPI_RX_QUAD)"

lemma async_completed: "async_transfers msk spi xs = (0, ys) \<Longrightarrow> list_all2 (completed spi) xs ys"
proof (induction xs arbitrary: ys)
  case (Cons x xs)
  let ?x = "xfer_lanes (xfer_defaults spi x)"
  obtain r zs where rz: "async_transfers msk spi xs = (r, zs)" by fastforce
  have ok: "\<not> bits_refused msk (xfer_defaults spi x)" "\<not> xfer_refused spi ?x" "r = 0" "ys = ?x # zs"
    using Cons.prems rz by (auto simp: Let_def split: if_splits)
  have "completed spi x ?x" using ok(2) by (auto simp: completed_def xfer_refused_def lanes_ok_iff xfer_fields)
  then show ?case using Cons.IH rz ok(3,4) by simp
qed simp

lemma async_result: "async_transfers msk spi xs = (r, ys) \<Longrightarrow> r = 0 \<or> r = - eno EINVAL"
  by (induction xs arbitrary: r ys) (auto simp: Let_def split: if_splits prod.splits)

text \<open>What gets into the queue.  \<open>spi_async\<close> accepts a message only when it appends it to the queue with the device's word length and speed filled in
  and with every transfer on lanes that the mode of the device allows; a refused message leaves queue and controller as they were.\<close>

theorem spi_async_checked:
  shows "case spi_async spi m M of (r, m', M') \<Rightarrow>
    if r = 0 then M' = M\<lparr>queue := queue M @ [m']\<rparr> \<and> \<not> bus_lock_flag M \<and> m_spi m' = spi \<and> actual_length m' = 0
      \<and> list_all2 (completed spi) (transfers m) (transfers m')
    else M' = M \<and> r \<in> {- eno EBUSY, - eno EINVAL, - eno ENETDOWN}"
proof -
  obtain r xs where a: "async_transfers (bits_per_word_mask M) spi (transfers m) = (r, xs)" by fastforce
  show ?thesis using a async_result[OF a] async_completed[of "bits_per_word_mask M" spi "transfers m" xs]
    by (auto simp: spi_async_def spi_async_unlocked_def spi_bitbang_transfer_def Let_def)
qed

text \<open>Two transfers to the echoing bus: a byte out, two bytes in.\<close>

definition msg2 :: spi_message where
  "msg2 = \<lparr>m_spi = m25p80_board, transfers = [no_xfer\<lparr>tx_buf := 0x20, t_len := 1\<rparr>, no_xfer\<lparr>rx_buf := 0x40, t_len := 2\<rparr>], m_status = 0, actual_length = 0\<rparr>"

definition host0 :: "u32 list nuc970_spi spi_master" where
  "host0 = \<lparr>drv = spi0, bb_busy = False, queue = [], bus_lock_flag = False, mode_bits = 0x50f, master_flags = 0, bits_per_word_mask = 0\<rparr>"

theorem spi_message_ok_witness:
  "\<exists>M' m'. spi_sync (nuc970_bitbang (echo_bus (\<lambda>_. False))) m25p80_board msg2 host0 = Some (0, m', M') \<and> actual_length m' = 3
     \<and> slave (drv M') = [0x20, 0xffffffff, 0xffffffff]"
proof -
  let ?t0 = "no_xfer\<lparr>tx_buf := 0x20, t_len := 1, bits_per_word := 8, speed_hz := 15000000, tx_nbits := 1\<rparr>"
  let ?t1 = "no_xfer\<lparr>rx_buf := 0x40, t_len := 2, bits_per_word := 8, speed_hz := 15000000, rx_nbits := 1\<rparr>"
  have "quiet spi0" using spi0_quiet[of "pdata spi0"] by simp
  then have "idle (spi_ok (echo_bus (\<lambda>_. False)) m25p80_board 0) host0"
    by (simp add: idle_def host0_def spi_ok_def echo_bus_def ssr_off_def m25p80_board_def) (simp add: spi0_def spi_regs ENINT_def)
  moreover have "async_transfers 0 m25p80_board (transfers msg2) = (0, [?t0, ?t1])"
    by (simp add: msg2_def Let_def bits_refused_def xfer_refused_def lanes_refused_def xfer_lanes_def xfer_defaults_def m25p80_board_def no_xfer_def)
  moreover have "\<forall>t \<in> set [?t0, ?t1]. simplex t" by (simp add: simplex_def no_xfer_def)
  ultimately obtain M' m' where "spi_sync (nuc970_bitbang (echo_bus (\<lambda>_. False))) m25p80_board msg2 host0 = Some (0, m', M')"
    "actual_length m' = sum_list (map t_len [?t0, ?t1])"
    "spi_view (drv M') = spi_select (echo_bus (\<lambda>_. False)) (ssr_off m25p80_board) (fold (spi_move (echo_bus (\<lambda>_. False)) m25p80_board 0) [?t0, ?t1]
      (spi_select (echo_bus (\<lambda>_. False)) (ssr_on m25p80_board) (spi_view (drv host0))))"
    using spi_message_ok[of "echo_bus (\<lambda>_. False)" m25p80_board 0 host0 msg2 "[?t0, ?t1]"] by (auto simp: m25p80_board_def)
  moreover have "replicate 2 x = [x, x]" for x :: u32 by (simp add: numeral_2_eq_2)
  ultimately show ?thesis
    by (auto simp: spi_view_def spi_select_def spi_move_def echo_words xfer_words_def get_bytes_def host0_def no_xfer_def spi0_fields echo_bus_def[THEN arg_cong, of ssr_changed]
        simp del: shift_words.simps)
qed

end
