(* ===== verification/M25p80.thy ===== *)
theory M25p80
  imports Spi_Core
begin

text \<open>
  The driver of the serial flash: \<open>src/drivers/mtd/devices/m25p80.c\<close>, the operations behind the MTD interface.  Every operation
  is a short sequence of commands to the chip over the SPI core of \<open>Spi_Core\<close>: wait until the chip is ready, enable
  writing, send opcode and address from the command buffer, move the data.

  The structure of the driver is fixed once the chip is found; the state is the SPI host, with the memory the command
  buffer and the caller's buffers lie in, and the tick counter of the kernel.  The second part of the theory states what the
  driver relies on of a chip, and shows what its operations do to the cells.
\<close>

section \<open>Commands\<close>

definition OPCODE_WREN :: u8 where "OPCODE_WREN = 0x06"
definition OPCODE_RDSR :: u8 where "OPCODE_RDSR = 0x05"
definition OPCODE_WRSR :: u8 where "OPCODE_WRSR = 0x01"
definition OPCODE_NORM_READ :: u8 where "OPCODE_NORM_READ = 0x03"
definition OPCODE_FAST_READ :: u8 where "OPCODE_FAST_READ = 0x0b"
definition OPCODE_DUAL_READ :: u8 where "OPCODE_DUAL_READ = 0x3b"
definition OPCODE_QUAD_READ :: u8 where "OPCODE_QUAD_READ = 0x6b"
definition OPCODE_PP :: u8 where "OPCODE_PP = 0x02"
definition OPCODE_BE_4K :: u8 where "OPCODE_BE_4K = 0x20"
definition OPCODE_CHIP_ERASE :: u8 where "OPCODE_CHIP_ERASE = 0xc7"
definition OPCODE_SE :: u8 where "OPCODE_SE = 0xd8"
definition OPCODE_RDID :: u8 where "OPCODE_RDID = 0x9f"
definition OPCODE_BP :: u8 where "OPCODE_BP = 0x02"
definition OPCODE_WRDI :: u8 where "OPCODE_WRDI = 0x04"
definition OPCODE_AAI_WP :: u8 where "OPCODE_AAI_WP = 0xad"
definition OPCODE_EN4B :: u8 where "OPCODE_EN4B = 0xb7"
definition OPCODE_EX4B :: u8 where "OPCODE_EX4B = 0xe9"
definition OPCODE_BRWR :: u8 where "OPCODE_BRWR = 0x17"
definition OPCODE_QUAD_PP :: u8 where "OPCODE_QUAD_PP = 0x32"
definition OPCODE_WRSR_VOL :: u8 where "OPCODE_WRSR_VOL = 0x50"
definition OPCODE_RDSR2 :: u8 where "OPCODE_RDSR2 = 0x31"

definition SR_WIP :: u8 where "SR_WIP = 1"
definition SR_WEL :: u8 where "SR_WEL = 2"
definition SR_BP0 :: u8 where "SR_BP0 = 4"
definition SR_BP1 :: u8 where "SR_BP1 = 8"
definition SR_BP2 :: u8 where "SR_BP2 = 0x10"
definition SR_QUAD_EN_WB :: u8 where "SR_QUAD_EN_WB = 0x02"

text \<open>\<open>HZ\<close> is 100 in the configurations of the board.\<close>

definition HZ :: u32 where "HZ = 100"
definition MAX_READY_WAIT_JIFFIES :: u32 where "MAX_READY_WAIT_JIFFIES = 40 * HZ"
definition MAX_CMD_SIZE :: nat where "MAX_CMD_SIZE = 5"

definition JEDEC_MFR :: "u32 \<Rightarrow> u32" where
  "JEDEC_MFR jedec_id = drop_bit 16 jedec_id"

abbreviation CFI_MFR_ATMEL :: u32 where "CFI_MFR_ATMEL \<equiv> 0x1f"
abbreviation CFI_MFR_EON :: u32 where "CFI_MFR_EON \<equiv> 0x1c"
abbreviation CFI_MFR_INTEL :: u32 where "CFI_MFR_INTEL \<equiv> 0x89"
abbreviation CFI_MFR_MACRONIX :: u32 where "CFI_MFR_MACRONIX \<equiv> 0xc2"
abbreviation CFI_MFR_SST :: u32 where "CFI_MFR_SST \<equiv> 0xbf"
abbreviation CFI_MFR_ST :: u32 where "CFI_MFR_ST \<equiv> 0x20"

section \<open>The driver\<close>

datatype read_write_type = M25P80_NORMAL | M25P80_FAST | M25P80_DUAL | M25P80_QUAD

record m25p =
  flash_spi :: spi_device
  page_size :: u16
  addr_width :: u16
  erase_opcode :: u8
  read_opcode :: u8
  program_opcode :: u8
  command :: u32
  flash_read :: read_write_type
  flash_write :: read_write_type
  mtd_size :: "64 word"
  erasesize :: u32

text \<open>The environment: the bus, what \<open>spi_write_then_read\<close> finds, and how far the tick counter moves from one look at the
  chip's status to the next.\<close>

record 'd m25p_env =
  m_bus :: "'d spi_env"
  m_wtr :: wtr_env
  m_tick :: "u32 \<Rightarrow> u32"

record 'd m25p_state =
  host :: "'d nuc970_spi spi_master"
  jiffies :: u32

definition flash_wtr :: "'d m25p_env \<Rightarrow> m25p \<Rightarrow> u8 list \<Rightarrow> nat \<Rightarrow> 'd m25p_state \<Rightarrow> (int \<times> u8 list \<times> 'd m25p_state) option" where
  "flash_wtr E fl tx n s = do {
     (r, rx, h) \<leftarrow> spi_write_then_read (m_wtr E) (m_bus E) (flash_spi fl) tx n (host s);
     Some (r, rx, s\<lparr>host := h\<rparr>) }"

definition flash_sync :: "'d m25p_env \<Rightarrow> m25p \<Rightarrow> spi_message \<Rightarrow> 'd m25p_state \<Rightarrow> (int \<times> spi_message \<times> 'd m25p_state) option" where
  "flash_sync E fl m s = do {
     (r, m, h) \<leftarrow> spi_sync (nuc970_bitbang (m_bus E)) (flash_spi fl) m (host s);
     Some (r, m, s\<lparr>host := h\<rparr>) }"

definition msg_of :: "spi_device \<Rightarrow> spi_transfer list \<Rightarrow> spi_message" where
  "msg_of spi ts = \<lparr>m_spi = spi, transfers = ts, m_status = 0, actual_length = 0\<rparr>"

text \<open>\<open>spi_write\<close> of the kernel's SPI interface: one transfer from a buffer.\<close>

definition spi_write :: "'d m25p_env \<Rightarrow> m25p \<Rightarrow> u32 \<Rightarrow> u32 \<Rightarrow> 'd m25p_state \<Rightarrow> (int \<times> 'd m25p_state) option" where
  "spi_write E fl a n s = do {
     (r, m, s) \<leftarrow> flash_sync E fl (msg_of (flash_spi fl) [no_xfer\<lparr>tx_buf := a, t_len := n\<rparr>]) s;
     Some (r, s) }"

definition cmd_put :: "m25p \<Rightarrow> nat \<Rightarrow> u8 \<Rightarrow> 'd m25p_state \<Rightarrow> 'd m25p_state" where
  "cmd_put fl i v s = s\<lparr>host := on_mem (\<lambda>m. m(command fl + of_nat i := v)) (host s)\<rparr>"

definition read_sr :: "'d m25p_env \<Rightarrow> m25p \<Rightarrow> 'd m25p_state \<Rightarrow> (int \<times> 'd m25p_state) option" where
  "read_sr E fl s = do {
     (r, rx, s) \<leftarrow> flash_wtr E fl [OPCODE_RDSR] 1 s;
     Some (if r < 0 then r else (case rx of v # _ \<Rightarrow> uint v | [] \<Rightarrow> 0), s) }"

definition read_sr2_winbond :: "'d m25p_env \<Rightarrow> m25p \<Rightarrow> 'd m25p_state \<Rightarrow> (int \<times> 'd m25p_state) option" where
  "read_sr2_winbond E fl s = do {
     (r, rx, s) \<leftarrow> flash_wtr E fl [0x35] 1 s;
     Some (if r < 0 then r else (case rx of v # _ \<Rightarrow> uint v | [] \<Rightarrow> 0), s) }"

definition write_sr :: "'d m25p_env \<Rightarrow> m25p \<Rightarrow> u8 \<Rightarrow> 'd m25p_state \<Rightarrow> (int \<times> 'd m25p_state) option" where
  "write_sr E fl val s = spi_write E fl (command fl) 2 (cmd_put fl 1 val (cmd_put fl 0 OPCODE_WRSR s))"

definition write_enable :: "'d m25p_env \<Rightarrow> m25p \<Rightarrow> 'd m25p_state \<Rightarrow> (int \<times> 'd m25p_state) option" where
  "write_enable E fl s = do { (r, rx, s) \<leftarrow> flash_wtr E fl [OPCODE_WREN] 0 s; Some (r, s) }"

definition write_disable :: "'d m25p_env \<Rightarrow> m25p \<Rightarrow> 'd m25p_state \<Rightarrow> (int \<times> 'd m25p_state) option" where
  "write_disable E fl s = do { (r, rx, s) \<leftarrow> flash_wtr E fl [OPCODE_WRDI] 0 s; Some (r, s) }"

definition set_4byte :: "'d m25p_env \<Rightarrow> m25p \<Rightarrow> u32 \<Rightarrow> bool \<Rightarrow> 'd m25p_state \<Rightarrow> (int \<times> 'd m25p_state) option" where
  "set_4byte E fl jedec_id enable s =
    (if JEDEC_MFR jedec_id \<in> {CFI_MFR_MACRONIX, 0xEF, CFI_MFR_EON}
     then spi_write E fl (command fl) 1 (cmd_put fl 0 (if enable then OPCODE_EN4B else OPCODE_EX4B) s)
     else spi_write E fl (command fl) 2 (cmd_put fl 1 (push_bit 7 (of_bool enable)) (cmd_put fl 0 OPCODE_BRWR s)))"

text \<open>\<open>time_after_eq\<close> compares ticks modulo the width of the counter.\<close>

definition time_after_eq :: "u32 \<Rightarrow> u32 \<Rightarrow> bool" where
  "time_after_eq a b \<longleftrightarrow> 0 \<le> sint (a - b)"

partial_function (option) ready_loop :: "'d m25p_env \<Rightarrow> m25p \<Rightarrow> u32 \<Rightarrow> 'd m25p_state \<Rightarrow> (int \<times> 'd m25p_state) option" where
  "ready_loop E fl deadline s =
    Option.bind (read_sr E fl s) (\<lambda>(sr, s).
      if sr < 0 then Some (1, s)
      else if sr AND uint SR_WIP = 0 then Some (0, s)
      else let s = s\<lparr>jiffies := m_tick E (jiffies s)\<rparr>
           in if \<not> time_after_eq (jiffies s) deadline then ready_loop E fl deadline s else Some (1, s))"

definition wait_till_ready :: "'d m25p_env \<Rightarrow> m25p \<Rightarrow> 'd m25p_state \<Rightarrow> (int \<times> 'd m25p_state) option" where
  "wait_till_ready E fl s = ready_loop E fl (jiffies s + MAX_READY_WAIT_JIFFIES) s"

definition write_sr_cr :: "'d m25p_env \<Rightarrow> m25p \<Rightarrow> u16 \<Rightarrow> 'd m25p_state \<Rightarrow> (int \<times> 'd m25p_state) option" where
  "write_sr_cr E fl val s =
     spi_write E fl (command fl) 3 (cmd_put fl 2 (ucast (drop_bit 8 val)) (cmd_put fl 1 (ucast (val AND 0xff)) (cmd_put fl 0 OPCODE_WRSR s)))"

text \<open>\<open>stk\<close> is the address of the local variables \<open>code\<close> and \<open>cmd\<close>.\<close>

definition winbond_quad_enable :: "'d m25p_env \<Rightarrow> m25p \<Rightarrow> u32 \<Rightarrow> 'd m25p_state \<Rightarrow> (int \<times> 'd m25p_state) option" where
  "winbond_quad_enable E fl stk s =
    (let at = (\<lambda>i v s. s\<lparr>host := on_mem (\<lambda>m. m(stk + i := v)) (host s)\<rparr>)
     in do {
       (_, s) \<leftarrow> spi_write E fl stk 1 (at 0 OPCODE_WRSR_VOL s);
       (val, s) \<leftarrow> read_sr2_winbond E fl (at 1 OPCODE_RDSR2 s);
       (_, s) \<leftarrow> spi_write E fl (stk + 1) 2 (at 2 (word_of_int (val OR uint SR_QUAD_EN_WB)) s);
       (w, s) \<leftarrow> wait_till_ready E fl s;
       if w \<noteq> 0 then Some (1, s)
       else do {
         (ret, s) \<leftarrow> read_sr2_winbond E fl s;
         if \<not> (ret > 0 \<and> ret AND uint SR_QUAD_EN_WB \<noteq> 0) then Some (- eno EINVAL, s)
         else do { (_, s) \<leftarrow> write_disable E fl s; Some (0, s) } } })"

text \<open>Both branches of the switch over the manufacturer do the same.\<close>

definition set_quad_mode :: "'d m25p_env \<Rightarrow> m25p \<Rightarrow> u32 \<Rightarrow> 'd m25p_state \<Rightarrow> (int \<times> 'd m25p_state) option" where
  "set_quad_mode E fl stk s = do {
     (stat, s) \<leftarrow> winbond_quad_enable E fl stk s;
     Some (if stat \<noteq> 0 then - eno EINVAL else stat, s) }"

section \<open>Erasing\<close>

definition erase_chip :: "'d m25p_env \<Rightarrow> m25p \<Rightarrow> 'd m25p_state \<Rightarrow> (int \<times> 'd m25p_state) option" where
  "erase_chip E fl s = do {
     (w, s) \<leftarrow> wait_till_ready E fl s;
     if w \<noteq> 0 then Some (1, s)
     else do {
       (_, s) \<leftarrow> write_enable E fl s;
       (_, s) \<leftarrow> spi_write E fl (command fl) 1 (cmd_put fl 0 OPCODE_CHIP_ERASE s);
       Some (0, s) } }"

text \<open>A shift by a count that may be negative: the processor takes its low eight bits, and gives 0 from 32 on.\<close>

definition shr :: "u32 \<Rightarrow> int \<Rightarrow> u32" where
  "shr v n = (let k = nat (n mod 256) in if k < 32 then drop_bit k v else 0)"

definition m25p_addr2cmd :: "m25p \<Rightarrow> u32 \<Rightarrow> 'd m25p_state \<Rightarrow> 'd m25p_state" where
  "m25p_addr2cmd fl a s =
    (let w = uint (addr_width fl) * 8;
         s = cmd_put fl 1 (ucast (shr a (w - 8))) s;
         s = cmd_put fl 2 (ucast (shr a (w - 16))) s;
         s = cmd_put fl 3 (ucast (shr a (w - 24))) s
     in cmd_put fl 4 (ucast (shr a (w - 32))) s)"

definition m25p_cmdsz :: "m25p \<Rightarrow> int" where
  "m25p_cmdsz fl = 1 + uint (addr_width fl)"

definition erase_sector :: "'d m25p_env \<Rightarrow> m25p \<Rightarrow> u32 \<Rightarrow> 'd m25p_state \<Rightarrow> (int \<times> 'd m25p_state) option" where
  "erase_sector E fl offset s = do {
     (w, s) \<leftarrow> wait_till_ready E fl s;
     if w \<noteq> 0 then Some (1, s)
     else do {
       (_, s) \<leftarrow> write_enable E fl s;
       let s = m25p_addr2cmd fl offset (cmd_put fl 0 (erase_opcode fl) s);
       (_, s) \<leftarrow> spi_write E fl (command fl) (word_of_int (m25p_cmdsz fl)) s;
       Some (0, s) } }"

datatype erase_state = MTD_ERASE_PENDING | MTD_ERASING | MTD_ERASE_SUSPEND | MTD_ERASE_DONE | MTD_ERASE_FAILED

partial_function (option) erase_loop :: "'d m25p_env \<Rightarrow> m25p \<Rightarrow> u32 \<Rightarrow> u32 \<Rightarrow> 'd m25p_state \<Rightarrow> (int \<times> 'd m25p_state) option" where
  "erase_loop E fl a len s =
    (if len = 0 then Some (0, s)
     else Option.bind (erase_sector E fl a s) (\<lambda>(r, s).
       if r \<noteq> 0 then Some (- eno EIO, s) else erase_loop E fl (a + erasesize fl) (len - erasesize fl) s))"

text \<open>The request is given by its address, length and state; its new state is returned.\<close>

definition m25p80_erase :: "'d m25p_env \<Rightarrow> m25p \<Rightarrow> 64 word \<Rightarrow> 64 word \<Rightarrow> erase_state \<Rightarrow> 'd m25p_state \<Rightarrow> (int \<times> erase_state \<times> 'd m25p_state) option" where
  "m25p80_erase E fl instr_addr instr_len instr_state s =
    (if instr_len mod ucast (erasesize fl) \<noteq> 0 then Some (- eno EINVAL, instr_state, s)
     else (let a = ucast instr_addr; len = (ucast instr_len :: u32)
           in do {
             (r, s) \<leftarrow> (if ucast len = mtd_size fl
                then do { (r, s) \<leftarrow> erase_chip E fl s; Some (if r \<noteq> 0 then - eno EIO else 0, s) }
                else erase_loop E fl a len s);
             Some (r, if r \<noteq> 0 then MTD_ERASE_FAILED else MTD_ERASE_DONE, s) }))"

section \<open>Reading and writing\<close>

fun m25p80_dummy_cycles_read :: "read_write_type \<Rightarrow> int" where
  "m25p80_dummy_cycles_read M25P80_FAST = 1"
| "m25p80_dummy_cycles_read M25P80_DUAL = 1"
| "m25p80_dummy_cycles_read M25P80_QUAD = 1"
| "m25p80_dummy_cycles_read M25P80_NORMAL = 0"

fun m25p80_rx_nbits :: "read_write_type \<Rightarrow> u8" where
  "m25p80_rx_nbits M25P80_DUAL = 2"
| "m25p80_rx_nbits M25P80_QUAD = 4"
| "m25p80_rx_nbits _ = 0"

fun m25p80_tx_nbits :: "read_write_type \<Rightarrow> u8" where
  "m25p80_tx_nbits M25P80_DUAL = 2"
| "m25p80_tx_nbits M25P80_QUAD = 4"
| "m25p80_tx_nbits _ = 0"

text \<open>The result is the return value and \<open>retlen\<close>, which keeps its value when the operation does not get that far.\<close>

definition m25p80_read :: "'d m25p_env \<Rightarrow> m25p \<Rightarrow> 64 word \<Rightarrow> u32 \<Rightarrow> u32 \<Rightarrow> u32 \<Rightarrow> 'd m25p_state \<Rightarrow> (int \<times> u32 \<times> 'd m25p_state) option" where
  "m25p80_read E fl from len retlen buf s =
    (let dummy = m25p80_dummy_cycles_read (flash_read fl)
     in if dummy < 0 then Some (- eno EINVAL, retlen, s)
        else (let t0 = no_xfer\<lparr>tx_buf := command fl, t_len := word_of_int (m25p_cmdsz fl + dummy)\<rparr>;
                  t1 = no_xfer\<lparr>rx_buf := buf, rx_nbits := m25p80_rx_nbits (flash_read fl), t_len := len\<rparr>
              in do {
                (w, s) \<leftarrow> wait_till_ready E fl s;
                if w \<noteq> 0 then Some (1, retlen, s)
                else do {
                  let s = m25p_addr2cmd fl (ucast from) (cmd_put fl 0 (read_opcode fl) s);
                  (_, m, s) \<leftarrow> flash_sync E fl (msg_of (flash_spi fl) [t0, t1]) s;
                  Some (0, actual_length m - word_of_int (m25p_cmdsz fl) - word_of_int dummy, s) } }))"

text \<open>The second transfer of the message of a write.\<close>

definition set_data :: "m25p \<Rightarrow> u32 \<Rightarrow> u32 \<Rightarrow> spi_message \<Rightarrow> spi_message" where
  "set_data fl a n m = m\<lparr>transfers := (transfers m)[1 := (transfers m ! 1)\<lparr>tx_buf := a, t_len := n, tx_nbits := m25p80_tx_nbits (flash_write fl)\<rparr>]\<rparr>"

partial_function (option) write_pages :: "'d m25p_env \<Rightarrow> m25p \<Rightarrow> 64 word \<Rightarrow> u32 \<Rightarrow> u32 \<Rightarrow> u32 \<Rightarrow> spi_message \<Rightarrow> u32 \<Rightarrow> 'd m25p_state
    \<Rightarrow> (u32 \<times> 'd m25p_state) option" where
  "write_pages E fl to len buf i m retlen s =
    (if i < len then
       (let ps = len - i;
            ps = (if ps > ucast (page_size fl) then ucast (page_size fl) else ps);
            s = m25p_addr2cmd fl (ucast (to + ucast i)) s;
            m = set_data fl (buf + i) ps m
        in Option.bind (wait_till_ready E fl s) (\<lambda>(_, s).
           Option.bind (write_enable E fl s) (\<lambda>(_, s).
           Option.bind (flash_sync E fl m s) (\<lambda>(_, m, s).
             write_pages E fl to len buf (i + ps) m (retlen + (actual_length m - word_of_int (m25p_cmdsz fl))) s))))
     else Some (retlen, s))"

definition m25p80_write :: "'d m25p_env \<Rightarrow> m25p \<Rightarrow> 64 word \<Rightarrow> u32 \<Rightarrow> u32 \<Rightarrow> u32 \<Rightarrow> 'd m25p_state \<Rightarrow> (int \<times> u32 \<times> 'd m25p_state) option" where
  "m25p80_write E fl to len retlen buf s =
    (let t0 = no_xfer\<lparr>tx_buf := command fl, t_len := word_of_int (m25p_cmdsz fl)\<rparr>;
         t1 = no_xfer\<lparr>tx_buf := buf\<rparr>;
         m = msg_of (flash_spi fl) [t0, t1]
     in do {
       (w, s) \<leftarrow> wait_till_ready E fl s;
       if w \<noteq> 0 then Some (1, retlen, s)
       else do {
         (_, s) \<leftarrow> write_enable E fl s;
         let s = m25p_addr2cmd fl (ucast to) (cmd_put fl 0 (program_opcode fl) s);
         let page_offset = ucast (to AND (ucast (page_size fl) - 1));
         if page_offset + len \<le> ucast (page_size fl) then do {
           (_, m, s) \<leftarrow> flash_sync E fl (set_data fl buf len m) s;
           Some (0, actual_length m - word_of_int (m25p_cmdsz fl), s) }
         else do {
           let ps = ucast (page_size fl) - page_offset;
           (_, m, s) \<leftarrow> flash_sync E fl (set_data fl buf ps m) s;
           let retlen = actual_length m - word_of_int (m25p_cmdsz fl);
           (retlen, s) \<leftarrow> write_pages E fl to len buf ps m retlen s;
           Some (0, retlen, s) } } })"

text \<open>Chips of SST are written two bytes at a time.\<close>

definition data_xfer :: "u32 \<Rightarrow> u32 \<Rightarrow> spi_message \<Rightarrow> spi_message" where
  "data_xfer a n m = m\<lparr>transfers := (transfers m)[1 := (transfers m ! 1)\<lparr>tx_buf := a, t_len := n\<rparr>]\<rparr>"

definition cmd_xfer :: "u32 \<Rightarrow> spi_message \<Rightarrow> spi_message" where
  "cmd_xfer n m = m\<lparr>transfers := (transfers m)[0 := (transfers m ! 0)\<lparr>t_len := n\<rparr>]\<rparr>"

partial_function (option) sst_words :: "'d m25p_env \<Rightarrow> m25p \<Rightarrow> u32 \<Rightarrow> u32 \<Rightarrow> u32 \<Rightarrow> u32 \<Rightarrow> 64 word \<Rightarrow> spi_message \<Rightarrow> u32 \<Rightarrow> 'd m25p_state
    \<Rightarrow> (int \<times> u32 \<times> 64 word \<times> spi_message \<times> u32 \<times> 'd m25p_state) option" where
  "sst_words E fl len buf actual cmd_sz to m retlen s =
    (if actual < len - 1 then
       Option.bind (flash_sync E fl (data_xfer (buf + actual) 2 (cmd_xfer cmd_sz m)) s) (\<lambda>(_, m, s).
       Option.bind (wait_till_ready E fl s) (\<lambda>(ret, s).
         if ret \<noteq> 0 then Some (ret, actual, to, m, retlen, s)
         else sst_words E fl len buf (actual + 2) 1 (to + 2) m (retlen + (actual_length m - cmd_sz)) s))
     else Some (0, actual, to, m, retlen, s))"

definition sst_write :: "'d m25p_env \<Rightarrow> m25p \<Rightarrow> 64 word \<Rightarrow> u32 \<Rightarrow> u32 \<Rightarrow> u32 \<Rightarrow> 'd m25p_state \<Rightarrow> (int \<times> u32 \<times> 'd m25p_state) option" where
  "sst_write E fl to len retlen buf s =
    (let csz = word_of_int (m25p_cmdsz fl);
         m = msg_of (flash_spi fl) [no_xfer\<lparr>tx_buf := command fl, t_len := csz\<rparr>, no_xfer\<lparr>tx_buf := buf\<rparr>]
     in do {
       (ret, s) \<leftarrow> wait_till_ready E fl s;
       if ret \<noteq> 0 then Some (ret, retlen, s)
       else do {
         (_, s) \<leftarrow> write_enable E fl s;
         let actual = (ucast (to mod 2) :: u32);
         (ret, m, retlen, s) \<leftarrow> (if actual \<noteq> 0 then do {
             let s = m25p_addr2cmd fl (ucast to) (cmd_put fl 0 OPCODE_BP s);
             (_, m, s) \<leftarrow> flash_sync E fl (data_xfer buf 1 m) s;
             (ret, s) \<leftarrow> wait_till_ready E fl s;
             Some (ret, m, if ret \<noteq> 0 then retlen else retlen + (actual_length m - csz), s) }
           else Some (0, m, retlen, s));
         if ret \<noteq> 0 then Some (ret, retlen, s)
         else do {
           let to = to + ucast actual;
           let s = m25p_addr2cmd fl (ucast to) (cmd_put fl 0 OPCODE_AAI_WP s);
           (ret, actual, to, m, retlen, s) \<leftarrow> sst_words E fl len buf actual csz to m retlen s;
           if ret \<noteq> 0 then Some (ret, retlen, s)
           else do {
             (_, s) \<leftarrow> write_disable E fl s;
             (ret, s) \<leftarrow> wait_till_ready E fl s;
             if ret \<noteq> 0 then Some (ret, retlen, s)
             else if actual \<noteq> len then do {
               (_, s) \<leftarrow> write_enable E fl s;
               let s = m25p_addr2cmd fl (ucast to) (cmd_put fl 0 OPCODE_BP s);
               (_, m, s) \<leftarrow> flash_sync E fl (data_xfer (buf + actual) 1 (cmd_xfer csz m)) s;
               (ret, s) \<leftarrow> wait_till_ready E fl s;
               if ret \<noteq> 0 then Some (ret, retlen, s)
               else do {
                 (_, s) \<leftarrow> write_disable E fl s;
                 Some (ret, retlen + (actual_length m - csz), s) } }
             else Some (ret, retlen, s) } } } })"

section \<open>Protection\<close>

definition SR_BP :: u8 where
  "SR_BP = SR_BP2 OR SR_BP1 OR SR_BP0"

definition lock_status :: "64 word \<Rightarrow> u32 \<Rightarrow> u8 \<Rightarrow> u8" where
  "lock_status sz offset old =
    (if ucast offset < sz - sz div 2 then old OR SR_BP2 OR SR_BP1 OR SR_BP0
     else if ucast offset < sz - sz div 4 then old AND NOT SR_BP0 OR SR_BP2 OR SR_BP1
     else if ucast offset < sz - sz div 8 then old AND NOT SR_BP1 OR SR_BP2 OR SR_BP0
     else if ucast offset < sz - sz div 16 then old AND NOT (SR_BP0 OR SR_BP1) OR SR_BP2
     else if ucast offset < sz - sz div 32 then old AND NOT SR_BP2 OR SR_BP1 OR SR_BP0
     else if ucast offset < sz - sz div 64 then old AND NOT (SR_BP2 OR SR_BP0) OR SR_BP1
     else old AND NOT (SR_BP2 OR SR_BP1) OR SR_BP0)"

definition m25p80_lock :: "'d m25p_env \<Rightarrow> m25p \<Rightarrow> 64 word \<Rightarrow> 64 word \<Rightarrow> 'd m25p_state \<Rightarrow> (int \<times> 'd m25p_state) option" where
  "m25p80_lock E fl ofs len s = do {
     let offset = (ucast ofs :: u32);
     (w, s) \<leftarrow> wait_till_ready E fl s;
     if w \<noteq> 0 then Some (1, s)
     else do {
       (sr, s) \<leftarrow> read_sr E fl s;
       let old = (word_of_int sr :: u8);
       let new = lock_status (mtd_size fl) offset old;
       if new AND SR_BP > old AND SR_BP then do {
         (_, s) \<leftarrow> write_enable E fl s;
         (r, s) \<leftarrow> write_sr E fl new s;
         Some (if r < 0 then 1 else 0, s) }
       else Some (0, s) } }"

definition unlock_status :: "64 word \<Rightarrow> 64 word \<Rightarrow> u8 \<Rightarrow> u8" where
  "unlock_status sz hi old =
    (if hi > sz - sz div 64 then old AND NOT (SR_BP2 OR SR_BP1 OR SR_BP0)
     else if hi > sz - sz div 32 then old AND NOT (SR_BP2 OR SR_BP1) OR SR_BP0
     else if hi > sz - sz div 16 then old AND NOT (SR_BP2 OR SR_BP0) OR SR_BP1
     else if hi > sz - sz div 8 then old AND NOT SR_BP2 OR SR_BP1 OR SR_BP0
     else if hi > sz - sz div 4 then old AND NOT (SR_BP0 OR SR_BP1) OR SR_BP2
     else if hi > sz - sz div 2 then old AND NOT SR_BP1 OR SR_BP2 OR SR_BP0
     else old AND NOT SR_BP0 OR SR_BP2 OR SR_BP1)"

definition m25p80_unlock :: "'d m25p_env \<Rightarrow> m25p \<Rightarrow> 64 word \<Rightarrow> 64 word \<Rightarrow> 'd m25p_state \<Rightarrow> (int \<times> 'd m25p_state) option" where
  "m25p80_unlock E fl ofs len s = do {
     let offset = (ucast ofs :: u32);
     (w, s) \<leftarrow> wait_till_ready E fl s;
     if w \<noteq> 0 then Some (1, s)
     else do {
       (sr, s) \<leftarrow> read_sr E fl s;
       let old = (word_of_int sr :: u8);
       let new = unlock_status (mtd_size fl) (ucast offset + len) old;
       if new AND SR_BP < old AND SR_BP then do {
         (_, s) \<leftarrow> write_enable E fl s;
         (r, s) \<leftarrow> write_sr E fl new s;
         Some (if r < 0 then 1 else 0, s) }
       else Some (0, s) } }"

section \<open>The chip\<close>

text \<open>What the data sheets of these chips promise.  A chip has its cells, a write enable latch, a status register and an
  identification.  \<open>wip\<close> is the number of status reads that still find it busy.  A command takes effect when the chip is
  deselected; while busy, only the status can be read.  Programming clears bits and stays within its page, erasing sets
  a whole sector.  \<open>None\<close> leaves open what happens: protected cells, addresses outside of the chip, other commands.\<close>

record nor =
  cells :: "nat \<Rightarrow> u8"
  wel :: bool
  wip :: nat
  sreg :: u8
  ident :: "u8 list"

definition aw :: "m25p \<Rightarrow> nat" where
  "aw fl = unat (addr_width fl)"

fun addr_of :: "u8 list \<Rightarrow> nat" where
  "addr_of [] = 0"
| "addr_of (b # bs) = unat b * 256 ^ length bs + addr_of bs"

definition nor_status :: "nor \<Rightarrow> u8" where
  "nor_status c = (sreg c AND 0xfc) OR (if wel c then SR_WEL else 0) OR (if wip c > 0 then SR_WIP else 0)"

definition programmed :: "nat \<Rightarrow> nat \<Rightarrow> u8 list \<Rightarrow> (nat \<Rightarrow> u8) \<Rightarrow> nat \<Rightarrow> u8" where
  "programmed p a bs f = (\<lambda>x. let i = (x mod p + p - a mod p) mod p
     in if x div p = a div p \<and> i < length bs then f x AND bs ! i else f x)"

definition erased :: "nat \<Rightarrow> nat \<Rightarrow> (nat \<Rightarrow> u8) \<Rightarrow> nat \<Rightarrow> u8" where
  "erased k a f = (\<lambda>x. if x div k = a div k then 0xff else f x)"

definition after_write :: "nat \<Rightarrow> nor \<Rightarrow> nor" where
  "after_write n c = c\<lparr>wel := False, wip := n\<rparr>"

definition read_dummy :: "u8 \<Rightarrow> nat" where
  "read_dummy opc = (if opc = OPCODE_NORM_READ then 0 else 1)"

definition nor_exec :: "m25p \<Rightarrow> (u8 list \<Rightarrow> nor \<Rightarrow> nat) \<Rightarrow> u8 list \<Rightarrow> nor \<Rightarrow> nor option" where
  "nor_exec fl D bs c =
    (case bs of [] \<Rightarrow> Some c
     | opc # ps \<Rightarrow>
       if opc = OPCODE_RDSR then Some (c\<lparr>wip := wip c - 1\<rparr>)
       else if wip c > 0 then Some c
       else if opc = OPCODE_WREN then (if ps = [] then Some (c\<lparr>wel := True\<rparr>) else None)
       else if opc = OPCODE_WRDI then (if ps = [] then Some (c\<lparr>wel := False\<rparr>) else None)
       else if opc = OPCODE_WRSR then
         (if length ps = 1 then Some (if wel c then after_write (D bs c) (c\<lparr>sreg := hd ps\<rparr>) else c) else None)
       else if opc = OPCODE_RDID then Some c
       else if opc = read_opcode fl then (if aw fl + read_dummy opc \<le> length ps then Some c else None)
       else if sreg c AND SR_BP \<noteq> 0 then None
       else if opc = OPCODE_CHIP_ERASE then
         (if ps = [] then Some (if wel c then after_write (D bs c) (c\<lparr>cells := (\<lambda>x. if x < unat (mtd_size fl) then 0xff else cells c x)\<rparr>) else c) else None)
       else if opc = erase_opcode fl then
         (if length ps = aw fl \<and> addr_of ps < unat (mtd_size fl)
          then Some (if wel c then after_write (D bs c) (c\<lparr>cells := erased (unat (erasesize fl)) (addr_of ps) (cells c)\<rparr>) else c) else None)
       else if opc = program_opcode fl then
         (let a = addr_of (take (aw fl) ps); vs = drop (aw fl) ps
          in if vs \<noteq> [] \<and> length vs \<le> unat (page_size fl) \<and> a < unat (mtd_size fl)
             then Some (if wel c then after_write (D bs c) (c\<lparr>cells := programmed (unat (page_size fl)) a vs (cells c)\<rparr>) else c) else None)
       else None)"

text \<open>What the chip puts out after the bytes \<open>bs\<close> of a command.\<close>

definition nor_answer :: "m25p \<Rightarrow> u8 list \<Rightarrow> nor \<Rightarrow> u8 option" where
  "nor_answer fl bs c =
    (case bs of [] \<Rightarrow> None
     | opc # ps \<Rightarrow>
       if opc = OPCODE_RDSR then Some (nor_status c)
       else if wip c > 0 then None
       else if opc = OPCODE_RDID then (if length ps < length (ident c) then Some (ident c ! length ps) else None)
       else if opc = read_opcode fl \<and> aw fl + read_dummy opc \<le> length ps
         then (let a = addr_of (take (aw fl) ps) + (length ps - (aw fl + read_dummy opc))
               in if a < unat (mtd_size fl) then Some (cells c a) else None)
       else None)"

text \<open>One selection of the chip on the bus.\<close>

definition transact :: "'d spi_env \<Rightarrow> spi_device \<Rightarrow> u32 \<Rightarrow> u32 list \<Rightarrow> 'd \<Rightarrow> u32 list \<times> 'd" where
  "transact env spi dv ws d =
    (let (rs, d) = shift_words env (dev_line spi dv 8) ws (ssr_changed env (ssr_on spi) d)
     in (rs, ssr_changed env (ssr_off spi) d))"

text \<open>The slave on the bus is such a chip: \<open>absn\<close> reads the chip off it and \<open>P\<close> holds between commands.\<close>

definition nor_chip :: "'d spi_env \<Rightarrow> m25p \<Rightarrow> u32 \<Rightarrow> (u8 list \<Rightarrow> nor \<Rightarrow> nat) \<Rightarrow> ('d \<Rightarrow> bool) \<Rightarrow> ('d \<Rightarrow> nor) \<Rightarrow> bool" where
  "nor_chip env fl dv D P absn \<longleftrightarrow>
     (\<forall>d ws rs d'. P d \<longrightarrow> ws \<noteq> [] \<longrightarrow> transact env (flash_spi fl) dv ws d = (rs, d') \<longrightarrow>
        P d' \<and> (\<forall>c. nor_exec fl D (map ucast ws) (absn d) = Some c \<longrightarrow> absn d' = c)
        \<and> (\<forall>i < length ws. \<forall>v. nor_answer fl (map ucast (take i ws)) (absn d) = Some v \<longrightarrow> ucast (rs ! i) = v))"

section \<open>The driver and its chip\<close>

text \<open>The buffer that \<open>spi_write_then_read\<close> uses for a short message.\<close>

definition local_buf :: "wtr_env \<Rightarrow> u32" where
  "local_buf ce = (if wtr_lock ce then wtr_buf ce else wtr_kmalloc ce)"

definition wtr_area :: "'d m25p_env \<Rightarrow> u32 set" where
  "wtr_area E = (\<lambda>i. local_buf (m_wtr E) + of_nat i) ` {0..<6}"

definition cmd_area :: "m25p \<Rightarrow> u32 set" where
  "cmd_area fl = (\<lambda>i. command fl + of_nat i) ` {0..<6}"

text \<open>The tick counter stays below the deadline for \<open>K\<close> looks at the status.\<close>

definition patient :: "'d m25p_env \<Rightarrow> nat \<Rightarrow> bool" where
  "patient E K \<longleftrightarrow> (\<forall>t. \<forall>j \<in> {1..K}. \<not> time_after_eq ((m_tick E ^^ j) t) (t + MAX_READY_WAIT_JIFFIES))"

text \<open>A device on one lane with eight bit words, and the parameters of a chip that the probe routine sets.\<close>

definition flash_fits :: "'d m25p_env \<Rightarrow> m25p \<Rightarrow> bool" where
  "flash_fits E fl \<longleftrightarrow>
     mode (flash_spi fl) AND SPI_3WIRE = 0 \<and> max_speed_hz (flash_spi fl) \<noteq> 0 \<and> dev_bits (flash_spi fl) = 8
     \<and> command fl \<noteq> 0 \<and> local_buf (m_wtr E) \<noteq> 0 \<and> local_buf (m_wtr E) + 1 \<noteq> 0 \<and> wtr_area E \<inter> cmd_area fl = {}
     \<and> aw fl \<in> {1..4} \<and> unat (mtd_size fl) \<le> 256 ^ aw fl \<and> unat (mtd_size fl) < 2 ^ 32
     \<and> (\<exists>k < 16. page_size fl = 2 ^ k) \<and> erasesize fl \<noteq> 0 \<and> unat (erasesize fl) dvd unat (mtd_size fl)
     \<and> program_opcode fl = OPCODE_PP \<and> erase_opcode fl \<in> {OPCODE_SE, OPCODE_BE_4K} \<and> flash_write fl = M25P80_NORMAL
     \<and> (flash_read fl, read_opcode fl) \<in> {(M25P80_NORMAL, OPCODE_NORM_READ), (M25P80_FAST, OPCODE_FAST_READ)}"

definition flash_runs :: "'d m25p_env \<Rightarrow> m25p \<Rightarrow> u32 \<Rightarrow> (u8 list \<Rightarrow> nor \<Rightarrow> nat) \<Rightarrow> nat \<Rightarrow> ('d \<Rightarrow> bool) \<Rightarrow> ('d \<Rightarrow> nor) \<Rightarrow> bool" where
  "flash_runs E fl dv D K P absn \<longleftrightarrow> flash_fits E fl \<and> patient E K \<and> (\<forall>bs c. D bs c \<le> K) \<and> nor_chip (m_bus E) fl dv D P absn"

text \<open>Between two operations: the queue is idle, the chip is \<open>c\<close> and the memory \<open>m\<close>.\<close>

definition flash_at :: "'d m25p_env \<Rightarrow> m25p \<Rightarrow> u32 \<Rightarrow> ('d \<Rightarrow> bool) \<Rightarrow> ('d \<Rightarrow> nor) \<Rightarrow> nor \<Rightarrow> (u32 \<Rightarrow> u8) \<Rightarrow> 'd m25p_state \<Rightarrow> bool" where
  "flash_at E fl dv P absn c m s \<longleftrightarrow>
     idle (spi_ok (m_bus E) (flash_spi fl) dv) (host s) \<and> P (slave (drv (host s))) \<and> absn (slave (drv (host s))) = c \<and> mem (drv (host s)) = m"

subsection \<open>Messages of bytes\<close>

lemma ucast8_ucast32 [simp]: "ucast (ucast (x :: u8) :: u32) = x"
  by (rule bit_word_eqI) (simp add: bit_ucast_iff)

lemma get_bytes_length[simp]: "length (get_bytes a n m) = n"
  by (simp add: get_bytes_def)

lemma get_bytes_nth[simp]: "i < n \<Longrightarrow> get_bytes a n m ! i = m (a + of_nat i)"
  by (simp add: get_bytes_def)

text \<open>A transfer of bytes in one direction, before and after the core has put in the defaults of the device.\<close>

definition byte_xfer :: "spi_device \<Rightarrow> spi_transfer \<Rightarrow> bool" where
  "byte_xfer spi t \<longleftrightarrow> t_len t \<noteq> 0 \<and> 0 < sint (t_len t) \<and> (tx_buf t = 0) \<noteq> (rx_buf t = 0) \<and> \<not> cs_change t
     \<and> tx_nbits t \<in> {0, 1} \<and> rx_nbits t \<in> {0, 1} \<and> bits_per_word t \<in> {0, 8}"

definition full :: "spi_device \<Rightarrow> spi_transfer \<Rightarrow> spi_transfer" where
  "full spi t = xfer_lanes (xfer_defaults spi t)"

definition dev8 :: "spi_device \<Rightarrow> bool" where
  "dev8 spi \<longleftrightarrow> mode spi AND SPI_3WIRE = 0 \<and> max_speed_hz spi \<noteq> 0 \<and> dev_bits spi = 8"

lemma full_fields:
  "tx_buf (full spi t) = tx_buf t" "rx_buf (full spi t) = rx_buf t" "t_len (full spi t) = t_len t" "cs_change (full spi t) = cs_change t"
  by (simp_all add: full_def xfer_lanes_def xfer_defaults_def Let_def)

lemma full_byte_xfer:
  assumes "byte_xfer spi t" "dev8 spi"
  shows "simplex (full spi t)" "byte_xfer spi (full spi t)" "bits_per_word (full spi t) = 8" "\<not> xfer_refused spi (full spi t)"
proof -
  have b: "bits_per_word (full spi t) = 8" and n: "tx_nbits (full spi t) \<in> {0, 1}" "rx_nbits (full spi t) \<in> {0, 1}"
    "tx_buf t \<noteq> 0 \<Longrightarrow> tx_nbits (full spi t) = 1" "rx_buf t \<noteq> 0 \<Longrightarrow> rx_nbits (full spi t) = 1"
    using assms by (auto simp: full_def xfer_lanes_def xfer_defaults_def byte_xfer_def dev8_def Let_def)
  show "simplex (full spi t)" "byte_xfer spi (full spi t)" "bits_per_word (full spi t) = 8"
    using assms b n(1,2) by (auto simp: simplex_def byte_xfer_def full_fields)
  show "\<not> xfer_refused spi (full spi t)"
    using n(3,4) assms(2) by (auto simp: xfer_refused_def lanes_refused_def full_fields dev8_def)
qed

lemma async_bytes:
  "dev8 spi \<Longrightarrow> \<forall>t \<in> set ts. byte_xfer spi t \<Longrightarrow> async_transfers 0 spi ts = (0, map (full spi) ts)"
proof (induction ts)
  case (Cons t ts)
  then have "\<not> xfer_refused spi (xfer_lanes (xfer_defaults spi t))" using full_byte_xfer(4)[of spi t] by (simp add: full_def)
  then show ?case using Cons by (simp add: Let_def bits_refused_def full_def)
qed simp

definition out_words :: "(u32 \<Rightarrow> u8) \<Rightarrow> spi_transfer list \<Rightarrow> u32 list" where
  "out_words m ts = concat (map (\<lambda>t. map ucast (get_bytes (tx_buf t) (unat (t_len t)) m)) ts)"

definition out_bytes :: "(u32 \<Rightarrow> u8) \<Rightarrow> spi_transfer list \<Rightarrow> u8 list" where
  "out_bytes m ts = concat (map (\<lambda>t. get_bytes (tx_buf t) (unat (t_len t)) m) ts)"

lemma out_bytes_words: "map ucast (out_words m ts) = out_bytes m ts"
  by (induction ts) (simp_all add: out_words_def out_bytes_def comp_def)

lemma fold_out:
  assumes "dev8 spi" "\<forall>t \<in> set ts. byte_xfer spi t \<and> tx_buf t \<noteq> 0"
  shows "fold (spi_move env spi dv) (map (full spi) ts) (m, d)
    = (m, snd (shift_words env (dev_line spi dv 8) (out_words m ts) d))"
  using assms(2)
proof (induction ts arbitrary: d)
  case (Cons t ts)
  have t: "byte_xfer spi t" "tx_buf t \<noteq> 0" "rx_buf t = 0" using Cons.prems by (auto simp: byte_xfer_def)
  have "spi_move env spi dv (full spi t) (m, d)
      = (m, snd (shift_words env (dev_line spi dv 8) (map ucast (get_bytes (tx_buf t) (unat (t_len t)) m)) d))"
    using t(2,3) full_byte_xfer(3)[OF t(1) assms(1)]
    by (simp add: spi_move_def full_fields xfer_words_def split: prod.splits)
  then show ?case using Cons by (simp add: out_words_def shift_words_append Let_def split: prod.splits)
qed (simp add: out_words_def)

text \<open>A message that only sends.\<close>

lemma flash_sync_out:
  assumes at: "flash_at E fl dv P absn c m s" and run: "nor_chip (m_bus E) fl dv D P absn" "dev8 (flash_spi fl)"
    and ts: "\<forall>t \<in> set (transfers msg). byte_xfer (flash_spi fl) t \<and> tx_buf t \<noteq> 0" "transfers msg \<noteq> []"
    and ex: "nor_exec fl D (out_bytes m (transfers msg)) c = Some c'"
  shows "\<exists>s'. flash_sync E fl msg s = Some (0, msg\<lparr>m_spi := flash_spi fl, transfers := map (full (flash_spi fl)) (transfers msg),
        m_status := 0, actual_length := sum_list (map t_len (transfers msg))\<rparr>, s')
    \<and> flash_at E fl dv P absn c' m s' \<and> jiffies s' = jiffies s"
proof -
  let ?spi = "flash_spi fl" let ?ts = "map (full ?spi) (transfers msg)" let ?d = "slave (drv (host s))"
  let ?ws = "out_words m (transfers msg)"
  have 1: "idle (spi_ok (m_bus E) ?spi dv) (host s)" "P ?d" "absn ?d = c" "mem (drv (host s)) = m"
    using at by (simp_all add: flash_at_def)
  have 2: "\<forall>t \<in> set ?ts. simplex t" "?ts \<noteq> []" "async_transfers 0 ?spi (transfers msg) = (0, ?ts)"
    using ts full_byte_xfer(1)[OF _ run(2)] async_bytes[OF run(2)] by auto
  have len: "sum_list (map t_len ?ts) = sum_list (map t_len (transfers msg))" by (simp add: comp_def full_fields)
  obtain rs d' where tr: "transact (m_bus E) ?spi dv ?ws ?d = (rs, d')" by fastforce
  obtain M' where M': "spi_sync (nuc970_bitbang (m_bus E)) ?spi msg (host s) = Some (0, msg\<lparr>m_spi := ?spi, transfers := ?ts,
      m_status := 0, actual_length := sum_list (map t_len ?ts)\<rparr>, M')" "idle (spi_ok (m_bus E) ?spi dv) M'"
    "spi_view (drv M') = spi_select (m_bus E) (ssr_off ?spi) (fold (spi_move (m_bus E) ?spi dv) ?ts (spi_select (m_bus E) (ssr_on ?spi) (spi_view (drv (host s)))))"
    using nb.sync[OF 1(1) _ _ 2(3,1,2)] run(2) by (auto simp: dev8_def)
  have v: "mem (drv M') = m" "slave (drv M') = d'"
    using M'(3) tr 1(4) unfolding spi_view_def
    by (simp_all add: spi_select_def fold_out[OF run(2) ts(1)] transact_def Let_def split: prod.splits)
  have "?ws \<noteq> []" using ts by (cases "transfers msg") (auto simp: out_words_def byte_xfer_def get_bytes_def unat_eq_zero)
  then have "P d'" "absn d' = c'" using run(1) 1(2,3) tr ex by (auto simp: nor_chip_def out_bytes_words)
  then show ?thesis using M'(1,2) v len by (auto simp: flash_sync_def flash_at_def)
qed

text \<open>A message that sends a command and receives.\<close>

lemma put_bytes_nth:
  assumes "length bs \<le> 2 ^ 32"
  shows "put_bytes a bs m x = (if unat (x - a) < length bs then bs ! unat (x - a) else m x)"
  using assms
proof (induction bs arbitrary: a m)
  case (Cons b bs)
  have u: "unat (x - (a + 1)) = unat (x - a) - 1" if "x \<noteq> a"
  proof -
    have "x - a \<noteq> 0" using that by simp
    then show ?thesis using unat_minus_one[of "x - a"] by (simp add: diff_diff_add)
  qed
  have z: "unat (x - a) = 0 \<longleftrightarrow> x = a" by (simp add: unat_eq_zero)
  show ?case
  proof (cases "x = a")
    case True
    have "unat (a - (a + 1)) = 2 ^ 32 - 1" by (simp add: unsigned_minus_1_eq_mask mask_eq_exp_minus_1)
    then show ?thesis using Cons True by simp
  next
    case False
    then have "unat (x - a) \<noteq> 0" using z by simp
    then show ?thesis using Cons u[OF False] False by (cases "unat (x - a)") auto
  qed
qed simp

lemma flash_sync_in:
  assumes at: "flash_at E fl dv P absn c m s" and run: "nor_chip (m_bus E) fl dv D P absn" "dev8 (flash_spi fl)"
    and ts: "transfers msg = [t0, t1]" "byte_xfer (flash_spi fl) t0" "tx_buf t0 \<noteq> 0" "byte_xfer (flash_spi fl) t1" "rx_buf t1 \<noteq> 0"
    and bs: "bs = get_bytes (tx_buf t0) (unat (t_len t0)) m" "n = unat (t_len t1)"
    and ex: "nor_exec fl D (bs @ replicate n 0xff) c = Some c'"
  shows "\<exists>s' vs msg'. flash_sync E fl msg s = Some (0, msg', s') \<and> actual_length msg' = t_len t0 + t_len t1
    \<and> flash_at E fl dv P absn c' (put_bytes (rx_buf t1) vs m) s' \<and> jiffies s' = jiffies s \<and> length vs = n
    \<and> (\<forall>i < n. \<forall>v. nor_answer fl (bs @ replicate i 0xff) c = Some v \<longrightarrow> vs ! i = v)"
proof -
  let ?spi = "flash_spi fl" let ?ts = "map (full ?spi) [t0, t1]" let ?d = "slave (drv (host s))"
  let ?ws = "map ucast bs @ replicate n (0xffffffff :: u32)"
  have 1: "idle (spi_ok (m_bus E) ?spi dv) (host s)" "P ?d" "absn ?d = c" "mem (drv (host s)) = m"
    using at by (simp_all add: flash_at_def)
  have 2: "\<forall>t \<in> set ?ts. simplex t" "?ts \<noteq> []" "async_transfers 0 ?spi (transfers msg) = (0, ?ts)"
    using ts full_byte_xfer(1)[OF _ run(2)] async_bytes[OF run(2), of "[t0, t1]"] by (auto simp del: async_transfers.simps)
  have z: "rx_buf t0 = 0" "tx_buf t1 = 0" "n \<noteq> 0" using ts bs by (auto simp: byte_xfer_def unat_eq_zero)
  obtain rs d' where tr: "transact (m_bus E) ?spi dv ?ws ?d = (rs, d')" by fastforce
  have map8: "map ucast ?ws = bs @ replicate n (0xff :: u8)" by (simp add: comp_def)
  have take8: "map ucast (take (length bs + i) ?ws) = bs @ replicate i (0xff :: u8)" if "i < n" for i
    using that by (simp add: comp_def min_def)
  obtain r0 d1 where 3: "shift_words (m_bus E) (dev_line ?spi dv 8) (map ucast bs) (ssr_changed (m_bus E) (ssr_on ?spi) ?d) = (r0, d1)" by fastforce
  obtain r1 d2 where 4: "shift_words (m_bus E) (dev_line ?spi dv 8) (replicate n 0xffffffff) d1 = (r1, d2)" by fastforce
  have rs: "rs = r0 @ r1" "d' = ssr_changed (m_bus E) (ssr_off ?spi) d2" using tr 3 4 by (simp_all add: transact_def shift_words_append)
  have lens: "length r0 = length bs" "length r1 = n"
    using length_shift_words[of "m_bus E" "dev_line ?spi dv 8"] 3 4 by (metis fst_conv length_map, metis fst_conv length_replicate)
  obtain M' where M': "spi_sync (nuc970_bitbang (m_bus E)) ?spi msg (host s) = Some (0, msg\<lparr>m_spi := ?spi, transfers := ?ts,
      m_status := 0, actual_length := sum_list (map t_len ?ts)\<rparr>, M')" "idle (spi_ok (m_bus E) ?spi dv) M'"
    "spi_view (drv M') = spi_select (m_bus E) (ssr_off ?spi) (fold (spi_move (m_bus E) ?spi dv) ?ts (spi_select (m_bus E) (ssr_on ?spi) (spi_view (drv (host s)))))"
    using nb.sync[OF 1(1) _ _ 2(3,1,2)] run(2) by (auto simp: dev8_def)
  have v: "mem (drv M') = put_bytes (rx_buf t1) (map ucast r1) m" "slave (drv M') = d'"
    using M'(3) 1(4) 3 4 z ts(3,5) bs rs(2) full_byte_xfer(3)[OF _ run(2)] ts(2,4) unfolding spi_view_def
    by (simp_all add: spi_select_def spi_move_def full_fields xfer_words_def)
  have "P d'" "absn d' = c'" and A: "\<And>i w. i < length ?ws \<Longrightarrow> nor_answer fl (map ucast (take i ?ws)) c = Some w \<Longrightarrow> ucast (rs ! i) = w"
    using run(1) 1(2,3) tr ex z(3) map8 unfolding nor_chip_def by (metis append_is_Nil_conv replicate_empty)+
  moreover have "ucast (r1 ! i) = w" if "i < n" "nor_answer fl (bs @ replicate i 0xff) c = Some w" for i w
    using A[of "length bs + i", unfolded take8[OF that(1)]] that lens by (simp add: rs nth_append)
  ultimately show ?thesis using M'(1,2) v lens ts(1) by (auto simp: flash_sync_def flash_at_def full_fields intro!: exI[of _ "map ucast r1"])
qed

subsection \<open>Status and write enable\<close>

definition same_out :: "u32 set \<Rightarrow> (u32 \<Rightarrow> u8) \<Rightarrow> (u32 \<Rightarrow> u8) \<Rightarrow> bool" where
  "same_out A m m' \<longleftrightarrow> (\<forall>a. a \<notin> A \<longrightarrow> m' a = m a)"

lemma same_out_refl [simp]: "same_out A m m"
  by (simp add: same_out_def)

lemma same_out_trans: "same_out A m m1 \<Longrightarrow> same_out A m1 m2 \<Longrightarrow> same_out A m m2"
  by (simp add: same_out_def)

lemma same_out_mono: "same_out A m m' \<Longrightarrow> A \<subseteq> B \<Longrightarrow> same_out B m m'"
  by (auto simp: same_out_def)

lemma flash_at_mem:
  assumes "flash_at E fl dv P absn c m s"
  shows "flash_at E fl dv P absn c (f m) (s\<lparr>host := on_mem f (host s)\<rparr>)"
  using assms by (simp add: flash_at_def on_mem_def idle_def spi_ok_def quiet_def ctl_def)

lemma flash_wtr_sync:
  assumes "length tx + n \<le> 32" "local_buf (m_wtr E) \<noteq> 0" "tx \<noteq> []"
  shows "flash_wtr E fl tx n s = do {
     (r, m, s') \<leftarrow> flash_sync E fl (msg_of (flash_spi fl) (no_xfer\<lparr>tx_buf := local_buf (m_wtr E), t_len := of_nat (length tx)\<rparr>
        # (if n \<noteq> 0 then [no_xfer\<lparr>rx_buf := local_buf (m_wtr E) + of_nat (length tx), t_len := of_nat n\<rparr>] else [])))
        (s\<lparr>host := on_mem (put_bytes (local_buf (m_wtr E)) tx) (host s)\<rparr>);
     Some (r, if r = 0 then get_bytes (local_buf (m_wtr E) + of_nat (length tx)) n (mem (drv (host s'))) else [], s') }"
  using assms
  by (cases "wtr_lock (m_wtr E)") (simp_all add: flash_wtr_def flash_sync_def spi_write_then_read_def local_buf_def SPI_BUFSIZ_def
      msg_of_def no_xfer_def Let_def Option.bind_assoc case_prod_beta cong: if_cong)

lemma sint_small: "unat (n :: u32) < 2 ^ 31 \<Longrightarrow> sint n = int (unat n)"
proof -
  assume "unat n < 2 ^ 31"
  then have "int (unat n) < int (2 ^ 31)" by (simp only: of_nat_less_iff)
  then have u: "uint n < 2 ^ (LENGTH(32) - 1)" by simp
  have "- (2 ^ (LENGTH(32) - 1)) \<le> uint n" by (rule order_trans[OF _ unsigned_greater_eq]) simp
  from signed_take_bit_int_eq_self[OF this u] show ?thesis by (simp add: sint_uint)
qed

lemma byte_xfer_simps:
  "byte_xfer spi (no_xfer\<lparr>tx_buf := a, t_len := n\<rparr>) \<longleftrightarrow> 0 < sint n \<and> a \<noteq> 0"
  "byte_xfer spi (no_xfer\<lparr>rx_buf := a, t_len := n\<rparr>) \<longleftrightarrow> 0 < sint n \<and> a \<noteq> 0"
  by (auto simp: byte_xfer_def no_xfer_def)

lemma transfers_msg_of: "transfers (msg_of spi ts) = ts"
  by (simp add: msg_of_def)

lemma in_wtr_area: "i < 6 \<Longrightarrow> local_buf (m_wtr E) + of_nat i \<in> wtr_area E"
  by (auto simp: wtr_area_def)

lemma wtr_out_ok:
  assumes at: "flash_at E fl dv P absn c m s" and run: "flash_runs E fl dv D K P absn" and ex: "nor_exec fl D [opc] c = Some c'"
  shows "\<exists>s' m'. flash_wtr E fl [opc] 0 s = Some (0, [], s') \<and> flash_at E fl dv P absn c' m' s' \<and> same_out (wtr_area E) m m'
    \<and> jiffies s' = jiffies s"
proof -
  let ?a = "local_buf (m_wtr E)" let ?m = "m(?a := opc)"
  have r: "nor_chip (m_bus E) fl dv D P absn" "dev8 (flash_spi fl)" "?a \<noteq> 0"
    using run by (simp_all add: flash_runs_def flash_fits_def dev8_def)
  have at': "flash_at E fl dv P absn c ?m (s\<lparr>host := on_mem (put_bytes ?a [opc]) (host s)\<rparr>)" using flash_at_mem[OF at, of "put_bytes ?a [opc]"] by simp
  have "out_bytes ?m [no_xfer\<lparr>tx_buf := ?a, t_len := 1\<rparr>] = [opc]" by (simp add: out_bytes_def get_bytes_def)
  then obtain s' msg where "flash_sync E fl (msg_of (flash_spi fl) [no_xfer\<lparr>tx_buf := ?a, t_len := 1\<rparr>])
      (s\<lparr>host := on_mem (put_bytes ?a [opc]) (host s)\<rparr>) = Some (0, msg, s')" "flash_at E fl dv P absn c' ?m s'" "jiffies s' = jiffies s"
    using flash_sync_out[OF at' r(1,2), of "msg_of (flash_spi fl) [no_xfer\<lparr>tx_buf := ?a, t_len := 1\<rparr>]"] ex r(3)
    by (auto simp: msg_of_def byte_xfer_simps)
  moreover have "same_out (wtr_area E) m ?m" using in_wtr_area[of 0 E] by (auto simp: same_out_def)
  moreover have "flash_wtr E fl [opc] 0 s = Some (0, [], s')"
    using flash_wtr_sync[of "[opc]" 0 E fl s] r(3) calculation(1) by (simp add: get_bytes_def)
  ultimately show ?thesis by blast
qed

lemma wtr_in_ok:
  assumes at: "flash_at E fl dv P absn c m s" and run: "flash_runs E fl dv D K P absn" and n: "n \<in> {1..5}"
    and ex: "nor_exec fl D (opc # replicate n 0xff) c = Some c'"
  shows "\<exists>s' m' vs. flash_wtr E fl [opc] n s = Some (0, vs, s') \<and> flash_at E fl dv P absn c' m' s' \<and> same_out (wtr_area E) m m'
    \<and> jiffies s' = jiffies s \<and> length vs = n \<and> (\<forall>i < n. \<forall>v. nor_answer fl (opc # replicate i 0xff) c = Some v \<longrightarrow> vs ! i = v)"
proof -
  let ?a = "local_buf (m_wtr E)" let ?m = "m(?a := opc)" let ?s = "s\<lparr>host := on_mem (put_bytes ?a [opc]) (host s)\<rparr>"
  let ?t0 = "no_xfer\<lparr>tx_buf := ?a, t_len := 1\<rparr>" let ?t1 = "no_xfer\<lparr>rx_buf := ?a + 1, t_len := of_nat n\<rparr>"
  have r: "nor_chip (m_bus E) fl dv D P absn" "dev8 (flash_spi fl)" "?a \<noteq> 0" "?a + 1 \<noteq> 0"
    using run by (simp_all add: flash_runs_def flash_fits_def dev8_def)
  have at': "flash_at E fl dv P absn c ?m ?s" using flash_at_mem[OF at, of "put_bytes ?a [opc]"] by simp
  have un: "unat (of_nat n :: u32) = n" using n by (simp add: unat_of_nat)
  have b: "byte_xfer (flash_spi fl) ?t0" "tx_buf ?t0 \<noteq> 0" "byte_xfer (flash_spi fl) ?t1" "rx_buf ?t1 \<noteq> 0"
    using r n sint_small[of "of_nat n"] un by (auto simp: byte_xfer_simps)
  have g: "[opc] = get_bytes (tx_buf ?t0) (unat (t_len ?t0)) ?m" "n = unat (t_len ?t1)" using un by (simp_all add: get_bytes_def)
  obtain s' vs msg where 1: "flash_sync E fl (msg_of (flash_spi fl) [?t0, ?t1]) ?s = Some (0, msg, s')"
    "flash_at E fl dv P absn c' (put_bytes (?a + 1) vs ?m) s'" "jiffies s' = jiffies s" "length vs = n"
    "\<forall>i < n. \<forall>v. nor_answer fl (opc # replicate i 0xff) c = Some v \<longrightarrow> vs ! i = v"
    using flash_sync_in[OF at' r(1,2) transfers_msg_of b g] ex by simp blast
  have mm: "mem (drv (host s')) = put_bytes (?a + 1) vs ?m" using 1(2) by (simp add: flash_at_def)
  have pb: "put_bytes (?a + 1) vs ?m x = (if unat (x - (?a + 1)) < n then vs ! unat (x - (?a + 1)) else ?m x)" for x
    using put_bytes_nth[of vs "?a + 1" ?m x] 1(4) n by auto
  have gb: "get_bytes (?a + 1) n (put_bytes (?a + 1) vs ?m) = vs"
    by (rule nth_equalityI) (use 1(4) n in \<open>auto simp: pb unat_of_nat\<close>)
  have "same_out (wtr_area E) m (put_bytes (?a + 1) vs ?m)"
    unfolding same_out_def
  proof (intro allI impI)
    fix x assume x: "x \<notin> wtr_area E"
    have "x = ?a + of_nat (Suc (unat (x - (?a + 1))))" by simp
    then have "\<not> unat (x - (?a + 1)) < n" using x n in_wtr_area[of "Suc (unat (x - (?a + 1)))" E] by (auto simp del: of_nat_Suc)
    then show "put_bytes (?a + 1) vs ?m x = m x" using x in_wtr_area[of 0 E] by (auto simp: pb)
  qed
  moreover have "flash_wtr E fl [opc] n s = Some (0, vs, s')"
    using flash_wtr_sync[of "[opc]" n E fl s] r(3) 1(1) mm n gb by simp
  ultimately show ?thesis using 1(2-5) by blast
qed

lemma status_wip: "uint (nor_status c) AND uint SR_WIP = 0 \<longleftrightarrow> wip c = 0"
proof -
  have "bit (nor_status c) 0 \<longleftrightarrow> wip c > 0"
    by (simp add: nor_status_def SR_WIP_def SR_WEL_def bit_or_iff bit_and_iff bit_numeral_rec)
  moreover have "v AND SR_WIP = 0 \<longleftrightarrow> \<not> bit v 0" for v by (simp add: SR_WIP_def and_one_eq odd_iff_mod_2_eq_one bit_0)
  moreover have "uint (nor_status c) AND uint SR_WIP = uint (nor_status c AND SR_WIP)" by (simp add: unsigned_and_eq)
  ultimately show ?thesis by (simp add: uint_0_iff)
qed

lemma read_sr_ok:
  assumes at: "flash_at E fl dv P absn c m s" and run: "flash_runs E fl dv D K P absn"
  shows "\<exists>s' m'. read_sr E fl s = Some (uint (nor_status c), s') \<and> flash_at E fl dv P absn (c\<lparr>wip := wip c - 1\<rparr>) m' s'
    \<and> same_out (wtr_area E) m m' \<and> jiffies s' = jiffies s"
proof -
  have e: "nor_exec fl D (OPCODE_RDSR # replicate 1 0xff) c = Some (c\<lparr>wip := wip c - 1\<rparr>)" by (simp add: nor_exec_def)
  obtain s' m' vs where 1: "flash_wtr E fl [OPCODE_RDSR] 1 s = Some (0, vs, s')" "flash_at E fl dv P absn (c\<lparr>wip := wip c - 1\<rparr>) m' s'"
    "same_out (wtr_area E) m m'" "jiffies s' = jiffies s" "length vs = 1"
    "\<forall>i < 1. \<forall>v. nor_answer fl (OPCODE_RDSR # replicate i 0xff) c = Some v \<longrightarrow> vs ! i = v"
    using wtr_in_ok[OF at run _ e] by auto
  have "vs = [nor_status c]" using 1(5,6) by (cases vs) (auto simp: nor_answer_def)
  then show ?thesis using 1(1-4) by (auto simp: read_sr_def)
qed

lemma ready_loop_ok:
  assumes run: "flash_runs E fl dv D K P absn"
  shows "flash_at E fl dv P absn c m s \<Longrightarrow> wip c = n \<Longrightarrow> \<forall>j \<in> {1..n}. \<not> time_after_eq ((m_tick E ^^ j) (jiffies s)) deadline
    \<Longrightarrow> \<exists>s' m'. ready_loop E fl deadline s = Some (0, s') \<and> flash_at E fl dv P absn (c\<lparr>wip := 0\<rparr>) m' s' \<and> same_out (wtr_area E) m m'"
proof (induction n arbitrary: c m s)
  case 0
  obtain s' m' where "read_sr E fl s = Some (uint (nor_status c), s')" "flash_at E fl dv P absn (c\<lparr>wip := 0\<rparr>) m' s'" "same_out (wtr_area E) m m'"
    using read_sr_ok[OF 0(1) run] 0(2) by auto
  then show ?case using 0(2) status_wip[of c] by (subst ready_loop.simps) auto
next
  case (Suc n)
  obtain s' m' where 1: "read_sr E fl s = Some (uint (nor_status c), s')" "flash_at E fl dv P absn (c\<lparr>wip := n\<rparr>) m' s'"
    "same_out (wtr_area E) m m'" "jiffies s' = jiffies s" using read_sr_ok[OF Suc.prems(1) run] Suc.prems(2) by auto
  let ?s = "s'\<lparr>jiffies := m_tick E (jiffies s')\<rparr>"
  have a: "flash_at E fl dv P absn (c\<lparr>wip := n\<rparr>) m' ?s" using 1(2) by (simp add: flash_at_def)
  have t: "\<not> time_after_eq ((m_tick E ^^ j) (m_tick E (jiffies s))) deadline" if "j \<le> n" for j
    using Suc.prems(3)[rule_format, of "Suc j"] that by (simp add: funpow_swap1)
  obtain s2 m2 where "ready_loop E fl deadline ?s = Some (0, s2)" "flash_at E fl dv P absn (c\<lparr>wip := 0\<rparr>) m2 s2" "same_out (wtr_area E) m' m2"
    using Suc.IH[OF a] t 1(4) by auto
  then show ?case using 1 t[of 0] Suc.prems(2) status_wip[of c] same_out_trans[of "wtr_area E" m m' m2]
    by (subst ready_loop.simps) auto
qed

lemma ready_loop_stuck:
  assumes run: "flash_runs E fl dv D K P absn"
  shows "flash_at E fl dv P absn c m s \<Longrightarrow> n < wip c \<Longrightarrow> time_after_eq ((m_tick E ^^ Suc n) (jiffies s)) deadline
    \<Longrightarrow> \<exists>s' m' w. ready_loop E fl deadline s = Some (1, s') \<and> flash_at E fl dv P absn (c\<lparr>wip := w\<rparr>) m' s' \<and> same_out (wtr_area E) m m'"
proof (induction n arbitrary: c m s)
  case 0
  obtain s' m' where "read_sr E fl s = Some (uint (nor_status c), s')" "flash_at E fl dv P absn (c\<lparr>wip := wip c - 1\<rparr>) m' s'"
    "same_out (wtr_area E) m m'" "jiffies s' = jiffies s" using read_sr_ok[OF 0(1) run] by auto
  then show ?case using 0(2,3) status_wip[of c] by (subst ready_loop.simps) (auto simp: flash_at_def)
next
  case (Suc n)
  obtain s' m' where 1: "read_sr E fl s = Some (uint (nor_status c), s')" "flash_at E fl dv P absn (c\<lparr>wip := wip c - 1\<rparr>) m' s'"
    "same_out (wtr_area E) m m'" "jiffies s' = jiffies s" using read_sr_ok[OF Suc.prems(1) run] by auto
  let ?s = "s'\<lparr>jiffies := m_tick E (jiffies s')\<rparr>"
  have a: "flash_at E fl dv P absn (c\<lparr>wip := wip c - 1\<rparr>) m' ?s" using 1(2) by (simp add: flash_at_def)
  show ?case
  proof (cases "time_after_eq (m_tick E (jiffies s)) deadline")
    case True
    then show ?thesis using 1 a Suc.prems(2) status_wip[of c] by (subst ready_loop.simps) auto
  next
    case False
    have "n < wip c - Suc 0" using Suc.prems(2) by simp
    then obtain s2 m2 w where "ready_loop E fl deadline ?s = Some (1, s2)" "flash_at E fl dv P absn (c\<lparr>wip := w\<rparr>) m2 s2" "same_out (wtr_area E) m' m2"
      using Suc.IH[OF a] Suc.prems(2,3) 1(4) by (auto simp: funpow_swap1)
    then show ?thesis using 1 False Suc.prems(2) status_wip[of c] same_out_trans[of "wtr_area E" m m' m2]
      by (subst ready_loop.simps) auto
  qed
qed

lemma wait_ok:
  assumes at: "flash_at E fl dv P absn c m s" and run: "flash_runs E fl dv D K P absn" and w: "wip c \<le> K"
  shows "\<exists>s' m'. wait_till_ready E fl s = Some (0, s') \<and> flash_at E fl dv P absn (c\<lparr>wip := 0\<rparr>) m' s' \<and> same_out (wtr_area E) m m'"
proof -
  have "\<forall>j \<in> {1..wip c}. \<not> time_after_eq ((m_tick E ^^ j) (jiffies s)) (jiffies s + MAX_READY_WAIT_JIFFIES)"
    using run w by (auto simp: flash_runs_def patient_def)
  then show ?thesis using ready_loop_ok[OF run at refl] by (simp add: wait_till_ready_def)
qed

lemma write_enable_ok:
  assumes at: "flash_at E fl dv P absn c m s" and run: "flash_runs E fl dv D K P absn" and w: "wip c = 0"
  shows "\<exists>s' m'. write_enable E fl s = Some (0, s') \<and> flash_at E fl dv P absn (c\<lparr>wel := True\<rparr>) m' s' \<and> same_out (wtr_area E) m m'"
proof -
  have "nor_exec fl D [OPCODE_WREN] c = Some (c\<lparr>wel := True\<rparr>)" using w by (simp add: nor_exec_def OPCODE_WREN_def OPCODE_RDSR_def)
  then show ?thesis using wtr_out_ok[OF at run] by (force simp: write_enable_def)
qed

text \<open>Ready and enabled: how every writing operation begins.\<close>

lemma ready_ok:
  assumes at: "flash_at E fl dv P absn c m s" and run: "flash_runs E fl dv D K P absn" and w: "wip c \<le> K"
  obtains s1 s2 m2 where "wait_till_ready E fl s = Some (0, s1)" "write_enable E fl s1 = Some (0, s2)"
    "flash_at E fl dv P absn (c\<lparr>wip := 0, wel := True\<rparr>) m2 s2" "same_out (wtr_area E) m m2"
proof -
  obtain s1 m1 where 1: "wait_till_ready E fl s = Some (0, s1)" "flash_at E fl dv P absn (c\<lparr>wip := 0\<rparr>) m1 s1" "same_out (wtr_area E) m m1"
    using wait_ok[OF at run w] by blast
  obtain s2 m2 where 2: "write_enable E fl s1 = Some (0, s2)" "flash_at E fl dv P absn (c\<lparr>wip := 0, wel := True\<rparr>) m2 s2" "same_out (wtr_area E) m1 m2"
    using write_enable_ok[OF 1(2) run] by auto
  show ?thesis using that[OF 1(1) 2(1,2) same_out_trans[OF 1(3) 2(3)]] .
qed

subsection \<open>The command buffer\<close>

definition addr_mem :: "m25p \<Rightarrow> u32 \<Rightarrow> (u32 \<Rightarrow> u8) \<Rightarrow> u32 \<Rightarrow> u8" where
  "addr_mem fl a m =
    (let w = uint (addr_width fl) * 8
     in m(command fl + 1 := ucast (shr a (w - 8)), command fl + 2 := ucast (shr a (w - 16)),
          command fl + 3 := ucast (shr a (w - 24)), command fl + 4 := ucast (shr a (w - 32))))"

lemma cmd_put_at:
  "flash_at E fl dv P absn c m s \<Longrightarrow> flash_at E fl dv P absn c (m(command fl + of_nat i := v)) (cmd_put fl i v s)"
  unfolding cmd_put_def using flash_at_mem[of E fl dv P absn c m s "\<lambda>m. m(command fl + of_nat i := v)"] by simp

lemma addr2cmd_at:
  assumes "flash_at E fl dv P absn c m s"
  shows "flash_at E fl dv P absn c (addr_mem fl a m) (m25p_addr2cmd fl a s)"
  using cmd_put_at[OF cmd_put_at[OF cmd_put_at[OF cmd_put_at[OF assms, of 1 "ucast (shr a (uint (addr_width fl) * 8 - 8))"],
        of 2 "ucast (shr a (uint (addr_width fl) * 8 - 16))"], of 3 "ucast (shr a (uint (addr_width fl) * 8 - 24))"],
        of 4 "ucast (shr a (uint (addr_width fl) * 8 - 32))"]
  by (simp add: m25p_addr2cmd_def addr_mem_def Let_def)

lemma in_cmd_area: "command fl \<in> cmd_area fl" "command fl + 1 \<in> cmd_area fl" "command fl + 2 \<in> cmd_area fl"
    "command fl + 3 \<in> cmd_area fl" "command fl + 4 \<in> cmd_area fl" "command fl + 5 \<in> cmd_area fl"
  using image_eqI[of _ "\<lambda>i. command fl + of_nat i" 0] image_eqI[of _ "\<lambda>i. command fl + of_nat i" 1]
    image_eqI[of _ "\<lambda>i. command fl + of_nat i" 2] image_eqI[of _ "\<lambda>i. command fl + of_nat i" 3]
    image_eqI[of _ "\<lambda>i. command fl + of_nat i" 4] image_eqI[of _ "\<lambda>i. command fl + of_nat i" 5]
  by (auto simp: cmd_area_def)

lemma addr_mem_same: "same_out (cmd_area fl) m (addr_mem fl a m)"
  using in_cmd_area[of fl] by (auto simp: same_out_def addr_mem_def Let_def)

lemma shr_drop: "0 \<le> n \<Longrightarrow> n < 32 \<Longrightarrow> shr a n = drop_bit (nat n) a"
  by (auto simp: shr_def Let_def nat_less_iff)

lemma unat_byte: "unat (ucast (a :: u32) :: u8) = unat a mod 256" "unat (drop_bit k a) = unat a div 2 ^ k"
proof -
  show "unat (ucast a :: u8) = unat a mod 256" by (simp add: unsigned_ucast_eq take_bit_eq_mod)
  show "unat (drop_bit k a) = unat a div 2 ^ k" unfolding unat_drop_bit_eq by (simp add: drop_bit_eq_div)
qed

lemma digits256:
  "(n :: nat) < 256 \<Longrightarrow> n mod 256 = n"
  "n < 65536 \<Longrightarrow> n div 256 * 256 + n mod 256 = n"
  "n div 65536 * 65536 + (n div 256 mod 256 * 256 + n mod 256) = n"
  "n div 16777216 * 16777216 + (n div 65536 mod 256 * 65536 + (n div 256 mod 256 * 256 + n mod 256)) = n"
proof -
  have 1: "n div 256 * 256 + n mod 256 = n" by simp
  have 2: "n div 65536 * 256 + n div 256 mod 256 = n div 256" using div_mult_mod_eq[of "n div 256" 256] by (simp flip: div_mult2_eq)
  have 3: "n div 16777216 * 256 + n div 65536 mod 256 = n div 65536" using div_mult_mod_eq[of "n div 65536" 256] by (simp flip: div_mult2_eq)
  show "n < 256 \<Longrightarrow> n mod 256 = n" by simp
  show "n < 65536 \<Longrightarrow> n div 256 * 256 + n mod 256 = n" using 1 by simp
  show "n div 65536 * 65536 + (n div 256 mod 256 * 256 + n mod 256) = n" using 1 2 by linarith
  show "n div 16777216 * 16777216 + (n div 65536 mod 256 * 65536 + (n div 256 mod 256 * 256 + n mod 256)) = n" using 1 2 3 by linarith
qed

lemma get_bytes_short:
  "get_bytes a 1 m = [m a]" "get_bytes a 2 m = [m a, m (a + 1)]" "get_bytes a 3 m = [m a, m (a + 1), m (a + 2)]"
  "get_bytes a 4 m = [m a, m (a + 1), m (a + 2), m (a + 3)]"
  by (simp_all add: get_bytes_def upt_rec)

text \<open>The command buffer holds the address as the chip expects it.\<close>

lemma addr_mem_bytes:
  assumes "aw fl \<in> {1..4}" "unat a < 256 ^ aw fl"
  shows "addr_mem fl a m (command fl) = m (command fl)" "addr_of (get_bytes (command fl + 1) (aw fl) (addr_mem fl a m)) = unat a"
proof -
  show "addr_mem fl a m (command fl) = m (command fl)" by (simp add: addr_mem_def Let_def)
  have w: "uint (addr_width fl) = int (aw fl)" by (simp add: aw_def)
  consider "aw fl = 1" | "aw fl = 2" | "aw fl = 3" | "aw fl = 4" using assms(1) by force
  then show "addr_of (get_bytes (command fl + 1) (aw fl) (addr_mem fl a m)) = unat a"
    by cases (use assms(2) digits256[of "unat a"] in
      \<open>simp_all add: addr_mem_def Let_def w shr_drop get_bytes_short[simplified] unat_byte add.assoc\<close>)
qed

subsection \<open>Erasing sectors\<close>

lemmas opcode_defs = OPCODE_WREN_def OPCODE_RDSR_def OPCODE_WRSR_def OPCODE_NORM_READ_def OPCODE_FAST_READ_def OPCODE_PP_def
  OPCODE_BE_4K_def OPCODE_CHIP_ERASE_def OPCODE_SE_def OPCODE_RDID_def OPCODE_WRDI_def

lemma fits_opcodes:
  assumes "flash_fits E fl"
  shows "erase_opcode fl \<in> {0xd8, 0x20}" "read_opcode fl \<in> {0x03, 0x0b}" "program_opcode fl = 0x02"
  using assms by (auto simp: flash_fits_def opcode_defs)

lemma nor_exec_erase:
  assumes "flash_fits E fl" "wip c = 0" "wel c" "sreg c AND SR_BP = 0" "length ps = aw fl" "addr_of ps < unat (mtd_size fl)"
  shows "nor_exec fl D (erase_opcode fl # ps) c
    = Some (after_write (D (erase_opcode fl # ps) c) (c\<lparr>cells := erased (unat (erasesize fl)) (addr_of ps) (cells c)\<rparr>))"
  using assms(2-) fits_opcodes(1,2)[OF assms(1)] unfolding insert_iff empty_iff
  by (elim disjE) (simp_all add: nor_exec_def opcode_defs)

lemma nor_exec_chip_erase:
  assumes "flash_fits E fl" "wip c = 0" "wel c" "sreg c AND SR_BP = 0"
  shows "nor_exec fl D [OPCODE_CHIP_ERASE] c
    = Some (after_write (D [OPCODE_CHIP_ERASE] c) (c\<lparr>cells := (\<lambda>x. if x < unat (mtd_size fl) then 0xff else cells c x)\<rparr>))"
  using assms(2-) fits_opcodes(1,2)[OF assms(1)] unfolding insert_iff empty_iff
  by (elim disjE) (simp_all add: nor_exec_def opcode_defs)

lemma nor_exec_program:
  assumes "flash_fits E fl" "wip c = 0" "wel c" "sreg c AND SR_BP = 0" "length ps = aw fl" "addr_of ps < unat (mtd_size fl)"
    "vs \<noteq> []" "length vs \<le> unat (page_size fl)"
  shows "nor_exec fl D (program_opcode fl # ps @ vs) c
    = Some (after_write (D (program_opcode fl # ps @ vs) c) (c\<lparr>cells := programmed (unat (page_size fl)) (addr_of ps) vs (cells c)\<rparr>))"
  using assms(2-) fits_opcodes[OF assms(1)] unfolding insert_iff empty_iff
  by (elim disjE) (simp_all add: nor_exec_def opcode_defs)

lemma nor_exec_read:
  assumes "flash_fits E fl" "wip c = 0" "aw fl + read_dummy (read_opcode fl) \<le> length ps"
  shows "nor_exec fl D (read_opcode fl # ps) c = Some c"
    "aw fl + read_dummy (read_opcode fl) = length qs \<Longrightarrow> addr_of (take (aw fl) qs) + i < unat (mtd_size fl)
      \<Longrightarrow> nor_answer fl (read_opcode fl # qs @ replicate i 0xff) c = Some (cells c (addr_of (take (aw fl) qs) + i))"
  using assms(2-) fits_opcodes(2)[OF assms(1)] unfolding insert_iff empty_iff
  by (elim disjE; simp add: nor_exec_def nor_answer_def opcode_defs Let_def)+

text \<open>What an operation leaves: new cells, the same protection, and a chip that will be ready in time.\<close>

definition leaves :: "nat \<Rightarrow> nor \<Rightarrow> (nat \<Rightarrow> u8) \<Rightarrow> nor \<Rightarrow> bool" where
  "leaves K c f c' \<longleftrightarrow> cells c' = f \<and> sreg c' = sreg c \<and> ident c' = ident c \<and> wip c' \<le> K"

definition areas :: "'d m25p_env \<Rightarrow> m25p \<Rightarrow> u32 set" where
  "areas E fl = wtr_area E \<union> cmd_area fl"

lemma areas_same: "same_out (wtr_area E) m m' \<Longrightarrow> same_out (areas E fl) m m'" "same_out (cmd_area fl) m m' \<Longrightarrow> same_out (areas E fl) m m'"
  by (auto simp: same_out_def areas_def)

lemma get_bytes_Suc: "get_bytes a (Suc n) m = m a # get_bytes (a + 1) n m"
  by (simp add: get_bytes_def upt_conv_Cons map_Suc_upt[symmetric] comp_def add.assoc del: upt_Suc)

lemma cmdsz_word:
  assumes "aw fl \<le> 4"
  shows "word_of_int (m25p_cmdsz fl) = (of_nat (Suc (aw fl)) :: u32)" "unat (of_nat (Suc (aw fl)) :: u32) = Suc (aw fl)"
proof -
  have "m25p_cmdsz fl = int (Suc (aw fl))" by (simp add: m25p_cmdsz_def aw_def)
  then show "word_of_int (m25p_cmdsz fl) = (of_nat (Suc (aw fl)) :: u32)" by (simp del: of_nat_Suc)
  show "unat (of_nat (Suc (aw fl)) :: u32) = Suc (aw fl)" using assms by (simp add: unat_of_nat del: of_nat_Suc)
qed

lemma sint_pos: "0 < unat (n :: u32) \<Longrightarrow> unat n < 2 ^ 31 \<Longrightarrow> 0 < sint n"
  by (simp only: sint_small of_nat_0_less_iff)

lemma unat_up64 [simp]: "unat (ucast (w :: u32) :: 64 word) = unat w"
proof -
  have "unat w < 2 ^ 64" by (rule less_le_trans[OF unsigned_less]) simp
  then show ?thesis by (simp add: unsigned_ucast_eq take_bit_nat_eq_self)
qed

lemma spi_write_ok:
  assumes at: "flash_at E fl dv P absn c m s" and run: "flash_runs E fl dv D K P absn" and n: "0 < unat n" "unat n < 2 ^ 31" "a \<noteq> 0"
    and ex: "nor_exec fl D (get_bytes a (unat n) m) c = Some c'"
  shows "\<exists>s'. spi_write E fl a n s = Some (0, s') \<and> flash_at E fl dv P absn c' m s'"
proof -
  have r: "nor_chip (m_bus E) fl dv D P absn" "dev8 (flash_spi fl)" using run by (simp_all add: flash_runs_def flash_fits_def dev8_def)
  let ?msg = "msg_of (flash_spi fl) [no_xfer\<lparr>tx_buf := a, t_len := n\<rparr>]"
  have "\<forall>t \<in> set (transfers ?msg). byte_xfer (flash_spi fl) t \<and> tx_buf t \<noteq> 0" "transfers ?msg \<noteq> []"
    "nor_exec fl D (out_bytes m (transfers ?msg)) c = Some c'"
    using n ex sint_pos[OF n(1,2)] by (simp_all add: msg_of_def byte_xfer_simps out_bytes_def)
  from flash_sync_out[OF at r this] show ?thesis by (auto simp: spi_write_def)
qed

text \<open>The command in the buffer once opcode and address are in place.\<close>

lemma cmd_bytes:
  assumes "aw fl \<in> {1..4}" "unat a < 256 ^ aw fl" "m (command fl) = opc"
  shows "\<exists>ps. get_bytes (command fl) (Suc (aw fl)) (addr_mem fl a m) = opc # ps \<and> length ps = aw fl \<and> addr_of ps = unat a"
  using addr_mem_bytes[OF assms(1,2), of m] assms(3) by (simp add: get_bytes_Suc)

lemma erase_sector_ok:
  assumes at: "flash_at E fl dv P absn c m s" and run: "flash_runs E fl dv D K P absn" and w: "wip c \<le> K"
    and a: "unat a < unat (mtd_size fl)" and bp: "sreg c AND SR_BP = 0"
  shows "\<exists>s' m' c'. erase_sector E fl a s = Some (0, s') \<and> flash_at E fl dv P absn c' m' s' \<and> same_out (areas E fl) m m'
    \<and> leaves K c (erased (unat (erasesize fl)) (unat a) (cells c)) c'"
proof -
  have fit: "aw fl \<in> {1..4}" "aw fl \<le> 4" "unat a < 256 ^ aw fl" "command fl \<noteq> 0" "D bs x \<le> K" for bs x
    using run a by (auto simp: flash_runs_def flash_fits_def)
  obtain s1 s2 m2 where 1: "wait_till_ready E fl s = Some (0, s1)" "write_enable E fl s1 = Some (0, s2)"
    "flash_at E fl dv P absn (c\<lparr>wip := 0, wel := True\<rparr>) m2 s2" "same_out (wtr_area E) m m2" using ready_ok[OF at run w] .
  let ?m = "addr_mem fl a (m2(command fl := erase_opcode fl))" let ?s = "m25p_addr2cmd fl a (cmd_put fl 0 (erase_opcode fl) s2)"
  have at3: "flash_at E fl dv P absn (c\<lparr>wip := 0, wel := True\<rparr>) ?m ?s" using addr2cmd_at[OF cmd_put_at[OF 1(3), of 0]] by simp
  obtain ps where ps: "get_bytes (command fl) (Suc (aw fl)) ?m = erase_opcode fl # ps" "length ps = aw fl" "addr_of ps = unat a"
    using cmd_bytes[OF fit(1,3), of "m2(command fl := erase_opcode fl)"] by auto
  let ?c = "c\<lparr>wip := 0, wel := True\<rparr>"
  let ?c' = "after_write (D (erase_opcode fl # ps) ?c) (?c\<lparr>cells := erased (unat (erasesize fl)) (unat a) (cells c)\<rparr>)"
  have ex: "nor_exec fl D (erase_opcode fl # ps) ?c = Some ?c'"
    using nor_exec_erase[of E fl ?c ps D] run ps a bp by (simp add: flash_runs_def)
  obtain s3 where 3: "spi_write E fl (command fl) (of_nat (Suc (aw fl))) ?s = Some (0, s3)" "flash_at E fl dv P absn ?c' ?m s3"
    using spi_write_ok[OF at3 run, of "of_nat (Suc (aw fl))" "command fl" ?c'] fit(2,4) cmdsz_word(2)[OF fit(2)] ps(1) ex by auto
  have "same_out (areas E fl) m ?m"
    using areas_same(1)[OF 1(4)] areas_same(2)[OF addr_mem_same, of E fl "m2(command fl := erase_opcode fl)" a] in_cmd_area(1)[of fl]
    by (auto simp: same_out_def areas_def)
  moreover have "leaves K c (erased (unat (erasesize fl)) (unat a) (cells c)) ?c'" using fit(5) by (simp add: leaves_def after_write_def)
  moreover have "erase_sector E fl a s = Some (0, s3)" using 1(1,2) 3(1) cmdsz_word(1)[OF fit(2)] by (simp add: erase_sector_def)
  ultimately show ?thesis using 3(2) by blast
qed

definition filled :: "nat \<Rightarrow> nat \<Rightarrow> (nat \<Rightarrow> u8) \<Rightarrow> nat \<Rightarrow> u8" where
  "filled a n f = (\<lambda>x. if a \<le> x \<and> x < a + n then 0xff else f x)"

lemma erased_filled: "0 < k \<Longrightarrow> k dvd a \<Longrightarrow> erased k a f = filled a k f"
proof -
  assume "0 < k" "k dvd a"
  then have "x div k = a div k \<longleftrightarrow> a \<le> x \<and> x < a + k" for x
    by (metis add.commute div_nat_eqI dvd_div_mult_self dividend_less_times_div div_mult_mod_eq le_add1 mod_div_trivial mult.commute mult_Suc_right)
  then show ?thesis by (simp add: erased_def filled_def)
qed

lemma filled_0: "filled a 0 f = f"
  by (auto simp: filled_def fun_eq_iff)

lemma filled_filled: "filled (a + k) n (filled a k f) = filled a (k + n) f"
  by (auto simp: filled_def)

lemma erase_loop_ok:
  assumes run: "flash_runs E fl dv D K P absn"
  shows "flash_at E fl dv P absn c m s \<Longrightarrow> wip c \<le> K \<Longrightarrow> sreg c AND SR_BP = 0 \<Longrightarrow> unat len = k * unat (erasesize fl)
    \<Longrightarrow> unat (erasesize fl) dvd unat a \<Longrightarrow> unat a + unat len \<le> unat (mtd_size fl)
    \<Longrightarrow> \<exists>s' m' c'. erase_loop E fl a len s = Some (0, s') \<and> flash_at E fl dv P absn c' m' s' \<and> same_out (areas E fl) m m'
      \<and> leaves K c (filled (unat a) (unat len) (cells c)) c'"
proof (induction k arbitrary: a len c m s)
  case 0
  then have "len = 0" by (simp add: unat_eq_zero)
  then have "erase_loop E fl a len s = Some (0, s)" "leaves K c (filled (unat a) (unat len) (cells c)) c"
    using 0(2) filled_0 by (simp_all add: erase_loop.simps[of E fl a 0] leaves_def)
  then show ?case using 0(1) same_out_refl by blast
next
  case (Suc k)
  let ?e = "unat (erasesize fl)"
  have e: "0 < ?e" "unat (mtd_size fl) < 2 ^ 32" using run by (auto simp: flash_runs_def flash_fits_def unat_gt_0)
  have a: "unat a < unat (mtd_size fl)" "?e \<le> unat len" using Suc.prems(4,6) e(1) by auto
  obtain s1 m1 c1 where 1: "erase_sector E fl a s = Some (0, s1)" "flash_at E fl dv P absn c1 m1 s1" "same_out (areas E fl) m m1"
    "leaves K c (erased ?e (unat a) (cells c)) c1" using erase_sector_ok[OF Suc.prems(1) run Suc.prems(2) a(1) Suc.prems(3)] by blast
  have l: "unat (len - erasesize fl) = k * ?e" using Suc.prems(4) a(2) by (simp add: unat_sub word_le_nat_alt)
  have u: "unat (a + erasesize fl) = unat a + ?e" using Suc.prems(6) e(2) a(2) by (subst unat_add_lem[THEN iffD1]) auto
  obtain s2 m2 c2 where 2: "erase_loop E fl (a + erasesize fl) (len - erasesize fl) s1 = Some (0, s2)" "flash_at E fl dv P absn c2 m2 s2"
    "same_out (areas E fl) m1 m2" "leaves K c1 (filled (unat a + ?e) (k * ?e) (cells c1)) c2"
    using Suc.IH[OF 1(2) _ _ l, of "a + erasesize fl"] 1(4) Suc.prems(3-6) u l by (simp add: leaves_def) blast
  have "leaves K c (filled (unat a) (unat len) (cells c)) c2"
    using 1(4) 2(4) Suc.prems(4,5) e(1) by (simp add: leaves_def erased_filled filled_filled)
  moreover have "len \<noteq> 0" using a(2) e(1) by auto
  then have "erase_loop E fl a len s = Some (0, s2)" using 1(1) 2(1) by (subst erase_loop.simps) simp
  ultimately show ?case using 2(2) same_out_trans[OF 1(3) 2(3)] by blast
qed

lemma erase_chip_ok:
  assumes at: "flash_at E fl dv P absn c m s" and run: "flash_runs E fl dv D K P absn" and w: "wip c \<le> K" and bp: "sreg c AND SR_BP = 0"
  shows "\<exists>s' m' c'. erase_chip E fl s = Some (0, s') \<and> flash_at E fl dv P absn c' m' s' \<and> same_out (areas E fl) m m'
    \<and> leaves K c (filled 0 (unat (mtd_size fl)) (cells c)) c'"
proof -
  obtain s1 s2 m2 where 1: "wait_till_ready E fl s = Some (0, s1)" "write_enable E fl s1 = Some (0, s2)"
    "flash_at E fl dv P absn (c\<lparr>wip := 0, wel := True\<rparr>) m2 s2" "same_out (wtr_area E) m m2" using ready_ok[OF at run w] .
  let ?m = "m2(command fl := OPCODE_CHIP_ERASE)" let ?c = "c\<lparr>wip := 0, wel := True\<rparr>"
  let ?c' = "after_write (D [OPCODE_CHIP_ERASE] ?c) (?c\<lparr>cells := filled 0 (unat (mtd_size fl)) (cells c)\<rparr>)"
  have at3: "flash_at E fl dv P absn ?c ?m (cmd_put fl 0 OPCODE_CHIP_ERASE s2)" using cmd_put_at[OF 1(3), of 0] by simp
  have "nor_exec fl D [OPCODE_CHIP_ERASE] ?c = Some ?c'"
    using nor_exec_chip_erase[of E fl ?c D] run bp by (simp add: flash_runs_def filled_def cong: if_cong)
  then obtain s3 where 3: "spi_write E fl (command fl) 1 (cmd_put fl 0 OPCODE_CHIP_ERASE s2) = Some (0, s3)" "flash_at E fl dv P absn ?c' ?m s3"
    using spi_write_ok[OF at3 run, of 1 "command fl" ?c'] run by (auto simp: get_bytes_def flash_runs_def flash_fits_def)
  have "same_out (areas E fl) m ?m" using 1(4) in_cmd_area(1)[of fl] by (auto simp: same_out_def areas_def)
  moreover have "leaves K c (filled 0 (unat (mtd_size fl)) (cells c)) ?c'" using run by (simp add: leaves_def after_write_def flash_runs_def)
  moreover have "erase_chip E fl s = Some (0, s3)" using 1(1,2) 3(1) by (simp add: erase_chip_def)
  ultimately show ?thesis using 3(2) by blast
qed

lemma erase_ok:
  assumes at: "flash_at E fl dv P absn c m s" and run: "flash_runs E fl dv D K P absn" and w: "wip c \<le> K" and bp: "sreg c AND SR_BP = 0"
    and al: "unat (erasesize fl) dvd unat ia" "unat (erasesize fl) dvd unat il" "unat ia + unat il \<le> unat (mtd_size fl)"
  shows "\<exists>s' m' c'. m25p80_erase E fl ia il st s = Some (0, MTD_ERASE_DONE, s') \<and> flash_at E fl dv P absn c' m' s'
    \<and> same_out (areas E fl) m m' \<and> leaves K c (filled (unat ia) (unat il) (cells c)) c'"
proof -
  have big: "unat (mtd_size fl) < 2 ^ 32" using run by (simp add: flash_runs_def flash_fits_def)
  have u: "unat (ucast ia :: u32) = unat ia" "unat (ucast il :: u32) = unat il"
    using al(3) big by (simp_all add: unsigned_ucast_eq take_bit_nat_eq_self)
  have z: "il mod ucast (erasesize fl) = 0" using al(2) by (simp add: word_unat_eq_iff unat_mod)
  have q: "ucast (ucast il :: u32) = mtd_size fl \<longleftrightarrow> unat il = unat (mtd_size fl)"
    using u(2) by (simp add: word_unat_eq_iff)
  show ?thesis
  proof (cases "unat il = unat (mtd_size fl)")
    case True
    then have "unat ia = 0" using al(3) by simp
    moreover obtain s' m' c' where "erase_chip E fl s = Some (0, s')" "flash_at E fl dv P absn c' m' s'" "same_out (areas E fl) m m'"
      "leaves K c (filled 0 (unat (mtd_size fl)) (cells c)) c'" using erase_chip_ok[OF at run w bp] by blast
    moreover have "m25p80_erase E fl ia il st s = Some (0, MTD_ERASE_DONE, s')" using True q z calculation(2) by (simp add: m25p80_erase_def Let_def)
    ultimately show ?thesis using True by auto
  next
    case False
    obtain k where "unat il = k * unat (erasesize fl)" using al(2) by (metis dvd_def mult.commute)
    then obtain s' m' c' where "erase_loop E fl (ucast ia) (ucast il) s = Some (0, s')" "flash_at E fl dv P absn c' m' s'" "same_out (areas E fl) m m'"
      "leaves K c (filled (unat ia) (unat il) (cells c)) c'" using erase_loop_ok[OF run at w bp, of "ucast il" k "ucast ia"] al(1,3) u by auto
    moreover have "m25p80_erase E fl ia il st s = Some (0, MTD_ERASE_DONE, s')" using False q z calculation(1) by (simp add: m25p80_erase_def Let_def)
    ultimately show ?thesis by blast
  qed
qed

subsection \<open>Reading\<close>

definition clear_of :: "u32 set \<Rightarrow> u32 \<Rightarrow> nat \<Rightarrow> bool" where
  "clear_of A a n \<longleftrightarrow> (\<forall>i < n. a + of_nat i \<notin> A)"

definition buffer :: "u32 \<Rightarrow> nat \<Rightarrow> u32 set" where
  "buffer a n = (\<lambda>i. a + of_nat i) ` {0..<n}"

lemma get_bytes_append: "get_bytes a (n + k) m = get_bytes a n m @ get_bytes (a + of_nat n) k m"
  by (rule nth_equalityI) (auto simp: nth_append add.assoc simp flip: of_nat_add)

lemma get_bytes_same: "same_out A m m' \<Longrightarrow> clear_of A a n \<Longrightarrow> get_bytes a n m' = get_bytes a n m"
  by (simp add: get_bytes_def same_out_def clear_of_def)

lemma clear_of_sub: "clear_of A a n \<Longrightarrow> j + k \<le> n \<Longrightarrow> clear_of A (a + of_nat j) k"
proof -
  assume *: "clear_of A a n" "j + k \<le> n"
  have "a + of_nat j + of_nat i \<notin> A" if "i < k" for i
    using *(1)[unfolded clear_of_def, rule_format, of "j + i"] *(2) that by (simp add: add.assoc)
  then show ?thesis by (simp add: clear_of_def)
qed

lemma put_bytes_same: "length bs = n \<Longrightarrow> n \<le> 2 ^ 32 \<Longrightarrow> same_out (buffer a n) m (put_bytes a bs m)"
  unfolding same_out_def
proof (intro allI impI)
  fix x assume *: "length bs = n" "n \<le> 2 ^ 32" "x \<notin> buffer a n"
  have "x = a + of_nat (unat (x - a))" by simp
  then have "\<not> unat (x - a) < n" using *(3) by (metis atLeast0LessThan buffer_def image_eqI lessThan_iff)
  then show "put_bytes a bs m x = m x" using * by (simp add: put_bytes_nth)
qed

lemma put_bytes_at: "i < length bs \<Longrightarrow> length bs \<le> 2 ^ 32 \<Longrightarrow> put_bytes a bs m (a + of_nat i) = bs ! i"
  by (simp add: put_bytes_nth unat_of_nat)

lemma read_ok:
  assumes at: "flash_at E fl dv P absn c m s" and run: "flash_runs E fl dv D K P absn" and w: "wip c \<le> K"
    and n: "0 < unat len" "unat len < 2 ^ 31" "unat adr + unat len \<le> unat (mtd_size fl)" "buf \<noteq> 0"
  shows "\<exists>s' m'. m25p80_read E fl adr len rl buf s = Some (0, len, s') \<and> flash_at E fl dv P absn (c\<lparr>wip := 0\<rparr>) m' s'
    \<and> get_bytes buf (unat len) m' = map (\<lambda>i. cells c (unat adr + i)) [0..<unat len] \<and> same_out (areas E fl \<union> buffer buf (unat len)) m m'"
proof -
  let ?op = "read_opcode fl" let ?k = "read_dummy (read_opcode fl)" let ?a = "ucast adr :: u32" let ?n = "unat len"
  let ?c = "c\<lparr>wip := 0\<rparr>"
  have fit: "flash_fits E fl" "nor_chip (m_bus E) fl dv D P absn" "dev8 (flash_spi fl)" "aw fl \<in> {1..4}" "aw fl \<le> 4" "command fl \<noteq> 0"
    and size: "unat (mtd_size fl) \<le> 256 ^ aw fl" "unat (mtd_size fl) < 2 ^ 32"
    and dm: "m25p80_dummy_cycles_read (flash_read fl) = int ?k" "?k \<le> 1" "m25p80_rx_nbits (flash_read fl) = 0"
    using run by (auto simp: flash_runs_def flash_fits_def dev8_def read_dummy_def opcode_defs)
  have ua: "unat ?a = unat adr" using n(3) size(2) by (simp add: unsigned_ucast_eq take_bit_nat_eq_self)
  obtain s1 m1 where 1: "wait_till_ready E fl s = Some (0, s1)" "flash_at E fl dv P absn ?c m1 s1" "same_out (wtr_area E) m m1"
    using wait_ok[OF at run w] by blast
  let ?m = "addr_mem fl ?a (m1(command fl := ?op))" let ?s = "m25p_addr2cmd fl ?a (cmd_put fl 0 ?op s1)"
  have at2: "flash_at E fl dv P absn ?c ?m ?s" using addr2cmd_at[OF cmd_put_at[OF 1(2), of 0]] by simp
  have ad: "unat ?a < 256 ^ aw fl" using ua n(1,3) size(1) by linarith
  obtain ps where ps: "get_bytes (command fl) (Suc (aw fl)) ?m = ?op # ps" "length ps = aw fl" "addr_of ps = unat adr"
    using cmd_bytes[OF fit(4) ad, of "m1(command fl := ?op)" ?op] ua by auto
  define qs where "qs = ps @ get_bytes (command fl + of_nat (Suc (aw fl))) ?k ?m"
  have qs: "?op # qs = get_bytes (command fl) (Suc (aw fl) + ?k) ?m" "length qs = aw fl + ?k" "take (aw fl) qs = ps"
    using ps by (simp_all add: qs_def get_bytes_append del: of_nat_Suc add_Suc)
  let ?t0 = "no_xfer\<lparr>tx_buf := command fl, t_len := of_nat (Suc (aw fl) + ?k)\<rparr>"
  let ?t1 = "no_xfer\<lparr>rx_buf := buf, t_len := len\<rparr>"
  have l0: "unat (of_nat (Suc (aw fl) + ?k) :: u32) = Suc (aw fl) + ?k" using fit(5) dm(2) by (subst unat_of_nat) simp
  have t: "byte_xfer (flash_spi fl) ?t0" "tx_buf ?t0 \<noteq> 0" "byte_xfer (flash_spi fl) ?t1" "rx_buf ?t1 \<noteq> 0"
    using n sint_pos[OF n(1,2)] sint_pos[of "of_nat (Suc (aw fl) + ?k)"] l0 fit(5,6) dm(2) by (simp_all add: byte_xfer_simps)
  have g: "?op # qs = get_bytes (tx_buf ?t0) (unat (t_len ?t0)) ?m" "?n = unat (t_len ?t1)" using qs(1) l0 by simp_all
  have "nor_exec fl D ((?op # qs) @ replicate ?n 0xff) ?c = Some ?c" using nor_exec_read(1)[OF fit(1), of ?c] qs(2) by simp
  from flash_sync_in[OF at2 fit(2,3) transfers_msg_of t g this]
  obtain s' vs msg where 2: "flash_sync E fl (msg_of (flash_spi fl) [?t0, ?t1]) ?s = Some (0, msg, s')"
    "actual_length msg = t_len ?t0 + t_len ?t1" "flash_at E fl dv P absn ?c (put_bytes (rx_buf ?t1) vs ?m) s'" "length vs = ?n"
    "\<forall>i < ?n. \<forall>v. nor_answer fl ((?op # qs) @ replicate i 0xff) ?c = Some v \<longrightarrow> vs ! i = v"
    by blast
  have "vs ! i = cells c (unat adr + i)" if "i < ?n" for i
  proof -
    have "nor_answer fl (?op # qs @ replicate i 0xff) ?c = Some (cells ?c (addr_of (take (aw fl) qs) + i))"
      by (rule nor_exec_read(2)[OF fit(1) _ _ qs(2)[symmetric], of _ qs]) (use qs(2,3) ps(3) that n(3) in simp_all)
    then show ?thesis using 2(5) that qs(3) ps(3) by simp
  qed
  then have gb: "get_bytes buf ?n (put_bytes buf vs ?m) = map (\<lambda>i. cells c (unat adr + i)) [0..<?n]"
    using 2(4) n(2) by (intro nth_equalityI) (simp_all add: put_bytes_at)
  have same: "same_out (areas E fl \<union> buffer buf ?n) m (put_bytes buf vs ?m)"
    using 1(3) addr_mem_same[of fl "m1(command fl := ?op)" ?a] in_cmd_area(1)[of fl] put_bytes_same[OF 2(4), of buf ?m] n(2)
    by (auto simp: same_out_def areas_def)
  have "word_of_int (m25p_cmdsz fl + int ?k) = (of_nat (Suc (aw fl) + ?k) :: u32)" using cmdsz_word(1)[OF fit(5)] by simp
  moreover have "no_xfer\<lparr>rx_buf := buf, rx_nbits := 0, t_len := len\<rparr> = ?t1" by (simp add: no_xfer_def)
  ultimately have "m25p80_read E fl adr len rl buf s = Some (0, len, s')"
    using 1(1) 2(1,2) dm cmdsz_word(1)[OF fit(5)] by (simp add: m25p80_read_def Let_def del: of_nat_Suc of_nat_add) simp
  then show ?thesis using 2(3) gb same by auto
qed

subsection \<open>Writing\<close>

definition burned :: "nat \<Rightarrow> u8 list \<Rightarrow> (nat \<Rightarrow> u8) \<Rightarrow> nat \<Rightarrow> u8" where
  "burned a bs f = (\<lambda>x. if a \<le> x \<and> x < a + length bs then f x AND bs ! (x - a) else f x)"

lemma burned_append: "burned (a + length bs) cs (burned a bs f) = burned a (bs @ cs) f"
  by (auto simp: burned_def fun_eq_iff nth_append)

lemma burned_Nil: "burned a [] f = f"
  by (auto simp: burned_def fun_eq_iff)

text \<open>Within a page programming does not wrap.\<close>

lemma programmed_burned:
  assumes "0 < p" "a mod p + length bs \<le> p"
  shows "programmed p a bs f = burned a bs f"
proof
  fix x
  let ?i = "(x mod p + p - a mod p) mod p"
  have lt: "x mod p < p" "a mod p < p" using assms(1) by simp_all
  show "programmed p a bs f x = burned a bs f x"
  proof (cases "a \<le> x \<and> x < a + length bs")
    case True
    define j where "j = x - a"
    have x: "x = a + j" using True by (simp add: j_def)
    then have j: "x = (a mod p + j) + p * (a div p)" "a mod p + j < p" "j < length bs" using True assms(2) by simp_all
    have "x div p = a div p" using div_mult_self2[of p "a mod p + j" "a div p"] j(2) assms(1) unfolding j(1)[symmetric] by simp
    moreover have "x mod p = a mod p + j" using mod_mult_self2[of "a mod p + j" p "a div p"] j(2) unfolding j(1)[symmetric] by simp
    moreover from this have "?i = j" using j(2) by simp
    ultimately show ?thesis using True j(3) by (simp add: programmed_def burned_def j_def)
  next
    case False
    have "\<not> ?i < length bs" if d: "x div p = a div p"
    proof (cases "a mod p \<le> x mod p")
      case True
      have "x mod p + p - a mod p = (x mod p - a mod p) + p" using True by simp
      then have i: "?i = x mod p - a mod p" using less_imp_diff_less[OF lt(1)] by (simp only: mod_add_self2 mod_less)
      have "x = a div p * p + x mod p" "a = a div p * p + a mod p" using d by (metis div_mult_mod_eq, simp)
      then have "a \<le> x" "x mod p - a mod p = x - a" using True by linarith+
      then show ?thesis using False i by simp
    next
      case False
      then have "x mod p + p - a mod p < p" using lt by simp
      then have "?i = x mod p + p - a mod p" by (rule mod_less)
      then show ?thesis using assms(2) by simp
    qed
    then show ?thesis using False by (auto simp: programmed_def burned_def Let_def)
  qed
qed

text \<open>The message of a write, whatever the core has put into it before.\<close>

definition write_msg :: "m25p \<Rightarrow> spi_message \<Rightarrow> bool" where
  "write_msg fl m \<longleftrightarrow> (\<exists>t0 t1. transfers m = [t0, t1] \<and> byte_xfer (flash_spi fl) t0 \<and> tx_buf t0 = command fl \<and> t_len t0 = of_nat (Suc (aw fl))
     \<and> rx_buf t1 = 0 \<and> \<not> cs_change t1 \<and> rx_nbits t1 \<in> {0, 1} \<and> bits_per_word t1 \<in> {0, 8})"

text \<open>One page: the command is in the buffer, the chip is ready and enabled.\<close>

lemma page_ok:
  assumes at: "flash_at E fl dv P absn c m s" and run: "flash_runs E fl dv D K P absn" and c: "wip c = 0" "wel c" "sreg c AND SR_BP = 0"
    and msg: "write_msg fl msg" and ps: "get_bytes (command fl) (Suc (aw fl)) m = program_opcode fl # ps" "length ps = aw fl" "addr_of ps = unat a"
    and n: "0 < unat n" "unat a mod unat (page_size fl) + unat n \<le> unat (page_size fl)" "unat a < unat (mtd_size fl)" "b \<noteq> 0"
  shows "\<exists>s' msg' c'. flash_sync E fl (set_data fl b n msg) s = Some (0, msg', s') \<and> write_msg fl msg'
    \<and> actual_length msg' - word_of_int (m25p_cmdsz fl) = n \<and> flash_at E fl dv P absn c' m s'
    \<and> leaves K c (burned (unat a) (get_bytes b (unat n) m) (cells c)) c'"
proof -
  have fit: "flash_fits E fl" "nor_chip (m_bus E) fl dv D P absn" "dev8 (flash_spi fl)" "aw fl \<in> {1..4}" "aw fl \<le> 4" "command fl \<noteq> 0"
    "unat a < 256 ^ aw fl" "m25p80_tx_nbits (flash_write fl) = 0" "D bs x \<le> K" for bs x
    using run n(3) by (auto simp: flash_runs_def flash_fits_def dev8_def)
  have "unat (page_size fl) < 2 ^ 16" using unsigned_less[of "page_size fl"] by simp
  then have small: "unat n < 2 ^ 31" "0 < unat (page_size fl)" using n(1,2) by simp_all
  obtain t0 t1 where t: "transfers msg = [t0, t1]" "byte_xfer (flash_spi fl) t0" "tx_buf t0 = command fl" "t_len t0 = of_nat (Suc (aw fl))"
    "rx_buf t1 = 0" "\<not> cs_change t1" "rx_nbits t1 \<in> {0, 1}" "bits_per_word t1 \<in> {0, 8}" using msg by (auto simp: write_msg_def)
  let ?t1 = "t1\<lparr>tx_buf := b, t_len := n, tx_nbits := 0\<rparr>" let ?msg = "set_data fl b n msg" let ?vs = "get_bytes b (unat n) m"
  have ts: "transfers ?msg = [t0, ?t1]" using t(1) fit(8) by (simp add: set_data_def)
  have b1: "byte_xfer (flash_spi fl) ?t1" using t(5-8) n(1,4) sint_pos[OF n(1) small(1)] by (auto simp: byte_xfer_def)
  have ob: "out_bytes m (transfers ?msg) = program_opcode fl # ps @ ?vs"
    using ps(1) t(3,4) cmdsz_word(2)[OF fit(5)] by (simp add: ts out_bytes_def del: of_nat_Suc)
  let ?c' = "after_write (D (program_opcode fl # ps @ ?vs) c) (c\<lparr>cells := burned (unat a) ?vs (cells c)\<rparr>)"
  have v: "?vs \<noteq> []" "length ?vs \<le> unat (page_size fl)" using n(1,2) by (auto simp: get_bytes_def)
  have "nor_exec fl D (out_bytes m (transfers ?msg)) c = Some ?c'"
    using nor_exec_program[OF fit(1) c ps(2) _ v, of D] n(2,3) ps(3) small(2) by (simp add: ob programmed_burned)
  from flash_sync_out[OF at fit(2,3) _ _ this] ts t(2,3) b1 fit(6) n(4)
  obtain s' where 1: "flash_sync E fl ?msg s = Some (0, ?msg\<lparr>m_spi := flash_spi fl, transfers := map (full (flash_spi fl)) [t0, ?t1],
      m_status := 0, actual_length := sum_list (map t_len [t0, ?t1])\<rparr>, s')" "flash_at E fl dv P absn ?c' m s'" by auto
  let ?msg' = "?msg\<lparr>m_spi := flash_spi fl, transfers := map (full (flash_spi fl)) [t0, ?t1],
      m_status := 0, actual_length := sum_list (map t_len [t0, ?t1])\<rparr>"
  have "write_msg fl ?msg'"
    using full_byte_xfer(2)[OF t(2) fit(3)] full_byte_xfer(2)[OF b1 fit(3)] t(3-5) by (simp add: write_msg_def full_fields byte_xfer_def)
  moreover have "actual_length ?msg' - word_of_int (m25p_cmdsz fl) = n" using t(4) cmdsz_word(1)[OF fit(5)] by simp
  moreover have "leaves K c (burned (unat a) ?vs (cells c)) ?c'" using fit(9) by (simp add: leaves_def after_write_def)
  ultimately show ?thesis using 1 by blast
qed

lemma unat_up16 [simp]: "unat (ucast (w :: u16) :: u32) = unat w" "unat (ucast (w :: u16) :: 64 word) = unat w"
proof -
  have "unat w < 2 ^ 32" "unat w < 2 ^ 64" by (rule less_le_trans[OF unsigned_less]; simp)+
  then show "unat (ucast w :: u32) = unat w" "unat (ucast w :: 64 word) = unat w" by (simp_all add: unsigned_ucast_eq take_bit_nat_eq_self)
qed

lemma unat_addr:
  assumes "unat (adr :: 64 word) + unat (i :: u32) < 2 ^ 32"
  shows "unat (ucast (adr + ucast i) :: u32) = unat adr + unat i"
proof -
  have "unat (adr + ucast i) = unat adr + unat (ucast i :: 64 word)" using assms by (subst unat_add_lem[THEN iffD1]) simp_all
  then show ?thesis using assms by (simp add: unsigned_ucast_eq take_bit_nat_eq_self)
qed

lemma cmd_kept:
  assumes "flash_fits E fl" "same_out (wtr_area E) m m'"
  shows "get_bytes (command fl) (Suc (aw fl)) m' = get_bytes (command fl) (Suc (aw fl)) m"
proof (rule get_bytes_same[OF assms(2)])
  have "command fl + of_nat i \<in> cmd_area fl" if "i < Suc (aw fl)" for i
    using that assms(1) by (auto simp: cmd_area_def flash_fits_def)
  then show "clear_of (wtr_area E) (command fl) (Suc (aw fl))" using assms(1) by (auto simp: clear_of_def flash_fits_def)
qed

text \<open>Where the caller's data may lie.\<close>

definition data_ok :: "'d m25p_env \<Rightarrow> m25p \<Rightarrow> u32 \<Rightarrow> nat \<Rightarrow> bool" where
  "data_ok E fl buf n \<longleftrightarrow> n < 2 ^ 31 \<and> clear_of (insert 0 (areas E fl)) buf n"

lemma data_okD:
  assumes "data_ok E fl buf n" "j + k \<le> n" "0 < k"
  shows "buf + of_nat j \<noteq> 0" "clear_of (areas E fl) (buf + of_nat j) k"
  using assms(1)[unfolded data_ok_def clear_of_def, THEN conjunct2, rule_format, of j]
    clear_of_sub[of "areas E fl" buf n j k] assms by (auto simp: data_ok_def clear_of_def)

text \<open>The rest of the pages, each from its first byte on.\<close>

lemma write_pages_ok:
  assumes run: "flash_runs E fl dv D K P absn" and data: "data_ok E fl buf (unat len)" "unat adr + unat len \<le> unat (mtd_size fl)"
  shows "flash_at E fl dv P absn c m s \<Longrightarrow> wip c \<le> K \<Longrightarrow> sreg c AND SR_BP = 0 \<Longrightarrow> write_msg fl msg \<Longrightarrow> m (command fl) = program_opcode fl
    \<Longrightarrow> unat i \<le> unat len \<Longrightarrow> unat i < unat len \<longrightarrow> unat (page_size fl) dvd unat adr + unat i
    \<Longrightarrow> \<exists>s' m' c'. write_pages E fl adr len buf i msg rl s = Some (rl + (len - i), s') \<and> flash_at E fl dv P absn c' m' s'
      \<and> same_out (areas E fl) m m'
      \<and> leaves K c (burned (unat adr + unat i) (get_bytes (buf + i) (unat len - unat i) m) (cells c)) c'"
proof (induction "unat len - unat i" arbitrary: i c m s msg rl rule: less_induct)
  case less
  show ?case
  proof (cases "unat i < unat len")
    case False
    then have "i = len" using less.prems(6) by (simp add: word_unat_eq_iff)
    then have "write_pages E fl adr len buf i msg rl s = Some (rl + (len - i), s)" by (subst write_pages.simps) simp
    moreover have "leaves K c (burned (unat adr + unat i) (get_bytes (buf + i) (unat len - unat i) m) (cells c)) c"
      using \<open>i = len\<close> less.prems(2) by (simp add: leaves_def get_bytes_def burned_Nil)
    ultimately show ?thesis using less.prems(1) same_out_refl by blast
  next
    case True
    let ?p = "ucast (page_size fl) :: u32" let ?P = "unat (page_size fl)"
    define n where "n = (if len - i > ?p then ?p else len - i)"
    let ?a = "ucast (adr + ucast i) :: u32" let ?I = "unat i" let ?b = "get_bytes (buf + i)"
    have fit: "flash_fits E fl" "aw fl \<in> {1..4}" "unat (mtd_size fl) \<le> 256 ^ aw fl" "unat (mtd_size fl) < 2 ^ 32" "page_size fl \<noteq> 0"
      using run by (auto simp: flash_runs_def flash_fits_def)
    have il: "unat (len - i) = unat len - ?I" "unat ?p = ?P" "0 < ?P" using True fit(5) by (simp_all add: unat_sub word_le_nat_alt unat_gt_0)
    have n: "unat n = min ?P (unat len - ?I)" using il by (auto simp: n_def word_less_nat_alt)
    then have n0: "0 < unat n" "unat n \<le> ?P" "?I + unat n \<le> unat len" using True il(3) by auto
    have ua: "unat ?a = unat adr + ?I" using unat_addr[of adr i] data(2) True fit(4) by linarith
    have bw: "buf + of_nat ?I = buf + i" by simp
    note B = data_okD[OF data(1) n0(3,1), unfolded bw]
    have at1: "flash_at E fl dv P absn c (addr_mem fl ?a m) (m25p_addr2cmd fl ?a s)" using addr2cmd_at[OF less.prems(1)] .
    obtain s1 s2 m2 where 1: "wait_till_ready E fl (m25p_addr2cmd fl ?a s) = Some (0, s1)" "write_enable E fl s1 = Some (0, s2)"
      "flash_at E fl dv P absn (c\<lparr>wip := 0, wel := True\<rparr>) m2 s2" "same_out (wtr_area E) (addr_mem fl ?a m) m2"
      using ready_ok[OF at1 run less.prems(2)] .
    have ad: "unat ?a < 256 ^ aw fl" using ua True data(2) fit(3) by linarith
    obtain ps where ps: "get_bytes (command fl) (Suc (aw fl)) m2 = program_opcode fl # ps" "length ps = aw fl" "addr_of ps = unat ?a"
      using cmd_bytes[OF fit(2) ad, of m] less.prems(5) cmd_kept[OF fit(1) 1(4)] by auto
    have "unat ?a mod ?P = 0" using less.prems(7) True ua by simp
    then obtain s3 msg3 c3 where 3: "flash_sync E fl (set_data fl (buf + i) n msg) s2 = Some (0, msg3, s3)" "write_msg fl msg3"
      "actual_length msg3 - word_of_int (m25p_cmdsz fl) = n" "flash_at E fl dv P absn c3 m2 s3"
      "leaves K (c\<lparr>wip := 0, wel := True\<rparr>) (burned (unat ?a) (?b (unat n) m2) (cells c)) c3"
      using page_ok[OF 1(3) run _ _ _ less.prems(4) ps n0(1) _ _ B(1)] less.prems(3) n0(2) ua data(2) True by auto
    have same: "same_out (areas E fl) m m2"
      using areas_same(2)[OF addr_mem_same] areas_same(1)[OF 1(4)] by (rule same_out_trans)
    have in': "unat (i + n) = ?I + unat n" using n0(3) unsigned_less[of len, where 'a=nat] by (subst unat_add_lem[THEN iffD1]) auto
    have d: "?P dvd unat adr + unat (i + n)" if "unat (i + n) < unat len"
      using less.prems(7) True in' n that by (auto simp: min_def add.assoc[symmetric] split: if_splits)
    have lt: "unat len - unat (i + n) < unat len - ?I" "unat (i + n) \<le> unat len" using in' n0 True by linarith+
    have pr: "wip c3 \<le> K" "sreg c3 AND SR_BP = 0" "m2 (command fl) = program_opcode fl"
      using 3(5) less.prems(3) ps(1) by (simp_all add: leaves_def get_bytes_Suc)
    obtain s4 m4 c4 where 4: "write_pages E fl adr len buf (i + n) msg3 (rl + n) s3 = Some (rl + n + (len - (i + n)), s4)"
      "flash_at E fl dv P absn c4 m4 s4" "same_out (areas E fl) m2 m4"
      "leaves K c3 (burned (unat adr + unat (i + n)) (get_bytes (buf + (i + n)) (unat len - unat (i + n)) m2) (cells c3)) c4"
      using less.hyps[OF lt(1) 3(4) pr(1,2) 3(2) pr(3) lt(2)] d by blast
    have m2: "?b k m2 = ?b k m" if "?I + k \<le> unat len" "0 < k" for k
      using get_bytes_same[OF same] data_okD(2)[OF data(1) that] by simp
    have "?b (unat len - ?I) m = ?b (unat n) m2 @ get_bytes (buf + (i + n)) (unat len - unat (i + n)) m2"
      using m2[of "unat len - ?I"] get_bytes_append[of "buf + i" "unat n" "unat len - unat (i + n)" m2] True in' n0(3) by (simp add: add.assoc)
    then have "leaves K c (burned (unat adr + ?I) (?b (unat len - ?I) m) (cells c)) c4"
      using 3(5) 4(4) burned_append[of "unat adr + ?I" "?b (unat n) m2"] ua in' by (simp add: leaves_def add.assoc)
    moreover have "write_pages E fl adr len buf i msg rl s = Some (rl + (len - i), s4)"
      using True 1(1,2) 3(1,3) 4(1) by (subst write_pages.simps, unfold Let_def, fold n_def) (simp add: word_less_nat_alt)
    ultimately show ?thesis using 4(2) same_out_trans[OF same 4(3)] by blast
  qed
qed

lemma unat_exp: "k < LENGTH('a) \<Longrightarrow> unat (2 ^ k :: 'a :: len word) = 2 ^ k"
  using unat_of_nat[of "2 ^ k", where 'a = 'a] by simp

lemma page_offset:
  assumes "page_size fl = 2 ^ k" "k < 16"
  shows "unat (ucast (adr AND (ucast (page_size fl) - 1)) :: u32) = unat (adr :: 64 word) mod unat (page_size fl)" "unat (page_size fl) = 2 ^ k"
proof -
  show P: "unat (page_size fl) = 2 ^ k" using assms by (simp add: unat_exp)
  have "ucast (page_size fl) = (2 ^ k :: 64 word)" using assms(2) P by (simp add: word_unat_eq_iff unat_exp)
  then have "adr AND (ucast (page_size fl) - 1) = take_bit k adr" by (simp add: take_bit_eq_mask mask_eq_exp_minus_1)
  then have u: "unat (adr AND (ucast (page_size fl) - 1)) = unat adr mod 2 ^ k" using assms(2) by (simp add: take_bit_eq_mod unat_mod unat_exp)
  have "(2 :: nat) ^ k \<le> 2 ^ 32" using assms(2) by (intro power_increasing) simp_all
  then have "unat adr mod 2 ^ k < 2 ^ 32" by (rule less_le_trans[rotated]) simp
  then show "unat (ucast (adr AND (ucast (page_size fl) - 1)) :: u32) = unat adr mod unat (page_size fl)"
    unfolding P by (simp add: unsigned_ucast_eq u take_bit_nat_eq_self)
qed

lemma write_msg_new:
  assumes "flash_fits E fl"
  shows "write_msg fl (msg_of (flash_spi fl) [no_xfer\<lparr>tx_buf := command fl, t_len := word_of_int (m25p_cmdsz fl)\<rparr>, no_xfer\<lparr>tx_buf := b\<rparr>])"
proof -
  have a: "aw fl \<le> 4" "command fl \<noteq> 0" using assms by (auto simp: flash_fits_def)
  then have "0 < sint (of_nat (Suc (aw fl)) :: u32)" using sint_pos[of "of_nat (Suc (aw fl))"] cmdsz_word(2)[OF a(1)] by simp
  then show ?thesis using a cmdsz_word(1)[OF a(1)] by (simp add: write_msg_def msg_of_def byte_xfer_simps) (simp add: no_xfer_def)
qed

lemma write_ok:
  assumes at: "flash_at E fl dv P absn c m s" and run: "flash_runs E fl dv D K P absn" and w: "wip c \<le> K" and bp: "sreg c AND SR_BP = 0"
    and data: "data_ok E fl buf (unat len)" "unat adr + unat len \<le> unat (mtd_size fl)" "0 < unat len"
  shows "\<exists>s' m' c'. m25p80_write E fl adr len rl buf s = Some (0, len, s') \<and> flash_at E fl dv P absn c' m' s' \<and> same_out (areas E fl) m m'
    \<and> leaves K c (burned (unat adr) (get_bytes buf (unat len) m) (cells c)) c'"
proof -
  let ?P = "unat (page_size fl)" let ?p = "ucast (page_size fl) :: u32" let ?a = "ucast adr :: u32" let ?L = "unat len"
  let ?msg = "msg_of (flash_spi fl) [no_xfer\<lparr>tx_buf := command fl, t_len := word_of_int (m25p_cmdsz fl)\<rparr>, no_xfer\<lparr>tx_buf := buf\<rparr>]"
  define po where "po = (ucast (adr AND (ucast (page_size fl) - 1)) :: u32)"
  have fit: "flash_fits E fl" "aw fl \<in> {1..4}" "unat (mtd_size fl) \<le> 256 ^ aw fl" "unat (mtd_size fl) < 2 ^ 32"
    using run by (auto simp: flash_runs_def flash_fits_def)
  obtain k where k: "page_size fl = 2 ^ k" "k < 16" using fit(1) by (auto simp: flash_fits_def)
  have po: "unat po = unat adr mod ?P" "0 < ?P" "?P < 2 ^ 16"
    using page_offset(1)[OF k, of adr] page_offset(2)[OF k] unsigned_less[of "page_size fl", where 'a=nat] by (simp_all add: po_def)
  have pl: "unat po < ?P" using po(1,2) by simp
  have ua: "unat ?a = unat adr" using data(2) fit(4) by (simp add: unsigned_ucast_eq take_bit_nat_eq_self)
  have ad: "unat ?a < 256 ^ aw fl" using ua data(2,3) fit(3) by linarith
  have L: "?L < 2 ^ 31" using data(1) by (simp add: data_ok_def)
  obtain s1 s2 m2 where 1: "wait_till_ready E fl s = Some (0, s1)" "write_enable E fl s1 = Some (0, s2)"
    "flash_at E fl dv P absn (c\<lparr>wip := 0, wel := True\<rparr>) m2 s2" "same_out (wtr_area E) m m2" using ready_ok[OF at run w] .
  let ?m = "addr_mem fl ?a (m2(command fl := program_opcode fl))" let ?s = "m25p_addr2cmd fl ?a (cmd_put fl 0 (program_opcode fl) s2)"
  let ?c = "c\<lparr>wip := 0, wel := True\<rparr>"
  have at3: "flash_at E fl dv P absn ?c ?m ?s" using addr2cmd_at[OF cmd_put_at[OF 1(3), of 0]] by simp
  obtain ps where ps: "get_bytes (command fl) (Suc (aw fl)) ?m = program_opcode fl # ps" "length ps = aw fl" "addr_of ps = unat ?a"
    using cmd_bytes[OF fit(2) ad, of "m2(command fl := program_opcode fl)"] by auto
  have same: "same_out (areas E fl) m ?m"
    using areas_same(1)[OF 1(4)] areas_same(2)[OF addr_mem_same, of E fl "m2(command fl := program_opcode fl)" ?a] in_cmd_area(1)[of fl]
    by (auto simp: same_out_def areas_def)
  have gb: "get_bytes buf j ?m = get_bytes buf j m" "buf \<noteq> 0" if "0 < j" "j \<le> ?L" for j
    using get_bytes_same[OF same] data_okD[OF data(1), of 0 j] that by auto
  have page: "\<exists>s' msg' c'. flash_sync E fl (set_data fl buf n ?msg) ?s = Some (0, msg', s') \<and> write_msg fl msg'
      \<and> actual_length msg' - word_of_int (m25p_cmdsz fl) = n \<and> flash_at E fl dv P absn c' ?m s'
      \<and> leaves K c (burned (unat adr) (get_bytes buf (unat n) m) (cells c)) c'" if "0 < unat n" "unat po + unat n \<le> ?P" "unat n \<le> ?L" for n
    using page_ok[OF at3 run _ _ _ write_msg_new[OF fit(1)] ps, of n buf buf] that bp po(1) ua data(2,3) gb[OF that(1,3)] by (simp add: leaves_def)
  have sum: "unat (po + len) = unat po + ?L" using pl po(3) L by (subst unat_add_lem[THEN iffD1]) auto
  show ?thesis
  proof (cases "unat po + ?L \<le> ?P")
    case True
    from page[OF data(3) this order_refl] obtain s' msg' c' where 2: "flash_sync E fl (set_data fl buf len ?msg) ?s = Some (0, msg', s')"
      "actual_length msg' - word_of_int (m25p_cmdsz fl) = len" "flash_at E fl dv P absn c' ?m s'"
      "leaves K c (burned (unat adr) (get_bytes buf ?L m) (cells c)) c'" by blast
    have "m25p80_write E fl adr len rl buf s = Some (0, len, s')"
      using 1(1,2) 2(1,2) True sum unfolding m25p80_write_def Let_def po_def[symmetric] by (simp add: word_le_nat_alt)
    then show ?thesis using 2(3,4) same by blast
  next
    case False
    have n: "unat (?p - po) = ?P - unat po" using pl by (simp add: unat_sub word_le_nat_alt)
    have h: "0 < ?P - unat po" "unat po + (?P - unat po) \<le> ?P" "?P - unat po \<le> ?L" using pl False by linarith+
    obtain s3 msg3 c3 where 2: "flash_sync E fl (set_data fl buf (?p - po) ?msg) ?s = Some (0, msg3, s3)" "write_msg fl msg3"
      "actual_length msg3 - word_of_int (m25p_cmdsz fl) = ?p - po" "flash_at E fl dv P absn c3 ?m s3"
      "leaves K c (burned (unat adr) (get_bytes buf (?P - unat po) m) (cells c)) c3"
      using page[of "?p - po", unfolded n, OF h] by blast
    have "unat adr + unat (?p - po) = ?P * (unat adr div ?P) + ?P" using n po(1) pl mult_div_mod_eq[of ?P "unat adr"] by linarith
    then have "?P dvd unat adr + unat (?p - po)" by simp
    moreover have pr: "wip c3 \<le> K" "sreg c3 AND SR_BP = 0" "?m (command fl) = program_opcode fl" "unat (?p - po) \<le> ?L"
      using 2(5) bp ps(1) n False by (simp_all add: leaves_def get_bytes_Suc)
    ultimately obtain s4 m4 c4 where 4: "write_pages E fl adr len buf (?p - po) msg3 (?p - po) s3 = Some ((?p - po) + (len - (?p - po)), s4)"
      "flash_at E fl dv P absn c4 m4 s4" "same_out (areas E fl) ?m m4"
      "leaves K c3 (burned (unat adr + unat (?p - po)) (get_bytes (buf + (?p - po)) (?L - unat (?p - po)) ?m) (cells c3)) c4"
      using write_pages_ok[OF run data(1,2) 2(4) pr(1,2) 2(2) pr(3,4)] by blast
    have "m25p80_write E fl adr len rl buf s = Some (0, len, s4)"
      using 1(1,2) 2(1,3) 4(1) False sum unfolding m25p80_write_def Let_def po_def[symmetric] by (simp add: word_le_nat_alt)
    moreover have "get_bytes buf ?L m = get_bytes buf (?P - unat po) m @ get_bytes (buf + (?p - po)) (?L - unat (?p - po)) ?m"
      using get_bytes_append[of buf "unat (?p - po)" "?L - unat (?p - po)" ?m] gb(1)[OF data(3) order_refl] gb(1)[of "unat (?p - po)"] n pl pr(4) by simp
    then have "leaves K c (burned (unat adr) (get_bytes buf ?L m) (cells c)) c4"
      using 2(5) 4(4) burned_append[of "unat adr" "get_bytes buf (?P - unat po) m"] n by (simp add: leaves_def)
    ultimately show ?thesis using 4(2) same_out_trans[OF same 4(3)] by blast
  qed
qed

section \<open>What the operations do to the chip\<close>

text \<open>C12. Data written to the flash is read back.  \<open>m25p80_erase\<close> of whole sectors, \<open>m25p80_write\<close> of any number of bytes at any place in them, over
  as many pages as it takes, and \<open>m25p80_read\<close> of the same place return 0 and the full length, and the bytes read are the
  bytes written.  In the chip the rest of the erased sectors is 0xff and no cell outside of them has changed.  This is end to end: the
  bytes go through the SPI core, the queue runner, the controller's interrupt routine and the wires to any chip that behaves
  as \<open>nor_chip\<close> says and is ready before the driver's time runs out.\<close>

theorem flash_roundtrip:
  assumes "flash_runs E fl dv D K P absn" "flash_at E fl dv P absn c m s" "wip c \<le> K" "sreg c AND SR_BP = 0"
    and "unat (erasesize fl) dvd unat ia" "unat (erasesize fl) dvd unat il" "unat ia + unat il \<le> unat (mtd_size fl)"
    and "unat ia \<le> unat adr" "unat adr + unat len \<le> unat ia + unat il" "0 < unat len" "data_ok E fl buf (unat len)" "rbuf \<noteq> 0"
  shows "\<exists>s1 s2 s3 c' m'. m25p80_erase E fl ia il st s = Some (0, MTD_ERASE_DONE, s1)
    \<and> m25p80_write E fl adr len wl buf s1 = Some (0, len, s2)
    \<and> m25p80_read E fl adr len rl rbuf s2 = Some (0, len, s3)
    \<and> flash_at E fl dv P absn c' m' s3
    \<and> get_bytes rbuf (unat len) m' = get_bytes buf (unat len) m
    \<and> same_out (areas E fl \<union> buffer rbuf (unat len)) m m'
    \<and> (\<forall>x. x < unat ia \<or> unat ia + unat il \<le> x \<longrightarrow> cells c' x = cells c x)
    \<and> (\<forall>x. unat ia \<le> x \<and> x < unat ia + unat il \<and> \<not> (unat adr \<le> x \<and> x < unat adr + unat len) \<longrightarrow> cells c' x = 0xff)"
proof -
  let ?n = "unat len"
  have fit: "unat adr + ?n \<le> unat (mtd_size fl)" "?n < 2 ^ 31" using assms(7,9,11) by (simp_all add: data_ok_def)
  obtain s1 m1 c1 where 1: "m25p80_erase E fl ia il st s = Some (0, MTD_ERASE_DONE, s1)" "flash_at E fl dv P absn c1 m1 s1"
    "same_out (areas E fl) m m1" "leaves K c (filled (unat ia) (unat il) (cells c)) c1"
    using erase_ok[OF assms(2,1,3-7)] by blast
  have c1: "wip c1 \<le> K" "sreg c1 AND SR_BP = 0" using 1(4) assms(4) by (simp_all add: leaves_def)
  obtain s2 m2 c2 where 2: "m25p80_write E fl adr len wl buf s1 = Some (0, len, s2)" "flash_at E fl dv P absn c2 m2 s2"
    "same_out (areas E fl) m1 m2" "leaves K c1 (burned (unat adr) (get_bytes buf ?n m1) (cells c1)) c2"
    using write_ok[OF 1(2) assms(1) c1 assms(11) fit(1) assms(10)] by blast
  have "wip c2 \<le> K" using 2(4) by (simp add: leaves_def)
  then obtain s3 m3 where 3: "m25p80_read E fl adr len rl rbuf s2 = Some (0, len, s3)" "flash_at E fl dv P absn (c2\<lparr>wip := 0\<rparr>) m3 s3"
    "get_bytes rbuf ?n m3 = map (\<lambda>i. cells c2 (unat adr + i)) [0..<?n]" "same_out (areas E fl \<union> buffer rbuf ?n) m2 m3"
    using read_ok[OF 2(2) assms(1) _ assms(10) fit(2,1) assms(12)] by blast
  have gb: "get_bytes buf ?n m1 = get_bytes buf ?n m"
    using get_bytes_same[OF 1(3)] data_okD(2)[OF assms(11), of 0 ?n] assms(10) by simp
  have cl: "cells c2 = burned (unat adr) (get_bytes buf ?n m) (filled (unat ia) (unat il) (cells c))"
    using 1(4) 2(4) gb by (simp add: leaves_def)
  have ff: "0xff AND v = v" for v :: u8 by (rule bit_word_eqI) (auto simp: bit_and_iff bit_numeral_rec less_Suc_eq numeral_eq_Suc)
  have "get_bytes rbuf ?n m3 = get_bytes buf ?n m" unfolding 3(3)
    using assms(8,9) by (intro nth_equalityI) (simp_all add: cl burned_def filled_def ff)
  moreover have "same_out (areas E fl \<union> buffer rbuf ?n) m m3"
    using same_out_mono[OF same_out_trans[OF 1(3) 2(3)]] 3(4) same_out_trans by blast
  moreover have "\<forall>x. x < unat ia \<or> unat ia + unat il \<le> x \<longrightarrow> cells (c2\<lparr>wip := 0\<rparr>) x = cells c x"
    "\<forall>x. unat ia \<le> x \<and> x < unat ia + unat il \<and> \<not> (unat adr \<le> x \<and> x < unat adr + ?n) \<longrightarrow> cells (c2\<lparr>wip := 0\<rparr>) x = 0xff"
    using assms(8,9) by (auto simp: cl burned_def filled_def)
  ultimately show ?thesis using 1(1) 2(1) 3(1,2) by blast
qed

text \<open>Writing without erasing.  \<open>m25p80_write\<close> of any length at any place, across page boundaries, returns 0 and the full length and clears
  in each cell of the range exactly the bits that are zero in the byte written; all other cells keep their value, and in memory only
  the driver's own buffers change.\<close>

theorem flash_write_exact:
  assumes "flash_runs E fl dv D K P absn" "flash_at E fl dv P absn c m s" "wip c \<le> K" "sreg c AND SR_BP = 0"
    and "data_ok E fl buf (unat len)" "unat adr + unat len \<le> unat (mtd_size fl)" "0 < unat len"
  shows "\<exists>s' m' c'. m25p80_write E fl adr len rl buf s = Some (0, len, s') \<and> flash_at E fl dv P absn c' m' s' \<and> same_out (areas E fl) m m'
    \<and> (\<forall>x. cells c' x = (if unat adr \<le> x \<and> x < unat adr + unat len then cells c x AND m (buf + of_nat (x - unat adr)) else cells c x))"
  using write_ok[OF assms(2,1,3-7)] by (auto simp: leaves_def burned_def) (fastforce simp: fun_eq_iff)

text \<open>A chip that does not become ready.  When the time runs out before the chip is ready, reading and writing return 1 and keep the
  caller's length, erasing returns \<open>-EIO\<close> with a failed request, and the chip has seen nothing but status reads.\<close>

theorem flash_timeout:
  assumes "flash_runs E fl dv D K P absn" "flash_at E fl dv P absn c m s" "n < wip c"
    and "time_after_eq ((m_tick E ^^ Suc n) (jiffies s)) (jiffies s + MAX_READY_WAIT_JIFFIES)"
    and "il mod ucast (erasesize fl) = 0" "(ucast il :: u32) \<noteq> 0"
  shows "\<exists>s' m' w. m25p80_read E fl adr len rl buf s = Some (1, rl, s')
    \<and> m25p80_write E fl adr len rl buf s = Some (1, rl, s')
    \<and> m25p80_erase E fl ia il st s = Some (- eno EIO, MTD_ERASE_FAILED, s')
    \<and> flash_at E fl dv P absn (c\<lparr>wip := w\<rparr>) m' s' \<and> same_out (wtr_area E) m m'"
proof -
  obtain s' m' w where 1: "ready_loop E fl (jiffies s + MAX_READY_WAIT_JIFFIES) s = Some (1, s')"
    "flash_at E fl dv P absn (c\<lparr>wip := w\<rparr>) m' s'" "same_out (wtr_area E) m m'"
    using ready_loop_stuck[OF assms(1-4)] by blast
  have W: "wait_till_ready E fl s = Some (1, s')" using 1(1) by (simp add: wait_till_ready_def)
  have d: "m25p80_dummy_cycles_read (flash_read fl) \<ge> 0" by (cases "flash_read fl") simp_all
  have "m25p80_read E fl adr len rl buf s = Some (1, rl, s')" "m25p80_write E fl adr len rl buf s = Some (1, rl, s')"
    using W d by (simp_all add: m25p80_read_def m25p80_write_def Let_def)
  moreover have "erase_loop E fl (ucast ia) (ucast il) s = Some (- eno EIO, s')"
    using W assms(6) by (subst erase_loop.simps) (simp add: erase_sector_def)
  then have "m25p80_erase E fl ia il st s = Some (- eno EIO, MTD_ERASE_FAILED, s')"
    using W assms(5) by (simp add: m25p80_erase_def erase_chip_def Let_def)
  ultimately show ?thesis using 1(2,3) by blast
qed

section \<open>Protection of the chip\<close>

text \<open>On the chips these two operations are for, the three protection bits are a level: level 0 protects nothing, each further level
  doubles the protected part at the upper end, and level 7 protects everything.\<close>

definition bp_level :: "u8 \<Rightarrow> nat" where
  "bp_level v = unat (v AND SR_BP) div 4"

definition protected_from :: "nat \<Rightarrow> nat \<Rightarrow> nat" where
  "protected_from n l = (if l = 0 then n else if l \<ge> 7 then 0 else n - n div 2 ^ (7 - l))"

lemma protected_mono:
  assumes "k \<le> l"
  shows "protected_from n l \<le> protected_from n k"
proof -
  have "n div 2 ^ (7 - k) \<le> n div 2 ^ (7 - l)" using assms by (intro div_le_mono2 power_increasing) simp_all
  then show ?thesis using assms by (auto simp: protected_from_def)
qed

lemma bit_bp: "bit SR_BP0 k \<longleftrightarrow> k = 2" "bit SR_BP1 k \<longleftrightarrow> k = 3" "bit SR_BP2 k \<longleftrightarrow> k = 4" "bit SR_BP k \<longleftrightarrow> k \<in> {2, 3, 4}"
proof -
  have *: "SR_BP0 = 2 ^ 2" "SR_BP1 = 2 ^ 3" "SR_BP2 = 2 ^ 4" by (simp_all add: SR_BP0_def SR_BP1_def SR_BP2_def)
  show a: "bit SR_BP0 k \<longleftrightarrow> k = 2" "bit SR_BP1 k \<longleftrightarrow> k = 3" "bit SR_BP2 k \<longleftrightarrow> k = 4" unfolding * bit_exp_iff by auto
  show "bit SR_BP k \<longleftrightarrow> k \<in> {2, 3, 4}" unfolding SR_BP_def bit_or_iff a by auto
qed

lemma bp_and:
  "(v OR SR_BP2 OR SR_BP1 OR SR_BP0) AND SR_BP = SR_BP"
  "(v AND NOT SR_BP0 OR SR_BP2 OR SR_BP1) AND SR_BP = SR_BP2 OR SR_BP1"
  "(v AND NOT SR_BP1 OR SR_BP2 OR SR_BP0) AND SR_BP = SR_BP2 OR SR_BP0"
  "(v AND NOT (SR_BP0 OR SR_BP1) OR SR_BP2) AND SR_BP = SR_BP2"
  "(v AND NOT SR_BP2 OR SR_BP1 OR SR_BP0) AND SR_BP = SR_BP1 OR SR_BP0"
  "(v AND NOT (SR_BP2 OR SR_BP0) OR SR_BP1) AND SR_BP = SR_BP1"
  "(v AND NOT (SR_BP2 OR SR_BP1) OR SR_BP0) AND SR_BP = SR_BP0"
  "(v AND NOT (SR_BP2 OR SR_BP1 OR SR_BP0)) AND SR_BP = 0"
  by (rule bit_word_eqI; auto simp: bit_and_iff bit_or_iff bit_not_iff bit_bp)+

lemma unat_bp: "unat SR_BP = 28" "unat (SR_BP2 OR SR_BP1) = 24" "unat (SR_BP2 OR SR_BP0) = 20" "unat SR_BP2 = 16"
  "unat (SR_BP1 OR SR_BP0) = 12" "unat SR_BP1 = 8" "unat SR_BP0 = 4"
  by (simp_all add: SR_BP_def SR_BP0_def SR_BP1_def SR_BP2_def)

lemma bp_level_bits: "unat (v AND SR_BP) = 4 * bp_level v" "bp_level v \<le> 7"
proof -
  have "take_bit 2 (v AND SR_BP) = 0" by (rule bit_word_eqI) (auto simp: bit_take_bit_iff bit_and_iff bit_bp)
  then have "unat (take_bit 2 (v AND SR_BP)) = 0" by simp
  then have "unat (v AND SR_BP) mod 4 = 0" by (simp add: take_bit_eq_mod unat_mod)
  then show "unat (v AND SR_BP) = 4 * bp_level v" unfolding bp_level_def by presburger
  have "v AND SR_BP \<le> SR_BP" by (rule word_and_le1)
  then show "bp_level v \<le> 7" by (simp add: bp_level_def word_le_nat_alt unat_bp)
qed

lemma bp_level_less: "v AND SR_BP < w AND SR_BP \<longleftrightarrow> bp_level v < bp_level w"
  by (simp add: word_less_nat_alt bp_level_bits(1))

lemma word_part: "unat (sz - sz div 2 ^ k) = unat sz - unat sz div 2 ^ k" if "k < 64" for sz :: "64 word"
proof -
  have u: "unat (sz div 2 ^ k) = unat sz div 2 ^ k" using that by (simp add: unat_div unat_exp)
  then have "sz div 2 ^ k \<le> sz" by (simp add: word_le_nat_alt)
  then show ?thesis using u by (simp add: unat_sub)
qed

lemmas word_parts = word_part[of 1, simplified] word_part[of 2, simplified] word_part[of 3, simplified] word_part[of 4, simplified]
  word_part[of 5, simplified] word_part[of 6, simplified]

lemma bp_levels:
  "bp_level (v OR SR_BP2 OR SR_BP1 OR SR_BP0) = 7" "bp_level (v AND NOT SR_BP0 OR SR_BP2 OR SR_BP1) = 6"
  "bp_level (v AND NOT SR_BP1 OR SR_BP2 OR SR_BP0) = 5" "bp_level (v AND NOT (SR_BP0 OR SR_BP1) OR SR_BP2) = 4"
  "bp_level (v AND NOT SR_BP2 OR SR_BP1 OR SR_BP0) = 3" "bp_level (v AND NOT (SR_BP2 OR SR_BP0) OR SR_BP1) = 2"
  "bp_level (v AND NOT (SR_BP2 OR SR_BP1) OR SR_BP0) = 1" "bp_level (v AND NOT (SR_BP2 OR SR_BP1 OR SR_BP0)) = 0"
  unfolding bp_level_def bp_and unat_bp by simp_all

lemma first_below:
  fixes f :: "nat \<Rightarrow> nat" and x :: nat
  assumes "f 7 \<le> x" "x < f 0"
    and "l = (if x < f 6 then 7 else if x < f 5 then 6 else if x < f 4 then 5 else if x < f 3 then 4 else if x < f 2 then 3 else if x < f 1 then 2 else 1)"
  shows "f l \<le> x" "0 < l" "x < f (l - 1)"
  using assms by (simp_all split: if_splits)

lemma first_above:
  fixes f :: "nat \<Rightarrow> nat" and x :: nat
  assumes "f 7 < x" "x \<le> f 0"
    and "l = (if f 1 < x then 0 else if f 2 < x then 1 else if f 3 < x then 2 else if f 4 < x then 3 else if f 5 < x then 4 else if f 6 < x then 5 else 6)"
  shows "x \<le> f l" "l < 7" "f (l + 1) < x"
  using assms by (simp_all add: eval_nat_numeral split: if_splits)

lemma protected_levels:
  "protected_from n 0 = n" "protected_from n 1 = n - n div 64" "protected_from n 2 = n - n div 32" "protected_from n 3 = n - n div 16"
  "protected_from n 4 = n - n div 8" "protected_from n 5 = n - n div 4" "protected_from n 6 = n - n div 2" "protected_from n 7 = 0"
  by (simp_all add: protected_from_def)

text \<open>The level that covers an offset, and no lower one does.\<close>

lemma lock_level:
  fixes sz :: "64 word" and ofs :: u32 and v :: u8
  assumes "unat ofs < unat sz"
  defines "l \<equiv> bp_level (lock_status sz ofs v)"
  shows "protected_from (unat sz) l \<le> unat ofs" "0 < l" "unat ofs < protected_from (unat sz) (l - 1)"
proof -
  let ?f = "protected_from (unat sz)" and ?x = "unat ofs"
  have l: "l = (if ?x < ?f 6 then 7 else if ?x < ?f 5 then 6 else if ?x < ?f 4 then 5 else if ?x < ?f 3 then 4 else if ?x < ?f 2 then 3 else if ?x < ?f 1 then 2 else 1)"
    unfolding l_def lock_status_def if_distrib[of bp_level] bp_levels word_less_nat_alt unat_up64 word_parts protected_levels by (rule refl)
  have b: "?f 7 \<le> ?x" "?x < ?f 0" using assms(1) by (simp_all add: protected_levels)
  show "?f l \<le> ?x" "0 < l" "?x < ?f (l - 1)" using first_below[OF b l] .
qed

text \<open>The level that leaves everything below a point free, and no higher one does.\<close>

lemma unlock_level:
  fixes sz hi :: "64 word" and v :: u8
  assumes "0 < unat hi" "unat hi \<le> unat sz"
  defines "l \<equiv> bp_level (unlock_status sz hi v)"
  shows "unat hi \<le> protected_from (unat sz) l" "l < 7" "protected_from (unat sz) (l + 1) < unat hi"
proof -
  let ?f = "protected_from (unat sz)" and ?x = "unat hi"
  have l: "l = (if ?f 1 < ?x then 0 else if ?f 2 < ?x then 1 else if ?f 3 < ?x then 2 else if ?f 4 < ?x then 3 else if ?f 5 < ?x then 4 else if ?f 6 < ?x then 5 else 6)"
    unfolding l_def unlock_status_def if_distrib[of bp_level] bp_levels word_less_nat_alt word_parts protected_levels by (rule refl)
  have b: "?f 7 < ?x" "?x \<le> ?f 0" using assms(1,2) by (simp_all add: protected_levels)
  show "?x \<le> ?f l" "l < 7" "?f (l + 1) < ?x" using first_above[OF b l] .
qed

lemma status_level: "bp_level (nor_status c) = bp_level (sreg c)"
proof -
  have w: "bit SR_WEL k \<longleftrightarrow> k = 1" "bit SR_WIP k \<longleftrightarrow> k = 0" for k
    using bit_exp_iff[of 1 k, where 'a="u8"] bit_exp_iff[of 0 k, where 'a="u8"] by (auto simp: SR_WEL_def SR_WIP_def)
  have fc: "bit (0xfc :: u8) k" if "k \<in> {2, 3, 4}" for k using that by auto
  have "nor_status c AND SR_BP = sreg c AND SR_BP"
    by (rule bit_word_eqI) (auto simp: nor_status_def bit_and_iff bit_or_iff bit_bp w fc)
  then show ?thesis by (simp add: bp_level_def)
qed

lemma write_sr_ok:
  assumes at: "flash_at E fl dv P absn c m s" and run: "flash_runs E fl dv D K P absn" and c: "wip c = 0" "wel c"
  shows "\<exists>s' m' c'. write_sr E fl v s = Some (0, s') \<and> flash_at E fl dv P absn c' m' s' \<and> same_out (areas E fl) m m'
    \<and> cells c' = cells c \<and> sreg c' = v \<and> wip c' \<le> K"
proof -
  let ?m = "m(command fl := OPCODE_WRSR, command fl + 1 := v)" let ?s = "cmd_put fl 1 v (cmd_put fl 0 OPCODE_WRSR s)"
  let ?c' = "after_write (D [OPCODE_WRSR, v] c) (c\<lparr>sreg := v\<rparr>)"
  have r: "command fl \<noteq> 0" "D bs x \<le> K" for bs x using run by (simp_all add: flash_runs_def flash_fits_def)
  have at2: "flash_at E fl dv P absn c ?m ?s" using cmd_put_at[OF cmd_put_at[OF at, of 0 OPCODE_WRSR], of 1 v] by simp
  have "nor_exec fl D [OPCODE_WRSR, v] c = Some ?c'" using c by (simp add: nor_exec_def opcode_defs)
  then obtain s' where "spi_write E fl (command fl) 2 ?s = Some (0, s')" "flash_at E fl dv P absn ?c' ?m s'"
    using spi_write_ok[OF at2 run, of 2 "command fl" ?c'] r(1) get_bytes_short(2)[of "command fl" ?m] by auto
  moreover have "same_out (areas E fl) m ?m" using in_cmd_area(1,2)[of fl] by (auto simp: same_out_def areas_def)
  moreover have "cells ?c' = cells c" "sreg ?c' = v" "wip ?c' \<le> K" using r(2) by (simp_all add: after_write_def)
  ultimately show ?thesis unfolding write_sr_def by blast
qed

text \<open>Read the status, and write a new one when it is wanted.\<close>

lemma new_status_ok:
  assumes at: "flash_at E fl dv P absn c m s" and run: "flash_runs E fl dv D K P absn" and w: "wip c \<le> K"
  obtains s1 s2 v where "wait_till_ready E fl s = Some (0, s1)" "read_sr E fl s1 = Some (uint v, s2)" "bp_level v = bp_level (sreg c)"
    "\<exists>m2 c2. flash_at E fl dv P absn c2 m2 s2 \<and> same_out (areas E fl) m m2 \<and> cells c2 = cells c \<and> sreg c2 = sreg c \<and> wip c2 \<le> K"
    "\<And>nv. \<exists>s3 s4 m4 c4. write_enable E fl s2 = Some (0, s3) \<and> write_sr E fl nv s3 = Some (0, s4) \<and> flash_at E fl dv P absn c4 m4 s4
       \<and> same_out (areas E fl) m m4 \<and> cells c4 = cells c \<and> sreg c4 = nv \<and> wip c4 \<le> K"
proof -
  let ?c = "c\<lparr>wip := 0\<rparr>"
  obtain s1 m1 where 1: "wait_till_ready E fl s = Some (0, s1)" "flash_at E fl dv P absn ?c m1 s1" "same_out (wtr_area E) m m1"
    using wait_ok[OF at run w] by blast
  obtain s2 m2 where 2: "read_sr E fl s1 = Some (uint (nor_status ?c), s2)" "flash_at E fl dv P absn ?c m2 s2" "same_out (wtr_area E) m1 m2"
    using read_sr_ok[OF 1(2) run] by auto
  have same: "same_out (areas E fl) m m2" using areas_same(1)[OF same_out_trans[OF 1(3) 2(3)]] .
  have W: "\<exists>s3 s4 m4 c4. write_enable E fl s2 = Some (0, s3) \<and> write_sr E fl nv s3 = Some (0, s4) \<and> flash_at E fl dv P absn c4 m4 s4
       \<and> same_out (areas E fl) m m4 \<and> cells c4 = cells c \<and> sreg c4 = nv \<and> wip c4 \<le> K" for nv
  proof -
    obtain s3 m3 where 3: "write_enable E fl s2 = Some (0, s3)" "flash_at E fl dv P absn (?c\<lparr>wel := True\<rparr>) m3 s3" "same_out (wtr_area E) m2 m3"
      using write_enable_ok[OF 2(2) run] by auto
    obtain s4 m4 c4 where 4: "write_sr E fl nv s3 = Some (0, s4)" "flash_at E fl dv P absn c4 m4 s4" "same_out (areas E fl) m3 m4"
      "cells c4 = cells c" "sreg c4 = nv" "wip c4 \<le> K" using write_sr_ok[OF 3(2) run, of nv] by auto
    show ?thesis using 3(1) 4 same_out_trans[OF same_out_trans[OF same areas_same(1)[OF 3(3)]] 4(3)] by blast
  qed
  show ?thesis
  proof (rule that[OF 1(1) 2(1)])
    show "bp_level (nor_status ?c) = bp_level (sreg c)" by (simp add: status_level)
    show "\<exists>m2 c2. flash_at E fl dv P absn c2 m2 s2 \<and> same_out (areas E fl) m m2 \<and> cells c2 = cells c \<and> sreg c2 = sreg c \<and> wip c2 \<le> K"
      using 2(2) same by (intro exI[of _ m2] exI[of _ ?c]) simp
  qed (rule W)
qed

text \<open>Locking.  \<open>m25p80_lock\<close> returns 0; afterwards everything from the offset to the end of the chip is protected, nothing that was protected
  before has become free, and if the protection has changed it is the smallest that covers the offset.  The length given
  plays no role.\<close>

theorem flash_lock_covers:
  assumes "flash_runs E fl dv D K P absn" "flash_at E fl dv P absn c m s" "wip c \<le> K" "unat ofs < unat (mtd_size fl)"
  shows "\<exists>s' m' c'. m25p80_lock E fl ofs len s = Some (0, s') \<and> flash_at E fl dv P absn c' m' s' \<and> same_out (areas E fl) m m'
    \<and> cells c' = cells c \<and> wip c' \<le> K
    \<and> protected_from (unat (mtd_size fl)) (bp_level (sreg c')) \<le> unat ofs
    \<and> bp_level (sreg c) \<le> bp_level (sreg c')
    \<and> (bp_level (sreg c') = bp_level (sreg c) \<or> unat ofs < protected_from (unat (mtd_size fl)) (bp_level (sreg c') - 1))"
proof -
  let ?o = "ucast ofs :: u32" let ?n = "unat (mtd_size fl)"
  have uo: "unat ?o = unat ofs" using assms(1,4) by (simp add: flash_runs_def flash_fits_def unsigned_ucast_eq take_bit_nat_eq_self)
  obtain s1 s2 v where 1: "wait_till_ready E fl s = Some (0, s1)" "read_sr E fl s1 = Some (uint v, s2)" "bp_level v = bp_level (sreg c)"
    and keep: "\<exists>m2 c2. flash_at E fl dv P absn c2 m2 s2 \<and> same_out (areas E fl) m m2 \<and> cells c2 = cells c \<and> sreg c2 = sreg c \<and> wip c2 \<le> K"
    and new: "\<And>nv. \<exists>s3 s4 m4 c4. write_enable E fl s2 = Some (0, s3) \<and> write_sr E fl nv s3 = Some (0, s4) \<and> flash_at E fl dv P absn c4 m4 s4
       \<and> same_out (areas E fl) m m4 \<and> cells c4 = cells c \<and> sreg c4 = nv \<and> wip c4 \<le> K"
    by (rule new_status_ok[OF assms(2,1,3)]) blast
  let ?nv = "lock_status (mtd_size fl) ?o v"
  have L: "protected_from ?n (bp_level ?nv) \<le> unat ofs" "unat ofs < protected_from ?n (bp_level ?nv - 1)"
    using lock_level[of ?o "mtd_size fl" v] assms(4) uo by simp_all
  have E: "m25p80_lock E fl ofs len s = (if bp_level v < bp_level ?nv
      then do { (_, s) \<leftarrow> write_enable E fl s2; (r, s) \<leftarrow> write_sr E fl ?nv s; Some (if r < 0 then 1 else 0, s) } else Some (0, s2))"
    using 1(1,2) by (simp add: m25p80_lock_def bp_level_less Let_def)
  show ?thesis
  proof (cases "bp_level v < bp_level ?nv")
    case True
    obtain s3 s4 m4 c4 where "write_enable E fl s2 = Some (0, s3)" "write_sr E fl ?nv s3 = Some (0, s4)" "flash_at E fl dv P absn c4 m4 s4"
      "same_out (areas E fl) m m4" "cells c4 = cells c" "sreg c4 = ?nv" "wip c4 \<le> K" using new[of ?nv] by blast
    then show ?thesis using E True L 1(3) by (intro exI[of _ s4] exI[of _ m4] exI[of _ c4]) simp
  next
    case False
    then have "protected_from ?n (bp_level (sreg c)) \<le> unat ofs" using protected_mono[of "bp_level ?nv" "bp_level v" ?n] L(1) 1(3) by simp
    moreover obtain m2 c2 where "flash_at E fl dv P absn c2 m2 s2" "same_out (areas E fl) m m2" "cells c2 = cells c" "sreg c2 = sreg c" "wip c2 \<le> K"
      using keep by blast
    ultimately show ?thesis using E False by (intro exI[of _ s2] exI[of _ m2] exI[of _ c2]) simp
  qed
qed

text \<open>Unlocking.  \<open>m25p80_unlock\<close> returns 0; afterwards everything up to the end of the range is free, nothing that was free before has become
  protected, and if the protection has changed it is the largest that leaves the range free.\<close>

theorem flash_unlock_frees:
  assumes "flash_runs E fl dv D K P absn" "flash_at E fl dv P absn c m s" "wip c \<le> K" "unat ofs + unat len \<le> unat (mtd_size fl)" "0 < unat len"
  shows "\<exists>s' m' c'. m25p80_unlock E fl ofs len s = Some (0, s') \<and> flash_at E fl dv P absn c' m' s' \<and> same_out (areas E fl) m m'
    \<and> cells c' = cells c \<and> wip c' \<le> K
    \<and> unat ofs + unat len \<le> protected_from (unat (mtd_size fl)) (bp_level (sreg c'))
    \<and> bp_level (sreg c') \<le> bp_level (sreg c)
    \<and> (bp_level (sreg c') = bp_level (sreg c) \<or> protected_from (unat (mtd_size fl)) (bp_level (sreg c') + 1) < unat ofs + unat len)"
proof -
  let ?n = "unat (mtd_size fl)" let ?h = "ucast (ucast ofs :: u32) + len :: 64 word"
  have big: "?n < 2 ^ 32" using assms(1) by (simp add: flash_runs_def flash_fits_def)
  have uo: "unat (ucast ofs :: u32) = unat ofs" using assms(4) big by (simp add: unsigned_ucast_eq take_bit_nat_eq_self)
  have uh: "unat ?h = unat ofs + unat len" using assms(4) big uo by (subst unat_add_lem[THEN iffD1]) simp_all
  obtain s1 s2 v where 1: "wait_till_ready E fl s = Some (0, s1)" "read_sr E fl s1 = Some (uint v, s2)" "bp_level v = bp_level (sreg c)"
    and keep: "\<exists>m2 c2. flash_at E fl dv P absn c2 m2 s2 \<and> same_out (areas E fl) m m2 \<and> cells c2 = cells c \<and> sreg c2 = sreg c \<and> wip c2 \<le> K"
    and new: "\<And>nv. \<exists>s3 s4 m4 c4. write_enable E fl s2 = Some (0, s3) \<and> write_sr E fl nv s3 = Some (0, s4) \<and> flash_at E fl dv P absn c4 m4 s4
       \<and> same_out (areas E fl) m m4 \<and> cells c4 = cells c \<and> sreg c4 = nv \<and> wip c4 \<le> K"
    by (rule new_status_ok[OF assms(2,1,3)]) blast
  let ?nv = "unlock_status (mtd_size fl) ?h v"
  have L: "unat ofs + unat len \<le> protected_from ?n (bp_level ?nv)" "protected_from ?n (bp_level ?nv + 1) < unat ofs + unat len"
    using unlock_level[of ?h "mtd_size fl" v] assms(4,5) uh by simp_all
  have E: "m25p80_unlock E fl ofs len s = (if bp_level ?nv < bp_level v
      then do { (_, s) \<leftarrow> write_enable E fl s2; (r, s) \<leftarrow> write_sr E fl ?nv s; Some (if r < 0 then 1 else 0, s) } else Some (0, s2))"
    using 1(1,2) by (simp add: m25p80_unlock_def bp_level_less Let_def)
  show ?thesis
  proof (cases "bp_level ?nv < bp_level v")
    case True
    obtain s3 s4 m4 c4 where "write_enable E fl s2 = Some (0, s3)" "write_sr E fl ?nv s3 = Some (0, s4)" "flash_at E fl dv P absn c4 m4 s4"
      "same_out (areas E fl) m m4" "cells c4 = cells c" "sreg c4 = ?nv" "wip c4 \<le> K" using new[of ?nv] by blast
    then show ?thesis using E True L 1(3) by (intro exI[of _ s4] exI[of _ m4] exI[of _ c4]) simp
  next
    case False
    then have "unat ofs + unat len \<le> protected_from ?n (bp_level (sreg c))" using protected_mono[of "bp_level v" "bp_level ?nv" ?n] L(1) 1(3) by simp
    moreover obtain m2 c2 where "flash_at E fl dv P absn c2 m2 s2" "same_out (areas E fl) m m2" "cells c2 = cells c" "sreg c2 = sreg c" "wip c2 \<le> K"
      using keep by blast
    ultimately show ?thesis using E False by (intro exI[of _ s2] exI[of _ m2] exI[of _ c2]) simp
  qed
qed

section \<open>A concrete chip\<close>

text \<open>A chip on the bus that collects the bytes of a command while it is selected and carries the command out when it is deselected.\<close>

definition nor_bus :: "m25p \<Rightarrow> (u8 list \<Rightarrow> nor \<Rightarrow> nat) \<Rightarrow> (nor \<times> u8 list option) spi_env" where
  "nor_bus fl D = \<lparr>
     shift = (\<lambda>L w (c, x). case x of
       Some bs \<Rightarrow> (case nor_answer fl bs c of Some v \<Rightarrow> ucast v | None \<Rightarrow> 0, c, Some (bs @ [ucast w]))
     | None \<Rightarrow> (0, c, None)),
     ssr_changed = (\<lambda>v (c, x). if v = ssr_on (flash_spi fl) then (c, Some [])
       else (case x of Some bs \<Rightarrow> (case nor_exec fl D bs c of Some c' \<Rightarrow> c' | None \<Rightarrow> c) | None \<Rightarrow> c, None)),
     quick = (\<lambda>_. False), late = (\<lambda>_. False), clk_rate = 75000000\<rparr>"

lemma nor_bus_words:
  "snd (shift_words (nor_bus fl D) L ws (c, Some bs)) = (c, Some (bs @ map ucast ws))"
  "i < length ws \<Longrightarrow> nor_answer fl (bs @ map ucast (take i ws)) c = Some v \<Longrightarrow> ucast (fst (shift_words (nor_bus fl D) L ws (c, Some bs)) ! i) = v"
proof -
  show "snd (shift_words (nor_bus fl D) L ws (c, Some bs)) = (c, Some (bs @ map ucast ws))"
    by (induction ws arbitrary: bs) (simp_all add: nor_bus_def Let_def split_beta)
  show "i < length ws \<Longrightarrow> nor_answer fl (bs @ map ucast (take i ws)) c = Some v \<Longrightarrow> ucast (fst (shift_words (nor_bus fl D) L ws (c, Some bs)) ! i) = v"
  proof (induction ws arbitrary: bs i)
    case (Cons w ws)
    show ?case
    proof (cases i)
      case 0
      then show ?thesis using Cons.prems by (simp add: nor_bus_def Let_def split_beta)
    next
      case (Suc j)
      then show ?thesis using Cons.IH[of j "bs @ [ucast w]"] Cons.prems by (simp add: nor_bus_def Let_def split_beta)
    qed
  qed simp
qed

lemma ssr_differ: "ssr_off spi \<noteq> ssr_on spi"
  by (simp add: ssr_on_def ssr_off_def SELECTLEV_def SELECTSLAVE0_def SELECTSLAVE1_def)

lemma nor_bus_chip: "nor_chip (nor_bus fl D) fl dv D (\<lambda>d. snd d = None) fst"
  unfolding nor_chip_def
proof (intro allI impI)
  fix d :: "nor \<times> u8 list option" and ws rs d'
  assume a: "snd d = None" "ws \<noteq> []" "transact (nor_bus fl D) (flash_spi fl) dv ws d = (rs, d')"
  obtain c where d: "d = (c, None)" using a(1) by (cases d) auto
  let ?L = "dev_line (flash_spi fl) dv 8"
  have sel: "ssr_changed (nor_bus fl D) (ssr_on (flash_spi fl)) d = (c, Some [])" by (simp add: nor_bus_def d)
  have "rs = fst (shift_words (nor_bus fl D) ?L ws (c, Some []))"
    and "d' = ssr_changed (nor_bus fl D) (ssr_off (flash_spi fl)) (c, Some (map ucast ws))"
    using a(3) nor_bus_words(1)[of fl D ?L ws c "[]"] by (auto simp: transact_def sel Let_def split_beta)
  then show "snd d' = None \<and> (\<forall>c. nor_exec fl D (map ucast ws) (fst d) = Some c \<longrightarrow> fst d' = c)
      \<and> (\<forall>i < length ws. \<forall>v. nor_answer fl (map ucast (take i ws)) (fst d) = Some v \<longrightarrow> ucast (rs ! i) = v)"
    using nor_bus_words(2)[of _ ws fl "[]" c _ D ?L] ssr_differ[of "flash_spi fl"] by (simp add: nor_bus_def d)
qed

text \<open>The flash of the board, as the probe routine sets it up, ready after two looks at its status; a tick passes from one look to the next.\<close>

definition w25q128 :: m25p where
  "w25q128 = \<lparr>flash_spi = m25p80_board, page_size = 256, addr_width = 3, erase_opcode = OPCODE_SE, read_opcode = OPCODE_FAST_READ,
     program_opcode = OPCODE_PP, command = 0x1000, flash_read = M25P80_FAST, flash_write = M25P80_NORMAL, mtd_size = 0x1000000, erasesize = 0x10000\<rparr>"

definition board_env :: "(nor \<times> u8 list option) m25p_env" where
  "board_env = \<lparr>m_bus = nor_bus w25q128 (\<lambda>_ _. 2), m_wtr = \<lparr>wtr_buf = 0x2000, wtr_lock = True, wtr_kmalloc = 0\<rparr>, m_tick = (\<lambda>t. t + 1)\<rparr>"

definition board_chip :: nor where
  "board_chip = \<lparr>cells = (\<lambda>x. of_nat x), wel = False, wip = 0, sreg = 0, ident = [0xef, 0x40, 0x18, 0, 0]\<rparr>"

definition board_at :: "nor \<Rightarrow> (nor \<times> u8 list option) m25p_state" where
  "board_at c = \<lparr>host = \<lparr>drv = \<lparr>regs = (\<lambda>a. if a = REG_CNTRL then ENINT else 0), mem = (\<lambda>a. ucast a), slave = (c, None), bursts = 0, completions = 0,
     hw_len = 0, hw_count = 0, hw_txbuf = 0, hw_rxbuf = 0, pdata = nuc970_spi0_platform_data\<rparr>, bb_busy = False, queue = [], bus_lock_flag = False,
     mode_bits = 0x50f, master_flags = 0, bits_per_word_mask = 0\<rparr>, jiffies = 0\<rparr>"

lemma board_areas:
  "wtr_area board_env = {0x2000, 0x2001, 0x2002, 0x2003, 0x2004, 0x2005}" "cmd_area w25q128 = {0x1000, 0x1001, 0x1002, 0x1003, 0x1004, 0x1005}"
proof -
  have *: "(\<lambda>i. a + of_nat i) ` {0..<6} = {a, a + 1, a + 2, a + 3, a + 4, a + 5}" for a :: u32
    by (simp add: atLeastLessThan_upt upt_rec)
  show "wtr_area board_env = {0x2000, 0x2001, 0x2002, 0x2003, 0x2004, 0x2005}" unfolding wtr_area_def * by (simp add: board_env_def local_buf_def)
  show "cmd_area w25q128 = {0x1000, 0x1001, 0x1002, 0x1003, 0x1004, 0x1005}" unfolding cmd_area_def * by (simp add: w25q128_def)
qed

lemma board_runs: "flash_runs board_env w25q128 0 (\<lambda>_ _. 2) 3 (\<lambda>d. snd d = None) fst"
proof -
  have p: "\<not> time_after_eq ((m_tick board_env ^^ j) t) (t + MAX_READY_WAIT_JIFFIES)" if a: "j \<in> {1..3}" for t j
  proof -
    have t: "(m_tick board_env ^^ j) t = t + of_nat j" by (induction j) (simp_all add: board_env_def)
    consider "j = 1" | "j = 2" | "j = 3" using a by force
    then show ?thesis unfolding t by cases (simp_all add: time_after_eq_def MAX_READY_WAIT_JIFFIES_def HZ_def)
  qed
  have "flash_fits board_env w25q128"
    unfolding flash_fits_def board_areas
    by (simp add: w25q128_def board_env_def m25p80_board_def local_buf_def aw_def opcode_defs) (rule exI[of _ 8], simp)
  then show ?thesis using p nor_bus_chip by (simp add: flash_runs_def patient_def board_env_def)
qed

lemma board_flash_at: "flash_at board_env w25q128 0 (\<lambda>d. snd d = None) fst c (\<lambda>a. ucast a) (board_at c)"
  by (simp add: flash_at_def idle_def spi_ok_def quiet_def ctl_def board_at_def board_env_def nor_bus_def ssr_off_def w25q128_def m25p80_board_def)
    (simp add: spi_regs ENINT_def)

lemma board_data: "n \<le> 0x1000 \<Longrightarrow> data_ok board_env w25q128 0x4000 n"
proof -
  assume n: "n \<le> 0x1000"
  have "0x4000 + of_nat i \<notin> insert (0 :: u32) (areas board_env w25q128)" if "i < n" for i
  proof -
    have "unat (0x4000 + of_nat i :: u32) = 0x4000 + i" using that n by (subst unat_add_lem[THEN iffD1]) (simp_all add: unat_of_nat)
    moreover have "\<forall>x \<in> insert 0 (areas board_env w25q128). unat x < 0x4000" by (simp add: areas_def board_areas)
    ultimately show ?thesis by (metis le_add1 not_le)
  qed
  then show ?thesis using n by (simp add: data_ok_def clear_of_def)
qed

lemma board_ticks: "(m_tick board_env ^^ j) t = t + of_nat j"
  by (induction j) (simp_all add: board_env_def)

text \<open>The whole of a sector is erased, then 300 bytes that cross two page boundaries are written and read back.\<close>

theorem flash_roundtrip_witness:
  "\<exists>s1 s2 s3 m'. m25p80_erase board_env w25q128 0x10000 0x10000 MTD_ERASE_PENDING (board_at board_chip) = Some (0, MTD_ERASE_DONE, s1)
    \<and> m25p80_write board_env w25q128 0x100f0 300 0 0x4000 s1 = Some (0, 300, s2)
    \<and> m25p80_read board_env w25q128 0x100f0 300 0 0x8000 s2 = Some (0, 300, s3)
    \<and> get_bytes 0x8000 300 m' = get_bytes 0x4000 300 (\<lambda>a. ucast a) \<and> mem (drv (host s3)) = m'"
proof -
  have "wip board_chip \<le> 3" "sreg board_chip AND SR_BP = 0" by (simp_all add: board_chip_def)
  moreover have "unat (erasesize w25q128) dvd unat (0x10000 :: 64 word)" "unat (0x10000 :: 64 word) + unat (0x10000 :: 64 word) \<le> unat (mtd_size w25q128)"
    by (simp_all add: w25q128_def)
  ultimately show ?thesis
    using flash_roundtrip[OF board_runs board_flash_at[of board_chip], where ia = "0x10000" and il = "0x10000" and adr = "0x100f0" and len = 300
        and buf = "0x4000" and rbuf = "0x8000" and st = MTD_ERASE_PENDING and wl = 0 and rl = 0] board_data[of 300]
    by (auto simp: flash_at_def)
qed

theorem flash_write_exact_witness:
  "\<exists>s' c'. m25p80_write board_env w25q128 0xff 2 0 0x4000 (board_at board_chip) = Some (0, 2, s') \<and> fst (slave (drv (host s'))) = c'
     \<and> cells c' 0xfe = 0xfe \<and> cells c' 0xff = 0 \<and> cells c' 0x100 = 0 \<and> cells c' 0x101 = 1"
  using flash_write_exact[OF board_runs board_flash_at[of board_chip], where adr = "0xff" and len = 2 and buf = "0x4000" and rl = 0] board_data[of 2]
  by (auto simp: flash_at_def) (auto simp: w25q128_def board_chip_def)

theorem flash_timeout_witness:
  "\<exists>s'. m25p80_read board_env w25q128 0 4 7 0x4000 (board_at (board_chip\<lparr>wip := 5000\<rparr>)) = Some (1, 7, s')
     \<and> m25p80_erase board_env w25q128 0 0x10000 MTD_ERASE_PENDING (board_at (board_chip\<lparr>wip := 5000\<rparr>)) = Some (- 5, MTD_ERASE_FAILED, s')"
  using flash_timeout[OF board_runs board_flash_at[of "board_chip\<lparr>wip := 5000\<rparr>"], where n = 3999 and il = "0x10000" and adr = 0 and len = 4
    and rl = 7 and buf = "0x4000" and ia = 0 and st = MTD_ERASE_PENDING]
  by (auto simp: board_ticks time_after_eq_def MAX_READY_WAIT_JIFFIES_def HZ_def w25q128_def board_at_def simp del: funpow.simps)

theorem flash_lock_covers_witness:
  "\<exists>s'. m25p80_lock board_env w25q128 0xc00000 0x1000 (board_at board_chip) = Some (0, s')
     \<and> protected_from 0x1000000 (bp_level (sreg (fst (slave (drv (host s')))))) \<le> 0xc00000"
  using flash_lock_covers[OF board_runs board_flash_at[of board_chip], where ofs = "0xc00000" and len = "0x1000"]
  by (auto simp: flash_at_def) (auto simp: w25q128_def board_chip_def)

theorem flash_unlock_frees_witness:
  "\<exists>s'. m25p80_unlock board_env w25q128 0x100000 0x1000 (board_at (board_chip\<lparr>sreg := 0x1c\<rparr>)) = Some (0, s')
     \<and> 0x101000 \<le> protected_from 0x1000000 (bp_level (sreg (fst (slave (drv (host s'))))))"
  using flash_unlock_frees[OF board_runs board_flash_at[of "board_chip\<lparr>sreg := 0x1c\<rparr>"], where ofs = "0x100000" and len = "0x1000"]
  by (auto simp: flash_at_def) (auto simp: w25q128_def board_chip_def)

end
