(* ===== verification/M25p_Load.thy ===== *)
theory M25p_Load
  imports M25p80 Kres
begin

text \<open>
  Finding the flash and loading its driver: the table of chips, \<open>jedec_probe\<close>, \<open>m25p_probe\<close> and \<open>m25p_remove\<close> of
  \<open>src/drivers/mtd/devices/m25p80.c\<close>, with the ledger of \<open>Kres\<close> for the two allocations and the registration.
\<close>

section \<open>The table of chips\<close>

record flash_info =
  jedec_id :: u32
  ext_id :: u16
  sector_size :: u32
  n_sectors :: u16
  fi_page_size :: u16
  fi_addr_width :: u16
  fi_flags :: u16

definition SECT_4K :: u16 where "SECT_4K = 0x01"
definition M25P_NO_ERASE :: u16 where "M25P_NO_ERASE = 0x02"
definition SST_WRITE :: u16 where "SST_WRITE = 0x04"
definition M25P_NO_FR :: u16 where "M25P_NO_FR = 0x08"
definition M25P80_DUAL_READ :: u16 where "M25P80_DUAL_READ = 0x10"
definition M25P80_QUAD_READ :: u16 where "M25P80_QUAD_READ = 0x20"
definition M25P80_DUAL_WRITE :: u16 where "M25P80_DUAL_WRITE = 0x40"
definition M25P80_QUAD_WRITE :: u16 where "M25P80_QUAD_WRITE = 0x80"

definition INFO :: "u32 \<Rightarrow> u16 \<Rightarrow> u32 \<Rightarrow> u16 \<Rightarrow> u16 \<Rightarrow> flash_info" where
  "INFO j x ss n fs = \<lparr>jedec_id = j, ext_id = x, sector_size = ss, n_sectors = n, fi_page_size = 256, fi_addr_width = 0, fi_flags = fs\<rparr>"

definition CAT25_INFO :: "u32 \<Rightarrow> u16 \<Rightarrow> u16 \<Rightarrow> u16 \<Rightarrow> flash_info" where
  "CAT25_INFO ss n ps w = \<lparr>jedec_id = 0, ext_id = 0, sector_size = ss, n_sectors = n, fi_page_size = ps, fi_addr_width = w, fi_flags = M25P_NO_ERASE\<rparr>"

definition m25p_ids :: "(string \<times> flash_info) list" where
  "m25p_ids = [
      (''at25fs010'', INFO 0x1f6601 0 (32 * 1024) 4 SECT_4K), (''at25fs040'', INFO 0x1f6604 0 (64 * 1024) 8 SECT_4K),
      (''at25df041a'', INFO 0x1f4401 0 (64 * 1024) 8 SECT_4K), (''at25df321a'', INFO 0x1f4701 0 (64 * 1024) 64 SECT_4K),
      (''at25df641'', INFO 0x1f4800 0 (64 * 1024) 128 SECT_4K), (''at26f004'', INFO 0x1f0400 0 (64 * 1024) 8 SECT_4K),
      (''at26df081a'', INFO 0x1f4501 0 (64 * 1024) 16 SECT_4K), (''at26df161a'', INFO 0x1f4601 0 (64 * 1024) 32 SECT_4K),
      (''at26df321'', INFO 0x1f4700 0 (64 * 1024) 64 SECT_4K), (''at45db081d'', INFO 0x1f2500 0 (64 * 1024) 16 SECT_4K),
      (''en25f32'', INFO 0x1c3116 0 (64 * 1024) 64 SECT_4K), (''en25p32'', INFO 0x1c2016 0 (64 * 1024) 64 0),
      (''en25q32b'', INFO 0x1c3016 0 (64 * 1024) 64 0), (''en25p64'', INFO 0x1c2017 0 (64 * 1024) 128 0),
      (''en25q64'', INFO 0x1c3017 0 (64 * 1024) 128 SECT_4K), (''en25qh16'', INFO 0x1c7015 0 (64 * 1024) 32 0),
      (''en25qh64'', INFO 0x1c7017 0 (64 * 1024) 128 0), (''en25qh128'', INFO 0x1c7018 0 (64 * 1024) 256 0),
      (''i'', INFO 0x1c7019 0 (64 * 1024) 512 0), (''mr25h256'', CAT25_INFO (32 * 1024) 1 256 2),
      (''gd25q32'', INFO 0xc84016 0 (64 * 1024) 64 SECT_4K), (''gd25q64'', INFO 0xc84017 0 (64 * 1024) 128 SECT_4K),
      (''160s33b'', INFO 0x898911 0 (64 * 1024) 32 0), (''320s33b'', INFO 0x898912 0 (64 * 1024) 64 0),
      (''640s33b'', INFO 0x898913 0 (64 * 1024) 128 0), (''mx25l2005a'', INFO 0xc22012 0 (64 * 1024) 4 SECT_4K),
      (''mx25l4005a'', INFO 0xc22013 0 (64 * 1024) 8 SECT_4K), (''mx25l8005'', INFO 0xc22014 0 (64 * 1024) 16 0),
      (''mx25l1606e'', INFO 0xc22015 0 (64 * 1024) 32 SECT_4K), (''mx25l3205d'', INFO 0xc22016 0 (64 * 1024) 64 0),
      (''mx25l6405d'', INFO 0xc22017 0 (64 * 1024) 128 0), (''mx25l12805d'', INFO 0xc22018 0 (64 * 1024) 256 0),
      (''mx25l12855e'', INFO 0xc22618 0 (64 * 1024) 256 0), (''mx25l25635e'', INFO 0xc22019 0 (64 * 1024) 512 0),
      (''mx25l25655e'', INFO 0xc22619 0 (64 * 1024) 512 0), (''mx66l51235l'', INFO 0xc2201a 0 (64 * 1024) 1024 0),
      (''n25q064'', INFO 0x20ba17 0 (64 * 1024) 128 0), (''n25q128a11'', INFO 0x20bb18 0 (64 * 1024) 256 0),
      (''n25q128a13'', INFO 0x20ba18 0 (64 * 1024) 256 0), (''n25q256a'', INFO 0x20ba19 0 (64 * 1024) 512 SECT_4K),
      (''s25sl032p'', INFO 0x010215 0x4d00 (64 * 1024) 64 0), (''s25sl064p'', INFO 0x010216 0x4d00 (64 * 1024) 128 0),
      (''s25fl256s0'', INFO 0x010219 0x4d00 (256 * 1024) 128 0), (''s25fl256s1'', INFO 0x010219 0x4d01 (64 * 1024) 512 0),
      (''s25fl512s'', INFO 0x010220 0x4d00 (256 * 1024) 256 0), (''s70fl01gs'', INFO 0x010221 0x4d00 (256 * 1024) 256 0),
      (''s25sl12800'', INFO 0x012018 0x0300 (256 * 1024) 64 0), (''s25sl12801'', INFO 0x012018 0x0301 (64 * 1024) 256 0),
      (''s25fl129p0'', INFO 0x012018 0x4d00 (256 * 1024) 64 0), (''s25fl129p1'', INFO 0x012018 0x4d01 (64 * 1024) 256 0),
      (''s25sl004a'', INFO 0x010212 0 (64 * 1024) 8 0), (''s25sl008a'', INFO 0x010213 0 (64 * 1024) 16 0),
      (''s25sl016a'', INFO 0x010214 0 (64 * 1024) 32 0), (''s25sl032a'', INFO 0x010215 0 (64 * 1024) 64 0),
      (''s25sl064a'', INFO 0x010216 0 (64 * 1024) 128 0), (''s25fl016k'', INFO 0xef4015 0 (64 * 1024) 32 SECT_4K),
      (''s25fl064k'', INFO 0xef4017 0 (64 * 1024) 128 SECT_4K),
      (''sst25vf040b'', INFO 0xbf258d 0 (64 * 1024) 8 (SECT_4K OR SST_WRITE)),
      (''sst25vf080b'', INFO 0xbf258e 0 (64 * 1024) 16 (SECT_4K OR SST_WRITE)),
      (''sst25vf016b'', INFO 0xbf2541 0 (64 * 1024) 32 (SECT_4K OR SST_WRITE)),
      (''sst25vf032b'', INFO 0xbf254a 0 (64 * 1024) 64 (SECT_4K OR SST_WRITE)),
      (''sst25vf064c'', INFO 0xbf254b 0 (64 * 1024) 128 SECT_4K),
      (''sst25wf512'', INFO 0xbf2501 0 (64 * 1024) 1 (SECT_4K OR SST_WRITE)),
      (''sst25wf010'', INFO 0xbf2502 0 (64 * 1024) 2 (SECT_4K OR SST_WRITE)),
      (''sst25wf020'', INFO 0xbf2503 0 (64 * 1024) 4 (SECT_4K OR SST_WRITE)),
      (''sst25wf040'', INFO 0xbf2504 0 (64 * 1024) 8 (SECT_4K OR SST_WRITE)), (''m25p05'', INFO 0x202010 0 (32 * 1024) 2 0),
      (''m25p10'', INFO 0x202011 0 (32 * 1024) 4 0), (''m25p20'', INFO 0x202012 0 (64 * 1024) 4 0),
      (''m25p40'', INFO 0x202013 0 (64 * 1024) 8 0), (''m25p80'', INFO 0x202014 0 (64 * 1024) 16 0),
      (''m25p16'', INFO 0x202015 0 (64 * 1024) 32 0), (''m25p32'', INFO 0x202016 0 (64 * 1024) 64 0),
      (''m25p64'', INFO 0x202017 0 (64 * 1024) 128 0), (''m25p128'', INFO 0x202018 0 (256 * 1024) 64 0),
      (''n25q032'', INFO 0x20ba16 0 (64 * 1024) 64 0), (''m25p05-nonjedec'', INFO 0 0 (32 * 1024) 2 0),
      (''m25p10-nonjedec'', INFO 0 0 (32 * 1024) 4 0), (''m25p20-nonjedec'', INFO 0 0 (64 * 1024) 4 0),
      (''m25p40-nonjedec'', INFO 0 0 (64 * 1024) 8 0), (''m25p80-nonjedec'', INFO 0 0 (64 * 1024) 16 0),
      (''m25p16-nonjedec'', INFO 0 0 (64 * 1024) 32 0), (''m25p32-nonjedec'', INFO 0 0 (64 * 1024) 64 0),
      (''m25p64-nonjedec'', INFO 0 0 (64 * 1024) 128 0), (''m25p128-nonjedec'', INFO 0 0 (256 * 1024) 64 0),
      (''m45pe10'', INFO 0x204011 0 (64 * 1024) 2 0), (''m45pe80'', INFO 0x204014 0 (64 * 1024) 16 0),
      (''m45pe16'', INFO 0x204015 0 (64 * 1024) 32 0), (''m25pe20'', INFO 0x208012 0 (64 * 1024) 4 0),
      (''m25pe80'', INFO 0x208014 0 (64 * 1024) 16 0), (''m25pe16'', INFO 0x208015 0 (64 * 1024) 32 SECT_4K),
      (''m25px32'', INFO 0x207116 0 (64 * 1024) 64 SECT_4K), (''m25px32-s0'', INFO 0x207316 0 (64 * 1024) 64 SECT_4K),
      (''m25px32-s1'', INFO 0x206316 0 (64 * 1024) 64 SECT_4K), (''m25px64'', INFO 0x207117 0 (64 * 1024) 128 0),
      (''w25x10'', INFO 0xef3011 0 (64 * 1024) 2 SECT_4K), (''w25x20'', INFO 0xef3012 0 (64 * 1024) 4 SECT_4K),
      (''w25x40'', INFO 0xef3013 0 (64 * 1024) 8 SECT_4K), (''w25x80'', INFO 0xef3014 0 (64 * 1024) 16 SECT_4K),
      (''w25x16'', INFO 0xef3015 0 (64 * 1024) 32 SECT_4K), (''w25x32'', INFO 0xef3016 0 (64 * 1024) 64 SECT_4K),
      (''w25q32'', INFO 0xef4016 0 (64 * 1024) 64 SECT_4K), (''w25q32dw'', INFO 0xef6016 0 (64 * 1024) 64 SECT_4K),
      (''w25x64'', INFO 0xef3017 0 (64 * 1024) 128 SECT_4K), (''w25q64'', INFO 0xef4017 0 (64 * 1024) 128 SECT_4K),
      (''w25q80'', INFO 0xef5014 0 (64 * 1024) 16 SECT_4K), (''w25q80bl'', INFO 0xef4014 0 (64 * 1024) 16 SECT_4K),
      (''w25q128'', INFO 0xef4018 0 (64 * 1024) 256 0), (''w25q256'', INFO 0xef4019 0 (64 * 1024) 512 SECT_4K),
      (''cat25c11'', CAT25_INFO 16 8 16 1), (''cat25c03'', CAT25_INFO 32 8 16 2), (''cat25c09'', CAT25_INFO 128 8 32 2),
      (''cat25c17'', CAT25_INFO 256 8 32 2), (''cat25128'', CAT25_INFO 2048 8 64 2)  ]"

section \<open>Probing\<close>

text \<open>The chip says who it is; the first entry with its number is taken, and where the entry has an extended number that one must agree too.\<close>

definition id_matches :: "u32 \<Rightarrow> u16 \<Rightarrow> string \<times> flash_info \<Rightarrow> bool" where
  "id_matches jedec ext_jedec = (\<lambda>(_, info). jedec_id info = jedec \<and> (ext_id info = 0 \<or> ext_id info = ext_jedec))"

definition jedec_number :: "u8 list \<Rightarrow> u32" where
  "jedec_number bs = push_bit 8 (push_bit 8 (ucast (bs ! 0)) OR ucast (bs ! 1)) OR ucast (bs ! 2)"

definition ext_number :: "u8 list \<Rightarrow> u16" where
  "ext_number bs = push_bit 8 (ucast (bs ! 3)) OR ucast (bs ! 4)"

definition jedec_probe :: "'d m25p_env \<Rightarrow> spi_device \<Rightarrow> 'd m25p_state \<Rightarrow> ((int + string \<times> flash_info) \<times> 'd m25p_state) option" where
  "jedec_probe E spi s = do {
     (tmp, bs, h) \<leftarrow> spi_write_then_read (m_wtr E) (m_bus E) spi [OPCODE_RDID] 5 (host s);
     let s = s\<lparr>host := h\<rparr>;
     if tmp < 0 then Some (Inl tmp, s)
     else (case find (id_matches (jedec_number bs) (ext_number bs)) m25p_ids of
             Some jid \<Rightarrow> Some (Inr jid, s)
           | None \<Rightarrow> Some (Inl (- eno ENODEV), s)) }"

datatype mtd_write = M25P80_WRITE | SST_WORD_WRITE

record m25p_mtd =
  fl_of :: m25p
  mtd_write_op :: mtd_write
  mtd_lock_ops :: bool
  mtd_no_erase :: bool

record 'd m25p_load = kres +
  flash_st :: "'d m25p_state"
  drvdata :: "m25p_mtd option"

abbreviation M25P :: string where "M25P \<equiv> ''m25p''"
abbreviation M25P_CMD :: string where "M25P_CMD \<equiv> ''m25p command''"
abbreviation M25P_MTD :: string where "M25P_MTD \<equiv> ''mtd''"

text \<open>What the probe routine finds: the entry the bus has matched, the type in the platform data, the device tree node, the results of the
  allocations and of the registration, and the address of its local variables.\<close>

record probe_env =
  pr_id :: "string \<times> flash_info"
  pr_type :: "string option"
  pr_np :: bool
  pr_kzalloc :: bool
  pr_kmalloc :: u32
  pr_register :: int
  pr_stack :: u32

definition plat_id :: "probe_env \<Rightarrow> string \<times> flash_info" where
  "plat_id pe = (case pr_type pe of
     Some ty \<Rightarrow> (case find (\<lambda>(name, _). name = ty) m25p_ids of Some p \<Rightarrow> p | None \<Rightarrow> pr_id pe)
   | None \<Rightarrow> pr_id pe)"

definition protected_mfr :: "u32 \<Rightarrow> bool" where
  "protected_mfr j \<longleftrightarrow> JEDEC_MFR j = CFI_MFR_ATMEL \<or> JEDEC_MFR j = CFI_MFR_INTEL \<or> JEDEC_MFR j = CFI_MFR_SST"

definition wants_quad :: "spi_device \<Rightarrow> flash_info \<Rightarrow> bool" where
  "wants_quad spi info \<longleftrightarrow> mode spi AND (SPI_RX_QUAD OR SPI_TX_QUAD) \<noteq> 0 \<and> fi_flags info AND (M25P80_QUAD_READ OR M25P80_QUAD_WRITE) \<noteq> 0"

text \<open>How the chip is read and written.\<close>

definition probe_read :: "spi_device \<Rightarrow> bool \<Rightarrow> flash_info \<Rightarrow> read_write_type" where
  "probe_read spi np info =
    (let r = (if np then M25P80_NORMAL else M25P80_FAST);
         r = (if fi_flags info AND M25P_NO_FR \<noteq> 0 then M25P80_NORMAL else r)
     in if wants_quad spi info
        then (if mode spi AND SPI_RX_QUAD \<noteq> 0 \<and> fi_flags info AND M25P80_QUAD_READ \<noteq> 0 then M25P80_QUAD else r)
        else if mode spi AND SPI_RX_DUAL \<noteq> 0 \<and> fi_flags info AND M25P80_DUAL_READ \<noteq> 0 then M25P80_DUAL else r)"

definition probe_write :: "spi_device \<Rightarrow> flash_info \<Rightarrow> read_write_type" where
  "probe_write spi info =
    (if wants_quad spi info
     then (if mode spi AND SPI_TX_QUAD \<noteq> 0 \<and> fi_flags info AND M25P80_QUAD_WRITE \<noteq> 0 then M25P80_QUAD else M25P80_NORMAL)
     else if mode spi AND SPI_RX_DUAL \<noteq> 0 \<and> fi_flags info AND M25P80_DUAL_READ \<noteq> 0 then M25P80_NORMAL
     else if mode spi AND SPI_TX_DUAL \<noteq> 0 \<and> fi_flags info AND M25P80_DUAL_WRITE \<noteq> 0 then M25P80_DUAL else M25P80_NORMAL)"

fun probe_read_opcode :: "read_write_type \<Rightarrow> u8" where
  "probe_read_opcode M25P80_QUAD = OPCODE_QUAD_READ"
| "probe_read_opcode M25P80_DUAL = OPCODE_DUAL_READ"
| "probe_read_opcode M25P80_FAST = OPCODE_FAST_READ"
| "probe_read_opcode M25P80_NORMAL = OPCODE_NORM_READ"

text \<open>\<open>flash_write & M25P80_QUAD\<close> takes the enumeration for bits.\<close>

fun rw_number :: "read_write_type \<Rightarrow> u32" where
  "rw_number M25P80_NORMAL = 0"
| "rw_number M25P80_FAST = 1"
| "rw_number M25P80_DUAL = 2"
| "rw_number M25P80_QUAD = 3"

definition probe_program_opcode :: "read_write_type \<Rightarrow> u8" where
  "probe_program_opcode w = (if rw_number w AND rw_number M25P80_QUAD \<noteq> 0 then OPCODE_QUAD_PP else OPCODE_PP)"

definition probe_addr_width :: "flash_info \<Rightarrow> u16" where
  "probe_addr_width info = (if fi_addr_width info \<noteq> 0 then fi_addr_width info
     else if (ucast (sector_size info * ucast (n_sectors info)) :: 64 word) > 0x1000000 then 4 else 3)"

definition probe_params :: "spi_device \<Rightarrow> bool \<Rightarrow> u32 \<Rightarrow> flash_info \<Rightarrow> m25p" where
  "probe_params spi np cmd info = \<lparr>flash_spi = spi, page_size = fi_page_size info, addr_width = probe_addr_width info,
     erase_opcode = if fi_flags info AND SECT_4K \<noteq> 0 then OPCODE_BE_4K else OPCODE_SE,
     read_opcode = probe_read_opcode (probe_read spi np info), program_opcode = probe_program_opcode (probe_write spi info), command = cmd,
     flash_read = probe_read spi np info, flash_write = probe_write spi info,
     mtd_size = ucast (sector_size info * ucast (n_sectors info)),
     erasesize = if fi_flags info AND SECT_4K \<noteq> 0 then 4096 else sector_size info\<rparr>"

definition probe_mtd :: "m25p \<Rightarrow> flash_info \<Rightarrow> m25p_mtd" where
  "probe_mtd fl info = \<lparr>fl_of = fl, mtd_write_op = if fi_flags info AND SST_WRITE \<noteq> 0 then SST_WORD_WRITE else M25P80_WRITE,
     mtd_lock_ops = JEDEC_MFR (jedec_id info) = CFI_MFR_ST, mtd_no_erase = fi_flags info AND M25P_NO_ERASE \<noteq> 0\<rparr>"

text \<open>The part of the probe routine that follows the allocations; the commands to the chip only need the device and the command buffer.\<close>

definition probe_setup :: "'d m25p_env \<Rightarrow> probe_env \<Rightarrow> m25p \<Rightarrow> spi_device \<Rightarrow> flash_info \<Rightarrow> 'd m25p_state \<Rightarrow> (int \<times> 'd m25p_state) option" where
  "probe_setup E pe fl spi info s = do {
     s \<leftarrow> (if protected_mfr (jedec_id info)
       then do { (_, s) \<leftarrow> write_enable E fl s; (_, s) \<leftarrow> write_sr E fl 0 s; Some s } else Some s);
     (ret, s) \<leftarrow> (if wants_quad spi info then set_quad_mode E fl (pr_stack pe) s else Some (0, s));
     if ret \<noteq> 0 then Some (ret, s)
     else if fi_addr_width info = 0 \<and> mtd_size fl > 0x1000000
     then do { (_, s) \<leftarrow> set_4byte E fl (jedec_id info) True s; Some (0, s) }
     else Some (0, s) }"

definition m25p_probe :: "'d m25p_env \<Rightarrow> probe_env \<Rightarrow> spi_device \<Rightarrow> 'd m25p_load \<Rightarrow> (int \<times> 'd m25p_load) option" where
  "m25p_probe E pe spi ld = do {
     let pid = plat_id pe;
     (jid, s) \<leftarrow> (if jedec_id (snd pid) \<noteq> 0 then jedec_probe E spi (flash_st ld) else Some (Inr pid, flash_st ld));
     let ld = ld\<lparr>flash_st := s\<rparr>;
     case jid of
       Inl e \<Rightarrow> Some (e, ld)
     | Inr (_, info) \<Rightarrow>
       if \<not> pr_kzalloc pe then Some (- eno ENOMEM, ld)
       else (let ld = exec (acquire (Memory M25P)) ld
             in if pr_kmalloc pe = 0 then Some (- eno ENOMEM, exec (release (Memory M25P)) ld)
                else do {
                  let ld = exec (acquire (Memory M25P_CMD)) ld;
                  let fl = probe_params spi (pr_np pe) (pr_kmalloc pe) info;
                  let ld = ld\<lparr>drvdata := Some (probe_mtd fl info)\<rparr>;
                  (ret, s) \<leftarrow> probe_setup E pe fl spi info (flash_st ld);
                  let ld = ld\<lparr>flash_st := s\<rparr>;
                  if ret \<noteq> 0 then Some (ret, ld)
                  else Some (pr_register pe, if pr_register pe = 0 then exec (acquire (Device M25P_MTD)) ld else ld) }) }"

text \<open>\<open>unregister\<close> is what \<open>mtd_device_unregister\<close> returns.\<close>

definition m25p_remove :: "int \<Rightarrow> 'd m25p_load \<Rightarrow> int \<times> 'd m25p_load" where
  "m25p_remove unregister ld =
    (if unregister = 0
     then (0, exec (release (Memory M25P)) (exec (release (Memory M25P_CMD)) (exec (release (Device M25P_MTD)) ld)))
     else (0, ld))"

section \<open>The entries of the table\<close>

text \<open>What the rest of the driver needs of an entry, as a check that can be run.\<close>

definition info_size :: "flash_info \<Rightarrow> nat" where
  "info_size info = unat (sector_size info * ucast (n_sectors info))"

definition info_erase :: "flash_info \<Rightarrow> nat" where
  "info_erase info = (if fi_flags info AND SECT_4K \<noteq> 0 then 4096 else unat (sector_size info))"

definition info_ok :: "flash_info \<Rightarrow> bool" where
  "info_ok info \<longleftrightarrow> unat (probe_addr_width info) \<in> {1, 2, 3, 4} \<and> info_size info \<le> 256 ^ unat (probe_addr_width info) \<and> info_size info < 2 ^ 32
     \<and> info_erase info \<noteq> 0 \<and> info_size info mod info_erase info = 0 \<and> fi_page_size info \<in> {16, 32, 64, 256}
     \<and> fi_flags info AND 0xf8 = 0"

lemma table_ok: "list_all info_ok (map snd m25p_ids)"
  by (simp add: m25p_ids_def info_ok_def info_size_def info_erase_def probe_addr_width_def INFO_def CAT25_INFO_def SECT_4K_def M25P_NO_ERASE_def SST_WRITE_def
      M25P_NO_FR_def)

lemma table_entry: "(name, info) \<in> set m25p_ids \<Longrightarrow> info_ok info"
  using table_ok by (auto simp: list_all_iff)

lemma flags_off:
  assumes "fi_flags info AND 0xf8 = 0"
  shows "fi_flags info AND M25P_NO_FR = 0" "fi_flags info AND M25P80_DUAL_READ = 0" "fi_flags info AND M25P80_DUAL_WRITE = 0"
    "fi_flags info AND (M25P80_QUAD_READ OR M25P80_QUAD_WRITE) = 0"
proof -
  have *: "fi_flags info AND k = (fi_flags info AND 0xf8) AND k" if "0xf8 AND k = k" for k
    using that by (simp add: and.assoc)
  have k: "M25P_NO_FR = 8" "M25P80_DUAL_READ = 0x10" "M25P80_DUAL_WRITE = 0x40" "M25P80_QUAD_READ OR M25P80_QUAD_WRITE = 0xa0"
    by (simp_all add: M25P_NO_FR_def M25P80_DUAL_READ_def M25P80_DUAL_WRITE_def M25P80_QUAD_READ_def M25P80_QUAD_WRITE_def)
  show "fi_flags info AND M25P_NO_FR = 0" "fi_flags info AND M25P80_DUAL_READ = 0" "fi_flags info AND M25P80_DUAL_WRITE = 0"
    "fi_flags info AND (M25P80_QUAD_READ OR M25P80_QUAD_WRITE) = 0"
    unfolding k using *[of 8] *[of "0x10"] *[of "0x40"] *[of "0xa0"] assms by simp_all
qed

lemma entry_lanes:
  assumes "info_ok info"
  shows "\<not> wants_quad spi info" "probe_write spi info = M25P80_NORMAL" "probe_read spi np info = (if np then M25P80_NORMAL else M25P80_FAST)"
  using flags_off[of info] assms by (simp_all add: info_ok_def wants_quad_def probe_write_def probe_read_def Let_def)

lemma params_fit:
  assumes "info_ok info" "dev8 spi" "cmd \<noteq> 0" "local_buf (m_wtr E) \<noteq> 0" "local_buf (m_wtr E) + 1 \<noteq> 0"
    and "\<forall>i < 6. \<forall>j < 6. local_buf (m_wtr E) + of_nat i \<noteq> cmd + of_nat j"
  shows "flash_fits E (probe_params spi np cmd info)"
proof -
  let ?fl = "probe_params spi np cmd info"
  have sz: "unat (mtd_size ?fl) = info_size info" "unat (erasesize ?fl) = info_erase info" "aw ?fl = unat (probe_addr_width info)"
    by (simp_all add: probe_params_def info_size_def info_erase_def aw_def)
  have "page_size ?fl \<in> {16, 32, 64, 256}" using assms(1) by (simp add: probe_params_def info_ok_def)
  then have "page_size ?fl \<in> {2 ^ 4, 2 ^ 5, 2 ^ 6, 2 ^ 8}" by simp
  then have pg: "\<exists>k < 16. page_size ?fl = 2 ^ k" by (elim insertE emptyE) (rule exI[of _ 4] exI[of _ 5] exI[of _ 6] exI[of _ 8], simp)+
  have "wtr_area E \<inter> cmd_area ?fl = {}" using assms(6) by (fastforce simp: wtr_area_def cmd_area_def probe_params_def)
  moreover have "erasesize ?fl \<noteq> 0" "unat (erasesize ?fl) dvd unat (mtd_size ?fl)" "aw ?fl \<in> {1..4}" "unat (mtd_size ?fl) \<le> 256 ^ aw ?fl"
    "unat (mtd_size ?fl) < 2 ^ 32"
    using assms(1) unfolding sz info_ok_def word_unat_eq_iff by (auto simp: mod_eq_0_iff_dvd)
  moreover have "program_opcode ?fl = OPCODE_PP" "erase_opcode ?fl \<in> {OPCODE_SE, OPCODE_BE_4K}" "flash_write ?fl = M25P80_NORMAL"
    "(flash_read ?fl, read_opcode ?fl) \<in> {(M25P80_NORMAL, OPCODE_NORM_READ), (M25P80_FAST, OPCODE_FAST_READ)}"
    using entry_lanes[OF assms(1)] by (simp_all add: probe_params_def probe_program_opcode_def)
  ultimately show ?thesis using pg assms(2-5) unfolding flash_fits_def dev8_def by (simp add: probe_params_def)
qed

text \<open>Every entry of the table works.  For every chip of the table the parameters that \<open>m25p_probe\<close> works out fit the driver: the address fits the
  number of address bytes, the page size is a power of two, the erase size divides the size of the chip, and the opcodes
  belong together.  No entry asks for two or four lanes, so all transfers use one, whatever the mode of the device allows.\<close>

theorem flash_table_fits:
  assumes "(name, info) \<in> set m25p_ids" "dev8 spi" "cmd \<noteq> 0" "local_buf (m_wtr E) \<noteq> 0" "local_buf (m_wtr E) + 1 \<noteq> 0"
    and "\<forall>i < 6. \<forall>j < 6. local_buf (m_wtr E) + of_nat i \<noteq> cmd + of_nat j"
  shows "flash_fits E (probe_params spi np cmd info)"
  by (rule params_fit[OF table_entry[OF assms(1)] assms(2-6)])

section \<open>Probing a chip\<close>

lemma jedec_probe_wtr:
  "jedec_probe E (flash_spi fl) s = do {
     (tmp, bs, s) \<leftarrow> flash_wtr E fl [OPCODE_RDID] 5 s;
     if tmp < 0 then Some (Inl tmp, s)
     else (case find (id_matches (jedec_number bs) (ext_number bs)) m25p_ids of
             Some jid \<Rightarrow> Some (Inr jid, s)
           | None \<Rightarrow> Some (Inl (- eno ENODEV), s)) }"
  by (cases "spi_write_then_read (m_wtr E) (m_bus E) (flash_spi fl) [OPCODE_RDID] 5 (host s)") (auto simp: jedec_probe_def flash_wtr_def Let_def)

lemma jedec_probe_ok:
  assumes at: "flash_at E fl dv P absn c m s" and run: "flash_runs E fl dv D K P absn" and c: "wip c = 0" "length (ident c) = 5"
    and f: "find (id_matches (jedec_number (ident c)) (ext_number (ident c))) m25p_ids = Some jid"
  shows "\<exists>s' m'. jedec_probe E (flash_spi fl) s = Some (Inr jid, s') \<and> flash_at E fl dv P absn c m' s' \<and> same_out (wtr_area E) m m'"
proof -
  have "nor_exec fl D (OPCODE_RDID # replicate 5 0xff) c = Some c" using c(1) by (simp add: nor_exec_def opcode_defs)
  from wtr_in_ok[OF at run _ this] obtain s' m' vs where 1: "flash_wtr E fl [OPCODE_RDID] 5 s = Some (0, vs, s')" "flash_at E fl dv P absn c m' s'"
    "same_out (wtr_area E) m m'" "length vs = 5" "\<forall>i < 5. \<forall>v. nor_answer fl (OPCODE_RDID # replicate i 0xff) c = Some v \<longrightarrow> vs ! i = v" by auto
  have "vs = ident c" using 1(4,5) c by (intro nth_equalityI) (simp_all add: nor_answer_def opcode_defs)
  then show ?thesis using 1(1-3) f by (auto simp: jedec_probe_wtr)
qed

lemma probe_setup_ok:
  assumes at: "flash_at E fl dv P absn c m s" and run: "flash_runs E fl dv D K P absn" and c: "wip c = 0"
    and info: "info_ok info" "mtd_size fl \<le> 0x1000000"
  shows "\<exists>s' m' c'. probe_setup E pe fl spi info s = Some (0, s') \<and> flash_at E fl dv P absn c' m' s' \<and> same_out (areas E fl) m m'
    \<and> cells c' = cells c \<and> sreg c' = (if protected_mfr (jedec_id info) then 0 else sreg c) \<and> wip c' \<le> K"
proof -
  have small: "\<not> 0x1000000 < mtd_size fl" using info(2) by (simp add: not_less)
  show ?thesis
  proof (cases "protected_mfr (jedec_id info)")
    case True
    obtain s1 m1 where 1: "write_enable E fl s = Some (0, s1)" "flash_at E fl dv P absn (c\<lparr>wel := True\<rparr>) m1 s1" "same_out (wtr_area E) m m1"
      using write_enable_ok[OF at run c] by blast
    obtain s2 m2 c2 where 2: "write_sr E fl 0 s1 = Some (0, s2)" "flash_at E fl dv P absn c2 m2 s2" "same_out (areas E fl) m1 m2"
      "cells c2 = cells c" "sreg c2 = 0" "wip c2 \<le> K" using write_sr_ok[OF 1(2) run, of 0] c by auto
    have "probe_setup E pe fl spi info s = Some (0, s2)"
      using True 1(1) 2(1) entry_lanes(1)[OF info(1)] small by (simp add: probe_setup_def)
    then show ?thesis using True 2 same_out_trans[OF areas_same(1)[OF 1(3)] 2(3)] by auto
  next
    case False
    have "probe_setup E pe fl spi info s = Some (0, s)"
      using False entry_lanes(1)[OF info(1)] small by (simp add: probe_setup_def)
    then show ?thesis using False at c same_out_refl by (intro exI[of _ s] exI[of _ m] exI[of _ c]) simp
  qed
qed

lemma probe_ok:
  assumes run: "flash_runs E (probe_params spi (pr_np pe) (pr_kmalloc pe) info) dv D K P absn"
    and at: "flash_at E (probe_params spi (pr_np pe) (pr_kmalloc pe) info) dv P absn c m (flash_st ld)" and c: "wip c = 0" "length (ident c) = 5"
    and f: "find (id_matches (jedec_number (ident c)) (ext_number (ident c))) m25p_ids = Some (name, info)"
    and pe: "jedec_id (snd (plat_id pe)) \<noteq> 0" "pr_kzalloc pe" "info_size info \<le> 0x1000000"
  defines "fl \<equiv> probe_params spi (pr_np pe) (pr_kmalloc pe) info"
  shows "\<exists>ld' m' c'. m25p_probe E pe spi ld = Some (pr_register pe, ld') \<and> drvdata ld' = Some (probe_mtd fl info)
    \<and> flash_at E fl dv P absn c' m' (flash_st ld') \<and> same_out (areas E fl) m m'
    \<and> cells c' = cells c \<and> sreg c' = (if protected_mfr (jedec_id info) then 0 else sreg c) \<and> wip c' \<le> K
    \<and> held ld' = (\<lambda>q. held ld q \<or> q = Memory M25P \<or> q = Memory M25P_CMD \<or> pr_register pe = 0 \<and> q = Device M25P_MTD) \<and> bogus ld' = bogus ld"
proof -
  note at = at[folded fl_def] and run = run[folded fl_def]
  have spi: "flash_spi fl = spi" "command fl = pr_kmalloc pe" by (simp_all add: fl_def probe_params_def)
  have km: "pr_kmalloc pe \<noteq> 0" using run spi(2) by (simp add: flash_runs_def flash_fits_def)
  have "(name, info) \<in> set m25p_ids" using f by (auto simp: find_Some_iff)
  then have ok: "info_ok info" by (rule table_entry)
  have sz: "mtd_size fl \<le> 0x1000000" using pe(3) by (simp add: fl_def probe_params_def info_size_def word_le_nat_alt)
  obtain s1 m1 where 1: "jedec_probe E spi (flash_st ld) = Some (Inr (name, info), s1)" "flash_at E fl dv P absn c m1 s1" "same_out (wtr_area E) m m1"
    using jedec_probe_ok[OF at run c f] spi(1) by auto
  obtain s2 m2 c2 where 2: "probe_setup E pe fl spi info s1 = Some (0, s2)" "flash_at E fl dv P absn c2 m2 s2" "same_out (areas E fl) m1 m2"
    "cells c2 = cells c" "sreg c2 = (if protected_mfr (jedec_id info) then 0 else sreg c)" "wip c2 \<le> K"
    using probe_setup_ok[OF 1(2) run c(1) ok sz] by blast
  let ?ld = "exec (acquire (Memory M25P_CMD)) (exec (acquire (Memory M25P)) (ld\<lparr>flash_st := s1\<rparr>))\<lparr>drvdata := Some (probe_mtd fl info), flash_st := s2\<rparr>"
  have "m25p_probe E pe spi ld = Some (pr_register pe, if pr_register pe = 0 then exec (acquire (Device M25P_MTD)) ?ld else ?ld)"
    using 1(1) 2(1) pe(1,2) km by (simp add: m25p_probe_def Let_def flip: fl_def)
  then show ?thesis using 2(2,4-6) same_out_trans[OF areas_same(1)[OF 1(3)] 2(3)]
    by (intro exI[of _ "if pr_register pe = 0 then exec (acquire (Device M25P_MTD)) ?ld else ?ld"] exI[of _ m2] exI[of _ c2]) (auto simp: fun_eq_iff)
qed

text \<open>The probe finds the chip on the bus.  When the chip's identification leads to an entry of the table, \<open>m25p_probe\<close> reads it over the bus,
  sets the driver up with the parameters of that entry, whatever the board's platform data said, and returns what the
  registration returns.  The cells of the chip keep their contents; the protection bits are cleared exactly for the manufacturers whose
  chips start protected.  Both allocations stay held even when the registration fails, which nothing then gives back.\<close>

theorem flash_probe_finds:
  assumes "flash_runs E (probe_params spi (pr_np pe) (pr_kmalloc pe) info) dv D K P absn"
    and "flash_at E (probe_params spi (pr_np pe) (pr_kmalloc pe) info) dv P absn c m (flash_st ld)" "wip c = 0" "length (ident c) = 5"
    and "find (id_matches (jedec_number (ident c)) (ext_number (ident c))) m25p_ids = Some (name, info)"
    and "jedec_id (snd (plat_id pe)) \<noteq> 0" "pr_kzalloc pe" "info_size info \<le> 0x1000000"
  shows "let fl = probe_params spi (pr_np pe) (pr_kmalloc pe) info in
    \<exists>ld' m' c'. m25p_probe E pe spi ld = Some (pr_register pe, ld') \<and> drvdata ld' = Some (probe_mtd fl info)
      \<and> flash_at E fl dv P absn c' m' (flash_st ld') \<and> same_out (areas E fl) m m'
      \<and> cells c' = cells c \<and> sreg c' = (if protected_mfr (jedec_id info) then 0 else sreg c) \<and> wip c' \<le> K
      \<and> held ld' = (\<lambda>q. held ld q \<or> q = Memory M25P \<or> q = Memory M25P_CMD \<or> pr_register pe = 0 \<and> q = Device M25P_MTD) \<and> bogus ld' = bogus ld"
  using probe_ok[OF assms] by (simp only: Let_def)

text \<open>Loading and unloading.  After a successful probe \<open>m25p_remove\<close> gives back the registration and both allocations, each once.  When the
  registration cannot be taken back it returns 0 all the same and nothing is given back.\<close>

theorem flash_load_unload:
  assumes "flash_runs E (probe_params spi (pr_np pe) (pr_kmalloc pe) info) dv D K P absn"
    and "flash_at E (probe_params spi (pr_np pe) (pr_kmalloc pe) info) dv P absn c m (flash_st ld)" "wip c = 0" "length (ident c) = 5"
    and "find (id_matches (jedec_number (ident c)) (ext_number (ident c))) m25p_ids = Some (name, info)"
    and "jedec_id (snd (plat_id pe)) \<noteq> 0" "pr_kzalloc pe" "info_size info \<le> 0x1000000" "pr_register pe = 0"
    and "\<not> held ld (Memory M25P)" "\<not> held ld (Memory M25P_CMD)" "\<not> held ld (Device M25P_MTD)"
  shows "\<exists>ld'. m25p_probe E pe spi ld = Some (0, ld')
    \<and> (case m25p_remove 0 ld' of (r, ld2) \<Rightarrow> r = 0 \<and> held ld2 = held ld \<and> bogus ld2 = bogus ld)
    \<and> (\<forall>e. e \<noteq> 0 \<longrightarrow> m25p_remove e ld' = (0, ld'))"
proof -
  obtain ld' where 1: "m25p_probe E pe spi ld = Some (0, ld')" "bogus ld' = bogus ld"
    "held ld' = (\<lambda>q. held ld q \<or> q = Memory M25P \<or> q = Memory M25P_CMD \<or> q = Device M25P_MTD)"
    using probe_ok[OF assms(1-8)] assms(9) by auto
  have "held (snd (m25p_remove 0 ld')) = held ld" "bogus (snd (m25p_remove 0 ld')) = bogus ld"
    using 1(2,3) assms(10-12) by (auto simp: m25p_remove_def fun_eq_iff)
  then show ?thesis using 1(1) by (auto simp: m25p_remove_def split_beta)
qed

section \<open>The flash of the board\<close>

text \<open>The device on the bus is called after another chip and the platform data name the one on the board; the chip itself decides.\<close>

definition board_probe :: probe_env where
  "board_probe = \<lparr>pr_id = (''m25p80'', INFO 0x202014 0 (64 * 1024) 16 0), pr_type = Some ''w25q128'', pr_np = False, pr_kzalloc = True,
     pr_kmalloc = 0x1000, pr_register = 0, pr_stack = 0x3000\<rparr>"

definition board_load :: "(nor \<times> u8 list option) m25p_load" where
  "board_load = \<lparr>held = (\<lambda>_. False), bogus = [], flash_st = board_at board_chip, drvdata = None\<rparr>"

abbreviation w25q128_info :: flash_info where "w25q128_info \<equiv> INFO 0xef4018 0 (64 * 1024) 256 0"

lemma board_params: "probe_params m25p80_board (pr_np board_probe) (pr_kmalloc board_probe) w25q128_info = w25q128"
  by (simp add: probe_params_def board_probe_def probe_write_def probe_read_def wants_quad_def INFO_def probe_program_opcode_def probe_addr_width_def
      w25q128_def)

lemma board_found: "find (id_matches (jedec_number (ident board_chip)) (ext_number (ident board_chip))) m25p_ids = Some (''w25q128'', w25q128_info)"
  by (simp add: board_chip_def jedec_number_def ext_number_def m25p_ids_def id_matches_def INFO_def CAT25_INFO_def)

lemma board_plat: "jedec_id (snd (plat_id board_probe)) \<noteq> 0"
  by (simp add: plat_id_def board_probe_def m25p_ids_def INFO_def)

lemma board_chip_fields: "wip board_chip = 0" "length (ident board_chip) = 5" "pr_kzalloc board_probe" "info_size w25q128_info \<le> 0x1000000"
  "flash_st board_load = board_at board_chip"
  by (simp_all add: board_chip_def board_probe_def info_size_def INFO_def board_load_def)

lemmas board_premises = board_runs[folded board_params] board_flash_at[of board_chip, folded board_params board_chip_fields(5)]
  board_chip_fields(1,2) board_found board_plat board_chip_fields(3,4)

theorem flash_table_fits_witness:
  "(''w25q128'', w25q128_info) \<in> set m25p_ids \<and> flash_fits board_env (probe_params m25p80_board False 0x1000 w25q128_info)"
proof -
  have "(''w25q128'', w25q128_info) \<in> set m25p_ids" by (simp add: m25p_ids_def)
  moreover have "dev8 m25p80_board" "local_buf (m_wtr board_env) = 0x2000" by (simp_all add: dev8_def m25p80_board_def board_env_def local_buf_def)
  moreover have "(0x2000 :: u32) + of_nat i \<noteq> 0x1000 + of_nat j" if "i < 6" "j < 6" for i j
  proof -
    have "unat (0x2000 + of_nat i :: u32) = 0x2000 + i" "unat (0x1000 + of_nat j :: u32) = 0x1000 + j"
      using that by (subst unat_add_lem[THEN iffD1]; simp add: unat_of_nat)+
    then have "unat (0x2000 + of_nat i :: u32) \<noteq> unat (0x1000 + of_nat j :: u32)" using that by linarith
    then show ?thesis by metis
  qed
  ultimately show ?thesis using flash_table_fits[of "''w25q128''" w25q128_info m25p80_board "0x1000" board_env False] by simp
qed

theorem flash_probe_finds_witness:
  "\<exists>ld' c' m'. m25p_probe board_env board_probe m25p80_board board_load = Some (0, ld') \<and> drvdata ld' = Some (probe_mtd w25q128 w25q128_info)
     \<and> flash_at board_env w25q128 0 (\<lambda>d. snd d = None) fst c' m' (flash_st ld') \<and> held ld' (Memory M25P_CMD)"
proof -
  have "pr_register board_probe = 0" by (simp add: board_probe_def)
  then show ?thesis using flash_probe_finds[OF board_premises] unfolding board_params Let_def by fastforce
qed

theorem flash_load_unload_witness:
  "\<exists>ld'. m25p_probe board_env board_probe m25p80_board board_load = Some (0, ld') \<and> held (snd (m25p_remove 0 ld')) = (\<lambda>_. False)
     \<and> m25p_remove (- 16) ld' = (0, ld')"
proof -
  have "pr_register board_probe = 0" "held board_load = (\<lambda>_. False)" by (simp_all add: board_probe_def board_load_def)
  then show ?thesis using flash_load_unload[OF board_premises] by (auto simp: split_beta)
qed

end
