(* ===== verification/Spi_Load.thy ===== *)
theory Spi_Load
  imports Spi_Core Kres
begin

text \<open>
  Starting and removing the SPI controller (\<open>nuc970_spi0_probe\<close>, \<open>nuc970_spi0_remove\<close> of
  \<open>src/drivers/spi/spi-nuc970-p0.c\<close>, in the configuration of the board without device tree) with the part of
  \<open>spi.c\<close> and \<open>spi-bitbang.c\<close> that registers it, over the ledger of \<open>Kres\<close>.  The controller structure is counted:
  it is freed when the last reference goes.  \<open>request_mem_region\<close> allocates the structure of the region and
  \<open>release_mem_region\<close> frees it.  \<open>None\<close> stands for success where a call returns an error number.
\<close>

section \<open>Registration\<close>

record 'd spi_load = kres +
  sl_hw :: "'d nuc970_spi"
  sl_refs :: nat

abbreviation SPI0 :: string where "SPI0 \<equiv> ''nuc970-spi0''"

record spi_probe_env =
  sp_master :: bool
  sp_pdata :: "nuc970_spi_info option"
  sp_res :: bool
  sp_region :: bool
  sp_map :: bool
  sp_irq :: int
  sp_request :: "errno option"
  sp_clk :: "errno option"
  sp_workqueue :: bool
  sp_add :: "errno option"

definition spi_alloc_master :: "bool \<Rightarrow> ('d spi_load, bool) state" where
  "spi_alloc_master ok = (if ok then do {
      modify (\<lambda>s. s\<lparr>sl_refs := 1,
        sl_hw := (sl_hw s)\<lparr>completions := 0, hw_len := 0, hw_count := 0, hw_txbuf := 0, hw_rxbuf := 0\<rparr>\<rparr>);
      return True } else return False)"

definition spi_master_get :: "('d spi_load, unit) state" where
  "spi_master_get = modify (\<lambda>s. s\<lparr>sl_refs := sl_refs s + 1\<rparr>)"

definition spi_master_put :: "('d spi_load, unit) state" where
  "spi_master_put = modify (\<lambda>s. s\<lparr>sl_refs := sl_refs s - 1\<rparr>)"

text \<open>The number of select lines has 16 bits.\<close>

definition spi_register_master :: "spi_probe_env \<Rightarrow> ('d spi_load, int) state" where
  "spi_register_master e = do {
     n \<leftarrow> gets (\<lambda>s. ucast (num_cs (pdata (sl_hw s))) :: u16);
     if n = 0 then return (- eno EINVAL)
     else do {
       request (sp_add e = None) (Spi_master SPI0);
       return (case sp_add e of Some err \<Rightarrow> - eno err | None \<Rightarrow> 0) } }"

definition spi_unregister_master :: "('d spi_load, unit) state" where
  "spi_unregister_master = do { release (Spi_master SPI0); spi_master_put }"

text \<open>The controller brings its own routines, so the defaults and the checks for missing ones do not apply.\<close>

definition spi_bitbang_start :: "spi_probe_env \<Rightarrow> ('d spi_load, int) state" where
  "spi_bitbang_start e = do {
     w \<leftarrow> request (sp_workqueue e) (Workqueue SPI0);
     if \<not> w then return (- eno EBUSY)
     else do {
       status \<leftarrow> spi_register_master e;
       if status < 0 then do { release (Workqueue SPI0); return status } else return status } }"

definition spi_bitbang_stop :: "('d spi_load, int) state" where
  "spi_bitbang_stop = do { spi_unregister_master; release (Workqueue SPI0); return 0 }"

section \<open>The controller\<close>

definition nuc970_init_spi :: "'d spi_env \<Rightarrow> ('d spi_load, unit) state" where
  "nuc970_init_spi env = do {
     acquire (Clk_prepared SPI0);
     acquire (Clk_enabled SPI0);
     modify (\<lambda>s. s\<lparr>sl_hw := init_spi_regs env (sl_hw s)\<rparr>) }"

definition release_ioarea :: "('d spi_load, unit) state" where
  "release_ioarea = do {
     release (Region SPI0);
     release (Memory SPI0);
     release (Memory SPI0) }"

definition nuc970_spi0_err_iomap :: "('d spi_load, unit) state" where
  "nuc970_spi0_err_iomap = do { release_ioarea; spi_master_put }"

definition nuc970_spi0_err_irq :: "('d spi_load, unit) state" where
  "nuc970_spi0_err_irq = do { release (Mapped SPI0); nuc970_spi0_err_iomap }"

definition nuc970_spi0_err_clk :: "int \<Rightarrow> ('d spi_load, unit) state" where
  "nuc970_spi0_err_clk irq = do { release (Irq_line (nat irq)); nuc970_spi0_err_irq }"

definition nuc970_spi0_err_register :: "int \<Rightarrow> ('d spi_load, unit) state" where
  "nuc970_spi0_err_register irq = do { release (Clk_enabled SPI0); release (Clk SPI0); nuc970_spi0_err_clk irq }"

text \<open>An error of the pin request is only printed.\<close>

definition nuc970_spi0_probe :: "'d spi_env \<Rightarrow> spi_probe_env \<Rightarrow> ('d spi_load, int) state" where
  "nuc970_spi0_probe env e = do {
     m \<leftarrow> spi_alloc_master (sp_master e);
     if \<not> m then return (- eno ENOMEM)
     else do {
       spi_master_get;
       case sp_pdata e of None \<Rightarrow> do { spi_master_put; return (- eno ENOENT) }
       | Some p \<Rightarrow> do {
         modify (\<lambda>s. s\<lparr>sl_hw := (sl_hw s)\<lparr>pdata := p\<rparr>\<rparr>);
         if \<not> sp_res e then do { spi_master_put; return (- eno ENOENT) }
         else do {
           r \<leftarrow> request (sp_region e) (Region SPI0);
           if \<not> r then do { spi_master_put; return (- eno ENXIO) }
           else do {
             acquire (Memory SPI0);
             i \<leftarrow> request (sp_map e) (Mapped SPI0);
             if \<not> i then do { nuc970_spi0_err_iomap; return (- eno ENXIO) }
             else if sp_irq e < 0 then do { nuc970_spi0_err_irq; return (- eno ENOENT) }
             else do {
               request (sp_request e = None) (Irq_line (nat (sp_irq e)));
               case sp_request e of Some err \<Rightarrow> do { nuc970_spi0_err_irq; return (- eno err) }
               | None \<Rightarrow> do {
                 request (sp_clk e = None) (Clk SPI0);
                 case sp_clk e of Some err \<Rightarrow> do { nuc970_spi0_err_clk (sp_irq e); return (- eno err) }
                 | None \<Rightarrow> do {
                   nuc970_init_spi env;
                   err \<leftarrow> spi_bitbang_start e;
                   if err \<noteq> 0 then do { nuc970_spi0_err_register (sp_irq e); return err }
                   else return 0 } } } } } } } }"

definition nuc970_spi0_remove :: "int \<Rightarrow> ('d spi_load, int) state" where
  "nuc970_spi0_remove irq = do {
     release (Irq_line (nat irq));
     spi_bitbang_stop;
     release (Clk_enabled SPI0);
     release (Clk SPI0);
     release (Mapped SPI0);
     release_ioarea;
     spi_master_put;
     return 0 }"

section \<open>The ledger\<close>

definition spi_resources :: "int \<Rightarrow> resource set" where
  "spi_resources irq = {Region SPI0, Memory SPI0, Mapped SPI0, Irq_line (nat irq), Clk SPI0, Clk_prepared SPI0, Clk_enabled SPI0,
     Workqueue SPI0, Spi_master SPI0}"

text \<open>Every request is granted.\<close>

definition spi_granted :: "spi_probe_env \<Rightarrow> bool" where
  "spi_granted e \<longleftrightarrow> sp_master e \<and> (case sp_pdata e of Some p \<Rightarrow> (ucast (num_cs p) :: u16) \<noteq> 0 | None \<Rightarrow> False) \<and> sp_res e \<and> sp_region e
     \<and> sp_map e \<and> sp_irq e \<ge> 0 \<and> sp_request e = None \<and> sp_clk e = None \<and> sp_workqueue e \<and> sp_add e = None"

definition region_taken :: "spi_probe_env \<Rightarrow> bool" where
  "region_taken e \<longleftrightarrow> sp_master e \<and> sp_pdata e \<noteq> None \<and> sp_res e \<and> sp_region e"

definition clock_taken :: "spi_probe_env \<Rightarrow> bool" where
  "clock_taken e \<longleftrightarrow> region_taken e \<and> sp_map e \<and> sp_irq e \<ge> 0 \<and> sp_request e = None \<and> sp_clk e = None"

lemma sl_keep [simp]: "sl_refs (exec (release r) s) = sl_refs s" "sl_hw (exec (release r) s) = sl_hw s"
  "sl_refs (exec (request ok r) s) = sl_refs s" "sl_hw (exec (request ok r) s) = sl_hw s"
  by (simp_all add: release_def request_eq)

lemma pdata_parts:
  "pdata (nuc970_enable_int env s) = pdata s" "pdata (nuc970_set_divider env s) = pdata s" "pdata (nuc970_set_clock_polarity env n s) = pdata s"
  "pdata (nuc970_spi0_setup_txnum env n s) = pdata s" "pdata (nuc970_spi0_setup_txbitlen env n s) = pdata s" "pdata (nuc970_set_sleep env n s) = pdata s"
  "pdata (nuc970_send_first env n s) = pdata s" "pdata (nuc970_rx_edge env n s) = pdata s" "pdata (nuc970_tx_edge env n s) = pdata s"
  by (simp_all add: nuc970_enable_int_def nuc970_set_divider_def nuc970_set_clock_polarity_def nuc970_spi0_setup_txnum_def
      nuc970_spi0_setup_txbitlen_def nuc970_set_sleep_def nuc970_send_first_def nuc970_rx_edge_def nuc970_tx_edge_def spi_writel_def Let_def)

lemma pdata_init [simp]: "pdata (init_spi_regs env s) = pdata s"
  by (simp add: init_spi_regs_def Let_def pdata_parts)

text \<open>What the parts of the start do to each field of the state.\<close>

definition started :: "spi_probe_env \<Rightarrow> 'd spi_load \<Rightarrow> bool" where
  "started e s \<longleftrightarrow> sp_workqueue e \<and> (ucast (num_cs (pdata (sl_hw s))) :: u16) \<noteq> 0 \<and> sp_add e = None"

lemma bitbang_start_eff:
  "result_of (spi_bitbang_start e) s = 0 \<longleftrightarrow> started e s"
  "sl_refs (exec (spi_bitbang_start e) s) = sl_refs s"
  "sl_hw (exec (spi_bitbang_start e) s) = sl_hw s"
  "\<not> held s (Workqueue SPI0) \<Longrightarrow> held (exec (spi_bitbang_start e) s) q \<longleftrightarrow> held s q \<or> started e s \<and> q \<in> {Workqueue SPI0, Spi_master SPI0}"
  "\<not> held s (Workqueue SPI0) \<Longrightarrow> bogus (exec (spi_bitbang_start e) s) = bogus s"
proof -
  have e: "eno x \<noteq> 0" "0 < eno x" for x using eno_pos[of x] by simp_all
  note d = spi_bitbang_start_def spi_register_master_def started_def
  show "result_of (spi_bitbang_start e) s = 0 \<longleftrightarrow> started e s"
    "sl_refs (exec (spi_bitbang_start e) s) = sl_refs s"
    "sl_hw (exec (spi_bitbang_start e) s) = sl_hw s"
    by (cases "sp_add e"; simp add: d e)+
  assume "\<not> held s (Workqueue SPI0)"
  then show "held (exec (spi_bitbang_start e) s) q \<longleftrightarrow> held s q \<or> started e s \<and> q \<in> {Workqueue SPI0, Spi_master SPI0}"
    "bogus (exec (spi_bitbang_start e) s) = bogus s"
    by (cases "sp_add e"; auto simp: d e)+
qed

lemma init_eff:
  "held (exec (nuc970_init_spi env) s) q \<longleftrightarrow> held s q \<or> q \<in> {Clk_prepared SPI0, Clk_enabled SPI0}"
  "bogus (exec (nuc970_init_spi env) s) = bogus s" "sl_refs (exec (nuc970_init_spi env) s) = sl_refs s"
  "sl_hw (exec (nuc970_init_spi env) s) = init_spi_regs env (sl_hw s)"
  by (auto simp: nuc970_init_spi_def)

lemma master_eff:
  "held (exec spi_master_put s) = held s" "bogus (exec spi_master_put s) = bogus s" "sl_refs (exec spi_master_put s) = sl_refs s - 1"
  "held (exec spi_master_get s) = held s" "bogus (exec spi_master_get s) = bogus s" "sl_refs (exec spi_master_get s) = sl_refs s + 1"
  "sl_hw (exec spi_master_get s) = sl_hw s" "sl_hw (exec spi_master_put s) = sl_hw s"
  by (simp_all add: spi_master_put_def spi_master_get_def)

lemma alloc_eff:
  "result_of (spi_alloc_master ok) s = ok" "held (exec (spi_alloc_master ok) s) = held s" "bogus (exec (spi_alloc_master ok) s) = bogus s"
  "sl_refs (exec (spi_alloc_master ok) s) = (if ok then 1 else sl_refs s)"
  by (simp_all add: spi_alloc_master_def)

lemma ioarea_eff:
  "held (exec release_ioarea s) q \<longleftrightarrow> held s q \<and> q \<notin> {Region SPI0, Memory SPI0}"
  "held s (Region SPI0) \<Longrightarrow> held s (Memory SPI0) \<Longrightarrow> bogus (exec release_ioarea s) = bogus s @ [Memory SPI0]"
  "sl_refs (exec release_ioarea s) = sl_refs s"
  by (auto simp: release_ioarea_def)

lemmas spi_effects = bitbang_start_eff init_eff master_eff alloc_eff ioarea_eff

lemmas spi_start_defs = nuc970_spi0_probe_def nuc970_spi0_err_register_def nuc970_spi0_err_clk_def nuc970_spi0_err_irq_def
  nuc970_spi0_err_iomap_def

lemma spi_probe_paths:
  obtains (master) "\<not> sp_master e"
    | (pdata) "sp_master e" "sp_pdata e = None"
    | (res) p where "sp_master e" "sp_pdata e = Some p" "\<not> sp_res e"
    | (region) p where "sp_master e" "sp_pdata e = Some p" "sp_res e" "\<not> sp_region e"
    | (mapped) p where "sp_master e" "sp_pdata e = Some p" "sp_res e" "sp_region e" "\<not> sp_map e"
    | (irq) p where "sp_master e" "sp_pdata e = Some p" "sp_res e" "sp_region e" "sp_map e" "sp_irq e < 0"
    | (request) p x where "sp_master e" "sp_pdata e = Some p" "sp_res e" "sp_region e" "sp_map e" "\<not> sp_irq e < 0" "sp_request e = Some x"
    | (clk) p x where "sp_master e" "sp_pdata e = Some p" "sp_res e" "sp_region e" "sp_map e" "\<not> sp_irq e < 0" "sp_request e = None" "sp_clk e = Some x"
    | (start) p where "sp_master e" "sp_pdata e = Some p" "sp_res e" "sp_region e" "sp_map e" "\<not> sp_irq e < 0" "sp_request e = None" "sp_clk e = None"
  by (metis not_None_eq)

lemma spi_probe_result: "result_of (nuc970_spi0_probe env e) s = 0 \<longleftrightarrow> spi_granted e"
proof -
  have e: "eno x \<noteq> 0" for x using eno_pos[of x] by simp
  show ?thesis by (cases e rule: spi_probe_paths) (simp_all add: spi_start_defs spi_effects spi_granted_def started_def e, blast)
qed

lemma spi_probe_ledger:
  assumes "none_of (spi_resources (sp_irq e)) s" "sl_refs s = 0"
  shows "sl_refs (exec (nuc970_spi0_probe env e) s) = (if spi_granted e then 2 else of_bool (sp_master e))"
    and "bogus (exec (nuc970_spi0_probe env e) s) = bogus s @ (if region_taken e \<and> \<not> spi_granted e then [Memory SPI0] else [])"
    and "held (exec (nuc970_spi0_probe env e) s) q
      \<longleftrightarrow> held s q \<or> (if spi_granted e then q \<in> spi_resources (sp_irq e) else q = Clk_prepared SPI0 \<and> clock_taken e)"
proof -
  have n: "\<not> held s (Region SPI0)" "\<not> held s (Memory SPI0)" "\<not> held s (Mapped SPI0)" "\<not> held s (Irq_line (nat (sp_irq e)))"
    "\<not> held s (Clk SPI0)" "\<not> held s (Clk_enabled SPI0)" "\<not> held s (Workqueue SPI0)" "\<not> held s (Spi_master SPI0)"
    using assms(1) by (simp_all add: none_of_def spi_resources_def)
  note d = spi_start_defs spi_effects spi_granted_def started_def region_taken_def clock_taken_def
  show "sl_refs (exec (nuc970_spi0_probe env e) s) = (if spi_granted e then 2 else of_bool (sp_master e))"
    by (cases e rule: spi_probe_paths) (simp_all add: d assms(2))
  show "bogus (exec (nuc970_spi0_probe env e) s) = bogus s @ (if region_taken e \<and> \<not> spi_granted e then [Memory SPI0] else [])"
    by (cases e rule: spi_probe_paths) (simp_all add: d n)
  show "held (exec (nuc970_spi0_probe env e) s) q
      \<longleftrightarrow> held s q \<or> (if spi_granted e then q \<in> spi_resources (sp_irq e) else q = Clk_prepared SPI0 \<and> clock_taken e)"
  proof (cases "q \<in> spi_resources (sp_irq e)")
    case True
    then have "q = Region SPI0 \<or> q = Memory SPI0 \<or> q = Mapped SPI0 \<or> q = Irq_line (nat (sp_irq e)) \<or> q = Clk SPI0 \<or> q = Clk_prepared SPI0
        \<or> q = Clk_enabled SPI0 \<or> q = Workqueue SPI0 \<or> q = Spi_master SPI0"
      by (simp add: spi_resources_def)
    then show ?thesis by (elim disjE; cases e rule: spi_probe_paths; simp add: d n spi_resources_def; blast?)
  next
    case False
    then show ?thesis by (cases e rule: spi_probe_paths) (simp_all add: d n spi_resources_def)
  qed
qed

lemma spi_remove_ledger:
  assumes "\<And>q. q \<in> spi_resources irq \<Longrightarrow> held s q"
  shows "held (exec (nuc970_spi0_remove irq) s) q \<longleftrightarrow> held s q \<and> q \<notin> spi_resources irq - {Clk_prepared SPI0}"
    and "bogus (exec (nuc970_spi0_remove irq) s) = bogus s @ [Memory SPI0]"
    and "sl_refs (exec (nuc970_spi0_remove irq) s) = sl_refs s - 2"
proof -
  have h: "held s (Region SPI0)" "held s (Memory SPI0)" "held s (Mapped SPI0)" "held s (Irq_line (nat irq))"
    "held s (Clk SPI0)" "held s (Clk_enabled SPI0)" "held s (Workqueue SPI0)" "held s (Spi_master SPI0)"
    using assms by (simp_all add: spi_resources_def)
  note d = nuc970_spi0_remove_def spi_bitbang_stop_def spi_unregister_master_def master_eff ioarea_eff
  show "held (exec (nuc970_spi0_remove irq) s) q \<longleftrightarrow> held s q \<and> q \<notin> spi_resources irq - {Clk_prepared SPI0}"
    by (simp add: d spi_resources_def) blast
  show "bogus (exec (nuc970_spi0_remove irq) s) = bogus s @ [Memory SPI0]" "sl_refs (exec (nuc970_spi0_remove irq) s) = sl_refs s - 2"
    by (simp_all add: d h)
qed

section \<open>Start and removal\<close>

lemma spi_probe_sign: "result_of (nuc970_spi0_probe env e) s \<le> 0"
proof -
  have e: "0 < eno x" for x by (rule eno_pos)
  have b: "result_of (spi_bitbang_start e) s \<le> 0" for s :: "'d spi_load"
    using e by (cases "sp_add e") (simp_all add: spi_bitbang_start_def spi_register_master_def less_imp_le)
  show ?thesis
    by (cases e rule: spi_probe_paths) (simp_all add: spi_start_defs alloc_eff less_imp_le[OF e] b)
qed

text \<open>Every outcome of the start, from a state in which nothing of the driver is held.  The probe returns 0 exactly when every
  request is granted and the platform data name at least one select line; then everything is held, with two references to
  the controller structure.  Otherwise it returns a negative number and gives back everything but the prepared
  clock, when it got that far, and one of the two references, so that the structure is never freed; and once the memory
  region was taken, the structure of the region is freed twice.\<close>

theorem spi_probe_outcome:
  assumes "none_of (spi_resources (sp_irq e)) s" "sl_refs s = 0"
  shows "let ret = result_of (nuc970_spi0_probe env e) s; s' = exec (nuc970_spi0_probe env e) s in
     (if spi_granted e then ret = 0 else ret < 0)
   \<and> sl_refs s' = (if spi_granted e then 2 else of_bool (sp_master e))
   \<and> bogus s' = bogus s @ (if region_taken e \<and> \<not> spi_granted e then [Memory SPI0] else [])
   \<and> (\<forall>q. held s' q \<longleftrightarrow> held s q
        \<or> (if spi_granted e then q \<in> spi_resources (sp_irq e) else q = Clk_prepared SPI0 \<and> clock_taken e))"
  using spi_probe_result[of env e s] spi_probe_sign[of env e s] spi_probe_ledger[OF assms, of env]
  by (auto simp: Let_def order.order_iff_strict)

text \<open>Start and removal.  After a successful start, removing the controller returns 0, drops the last reference and gives back
  everything but the prepared clock; the structure of the memory region is freed twice.\<close>

theorem spi_load_unload:
  assumes "none_of (spi_resources (sp_irq e)) s" "sl_refs s = 0" "spi_granted e"
  shows "let s1 = exec (nuc970_spi0_probe env e) s; s2 = exec (nuc970_spi0_remove (sp_irq e)) s1 in
     result_of (nuc970_spi0_remove (sp_irq e)) s1 = 0 \<and> sl_refs s2 = 0 \<and> bogus s2 = bogus s @ [Memory SPI0]
   \<and> (\<forall>q. held s2 q \<longleftrightarrow> held s q \<or> q = Clk_prepared SPI0)"
proof -
  define s1 where "s1 = exec (nuc970_spi0_probe env e) s"
  note p = spi_probe_ledger[OF assms(1,2), of env, folded s1_def]
  have h: "\<And>q. q \<in> spi_resources (sp_irq e) \<Longrightarrow> held s1 q" using p(3) assms(3) by simp
  have n: "q \<in> spi_resources (sp_irq e) \<Longrightarrow> \<not> held s q" for q using assms(1) by (simp add: none_of_def)
  have "Clk_prepared SPI0 \<in> spi_resources (sp_irq e)" by (simp add: spi_resources_def)
  then have "(\<forall>q. held (exec (nuc970_spi0_remove (sp_irq e)) s1) q \<longleftrightarrow> held s q \<or> q = Clk_prepared SPI0)"
    using spi_remove_ledger(1)[OF h] p(3) assms(3) n by auto
  moreover have "result_of (nuc970_spi0_remove (sp_irq e)) s1 = 0" by (simp add: nuc970_spi0_remove_def)
  ultimately show ?thesis
    using spi_remove_ledger(2,3)[OF h] p(1,2) assms(3) unfolding Let_def s1_def[symmetric] by simp
qed

definition spi_unloaded :: "u32 list spi_load" where
  "spi_unloaded = \<lparr>held = (\<lambda>_. False), bogus = [], sl_hw = spi0, sl_refs = 0\<rparr>"

definition spi_all_ok :: spi_probe_env where
  "spi_all_ok = \<lparr>sp_master = True, sp_pdata = Some nuc970_spi0_platform_data, sp_res = True, sp_region = True, sp_map = True,
     sp_irq = 53, sp_request = None, sp_clk = None, sp_workqueue = True, sp_add = None\<rparr>"

lemma spi_unloaded_clean: "none_of R spi_unloaded" "sl_refs spi_unloaded = 0"
  by (simp_all add: none_of_def spi_unloaded_def)

lemma spi_all_granted: "spi_granted spi_all_ok"
  by (simp add: spi_granted_def spi_all_ok_def nuc970_spi0_platform_data_def)

theorem spi_probe_outcome_witness:
  "result_of (nuc970_spi0_probe (echo_bus (\<lambda>_. False)) spi_all_ok) spi_unloaded = 0
   \<and> sl_refs (exec (nuc970_spi0_probe (echo_bus (\<lambda>_. False)) (spi_all_ok\<lparr>sp_map := False\<rparr>)) spi_unloaded) = 1"
  using spi_probe_outcome[OF spi_unloaded_clean, where e = spi_all_ok and env = "echo_bus (\<lambda>_. False)"] spi_all_granted
    spi_probe_outcome[OF spi_unloaded_clean, where e = "spi_all_ok\<lparr>sp_map := False\<rparr>" and env = "echo_bus (\<lambda>_. False)"]
  by (simp add: Let_def) (simp add: spi_granted_def spi_all_ok_def)

theorem spi_load_unload_witness:
  "bogus (exec (nuc970_spi0_remove 53) (exec (nuc970_spi0_probe (echo_bus (\<lambda>_. False)) spi_all_ok) spi_unloaded)) = [Memory SPI0]"
  using spi_load_unload[OF spi_unloaded_clean spi_all_granted, of "echo_bus (\<lambda>_. False)"]
  by (simp add: Let_def) (simp add: spi_all_ok_def spi_unloaded_def)

end
