(* ===== verification/Spec2Isabelle.thy ===== *)
theory Spec2Isabelle
  imports Irq Kbd_Scan Pulse Rn8302b Esam Lcd Clock_Load M25p_Load Spi_Load
begin

text \<open>
  \<^bold>\<open>Verification of the board support and device drivers of the NUC972 meter concentrator\<close>

  The repository is a Linux 3.10 kernel for a power meter concentrator with a Nuvoton NUC972
  processor.  The development models the part of it that was written for the board: the pins, the
  interrupt controller, the drivers under \<open>src/drivers/char/hndl_char_devices\<close>, and the way to the clock chip: the I2C
  controller, the bus layer above it, the clock driver and the calendar; and the SPI controller with the layers above it and the driver of the serial flash.

  \<^bold>\<open>Parts and theories\<close>

  \<^item> \<open>Nuc_Prelude\<close>: machine words, error numbers, the state monad with \<open>exec\<close> and \<open>result_of\<close>, single
    bits, bytes as bit lists, printing.
  \<^item> \<open>Nuc_Hw\<close>: the register file.  A state records the last value of each register, the levels the
    outside shows on input registers (one value per read), the log of all register writes in order, and a
    flag for accesses through a null pointer.
  \<^item> \<open>Gpio\<close> (\<open>src/drivers/gpio/gpio-nuc970.c\<close>): the pin operations and the pin to interrupt table.
  \<^item> \<open>Irq\<close> (\<open>src/arch/arm/mach-nuc970/irq.c\<close>): the interrupt chips and the two chained handlers.
  \<^item> \<open>Kres\<close>: a ledger of kernel resources with the contract of a device one process may open, and classes with their
    devices (\<open>src/drivers/base/class.c\<close>, \<open>core.c\<close>), whose creation reports failure with an error pointer.
  \<^item> \<open>Proc_Intf\<close> (\<open>hnos_proc_intf.c\<close>): the proc directory the drivers share.
  \<^item> \<open>Kbd_Core\<close> and \<open>Kbd_Scan\<close> (\<open>hnos_kbd_core.c\<close>, \<open>hnos_kbd_hntt1800x.c\<close>): the key buffer, the keyboard
    device and the timer routine that samples the keys.
  \<^item> \<open>Pulse\<close> (\<open>pulse_count.c\<close>): the counter of meter pulses.
  \<^item> \<open>Serial\<close>: the receiving end of a serial line that software toggles, and the contract of byte routines.
  \<^item> \<open>Rn8302b\<close>, \<open>Esam\<close>, \<open>Lcd\<close> (\<open>rn8302b.c\<close>, \<open>hnos_esam_intf.c\<close>, \<open>hnos_lcd_core.c\<close> with \<open>hnos_lcd_cog.h\<close>): the
    drivers of the metering chip, the security module and the display.
  \<^item> \<open>I2c\<close> (\<open>src/drivers/i2c/busses/i2c-nuc970-p0.c\<close>): the I2C controller as a state machine driven by interrupts.
  \<^item> \<open>I2c_Core\<close> (\<open>src/drivers/i2c/i2c-core.c\<close>): transfers, SMBus operations put together from messages, check bytes.
  \<^item> \<open>I2c_Dev\<close>: a device with registers behind the controller, and the contract \<open>reg_bus\<close> its drivers rely on.
  \<^item> \<open>Rtc_Lib\<close> and \<open>Rtc\<close> (\<open>src/drivers/rtc/rtc-lib.c\<close>, \<open>interface.c\<close>, \<open>hctosys.c\<close>, \<open>systohc.c\<close>): the calendar, and reading
    and setting a clock with the contract \<open>clock_driver\<close> of the driver below.
  \<^item> \<open>Rx8025\<close> and \<open>Clock_Load\<close> (\<open>src/drivers/rtc/rtc-rx8025.c\<close>): the driver of the clock chip on top of \<open>reg_bus\<close>, and
    starting and removing it and the controller.
  \<^item> \<open>Spi\<close> (\<open>src/drivers/spi/spi-nuc970-p0.c\<close>): the SPI controller, its burst engine and the interrupt routine.
  \<^item> \<open>Spi_Core\<close> (\<open>src/drivers/spi/spi.c\<close>, \<open>spi-bitbang.c\<close>): messages, their checks and the queue runner with the contract
    \<open>bitbang_driver\<close> of a controller.
  \<^item> \<open>Spi_Load\<close>: starting and removing the controller.
  \<^item> \<open>M25p80\<close> and \<open>M25p_Load\<close> (\<open>src/drivers/mtd/devices/m25p80.c\<close>): the operations of the serial flash, its table of chips, its
    start and removal; the chip itself is a parameter with its documented behaviour.
  \<^bold>\<open>How the code is translated\<close>

  A C function is a definition of the same name in the state monad, with a statement for a statement; a
  file's variables and the device structure are the fields of one record that extends the register file
  or the ledger.  A loop is a recursion with the loop's own bound.  An error return is a value \<open>Inl e\<close>.
  Code the repository does not contain (the kernel's allocation and registration calls, \<open>linux/circ_buf.h\<close>,
  \<open>simple_strtoull\<close>, interrupt actions) is an argument; whether a kernel request succeeds is a field of
  an environment record.  Delays have no effect in the model.

  \<^bold>\<open>What is shown\<close>

  \<^item> \<^emph>\<open>Pins and interrupts\<close>: driving and sampling change exactly one pin; the chained handlers run the action
    of exactly the pending pins; masking and unmasking restore the trigger; interrupt numbers lead back to
    their pins.
  \<^item> \<^emph>\<open>Serial devices\<close>: each driver's register writes are read by a receiver on the same lines.  The frames it
    assembles are stated bit for bit: command and reply of the metering chip with retries and check bytes,
    commands and replies of the security module with the bounded wait, and the commands and pixels of the
    display.
  \<^item> \<^emph>\<open>Keyboard and pulses\<close>: the ring is a bounded queue; a blocked reader returns at the first wake-up that
    leaves it a key; a timer run enqueues a key exactly when its code is new and not idle (the code does not debounce);
    pulse trains are counted exactly and the count rate is bounded.
  \<^item> \<^emph>\<open>Bus and clock\<close>: the interrupt routine puts the reference sequence on the bus and never follows a stray
    pointer; the SMBus operations on top of it read back what they wrote from a device that hears nothing but the
    commands the driver writes to the controller (\<open>serve\<close>), and their check byte detects every
    changed byte; seconds and dates convert both ways; the time saved in the clock chip comes back at the next
    start.  A refused address, a lost arbitration and a bus that is never free are followed to the caller.
  \<^item> \<^emph>\<open>SPI\<close>: a transfer of any length exchanges exactly its words with the device, across the interrupts; a burst that
    is over too early loses its interrupt; the lines get the settings of the device.  The hardware is part of the
    state: a burst exchanges up to four words with the device, the interrupt flag is cleared by writing a one to it,
    \<open>quick\<close> says which bursts end before the routine reads the control register back, and \<open>late\<close> which end between this
    read and the write of the value, which starts them once more.
  \<^item> \<^emph>\<open>Flash\<close>: erasing, writing and reading the chip through all layers of the SPI bus give back what was written; protection,
    time-outs, the table of chips and the start of the driver.
  \<^item> \<^emph>\<open>Start-up and clean-up\<close>: what each driver holds after success, after each failure and after unloading,
    and where the code gives back too little or too much.
  \<^item> \<^emph>\<open>Across components\<close> (this theory): the backlight path from the keyboard device to the pin, one process
    per device, and loading and unloading two drivers that share a directory.

  \<^bold>\<open>Bounds\<close>

  All loops are bounded by the code: eight bits a byte, ten attempts of \<open>RN8302_Write\<close>, 64000 polls of the
  security module, 160 rows of 20 bytes, 400 polls for the I2C bus and two attempts of a transfer, eleven months.
  A device behind the I2C controller is served for at most \<open>wait_irqs\<close> interrupts, the number of bytes that fit in the five
  seconds of the wait at 100 kHz; the messages of the SMBus layer need less than 1000.
  Waiting for events, in \<open>kb_read\<close> and in \<open>nuc970_i2c0_doxfer\<close>, is a recursion over the list of what happens while the
  caller sleeps; waiting for the end of an SPI transfer is a \<open>partial_function\<close> whose value is \<open>None\<close> when nothing can
  happen any more, and it is shown to return; the jumps back to \<open>retry_write\<close> end because the message index grows.

  \<^bold>\<open>What is not modelled\<close>

  The other architectures and the kernel's generic driver subsystems, which the board does not use or which
  the modelled drivers only call; drivers that only move data by DMA or hand work to the kernel; locking,
  since each modelled routine runs to its end before another starts; and physical time.
\<close>

section \<open>The backlight key path\<close>

text \<open>Writing one byte to the keyboard device calls the backlight routine that is registered there.  The display
  driver is the only one that registers a routine, \<open>uc1698fb_back_light\<close>, and it does so at its start-up.\<close>

definition kb_write_lcd :: "nat \<Rightarrow> u8 option \<Rightarrow> ('a lcd_state_scheme, nat result) state" where
  "kb_write_lcd = kb_write (\<lambda>s. blt (lcd_state.kern s)) uc1698fb_back_light"

lemma kb_write_lcd_run:
  "blt (lcd_state.kern s) \<Longrightarrow>
     exec (kb_write_lcd 1 (Some data)) s = exec (uc1698fb_back_light (if data \<noteq> 0 then 1 else 0)) s"
  "blt (lcd_state.kern s) \<Longrightarrow> result_of (kb_write_lcd 1 (Some data)) s = Inr 1"
  by (simp_all add: kb_write_lcd_def kb_write_def)

text \<open>C14. Switching the backlight from the keyboard device.  Once the display driver has registered its
  routine, writing one readable byte to the keyboard device returns 1.  With no routine of the board, it raises the
  line PG5 for a non-zero byte and lowers it for a zero byte, without touching another pin; with a routine of
  the board it calls exactly that routine, with 1 or 0.  A write of another length, or before a routine is
  registered, returns \<open>-EINVAL\<close>, and one whose byte cannot be read \<open>-EFAULT\<close>; nothing changes then.\<close>

theorem backlight_path:
  "let m = kb_write_lcd count ubyte; s' = exec m s in
     if count \<noteq> 1 \<or> \<not> blt (lcd_state.kern s) then result_of m s = Inl EINVAL \<and> s' = s
     else case ubyte of
       None \<Rightarrow> result_of m s = Inl EFAULT \<and> s' = s
     | Some data \<Rightarrow> result_of m s = Inr 1 \<and> (case cb_backlight s of
           Some f \<Rightarrow> s' = exec (on_hw (f (if data \<noteq> 0 then 1 else 0))) s
         | None \<Rightarrow> out_level s' 197 = (data \<noteq> 0)
             \<and> (\<forall>g. g < NUMGPIO \<longrightarrow> g \<noteq> 197 \<longrightarrow> out_level s' g = out_level s g))"
proof (cases "count = 1 \<and> blt (lcd_state.kern s) \<and> ubyte \<noteq> None")
  case False
  then show ?thesis by (auto simp: Let_def kb_write_lcd_def kb_write_def split: option.splits)
next
  case True
  then obtain data where d: "ubyte = Some data" by blast
  have c: "cb_backlight s = Some f \<Longrightarrow> exec (uc1698fb_back_light a) s = exec (on_hw (f (ucast a))) s" for f a
    by (simp add: uc1698fb_back_light_def)
  show ?thesis
    using True lcd_backlight[of s "if data \<noteq> 0 then 1 else 0"]
    by (auto simp: Let_def d kb_write_lcd_run c simp del: One_nat_def split: option.splits)
qed

theorem backlight_path_witness:
  "out_level (exec (kb_write_lcd 1 (Some 7)) (lcd_demo\<lparr>lcd_state.kern := kbd0\<lparr>blt := True\<rparr>\<rparr>)) 197
   \<and> result_of (kb_write_lcd 1 (Some 7)) lcd_demo = Inl EINVAL"
  using backlight_path[of 1 "Some 7" "lcd_demo\<lparr>lcd_state.kern := kbd0\<lparr>blt := True\<rparr>\<rparr>"] backlight_path[of 1 "Some 7" lcd_demo]
  by (simp add: Let_def lcd_demo_def kbd0_def)

section \<open>One user per device\<close>

text \<open>C38. One process per device.  The keyboard, the display, the metering chip and the security module
  admit one process at a time: after any sequence of open and release calls on a closed device, successful
  opens exceed successful releases by at most one.\<close>

theorem devices_exclusive:
  assumes "\<not> kbd.is_open k" "\<not> lcd_opened l" "rn8302b_spi r" "\<not> rn_state.is_open r" "esam_spi e" "\<not> esam_state.is_open e"
  shows "snd (open_balance kb_open kb_release us k) \<in> {0, 1}
    \<and> snd (open_balance uc1698fb_open uc1698fb_release us l) \<in> {0, 1}
    \<and> snd (open_balance rn8302b_open (rn8302b_release True) us r) \<in> {0, 1}
    \<and> snd (open_balance esam_open (esam_release True) us e) \<in> {0, 1}"
  using kb_dev.at_most_one[OF TrueI assms(1)] lcd_dev.at_most_one[OF TrueI assms(2)]
    rn_dev.at_most_one[OF assms(3,4)] esam_dev.at_most_one[OF assms(5,6)]
  by blast

theorem devices_exclusive_witness:
  "snd (open_balance esam_open (esam_release True) [True, True, False, False, True] (esam_demo\<lparr>esam_state.is_open := False\<rparr>)) \<in> {0, 1}"
  using devices_exclusive[of kbd0 "lcd_demo\<lparr>lcd_opened := False\<rparr>" "rn_demo\<lparr>rn_state.is_open := False\<rparr>"
      "esam_demo\<lparr>esam_state.is_open := False\<rparr>" "[True, True, False, False, True]"]
  by (simp add: kbd0_def rn_demo_def esam_demo_def)

section \<open>Loading and unloading\<close>

lemma lcd_unload_kern:
  assumes "lcd_fresh s" "\<not> blt (lcd_state.kern s)"
  shows "lcd_state.kern (exec uc1698fb_module_cleanup (exec (uc1698fb_module_init lcd_all_ok) s))
     = (lcd_state.kern s)\<lparr>bogus := bogus (lcd_state.kern s) @ [Region ''uc1698fb'']\<rparr>"
proof -
  define s' where "s' = exec (uc1698fb_module_init lcd_all_ok) s"
  note k = lcd_init_kern[OF assms, folded s'_def]
  have a: "UC1698FB_CMD_ADDR \<noteq> 0" by (simp add: UC1698FB_CMD_ADDR_def)
  have f: "proc_ok (lcd_state.kern s)" "list_all (\<lambda>r. \<not> held (lcd_state.kern s) r) lcd_names"
    using assms(1) by (simp_all add: lcd_fresh_def)
  show ?thesis unfolding s'_def[symmetric]
    using assms(2) f
    by (cases "lcd_state.kern s"; cases "ref_cnt (lcd_state.kern s) = 0")
      (auto simp: uc1698fb_module_cleanup_def k(2-4) a k(1) lcd_mid_fields lcd_names_def proc_ok_def
        request_def release_def hnos_proc_mkdir_def hnos_proc_rmdir_def fun_eq_iff)
qed

lemma kb_loaded:
  assumes "kb_fresh k" "result_of (kb_module_init e) k = Inr ()" "kb_env.ok_class e"
  defines "k1 \<equiv> exec (kb_module_init e) k"
  shows "proc_ok k1" "blt k1 = blt k" "ref_cnt k1 = ref_cnt k + 1" "list_all (\<lambda>r. held k1 r = held k r) lcd_names"
  using assms(1,3) kb_init_success[OF assms(1,2)] unfolding kb_fresh_def proc_ok_def k1_def
  by (cases "ref_cnt k = 0"; auto simp: kb_init_defs lcd_names_def)+

lemma kb_unload:
  assumes "kb_fresh k" "result_of (kb_module_init e) k = Inr ()" "kb_env.ok_class e"
    and "kb_env.ok_node e" "kb_env.ok_cdev e" "ok_debug e"
  shows "let k2 = exec kb_module_cleanup ((exec (kb_module_init e) k)\<lparr>bogus := b\<rparr>) in
     held k2 = held k \<and> bogus k2 = b \<and> ref_cnt k2 = ref_cnt k"
  using assms kb_init_success[OF assms(1,2)] unfolding kb_fresh_def proc_ok_def
  by (cases "ref_cnt k = 0") (auto simp: kb_init_defs Let_def fun_eq_iff)

text \<open>C15. Loading and unloading two drivers.  The keyboard and the display driver share the proc directory
  and the backlight routine.  Loaded in this order on a board where every request succeeds, both start; two
  users hold the directory; and unloading them in the opposite order gives back every resource and
  the directory.  The only false step is the display driver's release of a memory region it does not hold.\<close>

theorem load_unload:
  assumes "lcd_fresh s" "kb_fresh (lcd_state.kern s)" "\<not> blt (lcd_state.kern s)"
    "result_of (kb_module_init e) (lcd_state.kern s) = Inr ()"
    "kb_env.ok_class e" "kb_env.ok_node e" "kb_env.ok_cdev e" "ok_debug e"
  defines "s1 \<equiv> exec (Lcd.on_kern (kb_module_init e)) s"
  defines "s2 \<equiv> exec (uc1698fb_module_init lcd_all_ok) s1"
  defines "s4 \<equiv> exec (Lcd.on_kern kb_module_cleanup) (exec uc1698fb_module_cleanup s2)"
  shows "result_of (uc1698fb_module_init lcd_all_ok) s1 = Inr ()
    \<and> ref_cnt (lcd_state.kern s2) = ref_cnt (lcd_state.kern s) + 2
    \<and> held (lcd_state.kern s4) = held (lcd_state.kern s) \<and> ref_cnt (lcd_state.kern s4) = ref_cnt (lcd_state.kern s)
    \<and> bogus (lcd_state.kern s4) = bogus (lcd_state.kern s1) @ [Region ''uc1698fb'']"
proof -
  let ?k = "lcd_state.kern s"
  have k1: "lcd_state.kern s1 = exec (kb_module_init e) ?k" by (simp add: s1_def)
  note l = kb_loaded[OF assms(2,4,5), folded k1]
  have f: "lcd_fresh s1" "\<not> blt (lcd_state.kern s1)"
    using assms(1,3) l by (simp_all add: lcd_fresh_def s1_def lcd_names_def)
  have "lcd_state.kern (exec uc1698fb_module_cleanup s2) = (lcd_state.kern s1)\<lparr>bogus := bogus (lcd_state.kern s1) @ [Region ''uc1698fb'']\<rparr>"
    unfolding s2_def by (rule lcd_unload_kern[OF f])
  then have "lcd_state.kern s4 = exec kb_module_cleanup ((exec (kb_module_init e) ?k)\<lparr>bogus := bogus (lcd_state.kern s1) @ [Region ''uc1698fb'']\<rparr>)"
    by (simp add: s4_def k1)
  moreover have "ref_cnt (lcd_state.kern s2) = ref_cnt ?k + 2"
    unfolding s2_def lcd_init_kern(1)[OF f] by (simp add: mkdir_fields lcd_mid_fields l(3))
  ultimately show ?thesis
    using kb_unload[OF assms(2,4-8), of "bogus (lcd_state.kern s1) @ [Region ''uc1698fb'']"]
    by (simp add: Let_def lcd_init_result[OF f])
qed

theorem load_unload_witness:
  "held (lcd_state.kern (exec (Lcd.on_kern kb_module_cleanup) (exec uc1698fb_module_cleanup
     (exec (uc1698fb_module_init lcd_all_ok) (exec (Lcd.on_kern (kb_module_init kb_all_ok)) lcd_boot))))) = (\<lambda>_. False)"
proof -
  have k: "lcd_state.kern lcd_boot = kbd0" by (simp add: lcd_boot_def lcd_demo_def)
  have r: "result_of (kb_module_init kb_all_ok) kbd0 = Inr ()"
    by (simp add: kb_init_defs kb_all_ok_def kbd0_def)
  have "held kbd0 = (\<lambda>_. False)" by (simp add: kbd0_def)
  with load_unload[OF lcd_boot_fresh(1), of kb_all_ok, unfolded k, OF kbd0_fresh _ r]
  show ?thesis by (simp add: kb_all_ok_def k) (simp add: kbd0_def)
qed

end
